(* ===== verification/Prelude.thy ===== *)
theory Prelude
  imports Main "HOL-Library.Word"
begin

section \<open>Prelude: results, C strings and shared lemmas\<close>

text \<open>
  What the component theories share: the ways a C++ operation can fail to return, the
  result type that carries them, C strings, and generic lemmas on lists.

  An operation that can leave by an exception, by a failed \<open>RAPIDJSON_ASSERT\<close>, by
  undefined behaviour or by waiting for ever has a result of type \<open>'a result\<close>, so
  each of these is a value of the model.
\<close>

named_theorems result_simps \<open>evaluation of results and of sequencing\<close>
named_theorems guard_simps \<open>definitions of guards and accessors, unfolded in component proofs\<close>

datatype failure =
    Assert_Failure        \<comment> \<open>\<open>RAPIDJSON_ASSERT\<close> fails: the process aborts\<close>
  | Invalid_Argument      \<comment> \<open>\<open>std::invalid_argument\<close> is thrown\<close>
  | Out_Of_Range          \<comment> \<open>\<open>std::out_of_range\<close> is thrown\<close>
  | Other_Exception       \<comment> \<open>another exception derived from \<open>std::exception\<close>\<close>
  | Net_Exception         \<comment> \<open>\<open>websocketpp::exception\<close>: the connection is not open\<close>
  | Undefined_Behaviour   \<comment> \<open>a dangling pointer or an out-of-bounds access\<close>
  | Terminate             \<comment> \<open>\<open>std::terminate\<close>: a joinable thread is destroyed\<close>
  | Blocked               \<comment> \<open>a wait without a timeout that nothing ends\<close>

type_synonym 'a result = "failure + 'a"

type_synonym byte = "8 word"
type_synonym uint4 = "32 word"

fun bind_result :: "'a result \<Rightarrow> ('a \<Rightarrow> 'b result) \<Rightarrow> 'b result" where
  "bind_result (Inl e) f = Inl e"
| "bind_result (Inr x) f = f x"

declare bind_result.simps [result_simps]

lemma bind_result_assoc:
  "bind_result (bind_result r f) g = bind_result r (\<lambda>x. bind_result (f x) g)"
  by (cases r) simp_all

lemma bind_result_Inr [result_simps]: "bind_result r Inr = r"
  by (cases r) simp_all

lemma bind_result_eq_Inr:
  "bind_result r f = Inr y \<longleftrightarrow> (\<exists>x. r = Inr x \<and> f x = Inr y)"
  by (cases r) auto

lemma bind_result_cong [fundef_cong]:
  "r = r' \<Longrightarrow> (\<And>x. r' = Inr x \<Longrightarrow> f x = g x) \<Longrightarrow> bind_result r f = bind_result r' g"
  by (cases r') auto

subsection \<open>Operations on a state\<close>

text \<open>
  An operation that changes a state: it returns or fails, and what it did before it
  failed stays done. \<open>try_catch\<close> is \<open>try ... catch (...)\<close>: it sees C++ exceptions, not
  a process that is gone or a wait that never ends.
\<close>

type_synonym ('s, 'a) prog = "'s \<Rightarrow> 'a result \<times> 's"

definition ret :: "'a \<Rightarrow> ('s, 'a) prog" where
  "ret x s = (Inr x, s)"

definition raise :: "failure \<Rightarrow> ('s, 'a) prog" where
  "raise e s = (Inl e, s)"

definition modify :: "('s \<Rightarrow> 's) \<Rightarrow> ('s, unit) prog" where
  "modify f s = (Inr (), f s)"

definition gets :: "('s \<Rightarrow> 'a) \<Rightarrow> ('s, 'a) prog" where
  "gets f s = (Inr (f s), s)"

definition lift_result :: "'a result \<Rightarrow> ('s, 'a) prog" where
  "lift_result r s = (r, s)"

definition and_then :: "('s, 'a) prog \<Rightarrow> ('a \<Rightarrow> ('s, 'b) prog) \<Rightarrow> ('s, 'b) prog" where
  "and_then m f s = (case m s of (Inl e, s') \<Rightarrow> (Inl e, s') | (Inr x, s') \<Rightarrow> f x s')"

fun is_exception :: "failure \<Rightarrow> bool" where
  "is_exception Invalid_Argument = True"
| "is_exception Out_Of_Range = True"
| "is_exception Other_Exception = True"
| "is_exception Net_Exception = True"
| "is_exception Assert_Failure = False"
| "is_exception Undefined_Behaviour = False"
| "is_exception Terminate = False"
| "is_exception Blocked = False"

definition try_catch :: "('s, 'a) prog \<Rightarrow> ('s, 'a) prog \<Rightarrow> ('s, 'a) prog" where
  "try_catch m handler s =
     (case m s of (Inl e, s') \<Rightarrow> if is_exception e then handler s' else (Inl e, s') | r \<Rightarrow> r)"

lemmas prog_defs [result_simps] = ret_def raise_def modify_def gets_def lift_result_def and_then_def

lemma and_then_cases:
  obtains (failed) e s' where "m s = (Inl e, s')" "and_then m f s = (Inl e, s')"
  | (returned) x s' where "m s = (Inr x, s')" "and_then m f s = f x s'"
  by (cases "m s"; cases "fst (m s)") (auto simp: and_then_def)

lemma and_then_assoc: "and_then (and_then m f) g = and_then m (\<lambda>x. and_then (f x) g)"
  by (auto simp: and_then_def fun_eq_iff split: prod.splits sum.splits)

text \<open>
  A relation that every operation keeps between the state before and the state after. It
  is closed under the ways operations are composed, whether they return or fail.
\<close>

definition keeps :: "('s \<Rightarrow> 's \<Rightarrow> bool) \<Rightarrow> ('s, 'a) prog \<Rightarrow> bool" where
  "keeps R m \<longleftrightarrow> (\<forall>s. R s (snd (m s)))"

lemma keepsD: "keeps R m \<Longrightarrow> R s (snd (m s))"
  by (simp add: keeps_def)

locale kept =
  fixes R :: "'s \<Rightarrow> 's \<Rightarrow> bool"
  assumes refl_R: "R s s"
    and trans_R: "R s t \<Longrightarrow> R t u \<Longrightarrow> R s u"
begin

lemma keeps_ret: "keeps R (ret x)"
  by (simp add: keeps_def ret_def refl_R)

lemma keeps_raise: "keeps R (raise e)"
  by (simp add: keeps_def raise_def refl_R)

lemma keeps_gets: "keeps R (gets f)"
  by (simp add: keeps_def gets_def refl_R)

lemma keeps_lift_result: "keeps R (lift_result r)"
  by (simp add: keeps_def lift_result_def refl_R)

lemma keeps_modify: "(\<And>s. R s (f s)) \<Longrightarrow> keeps R (modify f)"
  by (simp add: keeps_def modify_def)

lemma keeps_and_then:
  assumes m: "keeps R m" and f: "\<And>x. keeps R (f x)"
  shows "keeps R (and_then m f)"
  unfolding keeps_def
proof
  fix s
  show "R s (snd (and_then m f s))"
  proof (cases rule: and_then_cases[of m s f])
    case (failed e s')
    with m show ?thesis unfolding keeps_def by (metis snd_conv)
  next
    case (returned x s')
    with m have "R s s'" unfolding keeps_def by (metis snd_conv)
    moreover have "R s' (snd (f x s'))" using f unfolding keeps_def by simp
    ultimately show ?thesis using returned trans_R by simp
  qed
qed

lemma keeps_try_catch:
  assumes m: "keeps R m" and h: "keeps R h"
  shows "keeps R (try_catch m h)"
  unfolding keeps_def
proof
  fix s
  have "R s (snd (m s))" using m by (simp add: keeps_def)
  moreover have "R (snd (m s)) (snd (h (snd (m s))))" using h by (simp add: keeps_def)
  ultimately show "R s (snd (try_catch m h s))"
    by (auto simp: try_catch_def split: prod.splits sum.splits intro: trans_R)
qed

lemma keeps_if: "keeps R m \<Longrightarrow> keeps R m' \<Longrightarrow> keeps R (if b then m else m')"
  by simp

lemma keeps_option: "keeps R n \<Longrightarrow> (\<And>x. keeps R (f x)) \<Longrightarrow> keeps R (case x of None \<Rightarrow> n | Some y \<Rightarrow> f y)"
  by (cases x) simp_all

lemma keeps_prod: "(\<And>a b. keeps R (f a b)) \<Longrightarrow> keeps R (case x of (a, b) \<Rightarrow> f a b)"
  by (cases x) simp

lemmas keeps_intros =
  keeps_ret keeps_raise keeps_gets keeps_lift_result keeps_and_then keeps_try_catch
  keeps_if keeps_option keeps_prod

end

subsection \<open>C strings\<close>

text \<open>
  Strings are byte strings. \<open>cstr s\<close> is what a \<open>const char*\<close> into \<open>s\<close> denotes: the
  bytes before the first NUL.
\<close>

definition cstr :: "string \<Rightarrow> string" where
  "cstr s = takeWhile (\<lambda>c. c \<noteq> CHR 0x00) s"

definition no_nul :: "string \<Rightarrow> bool" where
  "no_nul s \<longleftrightarrow> CHR 0x00 \<notin> set s"

lemma cstr_no_nul [simp]: "no_nul s \<Longrightarrow> cstr s = s"
  by (auto simp: cstr_def no_nul_def takeWhile_eq_all_conv)

lemma no_nul_cstr [simp]: "no_nul (cstr s)"
  unfolding no_nul_def cstr_def using set_takeWhileD by fastforce

lemma cstr_idem [simp]: "cstr (cstr s) = cstr s"
  by simp

lemma no_nul_simps [simp]:
  "no_nul []" "no_nul (c # s) \<longleftrightarrow> c \<noteq> CHR 0x00 \<and> no_nul s"
  "no_nul (s @ t) \<longleftrightarrow> no_nul s \<and> no_nul t"
  by (auto simp: no_nul_def)

lemma no_nul_concat: "(\<And>s. s \<in> set ss \<Longrightarrow> no_nul s) \<Longrightarrow> no_nul (concat ss)"
  by (auto simp: no_nul_def)

text \<open>The frames of the protocol quote with single quotes.\<close>

abbreviation quote :: char where
  "quote \<equiv> CHR 0x27"

definition quoted :: "string \<Rightarrow> string" where
  "quoted s = [quote] @ s @ [quote]"

abbreviation code_of :: "char \<Rightarrow> nat" where
  "code_of c \<equiv> of_char c"

lemma code_of_less [simp]: "code_of c < 256"
  using nat_of_char_less_256 by simp

lemma char_of_code_of [simp]: "char_of (code_of c) = c"
  by simp

lemma code_of_char_of: "n < 256 \<Longrightarrow> code_of (char_of n) = n"
  by simp

lemma code_of_eq_iff: "code_of c = code_of d \<longleftrightarrow> c = d"
  by simp

subsection \<open>Lists\<close>

lemma takeWhile_append_all:
  "(\<And>x. x \<in> set xs \<Longrightarrow> P x) \<Longrightarrow> takeWhile P (xs @ ys) = xs @ takeWhile P ys"
  by (induction xs) auto

lemma dropWhile_append_all:
  "(\<And>x. x \<in> set xs \<Longrightarrow> P x) \<Longrightarrow> dropWhile P (xs @ ys) = dropWhile P ys"
  by (induction xs) auto

lemma nth_list_update_mod:
  "i < length xs \<Longrightarrow> xs[i := x] ! j = (if i = j then x else xs ! j)"
  by auto

text \<open>The slot of a ring of \<open>n\<close> that lies \<open>k\<close> places before the next write position \<open>i\<close>.\<close>

definition ring_slot :: "nat \<Rightarrow> nat \<Rightarrow> nat \<Rightarrow> nat" where
  "ring_slot n i k = (i + n - 1 - k) mod n"

lemma ring_slot_less [simp]: "0 < n \<Longrightarrow> ring_slot n i k < n"
  by (simp add: ring_slot_def)

lemma ring_slot_inj:
  assumes "0 < n" "j < n" "k < n" "ring_slot n i j = ring_slot n i k"
  shows "j = k"
proof -
  have *: "j = k" if le: "j \<le> k" and k: "k < n"
      and eq: "(i + n - 1 - j) mod n = (i + n - 1 - k) mod n" for j k
  proof -
    have "i + n - 1 - k \<le> i + n - 1 - j" using le by arith
    with eq have "n dvd (i + n - 1 - j) - (i + n - 1 - k)"
      by (simp only: mod_eq_dvd_iff_nat)
    moreover have "(i + n - 1 - j) - (i + n - 1 - k) = k - j" using le k by arith
    ultimately have "n dvd k - j" by metis
    moreover have "k - j < n" using k by arith
    ultimately have "k - j = 0" by (metis dvd_imp_le neq0_conv not_less)
    with le show ?thesis by simp
  qed
  from assms show ?thesis
    unfolding ring_slot_def using *[of j k] *[of k j] by (metis nle_le)
qed

lemma ring_slot_zero: "0 < n \<Longrightarrow> i < n \<Longrightarrow> ring_slot n ((i + 1) mod n) 0 = i"
proof -
  assume n: "0 < n" and i: "i < n"
  show ?thesis
  proof (cases "i + 1 = n")
    case True
    then show ?thesis by (simp add: ring_slot_def)
  next
    case False
    with i have "i + 1 < n" by simp
    then have "(i + 1) mod n + n - 1 - 0 = i + n" by simp
    then show ?thesis using i by (simp add: ring_slot_def)
  qed
qed

lemma ring_slot_Suc:
  assumes "0 < n" "i < n" "Suc k < n"
  shows "ring_slot n ((i + 1) mod n) (Suc k) = ring_slot n i k"
proof (cases "i + 1 = n")
  case True
  then have "i + n - 1 - k = (n - 1 - Suc k) + n" using assms by simp
  moreover have "(i + 1) mod n + n - 1 - Suc k = n - 1 - Suc k" using True by simp
  ultimately show ?thesis by (simp add: ring_slot_def)
next
  case False
  with assms have "i + 1 < n" by simp
  then have "(i + 1) mod n + n - 1 - Suc k = i + n - 1 - k" by simp
  then show ?thesis by (simp add: ring_slot_def)
qed

lemma ring_slot_last: "0 < n \<Longrightarrow> i < n \<Longrightarrow> ring_slot n i (n - 1) = i"
  by (simp add: ring_slot_def)

lemma ring_slot_neq:
  assumes "i < n" "k < n - 1"
  shows "ring_slot n i k \<noteq> i"
proof
  assume "ring_slot n i k = i"
  then have "ring_slot n i k = ring_slot n i (n - 1)" using ring_slot_last assms by simp
  then have "k = n - 1" using ring_slot_inj[of n k "n - 1" i] assms by linarith
  with assms show False by simp
qed

text \<open>Values of type \<open>size_t\<close> computed with differences wrap around at \<open>2 ^ 64\<close>.\<close>

definition size_t :: "int \<Rightarrow> nat" where
  "size_t i = nat (i mod 2 ^ 64)"

lemma size_t_id: "0 \<le> i \<Longrightarrow> i < 2 ^ 64 \<Longrightarrow> size_t i = nat i"
  by (simp add: size_t_def)

text \<open>\<open>memcpy\<close> of \<open>src\<close> into \<open>buf\<close> at \<open>index\<close>.\<close>

definition memcpy_at :: "byte list \<Rightarrow> nat \<Rightarrow> byte list \<Rightarrow> byte list" where
  "memcpy_at buf index src = take index buf @ src @ drop (index + length src) buf"

lemma length_memcpy_at [simp]:
  "index + length src \<le> length buf \<Longrightarrow> length (memcpy_at buf index src) = length buf"
  by (simp add: memcpy_at_def)

lemma take_memcpy_at:
  "index \<le> length buf \<Longrightarrow> take (index + length src) (memcpy_at buf index src) = take index buf @ src"
  by (simp add: memcpy_at_def)

end
