(* ===== verification/Queues.thy ===== *)
theory Queues
  imports Prelude "HOL-Library.Multiset"
begin

section \<open>util/queue.h: the blocking queue between threads\<close>

text \<open>
  \<open>Queue<T>\<close> wraps a \<open>std::queue\<close> with a mutex and a condition variable; every method
  runs under the mutex, so each is taken for one step on the list of waiting items (the next
  item to leave first); \<open>Queue_Threads\<close> takes the methods apart and justifies this. A wait that ends does so with the queue not empty
  (the predicate of \<open>cond_.wait\<close>) or, with a timeout, when the time is over.
\<close>

definition queue_push :: "'a \<Rightarrow> 'a list \<Rightarrow> 'a list" where
  "queue_push item q = q @ [item]"

definition queue_size :: "'a list \<Rightarrow> nat" where
  "queue_size q = length q"

text \<open>\<open>front\<close> and \<open>pop\<close> of a queue that is not empty: what every kind of \<open>pop\<close> does
  once it may proceed. \<open>None\<close> says it may not.\<close>

fun queue_take :: "'a list \<Rightarrow> ('a \<times> 'a list) option" where
  "queue_take [] = None"
| "queue_take (x # q) = Some (x, q)"

definition queue_pop_nonblock :: "'a list \<Rightarrow> 'a option \<times> 'a list" where
  "queue_pop_nonblock q =
     (case queue_take q of Some (x, q') \<Rightarrow> (Some x, q') | None \<Rightarrow> (None, q))"

text \<open>
  The two waiting pops, run against what the other threads do meanwhile: a list of items
  pushed one after the other, and for the timed pop the moment \<open>None\<close> at which the
  time is over. The waiting pop takes the first item there is; what is pushed later stays
  in the list of things to come, the last component.
\<close>

fun queue_pop_wait :: "'a list \<Rightarrow> 'a list \<Rightarrow> ('a \<times> 'a list \<times> 'a list) result" where
  "queue_pop_wait (x # q) coming = Inr (x, q, coming)"
| "queue_pop_wait [] [] = Inl Blocked"
| "queue_pop_wait [] (y # coming) = queue_pop_wait (queue_push y []) coming"

fun queue_pop_timed :: "'a list \<Rightarrow> 'a option list \<Rightarrow> 'a option \<times> 'a list \<times> 'a option list" where
  "queue_pop_timed (x # q) coming = (Some x, q, coming)"
| "queue_pop_timed [] [] = (None, [], [])"
| "queue_pop_timed [] (None # coming) = (None, [], coming)"
| "queue_pop_timed [] (Some y # coming) = queue_pop_timed (queue_push y []) coming"

subsection \<open>The contract: first in, first out\<close>

locale fifo =
  fixes push :: "'a \<Rightarrow> 'q \<Rightarrow> 'q"
    and take_front :: "'q \<Rightarrow> ('a \<times> 'q) option"
    and contents :: "'q \<Rightarrow> 'a list"
  assumes contents_push: "contents (push x q) = contents q @ [x]"
    and take_None: "take_front q = None \<longleftrightarrow> contents q = []"
    and take_Some: "take_front q = Some (x, q') \<Longrightarrow> contents q = x # contents q'"
begin

lemma take_frontE:
  assumes "contents q \<noteq> []"
  obtains x q' where "take_front q = Some (x, q')" "contents q = x # contents q'"
  using assms take_None[of q] take_Some[of q] by (cases "take_front q") auto

lemma contents_push_all: "contents (fold push xs q) = contents q @ xs"
  by (induction xs arbitrary: q) (simp_all add: contents_push)

text \<open>Taking \<open>n\<close> items one after the other.\<close>

fun take_many :: "nat \<Rightarrow> 'q \<Rightarrow> ('a list \<times> 'q) option" where
  "take_many 0 q = Some ([], q)"
| "take_many (Suc n) q =
     (case take_front q of None \<Rightarrow> None
      | Some (x, q') \<Rightarrow> map_option (apfst (Cons x)) (take_many n q'))"

lemma take_many_contents:
  "n \<le> length (contents q) \<Longrightarrow>
     \<exists>q'. take_many n q = Some (take n (contents q), q') \<and> contents q' = drop n (contents q)"
proof (induction n arbitrary: q)
  case (Suc n)
  then have "contents q \<noteq> []" by auto
  then obtain x q' where q': "take_front q = Some (x, q')" "contents q = x # contents q'"
    by (rule take_frontE)
  with Suc obtain q'' where "take_many n q' = Some (take n (contents q'), q'')"
    "contents q'' = drop n (contents q')" by fastforce
  with q' show ?case by simp
qed simp

text \<open>Items leave an empty queue in the order in which they entered.\<close>

lemma fifo_order:
  assumes "contents q = []"
  shows "\<exists>q'. take_many (length xs) (fold push xs q) = Some (xs, q') \<and> contents q' = []"
  using take_many_contents[of "length xs" "fold push xs q"] assms by (simp add: contents_push_all)

end

interpretation queue: fifo queue_push queue_take "\<lambda>q. q"
proof (unfold_locales, goal_cases)
  case (2 q)
  then show ?case by (cases q) auto
next
  case (3 q x q')
  then show ?case by (cases q) auto
qed (simp add: queue_push_def)

lemma queue_pop_wait_Blocked: "queue_pop_wait q coming = Inl e \<longleftrightarrow> e = Blocked \<and> q = [] \<and> coming = []"
  by (cases "(q, coming)" rule: queue_pop_wait.cases) (auto simp: queue_push_def)

lemma queue_pop_wait_first:
  "q @ coming = x # rest \<Longrightarrow> \<exists>q' c'. queue_pop_wait q coming = Inr (x, q', c') \<and> q' @ c' = rest"
  by (cases "(q, coming)" rule: queue_pop_wait.cases) (auto simp: queue_push_def)

end
