(* ===== verification/Clib.thy ===== *)
theory Clib
  imports Prelude
begin

section \<open>The C and C++ library functions the program calls on strings and integers\<close>

text \<open>
  \<open><cctype>\<close> in the "C" locale, \<open>std::to_string\<close> on integers, \<open>std::stoi\<close> and
  \<open>std::stoll\<close> (that is \<open>strtol\<close> and \<open>strtoll\<close> in base 10 with the range checks of
  the C++ wrappers), \<open>"%02x"\<close> and the search of a byte in a string.
\<close>

subsection \<open>Character classes\<close>

definition isdigit :: "char \<Rightarrow> bool" where
  "isdigit c \<longleftrightarrow> 48 \<le> code_of c \<and> code_of c \<le> 57"

definition isupper :: "char \<Rightarrow> bool" where
  "isupper c \<longleftrightarrow> 65 \<le> code_of c \<and> code_of c \<le> 90"

definition islower :: "char \<Rightarrow> bool" where
  "islower c \<longleftrightarrow> 97 \<le> code_of c \<and> code_of c \<le> 122"

definition isalnum :: "char \<Rightarrow> bool" where
  "isalnum c \<longleftrightarrow> isdigit c \<or> isupper c \<or> islower c"

definition isspace :: "char \<Rightarrow> bool" where
  "isspace c \<longleftrightarrow> code_of c = 32 \<or> (9 \<le> code_of c \<and> code_of c \<le> 13)"

definition toupper :: "char \<Rightarrow> char" where
  "toupper c = (if islower c then char_of (code_of c - 32) else c)"

definition tolower :: "char \<Rightarrow> char" where
  "tolower c = (if isupper c then char_of (code_of c + 32) else c)"

lemmas ctype_defs = isdigit_def isupper_def islower_def isalnum_def isspace_def

subsection \<open>Decimal numbers\<close>

definition digit_char :: "nat \<Rightarrow> char" where
  "digit_char d = char_of (48 + d)"

definition digit_val :: "char \<Rightarrow> nat" where
  "digit_val c = code_of c - 48"

fun nat_to_string :: "nat \<Rightarrow> string" where
  "nat_to_string n =
     (if n < 10 then [digit_char n]
      else nat_to_string (n div 10) @ [digit_char (n mod 10)])"

declare nat_to_string.simps [simp del]

definition int_to_string :: "int \<Rightarrow> string" where
  "int_to_string i =
     (if i < 0 then CHR ''-'' # nat_to_string (nat (- i)) else nat_to_string (nat i))"

definition digits_value :: "string \<Rightarrow> nat" where
  "digits_value ds = foldl (\<lambda>v c. 10 * v + digit_val c) 0 ds"

text \<open>\<open>strtol\<close> with base 10: blanks, an optional sign, digits; \<open>None\<close> when there is no digit.\<close>

definition split_sign :: "string \<Rightarrow> bool \<times> string" where
  "split_sign s =
     (case s of
        [] \<Rightarrow> (False, [])
      | c # r \<Rightarrow> if c = CHR ''-'' then (True, r)
                 else if c = CHR ''+'' then (False, r) else (False, s))"

definition strtol10 :: "string \<Rightarrow> int option" where
  "strtol10 s =
     (let (neg, r) = split_sign (dropWhile isspace s);
          ds = takeWhile isdigit r;
          v = int (digits_value ds)
      in if ds = [] then None else Some (if neg then - v else v))"

definition int32_range :: "int \<Rightarrow> bool" where
  "int32_range i \<longleftrightarrow> - (2 ^ 31) \<le> i \<and> i < 2 ^ 31"

definition int64_range :: "int \<Rightarrow> bool" where
  "int64_range i \<longleftrightarrow> - (2 ^ 63) \<le> i \<and> i < 2 ^ 63"

definition sto_range :: "(int \<Rightarrow> bool) \<Rightarrow> string \<Rightarrow> int result" where
  "sto_range in_range s =
     (case strtol10 (cstr s) of
        None \<Rightarrow> Inl Invalid_Argument
      | Some v \<Rightarrow> if in_range v then Inr v else Inl Out_Of_Range)"

definition stoi :: "string \<Rightarrow> int result" where
  "stoi = sto_range int32_range"

definition stoll :: "string \<Rightarrow> int result" where
  "stoll = sto_range int64_range"

subsection \<open>Hexadecimal bytes\<close>

definition hex_digit :: "nat \<Rightarrow> char" where
  "hex_digit d = (if d < 10 then char_of (48 + d) else char_of (87 + d))"

text \<open>\<open>sprintf(buf, "%02x", b)\<close> for an \<open>unsigned char\<close>.\<close>

definition hex2 :: "byte \<Rightarrow> string" where
  "hex2 b = [hex_digit (unat b div 16), hex_digit (unat b mod 16)]"

subsection \<open>Facts\<close>

lemma code_of_digit_char: "d < 10 \<Longrightarrow> code_of (digit_char d) = 48 + d"
  by (simp add: digit_char_def)

lemma isdigit_digit_char [simp]: "d < 10 \<Longrightarrow> isdigit (digit_char d)"
  by (simp add: isdigit_def code_of_digit_char)

lemma digit_val_digit_char [simp]: "d < 10 \<Longrightarrow> digit_val (digit_char d) = d"
  by (simp add: digit_val_def code_of_digit_char)

lemma digit_val_less: "isdigit c \<Longrightarrow> digit_val c < 10"
  by (auto simp: isdigit_def digit_val_def)

lemma nat_to_string_not_Nil [simp]: "nat_to_string n \<noteq> []"
  by (subst nat_to_string.simps) simp

lemma nat_to_string_digits: "c \<in> set (nat_to_string n) \<Longrightarrow> isdigit c"
proof (induction n rule: nat_to_string.induct)
  case (1 n)
  then show ?case by (subst (asm) (2) nat_to_string.simps) (auto split: if_splits)
qed

lemma digits_value_snoc [simp]: "digits_value (ds @ [c]) = 10 * digits_value ds + digit_val c"
  by (simp add: digits_value_def)

lemma digits_value_nat_to_string [simp]: "digits_value (nat_to_string n) = n"
proof (induction n rule: nat_to_string.induct)
  case (1 n)
  show ?case
  proof (cases "n < 10")
    case True
    then show ?thesis by (subst nat_to_string.simps) (simp add: digits_value_def)
  next
    case False
    with 1 show ?thesis by (subst nat_to_string.simps) simp
  qed
qed

lemma digit_not_sign: "isdigit c \<Longrightarrow> c \<noteq> CHR ''-'' \<and> c \<noteq> CHR ''+'' \<and> \<not> isspace c \<and> c \<noteq> CHR 0x00 \<and> c \<noteq> CHR ''.''"
  by (auto simp: isdigit_def isspace_def)

lemma nat_to_string_no_nul [simp]: "no_nul (nat_to_string n)"
  unfolding no_nul_def using nat_to_string_digits digit_not_sign by blast

lemma int_to_string_no_nul [simp]: "no_nul (int_to_string i)"
  by (simp add: int_to_string_def)

lemma split_sign_digits: "(\<And>c. c \<in> set ds \<Longrightarrow> isdigit c) \<Longrightarrow> split_sign ds = (False, ds)"
  by (cases ds) (auto simp: split_sign_def dest: digit_not_sign)

lemma takeWhile_digits [simp]: "takeWhile isdigit (nat_to_string n) = nat_to_string n"
  using nat_to_string_digits by (simp add: takeWhile_eq_all_conv)

lemma dropWhile_isspace_digits [simp]: "dropWhile isspace (nat_to_string n) = nat_to_string n"
proof (cases "nat_to_string n")
  case (Cons c cs)
  then have "isdigit c" using nat_to_string_digits[of c n] by simp
  with Cons show ?thesis using digit_not_sign by simp
qed simp

lemma strtol10_int_to_string [simp]: "strtol10 (int_to_string i) = Some i"
proof (cases "i < 0")
  case True
  have "\<not> isspace CHR ''-''" by (simp add: isspace_def)
  with True show ?thesis by (simp add: int_to_string_def strtol10_def split_sign_def)
next
  case False
  have "split_sign (nat_to_string (nat i)) = (False, nat_to_string (nat i))"
    using nat_to_string_digits by (rule split_sign_digits)
  with False show ?thesis by (simp add: int_to_string_def strtol10_def)
qed

lemma stoi_int_to_string: "int32_range i \<Longrightarrow> stoi (int_to_string i) = Inr i"
  by (simp add: stoi_def sto_range_def)

lemma stoll_int_to_string: "int64_range i \<Longrightarrow> stoll (int_to_string i) = Inr i"
  by (simp add: stoll_def sto_range_def)

lemma sto_range_in_range: "sto_range R s = Inr v \<Longrightarrow> R v"
  by (auto simp: sto_range_def split: option.splits if_splits)

lemma length_hex2 [simp]: "length (hex2 b) = 2"
  by (simp add: hex2_def)

end
