(* ===== verification/Doubles.thy ===== *)
theory Doubles
  imports Complex_Main Clib
begin

section \<open>IEEE 754 doubles\<close>

text \<open>
  The program computes prices, amounts and indicators in \<open>double\<close>. A double is a NaN,
  an infinity with its sign, or a finite value: a sign and the magnitude as a rational.
  Arithmetic is the exact rational result rounded to nearest, ties to even, with 53 bits
  of precision, gradual underflow below \<open>2 ^ (-1022)\<close> and overflow to infinity; the
  special cases are those of the standard. NaN payloads and the sign of a NaN are not
  represented. The last part models the conversions the code calls:
  \<open>std::to_string(double)\<close> and \<open>"%.*f"\<close>, \<open>std::stod\<close>, and integer to double.
\<close>

datatype double =
    NaN
  | Infinity bool      \<comment> \<open>the sign: \<open>True\<close> is negative\<close>
  | Finite bool rat    \<comment> \<open>the sign and the magnitude\<close>

definition pow2 :: "int \<Rightarrow> rat" where
  "pow2 e = (if 0 \<le> e then 2 ^ nat e else 1 / 2 ^ nat (- e))"

fun bit_length :: "int \<Rightarrow> int" where
  "bit_length n = (if n \<le> 0 then 0 else 1 + bit_length (n div 2))"

declare bit_length.simps [simp del]

text \<open>\<open>ilog2 m\<close> is the exponent of the leading bit of a positive \<open>m\<close>.\<close>

definition ilog2 :: "rat \<Rightarrow> int" where
  "ilog2 m =
     (if 1 \<le> m then bit_length \<lfloor>m\<rfloor> - 1 else - bit_length (\<lceil>1 / m\<rceil> - 1))"

definition round_even :: "rat \<Rightarrow> int" where
  "round_even x =
     (let f = \<lfloor>x\<rfloor>; d = x - of_int f
      in if d < 1 / 2 then f
         else if 1 / 2 < d then f + 1
         else if even f then f else f + 1)"

definition quantum :: "rat \<Rightarrow> rat" where
  "quantum m = pow2 (max (- 1074) (ilog2 m - 52))"

definition round_magnitude :: "rat \<Rightarrow> rat" where
  "round_magnitude m =
     (if m = 0 then 0 else of_int (round_even (m / quantum m)) * quantum m)"

definition max_magnitude :: rat where
  "max_magnitude = 2 ^ 1024"

definition make_double :: "bool \<Rightarrow> rat \<Rightarrow> double" where
  "make_double neg m =
     (let r = round_magnitude m in if max_magnitude \<le> r then Infinity neg else Finite neg r)"

definition double_value :: "bool \<Rightarrow> rat \<Rightarrow> rat" where
  "double_value neg m = (if neg then - m else m)"

text \<open>Rounding a signed exact result; an exact zero takes the sign \<open>zneg\<close>.\<close>

definition round_double :: "bool \<Rightarrow> rat \<Rightarrow> double" where
  "round_double zneg x =
     (if x = 0 then Finite zneg 0 else make_double (x < 0) \<bar>x\<bar>)"

subsection \<open>Arithmetic\<close>

fun dneg :: "double \<Rightarrow> double" where
  "dneg NaN = NaN"
| "dneg (Infinity s) = Infinity (\<not> s)"
| "dneg (Finite s m) = Finite (\<not> s) m"

fun dadd :: "double \<Rightarrow> double \<Rightarrow> double" where
  "dadd NaN _ = NaN"
| "dadd _ NaN = NaN"
| "dadd (Infinity s) (Infinity t) = (if s = t then Infinity s else NaN)"
| "dadd (Infinity s) (Finite _ _) = Infinity s"
| "dadd (Finite _ _) (Infinity t) = Infinity t"
| "dadd (Finite s m) (Finite t n) =
     round_double (s \<and> t) (double_value s m + double_value t n)"

definition dsub :: "double \<Rightarrow> double \<Rightarrow> double" where
  "dsub a b = dadd a (dneg b)"

fun dmul :: "double \<Rightarrow> double \<Rightarrow> double" where
  "dmul NaN _ = NaN"
| "dmul _ NaN = NaN"
| "dmul (Infinity s) (Infinity t) = Infinity (s \<noteq> t)"
| "dmul (Infinity s) (Finite t n) = (if n = 0 then NaN else Infinity (s \<noteq> t))"
| "dmul (Finite s m) (Infinity t) = (if m = 0 then NaN else Infinity (s \<noteq> t))"
| "dmul (Finite s m) (Finite t n) = make_double (s \<noteq> t) (m * n)"

fun ddiv :: "double \<Rightarrow> double \<Rightarrow> double" where
  "ddiv NaN _ = NaN"
| "ddiv _ NaN = NaN"
| "ddiv (Infinity s) (Infinity t) = NaN"
| "ddiv (Infinity s) (Finite t n) = Infinity (s \<noteq> t)"
| "ddiv (Finite s m) (Infinity t) = Finite (s \<noteq> t) 0"
| "ddiv (Finite s m) (Finite t n) =
     (if n = 0 then (if m = 0 then NaN else Infinity (s \<noteq> t))
      else make_double (s \<noteq> t) (m / n))"

definition double_of_int :: "int \<Rightarrow> double" where
  "double_of_int i = round_double False (of_int i)"

definition dzero :: double where
  "dzero = Finite False 0"

subsection \<open>Comparison\<close>

text \<open>A comparison with a NaN is false; the two zeros are equal.\<close>

fun dlt :: "double \<Rightarrow> double \<Rightarrow> bool" where
  "dlt NaN _ = False"
| "dlt _ NaN = False"
| "dlt (Infinity s) (Infinity t) = (s \<and> \<not> t)"
| "dlt (Infinity s) (Finite _ _) = s"
| "dlt (Finite _ _) (Infinity t) = (\<not> t)"
| "dlt (Finite s m) (Finite t n) = (double_value s m < double_value t n)"

abbreviation dgt :: "double \<Rightarrow> double \<Rightarrow> bool" where
  "dgt a b \<equiv> dlt b a"

fun dle :: "double \<Rightarrow> double \<Rightarrow> bool" where
  "dle NaN _ = False"
| "dle _ NaN = False"
| "dle a b = (\<not> dlt b a)"

lemma dlt_irrefl [simp]: "\<not> dlt a a"
  by (cases a) auto

lemma dlt_asym: "dlt a b \<Longrightarrow> \<not> dlt b a"
  by (cases a; cases b) auto

lemma dlt_trans: "dlt a b \<Longrightarrow> dlt b c \<Longrightarrow> dlt a c"
  by (cases a; cases b; cases c) auto

lemma dlt_NaN [simp]: "\<not> dlt NaN b" "\<not> dlt a NaN"
  by (cases a; simp)+

lemma not_dlt_trans: "b \<noteq> NaN \<Longrightarrow> \<not> dlt a b \<Longrightarrow> \<not> dlt b c \<Longrightarrow> \<not> dlt a c"
  by (cases a; cases b; cases c) auto

lemma dle_refl: "dle a a \<longleftrightarrow> a \<noteq> NaN"
  by (cases a) auto

lemma dle_iff: "dle a b \<longleftrightarrow> a \<noteq> NaN \<and> b \<noteq> NaN \<and> \<not> dlt b a"
  by (cases a; cases b) auto

lemma dle_trans: "dle a b \<Longrightarrow> dle b c \<Longrightarrow> dle a c"
  by (auto simp: dle_iff intro: not_dlt_trans dest: not_dlt_trans)

lemma dlt_imp_dle: "dlt a b \<Longrightarrow> dle a b"
  by (auto simp: dle_iff dlt_asym)

lemma dlt_not_dle: "dlt a b \<Longrightarrow> \<not> dle b a"
  by (auto simp: dle_iff)

subsection \<open>Rounding\<close>

lemma pow2_pos [simp]: "0 < pow2 e"
  by (simp add: pow2_def)

lemma quantum_pos [simp]: "0 < quantum m"
  by (simp add: quantum_def)

lemma pow2_nonzero [simp]: "pow2 e \<noteq> 0"
  using pow2_pos[of e] by linarith

lemma quantum_nonzero [simp]: "quantum m \<noteq> 0"
  using quantum_pos[of m] by linarith

lemma pow2_add: "pow2 (a + b) = pow2 a * pow2 b"
proof -
  have *: "pow2 e = 2 powi e" for e
    by (simp add: pow2_def power_int_def inverse_eq_divide power_divide)
  show ?thesis by (simp add: * power_int_add)
qed

lemma pow2_mono: "a \<le> b \<Longrightarrow> pow2 a \<le> pow2 b"
proof -
  assume "a \<le> b"
  then have "1 \<le> pow2 (b - a)" by (simp add: pow2_def)
  moreover have "pow2 b = pow2 a * pow2 (b - a)" by (simp flip: pow2_add)
  ultimately show ?thesis
    using mult_left_mono[of 1 "pow2 (b - a)" "pow2 a"] pow2_pos[of a] by simp
qed

lemma bit_length_nonneg: "0 \<le> bit_length n"
  by (induction n rule: bit_length.induct) (subst bit_length.simps, simp)

lemma bit_length_bounds:
  "0 < n \<Longrightarrow> pow2 (bit_length n - 1) \<le> of_int n \<and> of_int n < pow2 (bit_length n)"
proof (induction n rule: bit_length.induct)
  case (1 n)
  show ?case
  proof (cases "n = 1")
    case True
    then show ?thesis by (simp add: bit_length.simps pow2_def)
  next
    case False
    with "1.prems" have n: "0 < n" "0 < n div 2" by auto
    with 1 have IH: "pow2 (bit_length (n div 2) - 1) \<le> of_int (n div 2)"
      "of_int (n div 2) < pow2 (bit_length (n div 2))" by auto
    let ?b = "bit_length (n div 2)"
    have b: "bit_length n = 1 + ?b" using n by (subst bit_length.simps) simp
    have "0 < ?b" using n(2) bit_length_nonneg[of "n div 2 div 2"]
      by (subst bit_length.simps) simp
    then have p: "pow2 ?b = of_int (2 ^ nat ?b)" "pow2 (?b - 1) = of_int (2 ^ nat (?b - 1))"
      by (simp_all add: pow2_def)
    from IH have ih: "2 ^ nat (?b - 1) \<le> n div 2" "n div 2 < 2 ^ nat ?b"
      unfolding p by (simp_all only: of_int_le_iff of_int_less_iff)
    have e: "(2::int) ^ nat ?b = 2 * 2 ^ nat (?b - 1)"
      using \<open>0 < ?b\<close> by (simp flip: power_Suc add: Suc_nat_eq_nat_zadd1)
    have "2 ^ nat ?b \<le> n" "n < 2 * 2 ^ nat ?b" using ih e by linarith+
    then have "of_int (2 ^ nat ?b) \<le> (of_int n :: rat)" "(of_int n :: rat) < of_int (2 * 2 ^ nat ?b)"
      by (simp_all only: of_int_le_iff of_int_less_iff)
    moreover have "pow2 (1 + ?b) = of_int (2 * 2 ^ nat ?b)"
      using \<open>0 < ?b\<close> by (simp add: pow2_def nat_add_distrib)
    ultimately show ?thesis using b p by simp
  qed
qed

lemma pow2_uminus: "pow2 (- e) = 1 / pow2 e"
  by (simp add: pow2_def)

lemma ilog2_bounds:
  assumes "0 < m"
  shows "pow2 (ilog2 m) \<le> m \<and> m < pow2 (ilog2 m + 1)"
proof (cases "1 \<le> m")
  case True
  let ?f = "\<lfloor>m\<rfloor>"
  have f: "0 < ?f" "of_int ?f \<le> m" "m < of_int (?f + 1)" using True by linarith+
  have b: "pow2 (bit_length ?f - 1) \<le> of_int ?f" "of_int ?f < pow2 (bit_length ?f)"
    using bit_length_bounds[OF f(1)] by auto
  have "pow2 (bit_length ?f) = of_int (2 ^ nat (bit_length ?f))"
    using bit_length_nonneg[of ?f] by (simp add: pow2_def)
  with b(2) have "?f + 1 \<le> 2 ^ nat (bit_length ?f)" by (simp only: of_int_less_iff)
  then have "of_int (?f + 1) \<le> pow2 (bit_length ?f)"
    using \<open>pow2 (bit_length ?f) = _\<close> by (simp only: of_int_le_iff)
  then have "m < pow2 (bit_length ?f)" using f(3) by linarith
  moreover have "pow2 (bit_length ?f - 1) \<le> m" using b(1) f(2) by (rule order_trans)
  ultimately show ?thesis using True by (simp add: ilog2_def)
next
  case False
  let ?c = "\<lceil>1 / m\<rceil> - 1"
  have g: "1 < 1 / m" using False assms by simp
  then have c: "0 < ?c" "of_int ?c < 1 / m" "1 / m \<le> of_int (?c + 1)" by linarith+
  have b: "pow2 (bit_length ?c - 1) \<le> of_int ?c" "of_int ?c < pow2 (bit_length ?c)"
    using bit_length_bounds[OF c(1)] by auto
  have p: "pow2 (bit_length ?c) = of_int (2 ^ nat (bit_length ?c))"
    using bit_length_nonneg[of ?c] by (simp add: pow2_def)
  with b(2) have "?c + 1 \<le> 2 ^ nat (bit_length ?c)" by (simp only: of_int_less_iff)
  then have "of_int (?c + 1) \<le> pow2 (bit_length ?c)" using p by (simp only: of_int_le_iff)
  with c(3) have u: "1 / m \<le> pow2 (bit_length ?c)" by linarith
  have l: "pow2 (bit_length ?c - 1) < 1 / m" using b(1) c(2) by linarith
  have "pow2 (- bit_length ?c) \<le> m"
    using u assms by (simp add: pow2_uminus field_simps)
  moreover have "m < pow2 (- bit_length ?c + 1)"
  proof -
    let ?q = "pow2 (bit_length ?c - 1)"
    have "m * ?q < 1" using l assms by (simp add: pos_less_divide_eq mult.commute)
    then have "m < 1 / ?q" using pow2_pos[of "bit_length ?c - 1"] by (simp only: pos_less_divide_eq)
    then show ?thesis using pow2_uminus[of "bit_length ?c - 1"] by (simp add: algebra_simps)
  qed
  ultimately show ?thesis using False by (simp add: ilog2_def)
qed

lemma round_even_of_int [simp]: "round_even (of_int i) = i"
  by (simp add: round_even_def)

lemma round_even_nonneg: "0 \<le> x \<Longrightarrow> 0 \<le> round_even x"
  by (auto simp: round_even_def Let_def)

lemma round_even_close: "\<bar>of_int (round_even x) - x\<bar> \<le> 1 / 2"
proof -
  have f: "of_int \<lfloor>x\<rfloor> \<le> x" "x < of_int \<lfloor>x\<rfloor> + 1"
    using floor_correct[of x] by auto
  then show ?thesis
    by (auto simp: round_even_def Let_def abs_le_iff)
qed

lemma round_even_mono:
  assumes "x \<le> y"
  shows "round_even x \<le> round_even y"
proof (cases "\<lfloor>x\<rfloor> = \<lfloor>y\<rfloor>")
  case True
  with assms show ?thesis by (auto simp: round_even_def Let_def)
next
  case False
  with assms have "\<lfloor>x\<rfloor> < \<lfloor>y\<rfloor>" using floor_mono by fastforce
  then show ?thesis by (auto simp: round_even_def Let_def)
qed

lemma round_magnitude_nonneg: "0 \<le> m \<Longrightarrow> 0 \<le> round_magnitude m"
  by (simp add: round_magnitude_def round_even_nonneg less_imp_le)

text \<open>A value on the grid of its own binade is represented exactly.\<close>

lemma round_magnitude_exact:
  "m = of_int k * quantum m \<Longrightarrow> round_magnitude m = m"
proof -
  assume k: "m = of_int k * quantum m"
  then have "m / quantum m = of_int k"
    using quantum_pos[of m] by (metis less_irrefl nonzero_mult_div_cancel_right)
  with k show ?thesis by (simp add: round_magnitude_def)
qed

lemma round_magnitude_error:
  "\<bar>round_magnitude m - m\<bar> \<le> quantum m / 2"
proof (cases "m = 0")
  case False
  have "round_magnitude m - m = (of_int (round_even (m / quantum m)) - m / quantum m) * quantum m"
    using False quantum_pos[of m] less_irrefl[of "quantum m"]
    by (simp add: round_magnitude_def left_diff_distrib)
  also have "\<bar>\<dots>\<bar> = \<bar>of_int (round_even (m / quantum m)) - m / quantum m\<bar> * quantum m"
    by (simp add: abs_mult less_imp_le)
  also have "\<dots> \<le> 1 / 2 * quantum m"
    by (rule mult_right_mono [OF round_even_close]) (simp add: less_imp_le)
  finally show ?thesis by simp
qed (simp add: round_magnitude_def less_imp_le)

text \<open>In the normal range the error of one rounding is at most half a unit in the last place.\<close>

lemma round_magnitude_relative:
  assumes "pow2 (- 1022) \<le> m"
  shows "\<bar>round_magnitude m - m\<bar> \<le> m * pow2 (- 53)"
proof -
  have m: "0 < m" using assms pow2_pos[of "- 1022"] by linarith
  have "pow2 (- 1022) < pow2 (ilog2 m + 1)" using assms ilog2_bounds[OF m] by linarith
  then have "- 1022 < ilog2 m + 1" using pow2_mono[of "ilog2 m + 1" "- 1022"] by linarith
  then have q: "quantum m = pow2 (ilog2 m) * pow2 (- 52)"
    by (simp add: quantum_def flip: pow2_add)
  have "\<bar>round_magnitude m - m\<bar> \<le> quantum m / 2" by (rule round_magnitude_error)
  also have "\<dots> = pow2 (ilog2 m) * pow2 (- 53)" unfolding q by (simp add: pow2_def)
  also have "\<dots> \<le> m * pow2 (- 53)"
    using ilog2_bounds[OF m] pow2_pos[of "- 53"] by (simp add: mult_right_mono less_imp_le)
  finally show ?thesis .
qed

subsection \<open>Printing: \<open>"%.*f"\<close> and \<open>std::to_string(double)\<close>\<close>

definition pad_left :: "nat \<Rightarrow> string \<Rightarrow> string" where
  "pad_left n s = replicate (n - length s) (CHR ''0'') @ s"

definition fixed_digits :: "nat \<Rightarrow> rat \<Rightarrow> string" where
  "fixed_digits prec m =
     (let n = nat (round_even (m * 10 ^ prec))
      in nat_to_string (n div 10 ^ prec) @
         (if prec = 0 then [] else CHR ''.'' # pad_left prec (nat_to_string (n mod 10 ^ prec))))"

fun format_fixed :: "nat \<Rightarrow> double \<Rightarrow> string" where
  "format_fixed prec NaN = ''nan''"
| "format_fixed prec (Infinity s) = (if s then ''-inf'' else ''inf'')"
| "format_fixed prec (Finite s m) = (if s then CHR ''-'' # fixed_digits prec m else fixed_digits prec m)"

definition double_to_string :: "double \<Rightarrow> string" where
  "double_to_string d = format_fixed 6 d"

subsection \<open>Parsing: \<open>std::stod\<close>\<close>

text \<open>
  \<open>strtod\<close> in the "C" locale: blanks, a sign, then \<open>inf\<close>, \<open>infinity\<close> or \<open>nan\<close> in
  any case, or a hexadecimal or a decimal floating constant. \<open>stod\<close> throws
  \<open>invalid_argument\<close> when nothing is read and \<open>out_of_range\<close> when the result
  overflows, or is subnormal and inexact (the cases where \<open>errno\<close> is \<open>ERANGE\<close>).
\<close>

definition isxdigit :: "char \<Rightarrow> bool" where
  "isxdigit c \<longleftrightarrow> isdigit c \<or> (65 \<le> code_of c \<and> code_of c \<le> 70) \<or> (97 \<le> code_of c \<and> code_of c \<le> 102)"

definition xdigit_val :: "char \<Rightarrow> nat" where
  "xdigit_val c =
     (if isdigit c then code_of c - 48
      else if code_of c \<le> 70 then code_of c - 55 else code_of c - 87)"

definition digits_in_base :: "nat \<Rightarrow> string \<Rightarrow> nat" where
  "digits_in_base b ds = foldl (\<lambda>v c. b * v + xdigit_val c) 0 ds"

text \<open>An optional exponent after the mark \<open>mark\<close>: it counts only when digits follow.\<close>

definition parse_exponent :: "char \<Rightarrow> string \<Rightarrow> int" where
  "parse_exponent mark s =
     (case s of
        [] \<Rightarrow> 0
      | c # r \<Rightarrow>
          if tolower c = mark then
            (let (neg, r') = split_sign r; ds = takeWhile isdigit r'
             in if ds = [] then 0
                else if neg then - int (digits_value ds) else int (digits_value ds))
          else 0)"

definition rat_power :: "nat \<Rightarrow> int \<Rightarrow> rat" where
  "rat_power b e = (if 0 \<le> e then of_nat b ^ nat e else 1 / of_nat b ^ nat (- e))"

text \<open>Digits, an optional point and more digits, an exponent; \<open>None\<close> without a digit.\<close>

definition parse_magnitude :: "nat \<Rightarrow> (char \<Rightarrow> bool) \<Rightarrow> char \<Rightarrow> nat \<Rightarrow> string \<Rightarrow> rat option" where
  "parse_magnitude b isd mark eb s =
     (let ip = takeWhile isd s; r = dropWhile isd s;
          (fp, r2) = (case r of
                        c # r' \<Rightarrow> if c = CHR ''.'' then (takeWhile isd r', dropWhile isd r') else ([], r)
                      | [] \<Rightarrow> ([], r))
      in if ip = [] \<and> fp = [] then None
         else Some (of_nat (digits_in_base b (ip @ fp)) / of_nat b ^ length fp
                    * rat_power eb (parse_exponent mark r2)))"

definition hex_prefix :: "string \<Rightarrow> bool" where
  "hex_prefix s \<longleftrightarrow> map tolower (take 2 s) = ''0x''"

definition parse_number :: "string \<Rightarrow> rat option" where
  "parse_number s =
     (case (if hex_prefix s then parse_magnitude 16 isxdigit (CHR ''p'') 2 (drop 2 s) else None) of
        Some m \<Rightarrow> Some m
      | None \<Rightarrow> parse_magnitude 10 isdigit (CHR ''e'') 10 s)"

definition range_error :: "rat \<Rightarrow> bool" where
  "range_error m \<longleftrightarrow>
     max_magnitude \<le> round_magnitude m \<or> (0 < m \<and> m < pow2 (- 1022) \<and> round_magnitude m \<noteq> m)"

definition stod :: "string \<Rightarrow> double result" where
  "stod str =
     (let (neg, s) = split_sign (dropWhile isspace (cstr str)); l = map tolower s
      in if take 3 l = ''inf'' then Inr (Infinity neg)
         else if take 3 l = ''nan'' then Inr NaN
         else case parse_number s of
                None \<Rightarrow> Inl Invalid_Argument
              | Some m \<Rightarrow> if range_error m then Inl Out_Of_Range else Inr (make_double neg m))"

text \<open>The equations by which \<open>simp\<close> evaluates closed terms over doubles.\<close>

lemmas double_eval =
  double_of_int_def dzero_def dsub_def round_double_def make_double_def round_magnitude_def
  quantum_def ilog2_def bit_length.simps pow2_def round_even_def max_magnitude_def
  double_value_def double_to_string_def fixed_digits_def nat_to_string.simps digit_char_def
  pad_left_def Let_def

subsection \<open>Facts on printing\<close>

lemma nat_to_string_length:
  "n < 10 ^ Suc k \<Longrightarrow> length (nat_to_string n) \<le> Suc k"
proof (induction k arbitrary: n)
  case 0
  then show ?case by (subst nat_to_string.simps) simp
next
  case (Suc k)
  show ?case
  proof (cases "n < 10")
    case True
    then show ?thesis by (subst nat_to_string.simps) simp
  next
    case False
    have "n div 10 < 10 ^ Suc k" using Suc.prems by (simp add: less_mult_imp_div_less mult.commute)
    with Suc.IH have "length (nat_to_string (n div 10)) \<le> Suc k" by blast
    with False show ?thesis by (subst nat_to_string.simps) simp
  qed
qed

lemma length_pad_left: "length s \<le> n \<Longrightarrow> length (pad_left n s) = n"
  by (simp add: pad_left_def)

lemma pad_left_digits: "(\<And>c. c \<in> set s \<Longrightarrow> isdigit c) \<Longrightarrow> c \<in> set (pad_left n s) \<Longrightarrow> isdigit c"
  by (auto simp: pad_left_def isdigit_def)

lemma fixed_digits_not_Nil [simp]: "fixed_digits prec m \<noteq> []"
  by (simp add: fixed_digits_def Let_def)

lemma double_to_string_not_Nil [simp]: "double_to_string d \<noteq> []"
  by (cases d) (auto simp: double_to_string_def)

lemma fixed_digits_chars:
  "c \<in> set (fixed_digits prec m) \<Longrightarrow> isdigit c \<or> c = CHR ''.''"
  by (auto simp: fixed_digits_def Let_def nat_to_string_digits split: if_splits
           dest: pad_left_digits[rotated])

lemma fixed_digits_no_nul [simp]: "no_nul (fixed_digits prec m)"
  unfolding no_nul_def using fixed_digits_chars by (force simp: isdigit_def)

lemma double_to_string_no_nul [simp]: "no_nul (double_to_string d)"
  by (cases d) (auto simp: double_to_string_def)

end
