(* ===== verification/Json.thy ===== *)
theory Json
  imports Doubles
begin

section \<open>util/json_util: paths into JSON documents\<close>

text \<open>
  \<open>rapidjson\<close> is outside the repository: \<open>json\<close> lists the kinds of values its DOM has,
  and the accessors below are the documented ones the program calls, with the assertion
  failures that using them on another kind of value is. Modelled from the repository:
  \<open>parseKey\<close>, \<open>get_node\<close>, \<open>get_value\<close> and \<open>set_value\<close> at the four types they are used
  with, and \<open>get_data\<close>. A null pointer is \<open>None\<close>, a return code other than 0 is \<open>None\<close>.
\<close>

datatype json =
    JNull
  | JBool bool
  | JInt int
  | JDouble double
  | JString string
  | JArray "json list"
  | JObject "(string \<times> json) list"

subsection \<open>The accessors of the DOM\<close>

fun is_array :: "json \<Rightarrow> bool" where
  "is_array (JArray _) = True"
| "is_array _ = False"

fun array_elems :: "json \<Rightarrow> json list result" where
  "array_elems (JArray vs) = Inr vs"
| "array_elems _ = Inl Assert_Failure"

definition elem_at :: "json \<Rightarrow> nat \<Rightarrow> json result" where
  "elem_at v i =
     bind_result (array_elems v) (\<lambda>vs. if i < length vs then Inr (vs ! i) else Inl Assert_Failure)"

definition find_member :: "string \<Rightarrow> (string \<times> json) list \<Rightarrow> json option" where
  "find_member name ms = map_of ms (cstr name)"

fun has_member :: "json \<Rightarrow> string \<Rightarrow> bool result" where
  "has_member (JObject ms) name = Inr (find_member name ms \<noteq> None)"
| "has_member _ name = Inl Assert_Failure"

fun member_at :: "json \<Rightarrow> string \<Rightarrow> json result" where
  "member_at (JObject ms) name =
     (case find_member name ms of None \<Rightarrow> Inl Assert_Failure | Some v \<Rightarrow> Inr v)"
| "member_at _ name = Inl Assert_Failure"

fun get_string :: "json \<Rightarrow> string result" where
  "get_string (JString s) = Inr (cstr s)"
| "get_string _ = Inl Assert_Failure"

fun get_int64 :: "json \<Rightarrow> int result" where
  "get_int64 (JInt i) = (if int64_range i then Inr i else Inl Assert_Failure)"
| "get_int64 _ = Inl Assert_Failure"

fun get_double :: "json \<Rightarrow> double result" where
  "get_double (JDouble d) = Inr d"
| "get_double (JInt i) = Inr (double_of_int i)"
| "get_double _ = Inl Assert_Failure"

text \<open>\<open>v["channel"].GetString()\<close>, the access the message loops share.\<close>

definition channel_of :: "json \<Rightarrow> string result" where
  "channel_of v = bind_result (member_at v ''channel'') get_string"

subsection \<open>parseKey and get\_node\<close>

text \<open>
  The regular expression matches a backslash followed by digits up to the end of the key
  (keys are literals without line breaks). The digits go through \<open>stoi\<close>, whose exception
  nothing catches.
\<close>

abbreviation backslash :: char where
  "backslash \<equiv> CHR 0x5C"

definition parseKey :: "string \<Rightarrow> (int \<times> string) result" where
  "parseKey key =
     (let ds = rev (takeWhile isdigit (rev key))
      in case dropWhile isdigit (rev key) of
           c # r \<Rightarrow> if c = backslash \<and> ds \<noteq> []
                    then bind_result (stoi ds) (\<lambda>i. Inr (i, rev r))
                    else Inr (- 1, key)
         | [] \<Rightarrow> Inr (- 1, key))"

definition path_key :: "string \<Rightarrow> string" where
  "path_key path = takeWhile (\<lambda>c. c \<noteq> CHR ''.'') path"

definition path_rest :: "string \<Rightarrow> string" where
  "path_rest path = tl (dropWhile (\<lambda>c. c \<noteq> CHR ''.'') path)"

lemma path_rest_shorter [simp]: "path \<noteq> [] \<Longrightarrow> length (path_rest path) < length path"
proof -
  assume "path \<noteq> []"
  moreover have "length (dropWhile (\<lambda>c. c \<noteq> CHR ''.'') path) \<le> length path"
    by (rule length_dropWhile_le)
  moreover have "0 < length path" using \<open>path \<noteq> []\<close> by simp
  ultimately show ?thesis unfolding path_rest_def length_tl by linarith
qed

text \<open>The member or array element that one key names in an object.\<close>

definition select_child :: "(string \<times> json) list \<Rightarrow> int \<Rightarrow> string \<Rightarrow> json option" where
  "select_child ms which key =
     (case find_member key ms of
        None \<Rightarrow> None
      | Some v \<Rightarrow>
          if which = - 1 then Some v
          else case v of
                 JArray vs \<Rightarrow> if which < int (length vs) \<and> 0 \<le> which then Some (vs ! nat which) else None
               | _ \<Rightarrow> None)"

function get_node :: "json \<Rightarrow> string \<Rightarrow> json option result" where
  "get_node node path =
     (if path = [] then Inr (Some node)
      else case node of
        JObject ms \<Rightarrow>
          bind_result (parseKey (path_key path)) (\<lambda>(which, key).
            case select_child ms which key of
              None \<Rightarrow> Inr None
            | Some child \<Rightarrow> get_node child (path_rest path))
      | _ \<Rightarrow> Inr None)"
  by pat_completeness auto
termination
  by (relation "measure (\<lambda>(node, path). length path)") simp_all

declare get_node.simps [simp del]

lemma get_node_Nil [simp]: "get_node node [] = Inr (Some node)"
  by (simp add: get_node.simps)

lemma get_node_object:
  "path \<noteq> [] \<Longrightarrow> get_node (JObject ms) path =
     bind_result (parseKey (path_key path)) (\<lambda>(which, key).
       case select_child ms which key of
         None \<Rightarrow> Inr None
       | Some child \<Rightarrow> get_node child (path_rest path))"
  by (simp add: get_node.simps[of "JObject ms" path])

lemma get_node_other:
  "path \<noteq> [] \<Longrightarrow> (\<And>ms. node \<noteq> JObject ms) \<Longrightarrow> get_node node path = Inr None"
  by (subst get_node.simps) (auto split: json.split)

subsection \<open>get\_value\<close>

fun int_value :: "json \<Rightarrow> int option" where
  "int_value (JInt i) = (if int32_range i then Some i else None)"
| "int_value (JString s) = (case stoi (cstr s) of Inr i \<Rightarrow> Some i | Inl _ \<Rightarrow> None)"
| "int_value _ = None"

fun int64_value :: "json \<Rightarrow> int option" where
  "int64_value (JInt i) = (if int64_range i then Some i else None)"
| "int64_value (JString s) = (case stoll (cstr s) of Inr i \<Rightarrow> Some i | Inl _ \<Rightarrow> None)"
| "int64_value _ = None"

fun string_value :: "json \<Rightarrow> string option" where
  "string_value (JString s) = Some (cstr s)"
| "string_value (JInt i) =
     (if int32_range i \<or> int64_range i then Some (int_to_string i) else None)"
| "string_value _ = None"

fun double_value_of :: "json \<Rightarrow> double option" where
  "double_value_of (JDouble d) = Some d"
| "double_value_of (JString s) = (case stod (cstr s) of Inr d \<Rightarrow> Some d | Inl _ \<Rightarrow> None)"
| "double_value_of (JInt i) =
     (if int32_range i \<or> int64_range i then Some (double_of_int i) else None)"
| "double_value_of _ = None"

definition get_value :: "(json \<Rightarrow> 'a option) \<Rightarrow> json \<Rightarrow> string \<Rightarrow> 'a option result" where
  "get_value conv node key =
     (if key = [] then Inr None
      else bind_result (get_node node key) (\<lambda>n.
             Inr (case n of None \<Rightarrow> None | Some v \<Rightarrow> conv v)))"

subsection \<open>set\_value\<close>

text \<open>
  \<open>set_value\<close> overwrites the node that the pointer of \<open>get_node\<close> designates: the whole
  document with that one place replaced, \<open>None\<close> when the path leads nowhere.
\<close>

fun update_member :: "string \<Rightarrow> json \<Rightarrow> (string \<times> json) list \<Rightarrow> (string \<times> json) list" where
  "update_member k v [] = []"
| "update_member k v ((k', v') # ms) = (if k' = k then (k', v) # ms else (k', v') # update_member k v ms)"

definition replace_child :: "(string \<times> json) list \<Rightarrow> int \<Rightarrow> string \<Rightarrow> json \<Rightarrow> (string \<times> json) list" where
  "replace_child ms which key child =
     (case find_member key ms of
        None \<Rightarrow> ms
      | Some v \<Rightarrow>
          update_member (cstr key)
            (if which = - 1 then child
             else case v of JArray vs \<Rightarrow> JArray (vs[nat which := child]) | _ \<Rightarrow> v) ms)"

function set_node :: "json \<Rightarrow> string \<Rightarrow> json \<Rightarrow> json option result" where
  "set_node node path new =
     (if path = [] then Inr (Some new)
      else case node of
        JObject ms \<Rightarrow>
          bind_result (parseKey (path_key path)) (\<lambda>(which, key).
            case select_child ms which key of
              None \<Rightarrow> Inr None
            | Some child \<Rightarrow>
                bind_result (set_node child (path_rest path) new) (\<lambda>c.
                  Inr (map_option (\<lambda>child'. JObject (replace_child ms which key child')) c)))
      | _ \<Rightarrow> Inr None)"
  by pat_completeness auto
termination
  by (relation "measure (\<lambda>(node, path, new). length path)") simp_all

declare set_node.simps [simp del]

lemma set_node_Nil [simp]: "set_node node [] new = Inr (Some new)"
  by (simp add: set_node.simps)

lemma set_node_object:
  "path \<noteq> [] \<Longrightarrow> set_node (JObject ms) path new =
     bind_result (parseKey (path_key path)) (\<lambda>(which, key).
       case select_child ms which key of
         None \<Rightarrow> Inr None
       | Some child \<Rightarrow>
           bind_result (set_node child (path_rest path) new) (\<lambda>c.
             Inr (map_option (\<lambda>child'. JObject (replace_child ms which key child')) c)))"
  by (simp add: set_node.simps[of "JObject ms" path])

lemma set_node_other:
  "path \<noteq> [] \<Longrightarrow> (\<And>ms. node \<noteq> JObject ms) \<Longrightarrow> set_node node path new = Inr None"
  by (subst set_node.simps) (auto split: json.split)

definition set_value :: "('a \<Rightarrow> json) \<Rightarrow> json \<Rightarrow> string \<Rightarrow> 'a \<Rightarrow> json option result" where
  "set_value conv node key value =
     (if key = [] then Inr None else set_node node key (conv value))"

subsection \<open>get\_data\<close>

fun find_data :: "json list \<Rightarrow> string \<Rightarrow> json option result" where
  "find_data [] channel_name = Inr None"
| "find_data (node # nodes) channel_name =
     bind_result (get_value string_value node ''channel'') (\<lambda>v.
       if (case v of None \<Rightarrow> [] | Some channel \<Rightarrow> channel) = channel_name
       then get_node node ''data''
       else find_data nodes channel_name)"

fun get_data :: "json \<Rightarrow> string \<Rightarrow> json option result" where
  "get_data (JArray nodes) channel_name = find_data nodes channel_name"
| "get_data _ channel_name = Inr None"

subsection \<open>Paths as sequences of steps\<close>

text \<open>
  What a path means: a list of steps, each a member of an object or an element of an array
  that is a member. \<open>render_path\<close> is how the program writes it.
\<close>

datatype path_step = Member string | Element string nat

fun take_step :: "json \<Rightarrow> path_step \<Rightarrow> json option" where
  "take_step (JObject ms) (Member name) = map_of ms name"
| "take_step (JObject ms) (Element name i) =
     (case map_of ms name of
        Some (JArray vs) \<Rightarrow> if i < length vs then Some (vs ! i) else None
      | _ \<Rightarrow> None)"
| "take_step _ _ = None"

fun navigate :: "json \<Rightarrow> path_step list \<Rightarrow> json option" where
  "navigate v [] = Some v"
| "navigate v (st # sts) = (case take_step v st of None \<Rightarrow> None | Some c \<Rightarrow> navigate c sts)"

fun render_step :: "path_step \<Rightarrow> string" where
  "render_step (Member name) = name"
| "render_step (Element name i) = name @ backslash # nat_to_string i"

fun render_path :: "path_step list \<Rightarrow> string" where
  "render_path [] = []"
| "render_path [st] = render_step st"
| "render_path (st # sts) = render_step st @ CHR ''.'' # render_path sts"

definition plain_name :: "string \<Rightarrow> bool" where
  "plain_name name \<longleftrightarrow> name \<noteq> [] \<and> no_nul name \<and> CHR ''.'' \<notin> set name"

fun step_ok :: "path_step \<Rightarrow> bool" where
  "step_ok (Member name) = (plain_name name \<and> backslash \<notin> set name)"
| "step_ok (Element name i) = (plain_name name \<and> int32_range (int i))"

lemma not_isdigit_backslash [simp]: "\<not> isdigit backslash"
  by (simp add: isdigit_def)

lemma not_isdigit_dot [simp]: "\<not> isdigit (CHR ''.'')"
  by (simp add: isdigit_def)

lemma parseKey_plain: "backslash \<notin> set name \<Longrightarrow> parseKey name = Inr (- 1, name)"
proof (cases "dropWhile isdigit (rev name)")
  case (Cons c r)
  assume "backslash \<notin> set name"
  moreover have "c \<in> set name" using Cons set_dropWhileD[of c isdigit "rev name"] by simp
  ultimately have "c \<noteq> backslash" by metis
  with Cons show ?thesis by (simp add: parseKey_def Let_def)
next
  case Nil
  then show ?thesis by (simp only: parseKey_def Let_def list.case)
qed

lemma parseKey_element:
  assumes "int32_range (int i)"
  shows "parseKey (name @ backslash # nat_to_string i) = Inr (int i, name)"
proof -
  have tw: "takeWhile isdigit (rev (nat_to_string i) @ backslash # rev name) = rev (nat_to_string i)"
    using takeWhile_append_all[of "rev (nat_to_string i)" isdigit] nat_to_string_digits by simp
  have dw: "dropWhile isdigit (rev (nat_to_string i) @ backslash # rev name) = backslash # rev name"
    using dropWhile_append_all[of "rev (nat_to_string i)" isdigit] nat_to_string_digits by simp
  have "stoi (nat_to_string i) = Inr (int i)"
    using stoi_int_to_string[OF assms] by (simp add: int_to_string_def)
  then show ?thesis by (simp add: parseKey_def Let_def tw dw)
qed

lemma step_ok_no_dot: "step_ok st \<Longrightarrow> c \<in> set (render_step st) \<Longrightarrow> c \<noteq> CHR ''.''"
  by (cases st) (auto simp: plain_name_def dest: nat_to_string_digits digit_not_sign)

lemma step_ok_not_Nil: "step_ok st \<Longrightarrow> render_step st \<noteq> []"
  by (cases st) (auto simp: plain_name_def)

lemma render_path_key:
  "step_ok st \<Longrightarrow> path_key (render_path (st # sts)) = render_step st"
  unfolding path_key_def using step_ok_no_dot[of st]
  by (cases sts) (auto simp: takeWhile_append_all takeWhile_eq_all_conv)

lemma render_path_rest:
  "step_ok st \<Longrightarrow> path_rest (render_path (st # sts)) = render_path sts"
proof -
  assume "step_ok st"
  then have *: "\<And>c. c \<in> set (render_step st) \<Longrightarrow> c \<noteq> CHR ''.''" by (rule step_ok_no_dot)
  then have nil: "dropWhile (\<lambda>c. c \<noteq> CHR ''.'') (render_step st) = []" by simp
  show ?thesis
  proof (cases sts)
    case Nil
    then show ?thesis by (simp only: path_rest_def render_path.simps nil list.sel)
  next
    case (Cons st' sts')
    then show ?thesis by (simp add: path_rest_def dropWhile_append_all[OF *])
  qed
qed

lemma render_path_not_Nil: "step_ok st \<Longrightarrow> render_path (st # sts) \<noteq> []"
  using step_ok_not_Nil by (cases sts) auto

lemma select_child_step:
  assumes "step_ok st"
  shows "\<exists>which key. parseKey (render_step st) = Inr (which, key) \<and>
           (\<forall>ms. select_child ms which key = take_step (JObject ms) st)"
proof (cases st)
  case (Member name)
  with assms show ?thesis
    by (auto simp: parseKey_plain select_child_def find_member_def plain_name_def split: option.splits)
next
  case (Element name i)
  with assms show ?thesis
    by (auto simp: parseKey_element select_child_def find_member_def plain_name_def
        split: option.splits json.splits)
qed

lemma get_node_navigate:
  "list_all step_ok sts \<Longrightarrow> get_node v (render_path sts) = Inr (navigate v sts)"
proof (induction sts arbitrary: v)
  case Nil
  then show ?case by (simp add: get_node.simps)
next
  case (Cons st sts)
  then have ok: "step_ok st" and IH: "\<And>v. get_node v (render_path sts) = Inr (navigate v sts)"
    by auto
  obtain which key where pk: "parseKey (render_step st) = Inr (which, key)"
    and sel: "\<And>ms. select_child ms which key = take_step (JObject ms) st"
    using select_child_step[OF ok] by blast
  have ne: "render_path (st # sts) \<noteq> []" using ok by (rule render_path_not_Nil)
  show ?case
  proof (cases "\<exists>ms. v = JObject ms")
    case True
    then obtain ms where "v = JObject ms" ..
    then show ?thesis
      by (simp add: get_node_object[OF ne] render_path_key[OF ok] render_path_rest[OF ok] pk sel IH
          result_simps split: option.split)
  next
    case False
    then have "take_step v st = None" by (cases v; cases st) auto
    with False show ?thesis using get_node_other[OF ne, of v] by simp
  qed
qed

subsection \<open>Writing and reading back\<close>

lemma map_of_update_member:
  "map_of ms k = Some v0 \<Longrightarrow> map_of (update_member k v ms) k' = (if k' = k then Some v else map_of ms k')"
  by (induction ms) auto

lemma select_replace_child:
  assumes "select_child ms which key = Some child"
  shows "select_child (replace_child ms which key child') which key = Some child'"
proof -
  obtain v where v: "map_of ms (cstr key) = Some v"
    using assms by (auto simp: select_child_def find_member_def split: option.splits)
  show ?thesis
    using assms v map_of_update_member[OF v]
    by (auto simp: select_child_def replace_child_def find_member_def split: json.splits if_splits)
qed

lemma set_node_get_node:
  "set_node node path new = Inr (Some node') \<Longrightarrow> get_node node' path = Inr (Some new)"
proof (induction node path new arbitrary: node' rule: set_node.induct)
  case (1 node path new)
  show ?case
  proof (cases "path = []")
    case True
    with "1.prems" show ?thesis by (simp add: set_node.simps get_node.simps)
  next
    case False
    show ?thesis
    proof (cases "\<exists>ms. node = JObject ms")
      case True
      then obtain ms where ms: "node = JObject ms" ..
      with "1.prems" False obtain which key child c
        where pk: "parseKey (path_key path) = Inr (which, key)"
          and sel: "select_child ms which key = Some child"
          and rec: "set_node child (path_rest path) new = Inr (Some c)"
          and node': "node' = JObject (replace_child ms which key c)"
        by (auto simp: set_node_object bind_result_eq_Inr split: option.splits)
      have "get_node c (path_rest path) = Inr (Some new)"
        using "1.IH"[OF False ms pk refl sel rec] .
      then show ?thesis
        using False node' pk select_replace_child[OF sel, of c] by (simp add: get_node_object)
    qed (use False "1.prems" set_node_other[of path node] in auto)
  qed
qed

lemma set_node_iff_get_node:
  "(\<exists>node'. set_node node path new = Inr (Some node')) \<longleftrightarrow> (\<exists>v. get_node node path = Inr (Some v))"
proof (induction node path new rule: set_node.induct)
  case (1 node path new)
  show ?case
  proof (cases "path = []")
    case True
    then show ?thesis by (simp add: set_node.simps get_node.simps)
  next
    case False
    show ?thesis
    proof (cases "\<exists>ms. node = JObject ms")
      case True
      then obtain ms where ms: "node = JObject ms" ..
      show ?thesis
      proof (cases "parseKey (path_key path)")
        case (Inr wk)
        obtain which key where wk: "wk = (which, key)" by fastforce
        show ?thesis
        proof (cases "select_child ms which key")
          case (Some child)
          from "1.IH"[OF False ms Inr wk[symmetric] Some] show ?thesis
            by (auto simp: ms wk Inr Some set_node_object[OF False] get_node_object[OF False]
                bind_result_eq_Inr)
        qed (simp add: ms wk Inr set_node_object[OF False] get_node_object[OF False])
      qed (simp add: ms set_node_object[OF False] get_node_object[OF False])
    qed (use False set_node_other[of path node] get_node_other[of path node] in auto)
  qed
qed

lemma get_set_value:
  assumes "set_value to node key value = Inr (Some node')"
  shows "get_value from node' key = Inr (from (to value))"
proof -
  have "key \<noteq> []" "set_node node key (to value) = Inr (Some node')"
    using assms by (auto simp: set_value_def split: if_splits)
  then show ?thesis using set_node_get_node by (simp add: get_value_def)
qed

end
