(* ===== verification/Pipelines.thy ===== *)
theory Pipelines
  imports Queues Json
begin

section \<open>pipeline.h and the message callback: one queue per channel\<close>

text \<open>
  \<open>Pipeline\<close> maps a channel name to its queue of shared documents and creates the queue
  on first use. \<open>cn_callbak_message\<close> (okbot.cpp) runs in the connection thread: it pushes
  the whole document once for each element of its array that names a channel, and each
  consumer scans the document again.
\<close>

type_synonym pipeline = "string \<rightharpoonup> json list"

definition pipeline_init :: pipeline where
  "pipeline_init = Map.empty"

text \<open>\<open>get_queue\<close>: the queue of a name, created empty if there is none.\<close>

definition get_queue :: "string \<Rightarrow> pipeline \<Rightarrow> json list \<times> pipeline" where
  "get_queue name p =
     (let p' = (case p name of None \<Rightarrow> p(name \<mapsto> []) | Some q \<Rightarrow> p) in (the (p' name), p'))"

definition pipeline_push :: "string \<Rightarrow> json \<Rightarrow> pipeline \<Rightarrow> pipeline" where
  "pipeline_push name d p = (let (q, p') = get_queue name p in p'(name \<mapsto> queue_push d q))"

text \<open>What a channel holds.\<close>

definition channel_items :: "pipeline \<Rightarrow> string \<Rightarrow> json list" where
  "channel_items p name = (case p name of None \<Rightarrow> [] | Some q \<Rightarrow> q)"

subsection \<open>The message callback\<close>

fun dispatch_elems :: "json \<Rightarrow> json list \<Rightarrow> pipeline \<Rightarrow> pipeline result" where
  "dispatch_elems d [] p = Inr p"
| "dispatch_elems d (channel # rest) p =
     bind_result (has_member channel ''channel'') (\<lambda>has.
       if has
       then bind_result (channel_of channel) (\<lambda>name. dispatch_elems d rest (pipeline_push name d p))
       else dispatch_elems d rest p)"

text \<open>\<open>cn_callbak_message\<close>, on the document that \<open>rapidjson\<close> parsed from the message.\<close>

fun cn_callbak_message :: "json \<Rightarrow> pipeline \<Rightarrow> pipeline result" where
  "cn_callbak_message (JArray elems) p = dispatch_elems (JArray elems) elems p"
| "cn_callbak_message _ p = Inr p"

subsection \<open>Facts\<close>

lemma get_queue_items [simp]:
  "fst (get_queue name p) = channel_items p name"
  "channel_items (snd (get_queue name p)) = channel_items p"
  "snd (get_queue name p) name = Some (channel_items p name)"
  by (auto simp: get_queue_def channel_items_def fun_eq_iff split: option.splits)

lemma channel_items_push [simp]:
  "channel_items (pipeline_push name d p) c =
     (if c = name then channel_items p c @ [d] else channel_items p c)"
  using get_queue_items(2)[of name p]
  by (auto simp: pipeline_push_def queue_push_def channel_items_def fun_eq_iff split: prod.splits
      dest: arg_cong[of _ _ fst] simp flip: get_queue_items(1))
    (metis channel_items_def fst_conv get_queue_items(1) get_queue_items(2) snd_conv)+

lemma channel_items_upd [simp]:
  "channel_items (p(name \<mapsto> q)) c = (if c = name then q else channel_items p c)"
  by (simp add: channel_items_def)

lemma channel_items_init [simp]: "channel_items pipeline_init name = []"
  by (simp add: channel_items_def pipeline_init_def)

text \<open>The channel names of the elements of a document, in order, as the callback reads them.\<close>

fun names_channel :: "json \<Rightarrow> string \<Rightarrow> bool" where
  "names_channel (JObject ms) name =
     (case map_of ms ''channel'' of Some (JString s) \<Rightarrow> cstr s = name | _ \<Rightarrow> False)"
| "names_channel _ name = False"

text \<open>An element the callback accepts: an object whose \<open>channel\<close>, if any, is a string.\<close>

fun dispatchable :: "json \<Rightarrow> bool" where
  "dispatchable (JObject ms) =
     (case map_of ms ''channel'' of None \<Rightarrow> True | Some (JString s) \<Rightarrow> True | _ \<Rightarrow> False)"
| "dispatchable _ = False"

lemma dispatch_elems_ok:
  "list_all dispatchable elems \<Longrightarrow>
     \<exists>p'. dispatch_elems d elems p = Inr p' \<and>
       (\<forall>name. channel_items p' name =
          channel_items p name @ replicate (length (filter (\<lambda>e. names_channel e name) elems)) d)"
proof (induction elems arbitrary: p)
  case (Cons e es)
  then obtain ms where e: "e = JObject ms" by (cases e) auto
  show ?case
  proof (cases "map_of ms ''channel''")
    case None
    with Cons e show ?thesis by (simp add: find_member_def result_simps)
  next
    case (Some v)
    with Cons.prems e obtain s where v: "v = JString s" by (cases v) auto
    from Cons obtain p' where "dispatch_elems d es (pipeline_push (cstr s) d p) = Inr p'"
      and "\<forall>name. channel_items p' name = channel_items (pipeline_push (cstr s) d p) name
             @ replicate (length (filter (\<lambda>e. names_channel e name) es)) d"
      by fastforce
    with Some v e show ?thesis
      by (simp add: find_member_def channel_of_def result_simps)
  qed
qed simp

text \<open>Otherwise an assertion fails and the process aborts.\<close>

lemma dispatch_elems_abort:
  "\<not> list_all dispatchable elems \<Longrightarrow> dispatch_elems d elems p = Inl Assert_Failure"
proof (induction elems arbitrary: p)
  case (Cons e es)
  show ?case
  proof (cases e)
    case (JObject ms)
    show ?thesis
    proof (cases "map_of ms ''channel''")
      case None
      with Cons JObject show ?thesis by (simp add: find_member_def result_simps)
    next
      case (Some v)
      with Cons JObject show ?thesis
        by (cases v) (simp_all add: find_member_def channel_of_def result_simps)
    qed
  qed simp_all
qed simp

end
