(* ===== verification/Websockets.thy ===== *)
theory Websockets
  imports Prelude
begin

section \<open>okcoin\_client/websocket.h: one connection\<close>

text \<open>
  \<open>WebSocket\<close> wraps an endpoint of \<open>websocketpp\<close>. Of the endpoint the model keeps what the
  class relies on: the state of its one connection (\<open>endpoint\<close>; \<open>m_hdl\<close> names it once it is
  open), and the text frames handed over to the network, in order. \<open>send\<close> and
  \<open>close\<close> without an error code argument throw \<open>websocketpp::exception\<close> exactly when the
  connection is not open. The state of an operation is the object and the network.
\<close>

datatype connection_state =
    CONNECTION_STATE_UNKONWN
  | CONNECTION_STATE_CONNECTING
  | CONNECTION_STATE_DISCONNECT

datatype endpoint_state = Ep_Connecting | Ep_Open | Ep_Closed

record websocket =
  m_uri :: string
  m_con_state :: connection_state
  callbak_open :: bool      \<comment> \<open>the callback pointers: set or null\<close>
  callbak_close :: bool
  callbak_message :: bool
  m_manual_close :: bool
  is_valid :: bool
  endpoint :: endpoint_state

abbreviation endpoint_open :: "websocket \<Rightarrow> bool" where
  "endpoint_open ws \<equiv> endpoint ws = Ep_Open"

type_synonym wire = "string list"

type_synonym 'a ws_prog = "(websocket \<times> wire, 'a) prog"

text \<open>The constructor.\<close>

definition ws_new :: websocket where
  "ws_new =
     \<lparr>m_uri = [], m_con_state = CONNECTION_STATE_UNKONWN, callbak_open = False,
      callbak_close = False, callbak_message = False, m_manual_close = False, is_valid = True,
      endpoint = Ep_Connecting\<rparr>"

definition ws_update :: "(websocket \<Rightarrow> websocket) \<Rightarrow> unit ws_prog" where
  "ws_update f = modify (map_prod f id)"

definition endpoint_send :: "string \<Rightarrow> unit ws_prog" where
  "endpoint_send cmd =
     and_then (gets (\<lambda>s. endpoint_open (fst s))) (\<lambda>up.
       if up then modify (map_prod id (\<lambda>sent. sent @ [cmd])) else raise Net_Exception)"

definition endpoint_close :: "unit ws_prog" where
  "endpoint_close =
     and_then (gets (\<lambda>s. endpoint_open (fst s))) (\<lambda>up.
       if up then ws_update (\<lambda>ws. ws\<lparr>endpoint := Ep_Closed\<rparr>) else raise Net_Exception)"

text \<open>\<open>on_open\<close>, without the callback, which the world runs: it returns whether there is one.\<close>

definition ws_on_open :: "bool ws_prog" where
  "ws_on_open =
     and_then (ws_update (\<lambda>ws. ws\<lparr>endpoint := Ep_Open, m_manual_close := False\<rparr>))
       (\<lambda>_. gets (callbak_open \<circ> fst))"

definition ws_on_close :: "unit ws_prog" where
  "ws_on_close = ws_update (\<lambda>ws. ws\<lparr>endpoint := Ep_Closed, is_valid := False\<rparr>)"

definition ws_on_fail :: "unit ws_prog" where
  "ws_on_fail = ws_update (\<lambda>ws. ws\<lparr>endpoint := Ep_Closed, is_valid := False\<rparr>)"

definition ws_doclose :: "unit ws_prog" where
  "ws_doclose =
     and_then (ws_update (\<lambda>ws. ws\<lparr>is_valid := False, m_manual_close := True\<rparr>))
       (\<lambda>_. endpoint_close)"

text \<open>The three kinds of text frames.\<close>

definition event_frame :: "string \<Rightarrow> string \<Rightarrow> string" where
  "event_frame event channel =
     ''{'' @ quoted ''event'' @ '':'' @ quoted event @ '','' @ quoted ''channel'' @ '':'' @ quoted channel"

definition emit_frame :: "string \<Rightarrow> string" where
  "emit_frame channel = event_frame ''addChannel'' channel @ ''}''"

definition emit_param_frame :: "string \<Rightarrow> string \<Rightarrow> string" where
  "emit_param_frame channel parameter =
     event_frame ''addChannel'' channel @ '','' @ quoted ''parameters'' @ '':{'' @ parameter @ ''}}''"

definition remove_frame :: "string \<Rightarrow> string" where
  "remove_frame channel = event_frame ''removeChannel'' channel @ ''}''"

definition ws_emit :: "string \<Rightarrow> unit ws_prog" where
  "ws_emit channel = endpoint_send (emit_frame channel)"

definition ws_emit_param :: "string \<Rightarrow> string \<Rightarrow> unit ws_prog" where
  "ws_emit_param channel parameter = endpoint_send (emit_param_frame channel parameter)"

definition ws_remove :: "string \<Rightarrow> unit ws_prog" where
  "ws_remove channel = endpoint_send (remove_frame channel)"

text \<open>What \<open>run\<close> does before it blocks in the I/O loop of the endpoint.\<close>

definition ws_start :: "string \<Rightarrow> unit ws_prog" where
  "ws_start uri = ws_update (\<lambda>ws. ws\<lparr>m_uri := uri\<rparr>)"

subsection \<open>Facts\<close>

lemmas ws_ops = ws_update_def endpoint_send_def endpoint_close_def ws_on_open_def ws_on_close_def
  ws_on_fail_def ws_doclose_def ws_emit_def ws_emit_param_def ws_remove_def ws_start_def

lemma endpoint_send_result:
  "endpoint_send cmd (ws, sent) =
     (if endpoint_open ws then (Inr (), ws, sent @ [cmd]) else (Inl Net_Exception, ws, sent))"
  by (simp add: endpoint_send_def prog_defs)

text \<open>\<open>doclose\<close> leaves the flags set even when it throws.\<close>

lemma ws_doclose_result:
  "ws_doclose (ws, sent) =
     (if endpoint_open ws then Inr () else Inl Net_Exception,
      ws\<lparr>is_valid := False, m_manual_close := True,
         endpoint := (if endpoint_open ws then Ep_Closed else endpoint ws)\<rparr>, sent)"
  by (simp add: ws_doclose_def endpoint_close_def ws_update_def prog_defs)

text \<open>A socket that is flagged invalid stays so: no operation sets the flag again.\<close>

lemma ws_invalid_stays:
  assumes "\<not> is_valid ws"
  shows "\<not> is_valid (fst (snd (ws_on_open (ws, sent))))"
    and "\<not> is_valid (fst (snd (ws_on_close (ws, sent))))"
    and "\<not> is_valid (fst (snd (ws_on_fail (ws, sent))))"
    and "\<not> is_valid (fst (snd (ws_doclose (ws, sent))))"
    and "\<not> is_valid (fst (snd (endpoint_send cmd (ws, sent))))"
  using assms by (simp_all add: ws_ops prog_defs)

end
