(* ===== verification/World.thy ===== *)
theory World
  imports Pipelines Websockets
begin

section \<open>The state of the process\<close>

text \<open>
  The threads of the bot share the singletons \<open>Trade\<close>, \<open>Pipeline\<close> and \<open>AccountStatus\<close>, the
  API object \<open>cnapi\<close> and the sockets it allocates. \<open>world\<close> is that state; a strategy
  extends it with its own fields. A pointer to a \<open>WebSocket\<close> is an address or null, and
  \<open>delete\<close> removes the object from the heap, so a use after it is \<open>Undefined_Behaviour\<close>.

  \<open>env\<close> is what happens around the thread that runs, in order: messages of the server, the
  connection opening, ending and being rebuilt, time running out, the user's commands. A
  thread consumes it while it waits. \<open>wire\<close> holds every text frame sent, \<open>logs\<close> the
  log entries by level and format string (or the literal itself where the format is just
  a place holder); sleeping changes nothing.
\<close>

subsection \<open>strategy/account\_status.h\<close>

datatype Status = in_trading | out_of_trading

record AccountStatus =
  status :: Status

definition account_init :: AccountStatus where
  "account_init = \<lparr>status = out_of_trading\<rparr>"

definition account_get_status :: "AccountStatus \<Rightarrow> Status" where
  "account_get_status a = status a"

definition account_set_status :: "Status \<Rightarrow> AccountStatus \<Rightarrow> AccountStatus" where
  "account_set_status st a = a\<lparr>status := st\<rparr>"

subsection \<open>The objects\<close>

text \<open>\<open>OKCoinWebSocketApi\<close>: the callbacks are set or null; \<open>hThread\<close> says whether its
  thread runs.\<close>

record OKCoinWebSocketApi =
  api_key :: string
  secret_key :: string
  api_uri :: string
  m_callbak_open :: bool
  m_callbak_close :: bool
  m_callbak_message :: bool
  pWebsocket :: "nat option"
  hThread :: bool

record Trade =
  trade_s :: "nat option"
  m_api_key :: string
  m_secret_key :: string

datatype event =
    Message json     \<comment> \<open>a text message, as \<open>rapidjson\<close> parses it\<close>
  | Opened           \<comment> \<open>the handshake is complete\<close>
  | Lost             \<comment> \<open>the connection is over: \<open>on_close\<close> or \<open>on_fail\<close>, and \<open>run\<close> returns\<close>
  | Restarted        \<comment> \<open>the connection thread builds the next socket\<close>
  | User_Close       \<comment> \<open>\<open>Close()\<close> is called by the main thread\<close>
  | Timeout          \<comment> \<open>the time of a timed wait is over\<close>
  | Stop             \<comment> \<open>\<open>stop()\<close> is called on the strategy\<close>

datatype log_level = Notice | Warning | Fatal

record world =
  sockets :: "nat \<rightharpoonup> websocket"
  next_socket :: nat
  wire :: wire
  api :: OKCoinWebSocketApi
  trade :: Trade
  pipes :: pipeline
  account :: AccountStatus
  signal :: nat            \<comment> \<open>the atomic counter \<open>signal\<close> of the strategy that runs\<close>
  env :: "event list"
  logs :: "(log_level \<times> string) list"

type_synonym ('z, 'a) bot = "('z world_scheme, 'a) prog"

definition okbot_log :: "log_level \<Rightarrow> string \<Rightarrow> ('z, unit) bot" where
  "okbot_log level msg = modify (\<lambda>w. w\<lparr>logs := logs w @ [(level, msg)]\<rparr>)"

definition get_status :: "('z, Status) bot" where
  "get_status = gets (account_get_status \<circ> account)"

definition set_status :: "Status \<Rightarrow> ('z, unit) bot" where
  "set_status st = modify (\<lambda>w. w\<lparr>account := account_set_status st (account w)\<rparr>)"

text \<open>A method called through a pointer to a socket.\<close>

definition with_socket :: "nat \<Rightarrow> 'a ws_prog \<Rightarrow> ('z, 'a) bot" where
  "with_socket a m w =
     (case sockets w a of
        None \<Rightarrow> (Inl Undefined_Behaviour, w)
      | Some ws \<Rightarrow>
          (case m (ws, wire w) of
             (r, ws', sent) \<Rightarrow> (r, w\<lparr>sockets := (sockets w)(a \<mapsto> ws'), wire := sent\<rparr>)))"

definition new_socket :: "('z, nat) bot" where
  "new_socket =
     and_then (gets next_socket) (\<lambda>a.
       and_then (modify (\<lambda>w. w\<lparr>sockets := (sockets w)(a \<mapsto> ws_new), next_socket := Suc a\<rparr>))
         (\<lambda>_. ret a))"

definition delete_socket :: "nat \<Rightarrow> ('z, unit) bot" where
  "delete_socket a = modify (\<lambda>w. w\<lparr>sockets := (sockets w)(a := None)\<rparr>)"

definition set_pipes :: "pipeline \<Rightarrow> ('z, unit) bot" where
  "set_pipes p = modify (\<lambda>w. w\<lparr>pipes := p\<rparr>)"

text \<open>Every pointer into the heap was allocated; the heap is finite below \<open>next_socket\<close>.\<close>

definition heap_ok :: "'z world_scheme \<Rightarrow> bool" where
  "heap_ok w \<longleftrightarrow>
     (\<forall>a ws. sockets w a = Some ws \<longrightarrow> a < next_socket w) \<and>
     (\<forall>a. pWebsocket (api w) = Some a \<longrightarrow> sockets w a \<noteq> None) \<and>
     (\<forall>a. trade_s (trade w) = Some a \<longrightarrow> a < next_socket w)"

text \<open>\<open>Trade::s_\<close> points to the socket of the API, or is null: no dangling pointer.\<close>

definition trade_linked :: "'z world_scheme \<Rightarrow> bool" where
  "trade_linked w \<longleftrightarrow> trade_s (trade w) = None \<or> trade_s (trade w) = pWebsocket (api w)"

end
