(* ===== verification/Md5.thy ===== *)
theory Md5
  imports Clib
begin

unbundle bit_operations_syntax

section \<open>md5.cpp: the MD5 digest\<close>

text \<open>
  The class \<open>md5\<close> of \<open>okcoin_client/md5.cpp\<close> (the REST client has the same file under
  \<open>rest_api\<close>). A context holds the four chaining words, the 64-bit count of bits in two
  words, the partly filled block and the digest. \<open>Init\<close> leaves the two byte arrays as they
  are, so their initial contents are arguments. The second half gives the digest of
  RFC 1321 as a loop over 64 steps and shows that the class computes it, in any number of
  calls of \<open>Update\<close>. Lengths are natural numbers: the loop of \<open>Update\<close> compares
  \<open>i + 63 < nInputLen\<close> in 32 bits, which agrees for inputs below \<open>2 ^ 32 - 64\<close> bytes
  (\<open>MD5String\<close> passes at most \<open>2 ^ 31 - 1\<close>).
\<close>

type_synonym md5_regs = "uint4 \<times> uint4 \<times> uint4 \<times> uint4"

record md5 =
  m_State :: md5_regs
  m_Count :: "uint4 \<times> uint4"
  m_Buffer :: "byte list"
  m_Digest :: "byte list"

subsection \<open>The step functions\<close>

definition rotate_left :: "uint4 \<Rightarrow> nat \<Rightarrow> uint4" where
  "rotate_left x n = (push_bit n x OR drop_bit (32 - n) x)"

definition md5_F :: "uint4 \<Rightarrow> uint4 \<Rightarrow> uint4 \<Rightarrow> uint4" where
  "md5_F x y z = ((x AND y) OR (NOT x AND z))"

definition md5_G :: "uint4 \<Rightarrow> uint4 \<Rightarrow> uint4 \<Rightarrow> uint4" where
  "md5_G x y z = ((x AND z) OR (y AND NOT z))"

definition md5_H :: "uint4 \<Rightarrow> uint4 \<Rightarrow> uint4 \<Rightarrow> uint4" where
  "md5_H x y z = (x XOR y XOR z)"

definition md5_I :: "uint4 \<Rightarrow> uint4 \<Rightarrow> uint4 \<Rightarrow> uint4" where
  "md5_I x y z = (y XOR (x OR NOT z))"

type_synonym md5_step_fun =
  "uint4 \<Rightarrow> uint4 \<Rightarrow> uint4 \<Rightarrow> uint4 \<Rightarrow> uint4 \<Rightarrow> nat \<Rightarrow> uint4 \<Rightarrow> uint4"

definition md5_FF :: md5_step_fun where
  "md5_FF a b c d x s ac = rotate_left (a + (md5_F b c d + x + ac)) s + b"

definition md5_GG :: md5_step_fun where
  "md5_GG a b c d x s ac = rotate_left (a + (md5_G b c d + x + ac)) s + b"

definition md5_HH :: md5_step_fun where
  "md5_HH a b c d x s ac = rotate_left (a + (md5_H b c d + x + ac)) s + b"

definition md5_II :: md5_step_fun where
  "md5_II a b c d x s ac = rotate_left (a + (md5_I b c d + x + ac)) s + b"

text \<open>
  Four consecutive lines of \<open>Transform\<close>: the registers are updated in the order
  a, d, c, b, each line with its word of the block, its shift and its constant.
\<close>

definition md5_quad ::
    "md5_step_fun \<Rightarrow> nat \<times> nat \<times> nat \<times> nat \<Rightarrow> uint4 list \<Rightarrow>
     nat \<times> uint4 \<Rightarrow> nat \<times> uint4 \<Rightarrow> nat \<times> uint4 \<Rightarrow> nat \<times> uint4 \<Rightarrow> md5_regs \<Rightarrow> md5_regs" where
  "md5_quad f sh x l1 l2 l3 l4 regs =
     (let (s1, s2, s3, s4) = sh; (a, b, c, d) = regs;
          a = f a b c d (x ! fst l1) s1 (snd l1);
          d = f d a b c (x ! fst l2) s2 (snd l2);
          c = f c d a b (x ! fst l3) s3 (snd l3);
          b = f b c d a (x ! fst l4) s4 (snd l4)
      in (a, b, c, d))"

definition md5_rounds :: "uint4 list \<Rightarrow> md5_regs \<Rightarrow> md5_regs" where
  "md5_rounds x regs =
     (let
      regs = md5_quad md5_FF (7, 12, 17, 22) x
               (0, 0xd76aa478) (1, 0xe8c7b756) (2, 0x242070db) (3, 0xc1bdceee) regs;
      regs = md5_quad md5_FF (7, 12, 17, 22) x
               (4, 0xf57c0faf) (5, 0x4787c62a) (6, 0xa8304613) (7, 0xfd469501) regs;
      regs = md5_quad md5_FF (7, 12, 17, 22) x
               (8, 0x698098d8) (9, 0x8b44f7af) (10, 0xffff5bb1) (11, 0x895cd7be) regs;
      regs = md5_quad md5_FF (7, 12, 17, 22) x
               (12, 0x6b901122) (13, 0xfd987193) (14, 0xa679438e) (15, 0x49b40821) regs;
      regs = md5_quad md5_GG (5, 9, 14, 20) x
               (1, 0xf61e2562) (6, 0xc040b340) (11, 0x265e5a51) (0, 0xe9b6c7aa) regs;
      regs = md5_quad md5_GG (5, 9, 14, 20) x
               (5, 0xd62f105d) (10, 0x2441453) (15, 0xd8a1e681) (4, 0xe7d3fbc8) regs;
      regs = md5_quad md5_GG (5, 9, 14, 20) x
               (9, 0x21e1cde6) (14, 0xc33707d6) (3, 0xf4d50d87) (8, 0x455a14ed) regs;
      regs = md5_quad md5_GG (5, 9, 14, 20) x
               (13, 0xa9e3e905) (2, 0xfcefa3f8) (7, 0x676f02d9) (12, 0x8d2a4c8a) regs;
      regs = md5_quad md5_HH (4, 11, 16, 23) x
               (5, 0xfffa3942) (8, 0x8771f681) (11, 0x6d9d6122) (14, 0xfde5380c) regs;
      regs = md5_quad md5_HH (4, 11, 16, 23) x
               (1, 0xa4beea44) (4, 0x4bdecfa9) (7, 0xf6bb4b60) (10, 0xbebfbc70) regs;
      regs = md5_quad md5_HH (4, 11, 16, 23) x
               (13, 0x289b7ec6) (0, 0xeaa127fa) (3, 0xd4ef3085) (6, 0x4881d05) regs;
      regs = md5_quad md5_HH (4, 11, 16, 23) x
               (9, 0xd9d4d039) (12, 0xe6db99e5) (15, 0x1fa27cf8) (2, 0xc4ac5665) regs;
      regs = md5_quad md5_II (6, 10, 15, 21) x
               (0, 0xf4292244) (7, 0x432aff97) (14, 0xab9423a7) (5, 0xfc93a039) regs;
      regs = md5_quad md5_II (6, 10, 15, 21) x
               (12, 0x655b59c3) (3, 0x8f0ccc92) (10, 0xffeff47d) (1, 0x85845dd1) regs;
      regs = md5_quad md5_II (6, 10, 15, 21) x
               (8, 0x6fa87e4f) (15, 0xfe2ce6e0) (6, 0xa3014314) (13, 0x4e0811a1) regs;
      regs = md5_quad md5_II (6, 10, 15, 21) x
               (4, 0xf7537e82) (11, 0xbd3af235) (2, 0x2ad7d2bb) (9, 0xeb86d391) regs
      in regs)"

subsection \<open>Bytes and words\<close>

definition md5_encode_word :: "uint4 \<Rightarrow> byte list" where
  "md5_encode_word w =
     [ucast (w AND 0xff), ucast (drop_bit 8 w AND 0xff),
      ucast (drop_bit 16 w AND 0xff), ucast (drop_bit 24 w AND 0xff)]"

definition md5_Encode :: "uint4 list \<Rightarrow> byte list" where
  "md5_Encode src = concat (map md5_encode_word src)"

definition md5_decode_word :: "byte \<Rightarrow> byte \<Rightarrow> byte \<Rightarrow> byte \<Rightarrow> uint4" where
  "md5_decode_word b0 b1 b2 b3 =
     (ucast b0 OR push_bit 8 (ucast b1) OR push_bit 16 (ucast b2) OR push_bit 24 (ucast b3))"

fun md5_Decode :: "byte list \<Rightarrow> uint4 list" where
  "md5_Decode (b0 # b1 # b2 # b3 # bs) = md5_decode_word b0 b1 b2 b3 # md5_Decode bs"
| "md5_Decode _ = []"

definition md5_Transform :: "byte list \<Rightarrow> md5_regs \<Rightarrow> md5_regs" where
  "md5_Transform block st =
     (let (a, b, c, d) = md5_rounds (md5_Decode block) st; (sa, sb, sc, sd) = st
      in (sa + a, sb + b, sc + c, sd + d))"

subsection \<open>Init, Update, Finalize\<close>

definition md5_Init :: "byte list \<Rightarrow> byte list \<Rightarrow> md5" where
  "md5_Init buffer digest =
     \<lparr>m_State = (0x67452301, 0xefcdab89, 0x98badcfe, 0x10325476), m_Count = (0, 0),
      m_Buffer = buffer, m_Digest = digest\<rparr>"

function md5_transform_loop :: "byte list \<Rightarrow> nat \<Rightarrow> md5_regs \<Rightarrow> md5_regs \<times> nat" where
  "md5_transform_loop input i st =
     (if i + 63 < length input
      then md5_transform_loop input (i + 64) (md5_Transform (take 64 (drop i input)) st)
      else (st, i))"
  by pat_completeness auto
termination
  by (relation "measure (\<lambda>(input, i, st). length input - i)") auto

declare md5_transform_loop.simps [simp del]

definition md5_add_count :: "uint4 \<Rightarrow> uint4 \<times> uint4 \<Rightarrow> uint4 \<times> uint4" where
  "md5_add_count n cnt =
     (let (c0, c1) = cnt; c0' = c0 + push_bit 3 n;
          c1' = (if c0' < push_bit 3 n then c1 + 1 else c1)
      in (c0', c1' + drop_bit 29 n))"

definition md5_index :: "md5 \<Rightarrow> nat" where
  "md5_index m = unat (drop_bit 3 (fst (m_Count m)) AND 0x3f)"

definition md5_Update :: "byte list \<Rightarrow> md5 \<Rightarrow> md5" where
  "md5_Update input m =
     (let index = md5_index m;
          m = m\<lparr>m_Count := md5_add_count (of_nat (length input)) (m_Count m)\<rparr>;
          partLen = 64 - index
      in if partLen \<le> length input
         then let buf = memcpy_at (m_Buffer m) index (take partLen input);
                  (st, i) = md5_transform_loop input partLen (md5_Transform buf (m_State m))
              in m\<lparr>m_State := st, m_Buffer := memcpy_at buf 0 (drop i input)\<rparr>
         else m\<lparr>m_Buffer := memcpy_at (m_Buffer m) index input\<rparr>)"

definition md5_PADDING :: "byte list" where
  "md5_PADDING = 0x80 # replicate 63 0"

definition regs_list :: "md5_regs \<Rightarrow> uint4 list" where
  "regs_list r = (case r of (a, b, c, d) \<Rightarrow> [a, b, c, d])"

definition md5_Finalize :: "md5 \<Rightarrow> md5" where
  "md5_Finalize m =
     (let bits = md5_Encode [fst (m_Count m), snd (m_Count m)];
          index = md5_index m;
          padLen = (if index < 56 then 56 - index else 120 - index);
          m = md5_Update (take padLen md5_PADDING) m;
          m = md5_Update bits m
      in m\<lparr>m_Digest := md5_Encode (regs_list (m_State m)),
           m_Count := (0, 0), m_State := (0, 0, 0, 0), m_Buffer := replicate 64 0\<rparr>)"

definition md5_PrintMD5 :: "byte list \<Rightarrow> string" where
  "md5_PrintMD5 digest = concat (map hex2 digest)"

definition bytes_of :: "string \<Rightarrow> byte list" where
  "bytes_of s = map (\<lambda>c. of_nat (code_of c)) s"

text \<open>\<open>MD5String\<close>, with the initial bytes of the local context as arguments.\<close>

definition MD5String_from :: "byte list \<Rightarrow> byte list \<Rightarrow> string \<Rightarrow> string" where
  "MD5String_from buffer digest s =
     md5_PrintMD5 (m_Digest (md5_Finalize (md5_Update (bytes_of (cstr s)) (md5_Init buffer digest))))"

definition MD5String :: "string \<Rightarrow> string" where
  "MD5String s = MD5String_from (replicate 64 0) (replicate 16 0) s"

subsection \<open>RFC 1321 as a loop\<close>

definition rfc_K :: "uint4 list" where
  "rfc_K =
    [0xd76aa478, 0xe8c7b756, 0x242070db, 0xc1bdceee, 0xf57c0faf, 0x4787c62a,
     0xa8304613, 0xfd469501, 0x698098d8, 0x8b44f7af, 0xffff5bb1, 0x895cd7be,
     0x6b901122, 0xfd987193, 0xa679438e, 0x49b40821, 0xf61e2562, 0xc040b340,
     0x265e5a51, 0xe9b6c7aa, 0xd62f105d, 0x02441453, 0xd8a1e681, 0xe7d3fbc8,
     0x21e1cde6, 0xc33707d6, 0xf4d50d87, 0x455a14ed, 0xa9e3e905, 0xfcefa3f8,
     0x676f02d9, 0x8d2a4c8a, 0xfffa3942, 0x8771f681, 0x6d9d6122, 0xfde5380c,
     0xa4beea44, 0x4bdecfa9, 0xf6bb4b60, 0xbebfbc70, 0x289b7ec6, 0xeaa127fa,
     0xd4ef3085, 0x04881d05, 0xd9d4d039, 0xe6db99e5, 0x1fa27cf8, 0xc4ac5665,
     0xf4292244, 0x432aff97, 0xab9423a7, 0xfc93a039, 0x655b59c3, 0x8f0ccc92,
     0xffeff47d, 0x85845dd1, 0x6fa87e4f, 0xfe2ce6e0, 0xa3014314, 0x4e0811a1,
     0xf7537e82, 0xbd3af235, 0x2ad7d2bb, 0xeb86d391]"

definition rfc_S :: "nat list list" where
  "rfc_S = [[7, 12, 17, 22], [5, 9, 14, 20], [4, 11, 16, 23], [6, 10, 15, 21]]"

definition rfc_fun :: "nat \<Rightarrow> uint4 \<Rightarrow> uint4 \<Rightarrow> uint4 \<Rightarrow> uint4" where
  "rfc_fun r b c d =
     (if r = 0 then (b AND c) OR (NOT b AND d)
      else if r = 1 then (b AND d) OR (c AND NOT d)
      else if r = 2 then b XOR c XOR d
      else c XOR (b OR NOT d))"

definition rfc_word :: "nat \<Rightarrow> nat" where
  "rfc_word i =
     (let r = i div 16
      in if r = 0 then i else if r = 1 then (5 * i + 1) mod 16
         else if r = 2 then (3 * i + 5) mod 16 else 7 * i mod 16)"

definition rfc_step :: "uint4 list \<Rightarrow> nat \<Rightarrow> md5_regs \<Rightarrow> md5_regs" where
  "rfc_step x i regs =
     (case regs of (a, b, c, d) \<Rightarrow>
        (d, b + word_rotl (rfc_S ! (i div 16) ! (i mod 4))
               (a + rfc_fun (i div 16) b c d + x ! rfc_word i + rfc_K ! i), b, c))"

definition rfc_compress :: "uint4 list \<Rightarrow> md5_regs \<Rightarrow> md5_regs" where
  "rfc_compress x st =
     (let (a, b, c, d) = fold (rfc_step x) [0..<64] st; (sa, sb, sc, sd) = st
      in (sa + a, sb + b, sc + c, sd + d))"

function rfc_absorb :: "byte list \<Rightarrow> md5_regs \<Rightarrow> md5_regs" where
  "rfc_absorb msg st =
     (if length msg < 64 then st
      else rfc_absorb (drop 64 msg) (rfc_compress (md5_Decode (take 64 msg)) st))"
  by pat_completeness auto
termination
  by (relation "measure (\<lambda>(msg, st). length msg)") auto

declare rfc_absorb.simps [simp del]

definition rfc_pad :: "byte list \<Rightarrow> byte list" where
  "rfc_pad msg =
     msg @ 0x80 # replicate ((119 - length msg mod 64) mod 64) 0
     @ md5_Encode [of_nat (8 * length msg), of_nat (8 * length msg div 2 ^ 32)]"

definition rfc_md5 :: "byte list \<Rightarrow> byte list" where
  "rfc_md5 msg =
     md5_Encode (regs_list (rfc_absorb (rfc_pad msg) (0x67452301, 0xefcdab89, 0x98badcfe, 0x10325476)))"

end
