(* ===== verification/Md5_Correct.thy ===== *)
theory Md5_Correct
  imports Md5
begin

unbundle bit_operations_syntax

section \<open>The MD5 class computes RFC 1321\<close>

text \<open>
  The unrolled rounds are the 64 steps of the RFC; a context represents the bytes it has
  been given (\<open>md5_rep\<close>), \<open>Update\<close> appends to them, and \<open>Finalize\<close> yields the digest of
  what is represented. Hence the digest depends neither on how the input is cut into
  calls nor on the uninitialised bytes of the context.
\<close>

subsection \<open>One block\<close>

lemma rotate_left_rotl:
  assumes "0 < n" "n < 32"
  shows "rotate_left x n = word_rotl n x"
proof (rule bit_word_eqI)
  fix k assume "k < LENGTH(32)"
  then have k: "k < 32" by simp
  obtain m where m: "32 - n = m" "n + m = 32" using assms by simp
  have rotl: "bit (word_rotl n x) k = bit x ((k + m) mod 32)"
    using assms k m(1) by (simp add: bit_word_rotl_iff)
  have left: "bit (rotate_left x n) k = (n \<le> k \<and> bit x (k - n) \<or> bit x (m + k))"
    unfolding rotate_left_def m(1) using k by (auto simp: bit_simps)
  show "bit (rotate_left x n) k = bit (word_rotl n x) k"
  proof (cases "n \<le> k")
    case True
    with m(2) have "k + m = (k - n) + 32" by simp
    then have "(k + m) mod 32 = (k - n) mod 32" by (simp only: mod_add_self2)
    then have "(k + m) mod 32 = k - n" using k by simp
    moreover have "\<not> bit x (m + k)" using True m(2) bit_imp_le_length[of x "m + k"] by auto
    ultimately show ?thesis using True rotl left by simp
  next
    case False
    then have "(k + m) mod 32 = k + m" using m(2) by simp
    then show ?thesis using False rotl left by (simp add: add.commute)
  qed
qed

lemmas md5_step_defs = md5_FF_def md5_GG_def md5_HH_def md5_II_def md5_F_def md5_G_def md5_H_def
  md5_I_def rfc_fun_def

text \<open>Four lines of \<open>Transform\<close> are four steps of the loop.\<close>

lemma rfc_step_line:
  assumes "\<And>a b c d y s ac. 0 < s \<Longrightarrow> s < 32 \<Longrightarrow>
             f a b c d y s ac = b + word_rotl s (a + rfc_fun r b c d + y + ac)"
    and "i div 16 = r" "rfc_S ! r ! (i mod 4) = s" "0 < s" "s < 32" "(w, k) = (rfc_word i, rfc_K ! i)"
  shows "rfc_step x i (a, b, c, d) = (d, f a b c d (x ! w) s k, b, c)"
  using assms by (simp add: rfc_step_def)

lemma md5_quad_steps:
  assumes f: "\<And>a b c d y s ac. 0 < s \<Longrightarrow> s < 32 \<Longrightarrow>
             f a b c d y s ac = b + word_rotl s (a + rfc_fun (i div 16) b c d + y + ac)"
    and s: "0 < s1" "s1 < 32" "0 < s2" "s2 < 32" "0 < s3" "s3 < 32" "0 < s4" "s4 < 32"
    and i: "i mod 4 = 0"
    and S: "rfc_S ! (i div 16) = [s1, s2, s3, s4]"
    and wk: "(w1, k1) = (rfc_word i, rfc_K ! i)" "(w2, k2) = (rfc_word (i + 1), rfc_K ! (i + 1))"
      "(w3, k3) = (rfc_word (i + 2), rfc_K ! (i + 2))" "(w4, k4) = (rfc_word (i + 3), rfc_K ! (i + 3))"
  shows "md5_quad f (s1, s2, s3, s4) x (w1, k1) (w2, k2) (w3, k3) (w4, k4) regs =
         fold (rfc_step x) [i, i + 1, i + 2, i + 3] regs"
proof -
  obtain j where j: "i = 4 * j" using i by (auto simp: mod_eq_0_iff_dvd elim: dvdE)
  have dj: "(4 * j + k) div 16 = j div 4" if "k < 4" for k
    using that by (simp add: div_mult2_eq[of _ 4 4, simplified])
  have d: "(i + 1) div 16 = i div 16" "(i + 2) div 16 = i div 16" "(i + 3) div 16 = i div 16"
    using dj[of 0] dj[of 1] dj[of 2] dj[of 3] by (simp_all add: j)
  have m: "(i + 1) mod 4 = 1" "(i + 2) mod 4 = 2" "(i + 3) mod 4 = 3"
    using i by presburger+
  note line = rfc_step_line[where f = f and r = "i div 16", OF f]
  have l1: "rfc_step x i (a, b, c, d) = (d, f a b c d (x ! w1) s1 k1, b, c)" for a b c d
    by (rule line) (use s i S wk in auto)
  have l2: "rfc_step x (i + 1) (a, b, c, d) = (d, f a b c d (x ! w2) s2 k2, b, c)" for a b c d
    by (rule line) (use s m S wk d in auto)
  have l3: "rfc_step x (i + 2) (a, b, c, d) = (d, f a b c d (x ! w3) s3 k3, b, c)" for a b c d
    by (rule line) (use s m S wk d in auto)
  have l4: "rfc_step x (i + 3) (a, b, c, d) = (d, f a b c d (x ! w4) s4 k4, b, c)" for a b c d
    by (rule line) (use s m S wk d in auto)
  show ?thesis
    by (cases regs) (simp only: md5_quad_def Let_def prod.case fst_conv snd_conv fold.simps
        o_apply id_apply l1 l2 l3 l4)
qed

lemma md5_step_rfc:
  assumes "0 < s" "s < 32"
  shows "i div 16 = 0 \<Longrightarrow> md5_FF a b c d y s ac = b + word_rotl s (a + rfc_fun (i div 16) b c d + y + ac)"
    and "i div 16 = 1 \<Longrightarrow> md5_GG a b c d y s ac = b + word_rotl s (a + rfc_fun (i div 16) b c d + y + ac)"
    and "i div 16 = 2 \<Longrightarrow> md5_HH a b c d y s ac = b + word_rotl s (a + rfc_fun (i div 16) b c d + y + ac)"
    and "i div 16 = 3 \<Longrightarrow> md5_II a b c d y s ac = b + word_rotl s (a + rfc_fun (i div 16) b c d + y + ac)"
  using assms by (simp_all add: md5_step_defs rotate_left_rotl algebra_simps xor.assoc)

lemma md5_rounds_fold: "md5_rounds x regs = fold (rfc_step x) [0..<64] regs"
proof -
  have q: "md5_quad f (s1, s2, s3, s4) x (w1, k1) (w2, k2) (w3, k3) (w4, k4) r =
           fold (rfc_step x) [i, i + 1, i + 2, i + 3] r"
    if "f = [md5_FF, md5_GG, md5_HH, md5_II] ! (i div 16)" "i < 64" "i mod 4 = 0"
      "rfc_S ! (i div 16) = [s1, s2, s3, s4]" "set [s1, s2, s3, s4] \<subseteq> {1..31}"
      "(w1, k1) = (rfc_word i, rfc_K ! i)" "(w2, k2) = (rfc_word (i + 1), rfc_K ! (i + 1))"
      "(w3, k3) = (rfc_word (i + 2), rfc_K ! (i + 2))" "(w4, k4) = (rfc_word (i + 3), rfc_K ! (i + 3))"
    for f i s1 s2 s3 s4 w1 w2 w3 w4 k1 k2 k3 k4 r
  proof (rule md5_quad_steps)
    have "i div 16 \<in> {0, 1, 2, 3}" using that(2) by auto
    then show "f a b c d y s ac = b + word_rotl s (a + rfc_fun (i div 16) b c d + y + ac)"
      if "0 < s" "s < 32" for a b c d y s ac
      using md5_step_rfc[OF that, of i] \<open>f = _\<close> by (auto simp del: One_nat_def)
  qed (use that in auto)
  have "[0..<64] = 0 # 1 # [2..<64]" by (simp add: upt_conv_Cons)
  then have upt: "fold (rfc_step x) [0..<64] regs = fold (rfc_step x) (0 # 1 # [2..<64]) regs"
    by (simp only:)
  show ?thesis
    unfolding md5_rounds_def Let_def upt
    by (simp add: q[where i = 0] q[where i = 4] q[where i = 8] q[where i = 12]
        q[where i = 16] q[where i = 20] q[where i = 24] q[where i = 28]
        q[where i = 32] q[where i = 36] q[where i = 40] q[where i = 44]
        q[where i = 48] q[where i = 52] q[where i = 56] q[where i = 60]
        rfc_K_def rfc_S_def rfc_word_def upt_rec_numeral flip: numeral_2_eq_2)
qed

lemma md5_Transform_rfc: "md5_Transform block st = rfc_compress (md5_Decode block) st"
  by (simp add: md5_Transform_def rfc_compress_def md5_rounds_fold)

subsection \<open>Many blocks\<close>

lemma rfc_absorb_short: "length msg < 64 \<Longrightarrow> rfc_absorb msg st = st"
  by (simp add: rfc_absorb.simps)

lemma rfc_absorb_block:
  "length b = 64 \<Longrightarrow> rfc_absorb (b @ msg) st = rfc_absorb msg (md5_Transform b st)"
  by (simp add: rfc_absorb.simps[of "b @ msg"] md5_Transform_rfc)

lemma rfc_absorb_append:
  "64 dvd length a \<Longrightarrow> rfc_absorb (a @ b) st = rfc_absorb b (rfc_absorb a st)"
proof (induction a st rule: rfc_absorb.induct)
  case (1 a st)
  show ?case
  proof (cases "length a < 64")
    case True
    with "1.prems" have "length a = 0" by (auto elim!: dvdE)
    then show ?thesis by (simp add: rfc_absorb_short)
  next
    case False
    with "1.prems" have "64 dvd length (drop 64 a)" by (simp add: dvd_diff_nat)
    with 1 False show ?thesis
      by (simp add: rfc_absorb.simps[of "a @ b"] rfc_absorb.simps[of a])
  qed
qed

lemma md5_transform_loop_eq:
  "i \<le> length input \<Longrightarrow> md5_transform_loop input i st =
     (rfc_absorb (drop i input) st, i + 64 * ((length input - i) div 64))"
proof (induction input i st rule: md5_transform_loop.induct)
  case (1 input i st)
  show ?case
  proof (cases "i + 63 < length input")
    case True
    have len: "(length input - i) div 64 = Suc ((length input - (i + 64)) div 64)"
      using True by (subst div_if) (auto simp: add.commute)
    have blk: "drop i input = take 64 (drop i input) @ drop (i + 64) input"
      by (metis append_take_drop_id drop_drop add.commute)
    have "rfc_absorb (drop i input) st =
          rfc_absorb (drop (i + 64) input) (md5_Transform (take 64 (drop i input)) st)"
      by (subst blk, rule rfc_absorb_block) (use True in simp)
    moreover have "i + 64 \<le> length input" using True by simp
    ultimately show ?thesis
      using True 1 len by (simp add: md5_transform_loop.simps[of input i])
  next
    case False
    then have "(length input - i) div 64 = 0" by simp
    with False show ?thesis by (simp add: md5_transform_loop.simps[of input i] rfc_absorb_short)
  qed
qed

subsection \<open>What a context represents\<close>

definition md5_start :: md5_regs where
  "md5_start = (0x67452301, 0xefcdab89, 0x98badcfe, 0x10325476)"

definition md5_tail :: "'a list \<Rightarrow> 'a list" where
  "md5_tail msg = drop (64 * (length msg div 64)) msg"

definition md5_rep :: "md5 \<Rightarrow> byte list \<Rightarrow> bool" where
  "md5_rep m msg \<longleftrightarrow>
     m_State m = rfc_absorb msg md5_start \<and>
     length (m_Buffer m) = 64 \<and>
     take (length msg mod 64) (m_Buffer m) = md5_tail msg \<and>
     m_Count m = (of_nat (8 * length msg), of_nat (8 * length msg div 2 ^ 32))"

lemma length_md5_tail [simp]: "length (md5_tail msg) = length msg mod 64"
  by (simp add: md5_tail_def minus_mult_div_eq_mod)

lemma md5_tail_append: "64 dvd length a \<Longrightarrow> md5_tail (a @ b) = md5_tail b"
  by (auto simp: md5_tail_def elim!: dvdE)

lemma md5_tail_short: "length a < 64 \<Longrightarrow> md5_tail a = a"
  by (simp add: md5_tail_def)

text \<open>A message is its whole blocks and its tail.\<close>

lemma md5_split: "\<exists>a. msg = a @ md5_tail msg \<and> 64 dvd length a"
proof -
  have "64 * (length msg div 64) \<le> length msg" by simp
  then have "64 dvd length (take (64 * (length msg div 64)) msg)" by (simp add: min_absorb2)
  then show ?thesis unfolding md5_tail_def by (metis append_take_drop_id)
qed

lemma rfc_absorb_tail:
  "64 dvd length a \<Longrightarrow> length t < 64 \<Longrightarrow> rfc_absorb (a @ t) st = rfc_absorb a st"
  by (simp add: rfc_absorb_append rfc_absorb_short)

lemma md5_rep_Init: "length buffer = 64 \<Longrightarrow> md5_rep (md5_Init buffer digest) []"
  by (simp add: md5_rep_def md5_Init_def md5_start_def md5_tail_def rfc_absorb_short)

lemma push_bit_3_of_nat: "push_bit 3 (of_nat n :: uint4) = of_nat (8 * n)"
  by (simp add: push_bit_eq_mult)

lemma md5_add_count_of_nat:
  assumes "n < 2 ^ 32"
  shows "md5_add_count (of_nat n) (of_nat (8 * k), of_nat (8 * k div 2 ^ 32)) =
         (of_nat (8 * (k + n)), of_nat (8 * (k + n) div 2 ^ 32))"
proof -
  let ?W = "2 ^ 32 :: nat"
  have c0: "of_nat (8 * k) + push_bit 3 (of_nat n :: uint4) = of_nat (8 * (k + n))"
    by (simp add: push_bit_3_of_nat distrib_left)
  have u: "unat (of_nat x :: uint4) = x mod ?W" for x by (simp add: unat_of_nat)
  have hi: "drop_bit 29 (of_nat n :: uint4) = of_nat (8 * n div ?W)"
  proof (rule word_unat_eq_iff[THEN iffD2])
    have "unat (drop_bit 29 (of_nat n :: uint4)) = n div 2 ^ 29"
      using assms by (simp add: drop_bit_eq_div unat_div u)
    moreover have "8 * n div ?W = n div 2 ^ 29" by (simp add: div_mult_mult1[of 8 n "2 ^ 29", simplified])
    moreover have "n div 2 ^ 29 < ?W" using assms by (simp add: div_le_dividend le_less_trans)
    ultimately show "unat (drop_bit 29 (of_nat n :: uint4)) = unat (of_nat (8 * n div ?W) :: uint4)"
      by (simp add: u)
  qed
  have carry: "(of_nat (8 * (k + n)) :: uint4) < of_nat (8 * n) \<longleftrightarrow> ?W \<le> 8 * k mod ?W + 8 * n mod ?W"
  proof -
    have a: "8 * (k + n) mod ?W = (8 * k mod ?W + 8 * n mod ?W) mod ?W"
      by (simp add: distrib_left mod_add_eq)
    have b: "8 * k mod ?W < ?W" "8 * n mod ?W < ?W" by simp_all
    have "(x + y) mod ?W < y \<longleftrightarrow> ?W \<le> x + y" if "x < ?W" "y < ?W" for x y
    proof (cases "?W \<le> x + y")
      case True
      then have "(x + y) mod ?W = x + y - ?W" using that by (simp add: le_mod_geq)
      then show ?thesis using True that by linarith
    qed simp
    from this[OF b] show ?thesis unfolding word_less_nat_alt u a .
  qed
  have sum: "8 * (k + n) div ?W = 8 * k div ?W + 8 * n div ?W + (if ?W \<le> 8 * k mod ?W + 8 * n mod ?W then 1 else 0)"
  proof -
    have "(8 * k mod ?W + 8 * n mod ?W) div ?W = (if ?W \<le> 8 * k mod ?W + 8 * n mod ?W then 1 else 0)"
      by (auto simp: div_if)
    then show ?thesis by (simp add: distrib_left div_add1_eq[of "8 * k" "8 * n"])
  qed
  show ?thesis
    unfolding md5_add_count_def Let_def prod.case c0
    unfolding push_bit_3_of_nat carry hi sum by simp
qed

lemma md5_index_rep: "md5_rep m msg \<Longrightarrow> md5_index m = length msg mod 64"
proof -
  assume "md5_rep m msg"
  then have c: "fst (m_Count m) = of_nat (8 * length msg)" by (simp add: md5_rep_def)
  have m6: "(0x3f :: uint4) = mask 6" by (simp add: mask_eq_exp_minus_1)
  have d3: "unat (drop_bit 3 (of_nat k :: uint4)) = k mod 2 ^ 32 div 8" for k
    by (simp add: drop_bit_eq_div unat_div unat_of_nat)
  have "unat (drop_bit 3 (of_nat (8 * length msg) :: uint4) AND 0x3f) =
      take_bit 6 (unat (drop_bit 3 (of_nat (8 * length msg) :: uint4)))"
    unfolding m6 take_bit_eq_mask[symmetric] unsigned_take_bit_eq by simp
  also have "\<dots> = 8 * length msg mod 2 ^ 32 div 8 mod 64"
    unfolding d3 by (simp add: take_bit_eq_mod)
  also have "8 * length msg mod 2 ^ 32 div 8 = length msg mod 2 ^ 29"
    by (simp add: mod_mult_mult1[of 8 _ "2 ^ 29", simplified])
  also have "length msg mod 2 ^ 29 mod 64 = length msg mod 64"
    by (rule mod_mod_cancel) (simp add: dvd_def exI[of _ "2 ^ 23"])
  finally show ?thesis using c by (simp add: md5_index_def)
qed

lemma memcpy_at_0: "length buf = 64 \<Longrightarrow> length src \<le> 64 \<Longrightarrow>
    length (memcpy_at buf 0 src) = 64 \<and> take (length src) (memcpy_at buf 0 src) = src"
  by (simp add: memcpy_at_def)

lemma md5_Update_rep:
  assumes rep: "md5_rep m msg" and len: "length input < 2 ^ 32"
  shows "md5_rep (md5_Update input m) (msg @ input)"
proof -
  let ?r = "length msg mod 64"
  obtain a where a: "msg = a @ md5_tail msg" "64 dvd length a" using md5_split by blast
  have idx: "md5_index m = ?r" using rep by (rule md5_index_rep)
  have st: "m_State m = rfc_absorb a md5_start"
    using rep a by (metis md5_rep_def rfc_absorb_tail length_md5_tail mod_less_divisor zero_less_numeral)
  have buf: "length (m_Buffer m) = 64" "take ?r (m_Buffer m) = md5_tail msg"
    using rep by (simp_all add: md5_rep_def)
  have cnt: "md5_add_count (of_nat (length input)) (m_Count m) =
      (of_nat (8 * length (msg @ input)), of_nat (8 * length (msg @ input) div 2 ^ 32))"
    using rep md5_add_count_of_nat[OF len, of "length msg"] by (simp add: md5_rep_def)
  have r: "?r < 64" by simp
  show ?thesis
  proof (cases "64 - ?r \<le> length input")
    case True
    let ?p = "64 - ?r" and ?b = "md5_tail msg @ take (64 - ?r) input"
    have b: "memcpy_at (m_Buffer m) ?r (take ?p input) = ?b" "length ?b = 64"
      using True buf r by (simp_all add: memcpy_at_def)
    let ?rest = "drop ?p input"
    have msg': "msg @ input = (a @ ?b) @ ?rest" using a(1) by (metis append.assoc append_take_drop_id)
    have dvd: "64 dvd length (a @ ?b)" using a(2) b(2) by simp
    have absorb: "rfc_absorb (msg @ input) md5_start = rfc_absorb ?rest (md5_Transform ?b (m_State m))"
      unfolding msg' rfc_absorb_append[OF dvd] rfc_absorb_append[OF a(2)] st
      using rfc_absorb_block[OF b(2), of "[]"] by (simp add: rfc_absorb_short)
    obtain T where T: "T = drop (?p + 64 * (length ?rest div 64)) input" by blast
    have tail: "md5_tail (msg @ input) = T"
      unfolding msg' T md5_tail_append[OF dvd] by (simp add: md5_tail_def add.commute)
    then have tl: "length (msg @ input) mod 64 = length T"
      by (metis length_md5_tail)
    have upd: "md5_Update input m = m\<lparr>m_Count := md5_add_count (of_nat (length input)) (m_Count m),
        m_State := rfc_absorb ?rest (md5_Transform ?b (m_State m)),
        m_Buffer := memcpy_at ?b 0 T\<rparr>"
      using True b(1) by (simp add: md5_Update_def idx Let_def md5_transform_loop_eq T)
    have "length T < 64" using mod_less_divisor[of 64 "length (msg @ input)"] unfolding tl by simp
    then have "length T \<le> 64" by simp
    from memcpy_at_0[OF b(2) this] have buf': "length (memcpy_at ?b 0 T) = 64"
      "take (length T) (memcpy_at ?b 0 T) = T" by auto
    show ?thesis
      unfolding md5_rep_def upd using buf' absorb tail cnt tl
      by (simp del: length_append)
  next
    case False
    then have short: "length (md5_tail msg @ input) < 64" by simp
    have msg': "msg @ input = a @ (md5_tail msg @ input)" using a(1) by (metis append.assoc)
    have tail: "md5_tail (msg @ input) = md5_tail msg @ input"
      unfolding msg' md5_tail_append[OF a(2)] using short by (rule md5_tail_short)
    then have tl: "length (msg @ input) mod 64 = ?r + length input"
      by (metis length_append length_md5_tail)
    have upd: "md5_Update input m = m\<lparr>m_Count := md5_add_count (of_nat (length input)) (m_Count m),
        m_Buffer := memcpy_at (m_Buffer m) ?r input\<rparr>"
      using False by (simp add: md5_Update_def idx Let_def)
    have absorb: "rfc_absorb (msg @ input) md5_start = m_State m"
      unfolding msg' rfc_absorb_tail[OF a(2) short] st ..
    have "length (memcpy_at (m_Buffer m) ?r input) = 64"
      "take (?r + length input) (memcpy_at (m_Buffer m) ?r input) = md5_tail msg @ input"
      using False buf by (simp_all add: memcpy_at_def)
    then show ?thesis
      unfolding md5_rep_def upd using absorb cnt tail tl by (simp del: length_append)
  qed
qed

subsection \<open>The digest\<close>

lemma length_md5_Encode [simp]: "length (md5_Encode ws) = 4 * length ws"
  by (induction ws) (simp_all add: md5_Encode_def md5_encode_word_def)

lemma md5_padding_block:
  assumes "r < 64"
  shows "take (if r < 56 then 56 - r else 120 - r) md5_PADDING = 0x80 # replicate ((119 - r) mod 64) 0"
proof -
  have p: "(if r < 56 then 56 - r else 120 - r) = Suc ((119 - r) mod 64)"
    using assms by (auto simp: mod_if)
  have "(119 - r) mod 64 \<le> 63" using pos_mod_bound[of 64] by (simp add: less_Suc_eq_le[symmetric])
  then show ?thesis unfolding p by (simp add: md5_PADDING_def min_def)
qed

lemma md5_Finalize_digest:
  assumes rep: "md5_rep m msg"
  shows "m_Digest (md5_Finalize m) = rfc_md5 msg"
proof -
  let ?r = "length msg mod 64"
  let ?pad = "0x80 # replicate ((119 - ?r) mod 64) (0 :: byte)"
  let ?bits = "md5_Encode [of_nat (8 * length msg), of_nat (8 * length msg div 2 ^ 32)]"
  have c: "m_Count m = (of_nat (8 * length msg), of_nat (8 * length msg div 2 ^ 32))"
    using rep by (simp add: md5_rep_def)
  have "(119 - ?r) mod 64 < 64" by simp
  then have "length ?pad < 2 ^ 32" by simp
  with rep have "md5_rep (md5_Update ?pad m) (msg @ ?pad)" by (rule md5_Update_rep)
  then have "md5_rep (md5_Update ?bits (md5_Update ?pad m)) ((msg @ ?pad) @ ?bits)"
    by (rule md5_Update_rep) simp
  then have "m_State (md5_Update ?bits (md5_Update ?pad m)) = rfc_absorb (rfc_pad msg) md5_start"
    by (simp add: md5_rep_def rfc_pad_def)
  moreover have "take (if ?r < 56 then 56 - ?r else 120 - ?r) md5_PADDING = ?pad"
    by (rule md5_padding_block) simp
  ultimately show ?thesis
    by (simp add: md5_Finalize_def Let_def md5_index_rep[OF rep] c rfc_md5_def md5_start_def)
qed

lemma md5_fold_Update_rep:
  "md5_rep m msg \<Longrightarrow> \<forall>c \<in> set chunks. length c < 2 ^ 32 \<Longrightarrow>
     md5_rep (fold md5_Update chunks m) (msg @ concat chunks)"
proof (induction chunks arbitrary: m msg)
  case (Cons c cs)
  then have "md5_rep (md5_Update c m) (msg @ c)" by (simp add: md5_Update_rep)
  from Cons.IH[OF this] Cons.prems(2) show ?case by simp
qed simp

lemma md5_chunks_digest:
  assumes "length buffer = 64" "\<forall>c \<in> set chunks. length c < 2 ^ 32"
  shows "m_Digest (md5_Finalize (fold md5_Update chunks (md5_Init buffer digest))) = rfc_md5 (concat chunks)"
  using md5_fold_Update_rep[OF md5_rep_Init[OF assms(1)] assms(2)]
  by (simp add: md5_Finalize_digest)

lemma MD5String_from_rfc:
  assumes "length buffer = 64" "length s < 2 ^ 31"
  shows "MD5String_from buffer digest s = md5_PrintMD5 (rfc_md5 (bytes_of (cstr s)))"
proof -
  have "length (cstr s) \<le> length s" by (simp add: cstr_def length_takeWhile_le)
  then have "length (bytes_of (cstr s)) < 2 ^ 32" using assms(2) by (simp add: bytes_of_def)
  then have "md5_rep (md5_Update (bytes_of (cstr s)) (md5_Init buffer digest)) ([] @ bytes_of (cstr s))"
    by (rule md5_Update_rep[OF md5_rep_Init[OF assms(1)]])
  then show ?thesis by (simp add: MD5String_from_def md5_Finalize_digest)
qed

subsection \<open>Encoding and printing\<close>

lemma md5_decode_encode_word:
  "md5_encode_word w = [b0, b1, b2, b3] \<Longrightarrow> md5_decode_word b0 b1 b2 b3 = w"
proof -
  assume "md5_encode_word w = [b0, b1, b2, b3]"
  then have b: "b0 = ucast (w AND 0xff)" "b1 = ucast (drop_bit 8 w AND 0xff)"
    "b2 = ucast (drop_bit 16 w AND 0xff)" "b3 = ucast (drop_bit 24 w AND 0xff)"
    by (simp_all add: md5_encode_word_def)
  have ff: "(0xff :: uint4) = mask 8" by (simp add: mask_eq_exp_minus_1)
  show ?thesis
    unfolding md5_decode_word_def b ff
  proof (rule bit_word_eqI)
    fix n assume "n < LENGTH(32)"
    then have "n < 32" by simp
    then consider "n < 8" | "8 \<le> n" "n < 16" | "16 \<le> n" "n < 24" | "24 \<le> n" "n < 32" by linarith
    then show "bit ((ucast (ucast (w AND mask 8) :: byte) :: uint4) OR push_bit 8 (ucast (ucast (drop_bit 8 w AND mask 8) :: byte)) OR
          push_bit 16 (ucast (ucast (drop_bit 16 w AND mask 8) :: byte)) OR
          push_bit 24 (ucast (ucast (drop_bit 24 w AND mask 8) :: byte))) n = bit w n"
      by cases (auto simp: bit_simps)
  qed
qed

lemma md5_Decode_Encode: "md5_Decode (md5_Encode ws) = ws"
proof (induction ws)
  case (Cons w ws)
  obtain b0 b1 b2 b3 where b: "md5_encode_word w = [b0, b1, b2, b3]" by (simp add: md5_encode_word_def)
  with Cons show ?case using md5_decode_encode_word[OF b] by (simp add: md5_Encode_def)
qed (simp add: md5_Encode_def)

lemma length_md5_PrintMD5 [simp]: "length (md5_PrintMD5 ds) = 2 * length ds"
  by (induction ds) (simp_all add: md5_PrintMD5_def)

definition is_hex_lower :: "char \<Rightarrow> bool" where
  "is_hex_lower c \<longleftrightarrow> isdigit c \<or> (97 \<le> code_of c \<and> code_of c \<le> 102)"

lemma hex_digit_chars: "d < 16 \<Longrightarrow> is_hex_lower (hex_digit d)"
  by (simp add: hex_digit_def is_hex_lower_def isdigit_def)

lemma md5_PrintMD5_chars: "c \<in> set (md5_PrintMD5 ds) \<Longrightarrow> is_hex_lower c"
proof -
  have "unat (b :: byte) div 16 < 16" for b
  proof -
    have "unat b < 2 ^ LENGTH(8)" by (rule unsigned_less)
    then show ?thesis by simp
  qed
  then show "c \<in> set (md5_PrintMD5 ds) \<Longrightarrow> is_hex_lower c"
    by (auto simp: md5_PrintMD5_def hex2_def hex_digit_chars)
qed

lemma length_rfc_md5 [simp]: "length (rfc_md5 msg) = 16"
  by (simp add: rfc_md5_def regs_list_def split: prod.split)

lemma MD5String_shape:
  "length (MD5String s) = 32 \<and> (\<forall>c \<in> set (MD5String s). is_hex_lower c)"
proof -
  have "length (m_Digest (md5_Finalize m)) = 16" for m
    by (simp add: md5_Finalize_def Let_def regs_list_def split: prod.split)
  then show ?thesis by (auto simp: MD5String_def MD5String_from_def md5_PrintMD5_chars)
qed

end
