(* ===== verification/Params.thy ===== *)
theory Params
  imports Md5_Correct "HOL-Library.Multiset" "HOL-Library.Char_ord" "HOL-Library.List_Lexorder"
begin

section \<open>parameter.cpp: request parameters and their signature\<close>

text \<open>
  A \<open>std::map<string, string>\<close> is the list of its entries in iteration order: strictly
  increasing in the byte-wise lexicographic order. \<open>Parameter\<close> of \<open>okcoin_client\<close> is
  modelled here; the class \<open>CUriParameter\<close> of the REST client (theory \<open>Uris\<close>) keeps the same
  map. What a store of parameters promises is the locale \<open>param_store\<close>.
\<close>

type_synonym str_map = "(string \<times> string) list"

text \<open>\<open>m[k] = v\<close>.\<close>

fun map_put :: "string \<Rightarrow> string \<Rightarrow> str_map \<Rightarrow> str_map" where
  "map_put k v [] = [(k, v)]"
| "map_put k v ((k', v') # m) =
     (if k < k' then (k, v) # (k', v') # m
      else if k = k' then (k, v) # m
      else (k', v') # map_put k v m)"

definition map_sorted :: "str_map \<Rightarrow> bool" where
  "map_sorted m \<longleftrightarrow> sorted_wrt (<) (map fst m)"

subsection \<open>class Parameter\<close>

type_synonym parameter = str_map

definition param_Clear :: "parameter \<Rightarrow> parameter" where
  "param_Clear p = []"

text \<open>The arguments are \<open>const char*\<close>: bytes after a NUL are not seen.\<close>

definition param_Add :: "string \<Rightarrow> string \<Rightarrow> parameter \<Rightarrow> parameter" where
  "param_Add name value p = map_put (cstr name) (cstr value) p"

definition param_AddNoEncode :: "string \<Rightarrow> string \<Rightarrow> parameter \<Rightarrow> parameter" where
  "param_AddNoEncode name value p = map_put (cstr name) (cstr value) p"

text \<open>\<open>AddParam(const string&, const string&)\<close> ignores an empty value; the overload on
  \<open>const char*\<close> does not.\<close>

definition param_AddParam :: "string \<Rightarrow> string \<Rightarrow> parameter \<Rightarrow> parameter" where
  "param_AddParam strName strValue p =
     (if strValue \<noteq> [] then param_Add strName strValue p else p)"

definition param_AddParam_cstr :: "string \<Rightarrow> string \<Rightarrow> parameter \<Rightarrow> parameter" where
  "param_AddParam_cstr szName szValue p = param_Add szName szValue p"

fun param_ToString :: "parameter \<Rightarrow> string" where
  "param_ToString [] = []"
| "param_ToString [(k, v)] = k @ ''='' @ v"
| "param_ToString ((k, v) # it) = k @ ''='' @ v @ ''&'' @ param_ToString it"

fun param_ToJsonString :: "parameter \<Rightarrow> string" where
  "param_ToJsonString [] = []"
| "param_ToJsonString [(k, v)] = [quote] @ k @ [quote] @ '':'' @ [quote] @ v @ [quote]"
| "param_ToJsonString ((k, v) # it) =
     [quote] @ k @ [quote] @ '':'' @ [quote] @ v @ [quote] @ '','' @ param_ToJsonString it"

fun param_Get :: "string \<Rightarrow> parameter \<Rightarrow> string" where
  "param_Get name [] = []"
| "param_Get name ((k, v) # it) = (if k = name then v else param_Get name it)"

fun param_GetArray :: "string \<Rightarrow> parameter \<Rightarrow> string list" where
  "param_GetArray name [] = []"
| "param_GetArray name ((k, v) # it) =
     (if k = name then v # param_GetArray name it else param_GetArray name it)"

definition param_GetSign :: "string \<Rightarrow> parameter \<Rightarrow> string" where
  "param_GetSign secret_key p =
     map toupper (MD5String (param_ToString p @ ''&secret_key='' @ secret_key))"

subsection \<open>The map\<close>

lemma map_of_map_put: "map_of (map_put k v m) = (map_of m)(k \<mapsto> v)"
  by (induction k v m rule: map_put.induct) auto

lemma fst_map_put: "fst ` set (map_put k v m) = insert k (fst ` set m)"
  by (induction k v m rule: map_put.induct) auto

lemma map_sorted_put: "map_sorted m \<Longrightarrow> map_sorted (map_put k v m)"
proof (induction k v m rule: map_put.induct)
  case (2 k v k' v' m)
  then show ?case
    using fst_map_put[of k v m] unfolding map_sorted_def
    by (fastforce dest: less_trans simp: image_iff)
qed (simp add: map_sorted_def)

lemma map_sorted_distinct: "map_sorted m \<Longrightarrow> distinct (map fst m)"
  unfolding map_sorted_def by (simp add: strict_sorted_iff)

lemma map_of_entries: "distinct (map fst m) \<Longrightarrow> map (\<lambda>k. (k, the (map_of m k))) (map fst m) = m"
  by (auto simp: o_def intro!: map_idI dest: map_of_is_SomeI)

text \<open>The iteration order is determined by the contents.\<close>

lemma map_sorted_unique:
  assumes "map_sorted m" "map_sorted m'" "map_of m = map_of m'"
  shows "m = m'"
proof -
  have d: "distinct (map fst m)" "distinct (map fst m')" using assms map_sorted_distinct by auto
  have "set (map fst m) = dom (map_of m)" "set (map fst m') = dom (map_of m')"
    by (simp_all add: dom_map_of_conv_image_fst)
  then have "set (map fst m) = set (map fst m')" using assms(3) by simp
  then have "map fst m = map fst m'"
    using assms(1,2) unfolding map_sorted_def by (metis strict_sorted_equal)
  then show ?thesis using map_of_entries[OF d(1)] map_of_entries[OF d(2)] assms(3) by metis
qed

lemma param_Get_map_of: "param_Get name p = (case map_of p name of None \<Rightarrow> [] | Some v \<Rightarrow> v)"
  by (induction name p rule: param_Get.induct) auto

lemma param_GetArray_map_of:
  "distinct (map fst p) \<Longrightarrow>
     param_GetArray name p = (case map_of p name of None \<Rightarrow> [] | Some v \<Rightarrow> [v])"
proof (induction name p rule: param_GetArray.induct)
  case (2 name k v it)
  then show ?case by (cases "map_of it name") (auto dest: map_of_SomeD simp: image_iff)
qed simp

subsection \<open>The contract of a store of parameters\<close>

locale param_store =
  fixes empty :: "'p"
    and put :: "string \<Rightarrow> string \<Rightarrow> 'p \<Rightarrow> 'p"
    and entries :: "'p \<Rightarrow> str_map"
  assumes entries_empty: "entries empty = []"
    and entries_sorted: "map_sorted (entries p) \<Longrightarrow> map_sorted (entries (put k v p))"
    and entries_put: "map_of (entries (put k v p)) = (map_of (entries p))(cstr k \<mapsto> cstr v)"
begin

definition put_all :: "(string \<times> string) list \<Rightarrow> 'p \<Rightarrow> 'p" where
  "put_all kvs p = fold (\<lambda>(k, v). put k v) kvs p"

lemma put_all_sorted: "map_sorted (entries p) \<Longrightarrow> map_sorted (entries (put_all kvs p))"
  unfolding put_all_def by (induction kvs arbitrary: p) (auto intro: entries_sorted)

lemma put_all_map_of:
  "map_of (entries (put_all kvs p)) =
     map_of (entries p) ++ map_of (rev (map (map_prod cstr cstr) kvs))"
  unfolding put_all_def
proof (induction kvs arbitrary: p)
  case (Cons kv kvs)
  then show ?case
    by (cases kv) (auto simp: entries_put fun_eq_iff map_add_def split: option.splits)
qed simp

text \<open>The order in which distinct parameters are added does not matter.\<close>

lemma put_all_perm:
  assumes "distinct (map (cstr \<circ> fst) kvs)" "mset kvs = mset kvs'"
  shows "entries (put_all kvs empty) = entries (put_all kvs' empty)"
proof (rule map_sorted_unique)
  have sorted: "map_sorted (entries empty)" by (simp add: entries_empty map_sorted_def)
  then show "map_sorted (entries (put_all kvs empty))" "map_sorted (entries (put_all kvs' empty))"
    by (auto intro: put_all_sorted)
  let ?c = "map (map_prod cstr cstr)"
  have "distinct (map (cstr \<circ> fst) kvs')"
    using assms by (metis mset_map mset_eq_imp_distinct_iff)
  then have "distinct (map fst (rev (?c kvs')))" "distinct (map fst (rev (?c kvs)))"
    using assms(1) by (simp_all add: o_def fst_map_prod[unfolded o_def] rev_map[symmetric])
  moreover have "set (rev (?c kvs)) = set (rev (?c kvs'))"
    using mset_eq_setD[OF assms(2)] by simp
  ultimately have "map_of (rev (?c kvs)) = map_of (rev (?c kvs'))"
    using map_of_inject_set by blast
  then show "map_of (entries (put_all kvs empty)) = map_of (entries (put_all kvs' empty))"
    by (simp add: put_all_map_of)
qed

end

interpretation par: param_store "[]" param_Add "\<lambda>p. p"
  by unfold_locales (simp_all add: param_Add_def map_sorted_put map_of_map_put)

subsection \<open>What is signed\<close>

text \<open>Reading a query string back: split at the ampersands, then at the first equals sign.\<close>

fun split_amp :: "string \<Rightarrow> string list" where
  "split_amp [] = [[]]"
| "split_amp (c # s) =
     (if c = CHR ''&'' then [] # split_amp s
      else (case split_amp s of [] \<Rightarrow> [[c]] | seg # segs \<Rightarrow> (c # seg) # segs))"

definition split_eq :: "string \<Rightarrow> string \<times> string" where
  "split_eq seg = (takeWhile (\<lambda>c. c \<noteq> CHR ''='') seg, tl (dropWhile (\<lambda>c. c \<noteq> CHR ''='') seg))"

definition parse_params :: "string \<Rightarrow> str_map" where
  "parse_params s = (if s = [] then [] else map split_eq (split_amp s))"

definition clean_entry :: "string \<times> string \<Rightarrow> bool" where
  "clean_entry kv \<longleftrightarrow>
     CHR ''='' \<notin> set (fst kv) \<and> CHR ''&'' \<notin> set (fst kv) \<and> CHR ''&'' \<notin> set (snd kv)"

lemma split_amp_not_Nil [simp]: "split_amp s \<noteq> []"
  by (cases s) (auto split: list.split)

lemma split_amp_clean: "CHR ''&'' \<notin> set s \<Longrightarrow> split_amp s = [s]"
  by (induction s) auto

lemma split_amp_append: "CHR ''&'' \<notin> set s \<Longrightarrow> split_amp (s @ CHR ''&'' # t) = s # split_amp t"
  by (induction s) auto

lemma split_eq_entry: "CHR ''='' \<notin> set k \<Longrightarrow> split_eq (k @ CHR ''='' # v) = (k, v)"
proof -
  assume "CHR ''='' \<notin> set k"
  then have *: "\<And>c. c \<in> set k \<Longrightarrow> c \<noteq> CHR ''=''" by auto
  then show ?thesis
    by (simp add: split_eq_def takeWhile_append_all[OF *] dropWhile_append_all[OF *])
qed

lemma split_amp_ToString:
  "list_all clean_entry p \<Longrightarrow> p \<noteq> [] \<Longrightarrow> map split_eq (split_amp (param_ToString p)) = p"
proof (induction p rule: param_ToString.induct)
  case (2 k v)
  then show ?case by (simp add: clean_entry_def split_amp_clean split_eq_entry)
next
  case (3 k v e it)
  have "CHR ''&'' \<notin> set (k @ CHR ''='' # v)" using 3 by (simp add: clean_entry_def)
  from split_amp_append[OF this, of "param_ToString (e # it)"] 3 show ?case
    by (simp add: clean_entry_def split_eq_entry)
qed simp

lemma param_ToString_not_Nil: "p \<noteq> [] \<Longrightarrow> param_ToString p \<noteq> []"
  by (cases p rule: param_ToString.cases) auto

lemma parse_ToString: "list_all clean_entry p \<Longrightarrow> parse_params (param_ToString p) = p"
  using split_amp_ToString param_ToString_not_Nil by (cases "p = []") (auto simp: parse_params_def)

definition is_hex_upper :: "char \<Rightarrow> bool" where
  "is_hex_upper c \<longleftrightarrow> isdigit c \<or> (65 \<le> code_of c \<and> code_of c \<le> 70)"

lemma toupper_hex: "is_hex_lower c \<Longrightarrow> is_hex_upper (toupper c)"
  by (auto simp: is_hex_lower_def is_hex_upper_def toupper_def islower_def isdigit_def)

lemma param_GetSign_shape:
  "length (param_GetSign key p) = 32 \<and> (\<forall>c \<in> set (param_GetSign key p). is_hex_upper c)"
  using MD5String_shape by (auto simp: param_GetSign_def intro: toupper_hex)

lemma is_hex_upper_clean: "is_hex_upper c \<Longrightarrow> c \<noteq> CHR 0x00 \<and> c \<noteq> CHR ''&'' \<and> c \<noteq> quote"
  by (auto simp: is_hex_upper_def isdigit_def)

lemma param_GetSign_no_nul [simp]: "no_nul (param_GetSign key p)"
  using param_GetSign_shape is_hex_upper_clean unfolding no_nul_def by blast

lemma param_GetSign_not_Nil [simp]: "param_GetSign key p \<noteq> []"
  using param_GetSign_shape[of key p] by auto

end
