(* ===== verification/Websocket_Api.thy ===== *)
theory Websocket_Api
  imports World Params
begin

section \<open>okcoin\_client/okcoinwebsocketapi and the callbacks of okbot.cpp\<close>

text \<open>
  The API object, its connection thread \<open>RunThread\<close>, the requests of the two sites, and the
  callbacks of \<open>okbot.cpp\<close> that the connection thread runs. \<open>deliver\<close> is the effect of one
  event of the environment; \<open>pop_wait\<close> and \<open>pop_timed\<close> are \<open>Queue::pop\<close> of a queue of the
  pipeline run against the environment.
\<close>

definition URL_CN :: string where
  "URL_CN = ''wss://real.okcoin.cn:10440/websocket/okcoinapi''"

definition URL_COM :: string where
  "URL_COM = ''wss://real.okcoin.com:10440/websocket/okcoinapi''"

text \<open>The constructor \<open>OKCoinWebSocketApi()\<close>, \<open>SetKey\<close>, \<open>SetUri\<close> and the callback setters.\<close>

definition api_new :: OKCoinWebSocketApi where
  "api_new =
     \<lparr>api_key = [], secret_key = [], api_uri = [], m_callbak_open = False,
      m_callbak_close = False, m_callbak_message = False, pWebsocket = None, hThread = False\<rparr>"

definition SetKey :: "string \<Rightarrow> string \<Rightarrow> OKCoinWebSocketApi \<Rightarrow> OKCoinWebSocketApi" where
  "SetKey key secret a = a\<lparr>api_key := key, secret_key := secret\<rparr>"

definition SetUri :: "string \<Rightarrow> OKCoinWebSocketApi \<Rightarrow> OKCoinWebSocketApi" where
  "SetUri uri a = a\<lparr>api_uri := uri\<rparr>"

definition SetCallBackOpen :: "bool \<Rightarrow> OKCoinWebSocketApi \<Rightarrow> OKCoinWebSocketApi" where
  "SetCallBackOpen callbak a = a\<lparr>m_callbak_open := callbak\<rparr>"

definition SetCallBackClose :: "bool \<Rightarrow> OKCoinWebSocketApi \<Rightarrow> OKCoinWebSocketApi" where
  "SetCallBackClose callbak a = a\<lparr>m_callbak_close := callbak\<rparr>"

definition SetCallBackMessage :: "bool \<Rightarrow> OKCoinWebSocketApi \<Rightarrow> OKCoinWebSocketApi" where
  "SetCallBackMessage callbak a = a\<lparr>m_callbak_message := callbak\<rparr>"

definition api_cn :: "string \<Rightarrow> string \<Rightarrow> OKCoinWebSocketApi" where
  "api_cn key secret = SetUri URL_CN (SetKey key secret api_new)"

definition api_com :: "string \<Rightarrow> string \<Rightarrow> OKCoinWebSocketApi" where
  "api_com key secret = SetUri URL_COM (SetKey key secret api_new)"

subsection \<open>Emit and Remove\<close>

definition if_socket :: "(nat \<Rightarrow> ('z, unit) bot) \<Rightarrow> ('z, unit) bot" where
  "if_socket f =
     and_then (gets (pWebsocket \<circ> api)) (\<lambda>p. case p of None \<Rightarrow> ret () | Some a \<Rightarrow> f a)"

definition Emit_param :: "string \<Rightarrow> string \<Rightarrow> ('z, unit) bot" where
  "Emit_param channel parameter = if_socket (\<lambda>a. with_socket a (ws_emit_param channel parameter))"

definition Emit :: "string \<Rightarrow> ('z, unit) bot" where
  "Emit channel = if_socket (\<lambda>a. with_socket a (ws_emit channel))"

definition Remove :: "string \<Rightarrow> ('z, unit) bot" where
  "Remove channel = if_socket (\<lambda>a. with_socket a (ws_remove channel))"

subsection \<open>The requests\<close>

definition ok_spotcny_btc_ticker :: "('z, unit) bot" where
  "ok_spotcny_btc_ticker = Emit ''ok_sub_spotcny_btc_ticker''"

definition ok_spotcny_btc_depth_20 :: "('z, unit) bot" where
  "ok_spotcny_btc_depth_20 = Emit ''ok_sub_spotcny_btc_depth_20''"

definition ok_spotcny_btc_trades :: "('z, unit) bot" where
  "ok_spotcny_btc_trades = Emit ''ok_sub_spotcny_btc_trades''"

definition ok_spotcny_btc_kline_1min :: "('z, unit) bot" where
  "ok_spotcny_btc_kline_1min = Emit ''ok_sub_spotcny_btc_kline_1min''"

definition ok_spotcny_btc_kline_5min :: "('z, unit) bot" where
  "ok_spotcny_btc_kline_5min = Emit ''ok_sub_spotcny_btc_kline_5min''"

text \<open>Every signed request ends alike: sign what is in the map, add the signature.\<close>

definition add_sign :: "string \<Rightarrow> parameter \<Rightarrow> parameter" where
  "add_sign secret prmt = param_AddParam ''sign'' (param_GetSign secret prmt) prmt"

definition trades_params :: "OKCoinWebSocketApi \<Rightarrow> parameter" where
  "trades_params a = add_sign (secret_key a) (param_AddParam ''api_key'' (api_key a) [])"

definition ok_spotcny_trades :: "('z, unit) bot" where
  "ok_spotcny_trades =
     and_then (gets api) (\<lambda>a.
       Emit_param ''ok_sub_spotcny_trades'' (param_ToJsonString (trades_params a)))"

definition trade_params ::
    "string \<Rightarrow> string \<Rightarrow> string \<Rightarrow> string \<Rightarrow> OKCoinWebSocketApi \<Rightarrow> parameter" where
  "trade_params symbol type price amount a =
     add_sign (secret_key a)
       (param_AddParam ''amount'' amount (param_AddParam ''price'' price
         (param_AddParam ''type'' type (param_AddParam ''symbol'' symbol
           (param_AddParam ''api_key'' (api_key a) [])))))"

definition api_ok_spotcny_trade ::
    "string \<Rightarrow> string \<Rightarrow> string \<Rightarrow> string \<Rightarrow> ('z, unit) bot" where
  "api_ok_spotcny_trade symbol type price amount =
     and_then (gets api) (\<lambda>a.
       Emit_param ''ok_spotcny_trade''
         (param_ToJsonString (trade_params symbol type price amount a)))"

definition cancel_params :: "string \<Rightarrow> string \<Rightarrow> OKCoinWebSocketApi \<Rightarrow> parameter" where
  "cancel_params symbol order_id a =
     add_sign (secret_key a)
       (param_AddParam ''order_id'' order_id (param_AddParam ''symbol'' symbol
         (param_AddParam ''api_key'' (api_key a) [])))"

definition api_ok_spotcny_cancel_order :: "string \<Rightarrow> string \<Rightarrow> ('z, unit) bot" where
  "api_ok_spotcny_cancel_order symbol order_id =
     and_then (gets api) (\<lambda>a.
       Emit_param ''ok_spotcny_cancel_order''
         (param_ToJsonString (cancel_params symbol order_id a)))"

definition remove_ok_spotcny_btc_ticker :: "('z, unit) bot" where
  "remove_ok_spotcny_btc_ticker = Remove ''ok_sub_spotcny_btc_ticker''"

definition ok_spotusd_btc_ticker :: "('z, unit) bot" where
  "ok_spotusd_btc_ticker = Emit ''ok_sub_spotusd_btc_ticker''"

definition ok_futureusd_btc_ticker_this_week :: "('z, unit) bot" where
  "ok_futureusd_btc_ticker_this_week = Emit ''ok_sub_futureusd_btc_ticker_this_week''"

definition ok_futureusd_btc_index :: "('z, unit) bot" where
  "ok_futureusd_btc_index = Emit ''ok_sub_futureusd_btc_index''"

definition remove_ok_spotusd_btc_ticker :: "('z, unit) bot" where
  "remove_ok_spotusd_btc_ticker = Remove ''ok_sub_spotusd_btc_ticker''"

subsection \<open>The callbacks of okbot.cpp\<close>

text \<open>The API object is allocated before the thread starts, so \<open>cnapi != 0\<close> holds.\<close>

definition cn_callbak_open :: "('z, unit) bot" where
  "cn_callbak_open = ok_spotcny_btc_kline_1min"

definition cn_callbak_close :: "('z, unit) bot" where
  "cn_callbak_close = ret ()"

subsection \<open>One session of the connection thread\<close>

definition set_pWebsocket :: "nat option \<Rightarrow> ('z, unit) bot" where
  "set_pWebsocket p = modify (\<lambda>w. w\<lparr>api := (api w)\<lparr>pWebsocket := p\<rparr>\<rparr>)"

definition set_hThread :: "bool \<Rightarrow> ('z, unit) bot" where
  "set_hThread b = modify (\<lambda>w. w\<lparr>api := (api w)\<lparr>hThread := b\<rparr>\<rparr>)"

text \<open>\<open>Trade::set_websocket\<close>.\<close>

definition trade_set_websocket :: "nat option \<Rightarrow> ('z, unit) bot" where
  "trade_set_websocket s = modify (\<lambda>w. w\<lparr>trade := (trade w)\<lparr>trade_s := s\<rparr>\<rparr>)"

text \<open>The loop body of \<open>RunThread\<close> up to the blocking \<open>run\<close>.\<close>

definition session_begin :: "('z, unit) bot" where
  "session_begin =
     and_then (if_socket (\<lambda>a. with_socket a ws_doclose)) (\<lambda>_.
     and_then (gets (pWebsocket \<circ> api)) (\<lambda>p.
     and_then
       (case p of
          Some a \<Rightarrow> ret a
        | None \<Rightarrow>
            and_then new_socket (\<lambda>a.
            and_then (set_pWebsocket (Some a)) (\<lambda>_.
            and_then (trade_set_websocket (Some a)) (\<lambda>_. ret a)))) (\<lambda>a.
     and_then (gets api) (\<lambda>ap.
       with_socket a (ws_update (\<lambda>ws. ws\<lparr>callbak_open := m_callbak_open ap,
         callbak_close := m_callbak_close ap, callbak_message := m_callbak_message ap,
         m_uri := api_uri ap\<rparr>))))))"

text \<open>The loop body after \<open>run\<close> has returned: whether the user closed the connection.\<close>

definition session_end :: "('z, bool) bot" where
  "session_end =
     and_then (gets (pWebsocket \<circ> api)) (\<lambda>p.
       case p of
         None \<Rightarrow> ret False
       | Some a \<Rightarrow>
           and_then (with_socket a (and_then ws_on_close (\<lambda>_. gets fst))) (\<lambda>ws.
           and_then (if callbak_close ws then cn_callbak_close else ret ()) (\<lambda>_.
           and_then (delete_socket a) (\<lambda>_.
           and_then (set_pWebsocket None) (\<lambda>_.
             if m_manual_close ws then ret True
             else and_then
                    (okbot_log Fatal ''server closed connection, restart okbot.. with retry count {}'')
                    (\<lambda>_. ret False))))))"

text \<open>\<open>on_open\<close> and \<open>on_message\<close> with the callbacks they run.\<close>

definition handle_open :: "nat \<Rightarrow> ('z, unit) bot" where
  "handle_open a =
     and_then (with_socket a ws_on_open) (\<lambda>callbak.
       if callbak then cn_callbak_open else ret ())"

definition handle_message :: "nat \<Rightarrow> json \<Rightarrow> ('z, unit) bot" where
  "handle_message a d =
     and_then (with_socket a (gets (callbak_message \<circ> fst))) (\<lambda>callbak.
       if callbak
       then and_then (gets pipes) (\<lambda>p.
              and_then (lift_result (cn_callbak_message d p)) set_pipes)
       else ret ())"

text \<open>\<open>Close\<close>, without the join: that is the event \<open>Lost\<close> that follows.\<close>

definition Close :: "('z, unit) bot" where
  "Close = if_socket (\<lambda>a. with_socket a ws_doclose)"

subsection \<open>Events\<close>

text \<open>
  A message or the opening of the connection reaches the socket of the API in the state that
  admits it, and is void otherwise; the thread rebuilds a socket only while it runs.
\<close>

definition on_endpoint :: "endpoint_state \<Rightarrow> (nat \<Rightarrow> ('z, unit) bot) \<Rightarrow> ('z, unit) bot" where
  "on_endpoint st f =
     if_socket (\<lambda>a. and_then (with_socket a (gets (\<lambda>s. endpoint (fst s)))) (\<lambda>ep.
       if ep = st then f a else ret ()))"

fun deliver :: "event \<Rightarrow> ('z, unit) bot" where
  "deliver (Message d) = on_endpoint Ep_Open (\<lambda>a. handle_message a d)"
| "deliver Opened = on_endpoint Ep_Connecting handle_open"
| "deliver Lost =
     and_then session_end (\<lambda>manual. if manual then set_hThread False else ret ())"
| "deliver Restarted =
     and_then (gets api) (\<lambda>a.
       if hThread a \<and> pWebsocket a = None then session_begin else ret ())"
| "deliver User_Close = Close"
| "deliver Timeout = ret ()"
| "deliver Stop = modify (\<lambda>w. w\<lparr>signal := Suc (signal w)\<rparr>)"

subsection \<open>RunThread\<close>

fun deliver_all :: "event list \<Rightarrow> ('z, unit) bot" where
  "deliver_all [] = ret ()"
| "deliver_all (e # es) = and_then (deliver e) (\<lambda>_. deliver_all es)"

text \<open>
  The whole thread. A session is the list of events that come while \<open>run\<close> blocks; when the
  sessions are used up the thread is inside \<open>run\<close> still. \<open>i\<close> is the counter of the inner loop
  of \<open>retry_count\<close> rounds, which the outer \<open>for (;;)\<close> starts again.
\<close>

definition retry_count :: nat where
  "retry_count = 4"

fun RunThread :: "nat \<Rightarrow> event list list \<Rightarrow> ('z, nat) bot" where
  "RunThread i [] = and_then session_begin (\<lambda>_. raise Blocked)"
| "RunThread i (session # sessions) =
     and_then session_begin (\<lambda>_.
     and_then (deliver_all session) (\<lambda>_.
     and_then session_end (\<lambda>manual.
       if manual then ret 0
       else RunThread (if Suc i = retry_count then 0 else Suc i) sessions)))"

text \<open>\<open>Run\<close>: the thread starts, up to its first \<open>run\<close>.\<close>

definition Run :: "('z, unit) bot" where
  "Run = and_then (set_hThread True) (\<lambda>_. session_begin)"

subsection \<open>Waiting on a queue of the pipeline\<close>

definition take_item :: "string \<Rightarrow> ('z, json option) bot" where
  "take_item name =
     and_then (gets (get_queue name \<circ> pipes)) (\<lambda>(q, p).
       case queue_take q of
         None \<Rightarrow> and_then (set_pipes p) (\<lambda>_. ret None)
       | Some (d, q') \<Rightarrow> and_then (set_pipes (p(name \<mapsto> q'))) (\<lambda>_. ret (Some d)))"

definition next_event :: "event \<Rightarrow> ('z, unit) bot" where
  "next_event e = and_then (modify (\<lambda>w. w\<lparr>env := tl (env w)\<rparr>)) (\<lambda>_. deliver e)"

fun wait_events :: "string \<Rightarrow> event list \<Rightarrow> ('z, json) bot" where
  "wait_events name [] =
     and_then (take_item name) (\<lambda>d. case d of Some d \<Rightarrow> ret d | None \<Rightarrow> raise Blocked)"
| "wait_events name (e # es) =
     and_then (take_item name) (\<lambda>d.
       case d of Some d \<Rightarrow> ret d
       | None \<Rightarrow> and_then (next_event e) (\<lambda>_. wait_events name es))"

fun timed_events :: "string \<Rightarrow> event list \<Rightarrow> ('z, json option) bot" where
  "timed_events name [] = take_item name"
| "timed_events name (e # es) =
     and_then (take_item name) (\<lambda>d.
       case d of Some d \<Rightarrow> ret (Some d)
       | None \<Rightarrow> and_then (next_event e) (\<lambda>_.
           if e = Timeout then take_item name else timed_events name es))"

text \<open>Both functions run along the events of \<open>env\<close>. \<open>pop()\<close> waits as long as it takes; with a time the wait ends, at the latest, when the
  environment has nothing more to do.\<close>

definition pop_wait :: "string \<Rightarrow> ('z, json) bot" where
  "pop_wait name = and_then (gets env) (wait_events name)"

definition pop_timed :: "string \<Rightarrow> ('z, json option) bot" where
  "pop_timed name = and_then (gets env) (timed_events name)"

end
