(* ===== verification/Evolution.thy ===== *)
theory Evolution
  imports Websocket_Api "HOL-Library.Sublist"
begin

section \<open>What the world keeps while events happen\<close>

text \<open>
  Three relations between the state before and after, each kept by every event and every wait:
  \<open>evolves\<close> (what may not change, what only grows, what is only consumed), \<open>heap_kept\<close> (no
  pointer of the API dangles) and \<open>same_orders\<close> (no trade order is sent). Each is an
  interpretation of \<open>kept\<close>, so the proofs follow the structure of the operations.
\<close>

named_theorems evolves_intros \<open>operations that keep \<open>evolves\<close>\<close>
named_theorems heap_intros \<open>operations that keep \<open>heap_kept\<close>\<close>
named_theorems order_intros \<open>operations that keep \<open>same_orders\<close>\<close>

text \<open>Strategy fields (\<open>more\<close>), account status and keys are untouched; the signal, the frames
  and the log grow; events are only consumed.\<close>

definition evolves :: "'z world_scheme \<Rightarrow> 'z world_scheme \<Rightarrow> bool" where
  "evolves w w' \<longleftrightarrow>
     world.more w' = world.more w \<and> account w' = account w \<and>
     api_key (api w') = api_key (api w) \<and> secret_key (api w') = secret_key (api w) \<and>
     m_api_key (trade w') = m_api_key (trade w) \<and> m_secret_key (trade w') = m_secret_key (trade w) \<and>
     signal w \<le> signal w' \<and> prefix (wire w) (wire w') \<and> prefix (logs w) (logs w') \<and>
     suffix (env w') (env w)"

interpretation evo: kept evolves
  by unfold_locales (auto simp: evolves_def intro: prefix_order.trans suffix_order.trans)

definition heap_kept :: "'z world_scheme \<Rightarrow> 'z world_scheme \<Rightarrow> bool" where
  "heap_kept w w' \<longleftrightarrow> (heap_ok w \<longrightarrow> heap_ok w')"

interpretation heap: kept heap_kept
  by unfold_locales (auto simp: heap_kept_def)

text \<open>A trade order is a text frame that adds the channel \<open>ok_spotcny_trade\<close>.\<close>

definition is_order :: "string \<Rightarrow> bool" where
  "is_order frame \<longleftrightarrow> prefix (event_frame ''addChannel'' ''ok_spotcny_trade'') frame"

definition orders :: "'z world_scheme \<Rightarrow> string list" where
  "orders w = filter is_order (wire w)"

definition same_orders :: "'z world_scheme \<Rightarrow> 'z world_scheme \<Rightarrow> bool" where
  "same_orders w w' \<longleftrightarrow> orders w' = orders w"

interpretation ord: kept same_orders
  by unfold_locales (auto simp: same_orders_def)

declare evo.keeps_intros [evolves_intros]
declare heap.keeps_intros [heap_intros]
declare ord.keeps_intros [order_intros]

subsection \<open>The primitive steps\<close>

lemma evolves_log [evolves_intros]: "keeps evolves (okbot_log level msg)"
  by (simp add: keeps_def okbot_log_def modify_def evolves_def)

lemma evolves_set_pipes [evolves_intros]: "keeps evolves (set_pipes p)"
  by (simp add: keeps_def set_pipes_def modify_def evolves_def)

lemma evolves_set_pWebsocket [evolves_intros]: "keeps evolves (set_pWebsocket p)"
  by (simp add: keeps_def set_pWebsocket_def modify_def evolves_def)

lemma evolves_set_hThread [evolves_intros]: "keeps evolves (set_hThread b)"
  by (simp add: keeps_def set_hThread_def modify_def evolves_def)

lemma evolves_trade_set [evolves_intros]: "keeps evolves (trade_set_websocket s)"
  by (simp add: keeps_def trade_set_websocket_def modify_def evolves_def)

lemma evolves_delete [evolves_intros]: "keeps evolves (delete_socket a)"
  by (simp add: keeps_def delete_socket_def modify_def evolves_def)

lemma evolves_new [evolves_intros]: "keeps evolves new_socket"
  by (simp add: keeps_def new_socket_def prog_defs evolves_def)

lemma evolves_signal [evolves_intros]: "keeps evolves (modify (\<lambda>w. w\<lparr>signal := Suc (signal w)\<rparr>))"
  by (simp add: keeps_def modify_def evolves_def)

lemma evolves_next [evolves_intros]: "keeps evolves (modify (\<lambda>w. w\<lparr>env := tl (env w)\<rparr>))"
  by (simp add: keeps_def modify_def evolves_def)

text \<open>A method of a socket only appends to the wire.\<close>

definition wire_grows :: "'a ws_prog \<Rightarrow> bool" where
  "wire_grows m \<longleftrightarrow> (\<forall>ws sent. prefix sent (snd (snd (m (ws, sent)))))"

lemma evolves_with_socket: "wire_grows m \<Longrightarrow> keeps evolves (with_socket a m)"
  by (auto simp: keeps_def with_socket_def evolves_def wire_grows_def split: option.split prod.split)
    (metis snd_conv)

lemma wire_grows_ops [simp]:
  "wire_grows (gets f)" "wire_grows (ws_update g)" "wire_grows ws_on_open" "wire_grows ws_on_close"
  "wire_grows ws_doclose" "wire_grows (ws_emit c)" "wire_grows (ws_emit_param c p)"
  "wire_grows (ws_remove c)" "wire_grows (and_then ws_on_close (\<lambda>_. gets f))"
  by (auto simp: wire_grows_def ws_ops prog_defs)

lemmas evolves_sockets [evolves_intros] = wire_grows_ops[THEN evolves_with_socket]


subsection \<open>Events and waits\<close>

lemma evolves_if_socket [evolves_intros]:
  "(\<And>a. keeps evolves (f a)) \<Longrightarrow> keeps evolves (if_socket f)"
  unfolding if_socket_def by (intro evolves_intros)

lemma evolves_requests [evolves_intros]:
  "keeps evolves (Emit c)" "keeps evolves (Emit_param c p)" "keeps evolves (Remove c)"
  "keeps evolves Close"
  unfolding Emit_def Emit_param_def Remove_def Close_def by (intro evolves_intros)+

lemma evolves_callbacks [evolves_intros]:
  "keeps evolves cn_callbak_open" "keeps evolves cn_callbak_close"
  unfolding cn_callbak_open_def cn_callbak_close_def ok_spotcny_btc_kline_1min_def
  by (intro evolves_intros)+

lemma evolves_session_begin [evolves_intros]: "keeps evolves session_begin"
  unfolding session_begin_def by (intro evolves_intros)

lemma evolves_session_end [evolves_intros]: "keeps evolves session_end"
  unfolding session_end_def by (intro evolves_intros)

lemma evolves_handlers [evolves_intros]:
  "keeps evolves (handle_open a)" "keeps evolves (handle_message a d)"
  unfolding handle_open_def handle_message_def by (intro evolves_intros)+

lemma evolves_deliver [evolves_intros]: "keeps evolves (deliver e)"
  by (cases e) (simp_all add: on_endpoint_def, (intro evolves_intros)+)

lemma evolves_next_event [evolves_intros]: "keeps evolves (next_event e)"
  unfolding next_event_def by (intro evolves_intros)

lemma evolves_take_item [evolves_intros]: "keeps evolves (take_item name)"
  unfolding take_item_def by (intro evolves_intros)

lemma evolves_wait_events [evolves_intros]: "keeps evolves (wait_events name es)"
  by (induction es) (simp_all, (intro evolves_intros | assumption)+)

lemma evolves_timed_events [evolves_intros]: "keeps evolves (timed_events name es)"
  by (induction es) (simp_all split del: if_split, (intro evolves_intros | assumption)+)

lemma evolves_pops [evolves_intros]: "keeps evolves (pop_wait name)" "keeps evolves (pop_timed name)"
  unfolding pop_wait_def pop_timed_def by (intro evolves_intros)+

lemma evolves_deliver_all [evolves_intros]: "keeps evolves (deliver_all es)"
  by (induction es) (simp_all, (intro evolves_intros | assumption)+)

lemma evolves_RunThread: "keeps evolves (RunThread i sessions)"
proof (induction sessions arbitrary: i)
  case (Cons session sessions)
  show ?case
    unfolding RunThread.simps by (intro evolves_intros Cons.IH)
qed (simp, intro evolves_intros)


subsection \<open>The heap\<close>

text \<open>A method call changes the object, never which objects there are.\<close>

lemma with_socket_frame:
  "dom (sockets (snd (with_socket a m w))) = dom (sockets w)"
  "next_socket (snd (with_socket a m w)) = next_socket w"
  "api (snd (with_socket a m w)) = api w"
  "trade (snd (with_socket a m w)) = trade w"
  "pipes (snd (with_socket a m w)) = pipes w"
  "env (snd (with_socket a m w)) = env w"
  by (auto simp: with_socket_def split: option.split prod.split)

lemma heap_ok_dom:
  "heap_ok w \<longleftrightarrow>
     (\<forall>a \<in> dom (sockets w). a < next_socket w) \<and>
     (\<forall>a. pWebsocket (api w) = Some a \<longrightarrow> a \<in> dom (sockets w)) \<and>
     (\<forall>a. trade_s (trade w) = Some a \<longrightarrow> a < next_socket w)"
  by (auto simp: heap_ok_def)

lemma heap_with_socket [heap_intros]: "keeps heap_kept (with_socket a m)"
  unfolding keeps_def heap_kept_def heap_ok_dom by (simp add: with_socket_frame)

lemma heap_if_socket [heap_intros]:
  "(\<And>a. keeps heap_kept (f a)) \<Longrightarrow> keeps heap_kept (if_socket f)"
  unfolding if_socket_def by (intro heap_intros)

lemma heap_prims [heap_intros]:
  "keeps heap_kept (okbot_log level msg)" "keeps heap_kept (set_pipes p)"
  "keeps heap_kept (set_hThread b)" "keeps heap_kept (modify (\<lambda>w. w\<lparr>signal := Suc (signal w)\<rparr>))"
  "keeps heap_kept (modify (\<lambda>w. w\<lparr>env := tl (env w)\<rparr>))"
  by (simp_all add: keeps_def okbot_log_def set_pipes_def set_hThread_def modify_def
      heap_kept_def heap_ok_def)

lemma heap_requests [heap_intros]:
  "keeps heap_kept (Emit c)" "keeps heap_kept (Emit_param c p)" "keeps heap_kept (Remove c)"
  "keeps heap_kept Close"
  unfolding Emit_def Emit_param_def Remove_def Close_def by (intro heap_intros)+

lemma heap_alloc [heap_intros]:
  "keeps heap_kept (and_then new_socket (\<lambda>a. and_then (set_pWebsocket (Some a)) (\<lambda>_.
     and_then (trade_set_websocket (Some a)) (\<lambda>_. ret a))))"
  by (auto simp: keeps_def heap_kept_def heap_ok_def prog_defs new_socket_def set_pWebsocket_def
      trade_set_websocket_def less_Suc_eq)

lemma heap_free [heap_intros]:
  assumes "\<And>x. keeps heap_kept (f x)"
  shows "keeps heap_kept (and_then (delete_socket a) (\<lambda>_. and_then (set_pWebsocket None) f))"
proof -
  have "keeps heap_kept (and_then (delete_socket a) (\<lambda>_. set_pWebsocket None))"
    by (auto simp: keeps_def heap_kept_def heap_ok_def prog_defs delete_socket_def set_pWebsocket_def)
  from heap.keeps_and_then[OF this assms] show ?thesis by (simp add: and_then_assoc)
qed

lemma heap_session_begin [heap_intros]: "keeps heap_kept session_begin"
  unfolding session_begin_def by (intro heap_intros)

lemma heap_session_end [heap_intros]: "keeps heap_kept session_end"
  unfolding session_end_def cn_callbak_close_def
  by (rule heap_free heap_intros)+

lemma heap_handlers [heap_intros]:
  "keeps heap_kept (handle_open a)" "keeps heap_kept (handle_message a d)"
  unfolding handle_open_def handle_message_def cn_callbak_open_def ok_spotcny_btc_kline_1min_def
  by (intro heap_intros)+

lemma heap_deliver [heap_intros]: "keeps heap_kept (deliver e)"
  by (cases e) (simp_all add: on_endpoint_def, (intro heap_intros)+)

lemma heap_take_item [heap_intros]: "keeps heap_kept (take_item name)"
  unfolding take_item_def by (intro heap_intros)

lemma heap_next_event [heap_intros]: "keeps heap_kept (next_event e)"
  unfolding next_event_def by (intro heap_intros)

lemma heap_wait_events [heap_intros]: "keeps heap_kept (wait_events name es)"
  by (induction es) (simp_all, (intro heap_intros | assumption)+)

lemma heap_timed_events [heap_intros]: "keeps heap_kept (timed_events name es)"
  by (induction es) (simp_all split del: if_split, (intro heap_intros | assumption)+)

lemma heap_pops [heap_intros]: "keeps heap_kept (pop_wait name)" "keeps heap_kept (pop_timed name)"
  unfolding pop_wait_def pop_timed_def by (intro heap_intros)+

subsection \<open>Frames that are not orders\<close>

text \<open>Of the frames of the program only a request on the channel \<open>ok_spotcny_trade\<close> is an order.\<close>

lemma is_order_event:
  assumes "quote \<notin> set c"
  shows "is_order (event_frame ''addChannel'' c @ rest) \<longleftrightarrow> c = ''ok_spotcny_trade''"
proof -
  have *: "prefix (a @ [quote]) (c @ quote # rest) \<longleftrightarrow> c = a" if "quote \<notin> set a" for a
    using that assms
  proof (induction a arbitrary: c)
    case Nil
    then show ?case by (cases c) auto
  next
    case (Cons x a)
    then show ?case by (cases c) auto
  qed
  show ?thesis
    using *[of "''ok_spotcny_trade''"] by (simp add: is_order_def event_frame_def quoted_def)
qed

lemma is_order_emit: "quote \<notin> set c \<Longrightarrow> is_order (emit_frame c) \<longleftrightarrow> c = ''ok_spotcny_trade''"
  by (simp add: emit_frame_def is_order_event)

lemma is_order_emit_param:
  "quote \<notin> set c \<Longrightarrow> is_order (emit_param_frame c p) \<longleftrightarrow> c = ''ok_spotcny_trade''"
  using is_order_event[of c "'','' @ quoted ''parameters'' @ '':{'' @ p @ ''}}''"]
  by (simp add: emit_param_frame_def)

lemma not_is_order_remove: "\<not> is_order (remove_frame c)"
  by (simp add: is_order_def remove_frame_def event_frame_def quoted_def)

definition no_order :: "'a ws_prog \<Rightarrow> bool" where
  "no_order m \<longleftrightarrow> (\<forall>ws sent. filter is_order (snd (snd (m (ws, sent)))) = filter is_order sent)"

lemma order_with_socket: "no_order m \<Longrightarrow> keeps same_orders (with_socket a m)"
  by (auto simp: keeps_def with_socket_def same_orders_def orders_def no_order_def
      split: option.split prod.split) (metis snd_conv)

lemma no_order_ops [simp]:
  "no_order (gets f)" "no_order (ws_update g)" "no_order ws_on_open" "no_order ws_on_close"
  "no_order ws_doclose" "no_order (ws_remove c)" "no_order (and_then ws_on_close (\<lambda>_. gets f))"
  by (auto simp: no_order_def ws_ops prog_defs not_is_order_remove)

lemma no_order_emit:
  "quote \<notin> set c \<Longrightarrow> c \<noteq> ''ok_spotcny_trade'' \<Longrightarrow> no_order (ws_emit c)"
  "quote \<notin> set c \<Longrightarrow> c \<noteq> ''ok_spotcny_trade'' \<Longrightarrow> no_order (ws_emit_param c p)"
  by (auto simp: no_order_def ws_ops prog_defs is_order_emit is_order_emit_param)

lemmas order_sockets [order_intros] = no_order_ops[THEN order_with_socket]

lemma order_if_socket [order_intros]:
  "(\<And>a. keeps same_orders (f a)) \<Longrightarrow> keeps same_orders (if_socket f)"
  unfolding if_socket_def by (intro order_intros)

lemma order_prims [order_intros]:
  "keeps same_orders (okbot_log level msg)" "keeps same_orders (set_pipes p)"
  "keeps same_orders (set_hThread b)" "keeps same_orders (set_pWebsocket s)"
  "keeps same_orders (trade_set_websocket s)" "keeps same_orders (delete_socket a)"
  "keeps same_orders new_socket"
  "keeps same_orders (modify (\<lambda>w. w\<lparr>signal := Suc (signal w)\<rparr>))"
  "keeps same_orders (modify (\<lambda>w. w\<lparr>env := tl (env w)\<rparr>))"
  by (simp_all add: keeps_def okbot_log_def set_pipes_def set_hThread_def set_pWebsocket_def
      trade_set_websocket_def delete_socket_def new_socket_def prog_defs same_orders_def orders_def)

lemma order_requests:
  "quote \<notin> set c \<Longrightarrow> c \<noteq> ''ok_spotcny_trade'' \<Longrightarrow> keeps same_orders (Emit c)"
  "quote \<notin> set c \<Longrightarrow> c \<noteq> ''ok_spotcny_trade'' \<Longrightarrow> keeps same_orders (Emit_param c p)"
  unfolding Emit_def Emit_param_def
  by (intro order_if_socket order_with_socket no_order_emit; assumption)+

lemma order_callbacks [order_intros]:
  "keeps same_orders cn_callbak_open" "keeps same_orders cn_callbak_close" "keeps same_orders Close"
  unfolding cn_callbak_open_def cn_callbak_close_def ok_spotcny_btc_kline_1min_def Close_def
  by (intro order_requests order_intros; simp)+

lemma order_sessions [order_intros]:
  "keeps same_orders session_begin" "keeps same_orders session_end"
  unfolding session_begin_def session_end_def by (intro order_intros)+

lemma order_handlers [order_intros]:
  "keeps same_orders (handle_open a)" "keeps same_orders (handle_message a d)"
  unfolding handle_open_def handle_message_def by (intro order_intros)+

lemma order_deliver [order_intros]: "keeps same_orders (deliver e)"
  by (cases e) (simp_all add: on_endpoint_def, (intro order_intros)+)

lemma order_take_item [order_intros]: "keeps same_orders (take_item name)"
  unfolding take_item_def by (intro order_intros)

lemma order_next_event [order_intros]: "keeps same_orders (next_event e)"
  unfolding next_event_def by (intro order_intros)

lemma order_wait_events [order_intros]: "keeps same_orders (wait_events name es)"
  by (induction es) (simp_all, (intro order_intros | assumption)+)

lemma order_timed_events [order_intros]: "keeps same_orders (timed_events name es)"
  by (induction es) (simp_all split del: if_split, (intro order_intros | assumption)+)

lemma order_pops [order_intros]:
  "keeps same_orders (pop_wait name)" "keeps same_orders (pop_timed name)"
  unfolding pop_wait_def pop_timed_def by (intro order_intros)+

end
