(* ===== verification/Trades.thy ===== *)
theory Trades
  imports Evolution
begin

section \<open>trade.h: placing orders\<close>

text \<open>
  \<open>Trade\<close> signs a request, sends it through the socket it points to and waits for the reply in
  the queue of the channel. The methods that place an order return 0 when a reply says so and
  -1 otherwise; both are \<open>Inr\<close>. The mutex \<open>lock\<close> serialises them: each is one operation.
\<close>

definition trade_init :: "nat option \<Rightarrow> string \<Rightarrow> string \<Rightarrow> ('z, unit) bot" where
  "trade_init s key secret =
     modify (\<lambda>w. w\<lparr>trade := (trade w)\<lparr>trade_s := s, m_api_key := key, m_secret_key := secret\<rparr>\<rparr>)"

text \<open>\<open>s_ != 0 && s_->is_valid\<close>, with what is done when it holds.\<close>

definition if_valid :: "(nat \<Rightarrow> ('z, unit) bot) \<Rightarrow> ('z, unit) bot" where
  "if_valid f =
     and_then (gets (trade_s \<circ> trade)) (\<lambda>p.
       case p of
         None \<Rightarrow> ret ()
       | Some a \<Rightarrow> and_then (with_socket a (gets (is_valid \<circ> fst))) (\<lambda>valid.
                     if valid then f a else ret ()))"

definition close_trade_ugly :: "('z, unit) bot" where
  "close_trade_ugly =
     if_valid (\<lambda>a. and_then (with_socket a ws_doclose) (\<lambda>_. trade_set_websocket None))"

subsection \<open>The requests\<close>

text \<open>The \<open>try\<close> block the four requests share: 0 unless \<open>emit\<close> throws.\<close>

definition try_emit :: "string \<Rightarrow> parameter \<Rightarrow> string \<Rightarrow> ('z, int) bot" where
  "try_emit channel prmt msg =
     try_catch
       (and_then (if_valid (\<lambda>a. with_socket a (ws_emit_param channel (param_ToJsonString prmt))))
         (\<lambda>_. ret 0))
       (and_then (okbot_log Fatal msg) (\<lambda>_. ret (- 1)))"

definition order_params :: "string \<Rightarrow> string \<Rightarrow> string \<Rightarrow> string \<Rightarrow> Trade \<Rightarrow> parameter" where
  "order_params symbol type price amount t =
     (let p1 = param_AddParam ''api_key'' (m_api_key t) [];
          p2 = param_AddParam ''symbol'' symbol p1;
          p3 = param_AddParam ''type'' type p2;
          p4 = (if price \<noteq> [] then param_AddParam ''price'' price p3 else p3);
          p5 = (if amount \<noteq> [] then param_AddParam ''amount'' amount p4 else p4)
      in add_sign (m_secret_key t) p5)"

definition ok_spotcny_trade :: "string \<Rightarrow> string \<Rightarrow> string \<Rightarrow> string \<Rightarrow> ('z, int) bot" where
  "ok_spotcny_trade symbol type price amount =
     and_then (gets trade) (\<lambda>t.
       try_emit ''ok_spotcny_trade'' (order_params symbol type price amount t)
         ''ok_spotcny_trade failed.'')"

definition orderinfo_params :: "string \<Rightarrow> Trade \<Rightarrow> parameter" where
  "orderinfo_params order_id t =
     add_sign (m_secret_key t)
       (param_AddParam ''order_id'' order_id (param_AddParam_cstr ''symbol'' ''btc_cny''
         (param_AddParam ''api_key'' (m_api_key t) [])))"

definition ok_spotcny_orderinfo :: "string \<Rightarrow> ('z, int) bot" where
  "ok_spotcny_orderinfo order_id =
     and_then (gets trade) (\<lambda>t.
       try_emit ''ok_spotcny_orderinfo'' (orderinfo_params order_id t)
         ''ok_spotcny_orderinfo failed.'')"

definition cancel_order_params :: "string \<Rightarrow> string \<Rightarrow> Trade \<Rightarrow> parameter" where
  "cancel_order_params symbol order_id t =
     add_sign (m_secret_key t)
       (param_AddParam ''order_id'' order_id (param_AddParam ''symbol'' symbol
         (param_AddParam ''api_key'' (m_api_key t) [])))"

definition ok_spotcny_cancel_order :: "string \<Rightarrow> string \<Rightarrow> ('z, int) bot" where
  "ok_spotcny_cancel_order symbol order_id =
     and_then (gets trade) (\<lambda>t.
       try_emit ''ok_spotcny_cancel_order'' (cancel_order_params symbol order_id t)
         ''ok_spotcny_cancel_order failed.'')"

definition userinfo_params :: "Trade \<Rightarrow> parameter" where
  "userinfo_params t = add_sign (m_secret_key t) (param_AddParam ''api_key'' (m_api_key t) [])"

definition ok_spotcny_userinfo :: "('z, int) bot" where
  "ok_spotcny_userinfo =
     and_then (gets trade) (\<lambda>t.
       try_emit ''ok_spotcny_userinfo'' (userinfo_params t) ''ok_spotcny_userinfo failed'')"

subsection \<open>The reply\<close>

text \<open>The string at \<open>data.result\<close>, empty when there is none.\<close>

definition result_of :: "json \<Rightarrow> string result" where
  "result_of e =
     bind_result (get_value string_value e ''data.result'')
       (\<lambda>v. Inr (case v of None \<Rightarrow> [] | Some s \<Rightarrow> s))"

text \<open>The loop over the elements of a reply: true when one of them returns 0.\<close>

fun reply_loop :: "string \<Rightarrow> string \<Rightarrow> json list \<Rightarrow> ('z, bool) bot" where
  "reply_loop channel msg [] = ret False"
| "reply_loop channel msg (e # es) =
     and_then (lift_result (channel_of e)) (\<lambda>name.
       if name = channel
       then and_then (lift_result (result_of e)) (\<lambda>res.
              if res = ''true'' then ret True
              else and_then (okbot_log Fatal msg) (\<lambda>_. reply_loop channel msg es))
       else reply_loop channel msg es)"

text \<open>\<open>CHECK_AND_RETURN\<close>, with the \<open>return -1\<close> that follows it in every user of the macro.\<close>

definition CHECK_AND_RETURN :: "('z, int) bot" where
  "CHECK_AND_RETURN =
     and_then (pop_timed ''ok_spotcny_trade'') (\<lambda>data.
       case data of
         Some (JArray es) \<Rightarrow>
           and_then (reply_loop ''ok_spotcny_trade'' ''{} with mesg={}'' es)
             (\<lambda>ok. ret (if ok then 0 else - 1))
       | _ \<Rightarrow> and_then (okbot_log Fatal ''get data from queue failed: {}'') (\<lambda>_. ret (- 1)))"

definition place_order ::
    "string \<Rightarrow> string \<Rightarrow> string \<Rightarrow> string \<Rightarrow> ('z, int) bot" where
  "place_order type price amount msg =
     and_then (ok_spotcny_trade ''btc_cny'' type price amount) (\<lambda>r.
       if r = 0 then CHECK_AND_RETURN
       else and_then (okbot_log Fatal msg) (\<lambda>_. ret (- 1)))"

subsection \<open>The orders\<close>

definition one_million :: double where
  "one_million = double_of_int 1000000"

definition buy :: "double \<Rightarrow> double \<Rightarrow> ('z, int) bot" where
  "buy price amount =
     (if dgt price dzero \<and> dlt price one_million
      then place_order ''buy'' (double_to_string price) (double_to_string amount) ''websocket is invalid.''
      else and_then (okbot_log Fatal ''{} price is {}'') (\<lambda>_. ret (- 1)))"

definition buy_at_market :: "double \<Rightarrow> ('z, int) bot" where
  "buy_at_market price =
     (if dgt price dzero
      then place_order ''buy_market'' (double_to_string price) [] ''websocket is invalid for buy at market.''
      else and_then (okbot_log Fatal ''buy_at_market price is illegal {}'') (\<lambda>_. ret (- 1)))"

definition sell :: "double \<Rightarrow> double \<Rightarrow> ('z, int) bot" where
  "sell price amount =
     (if dgt price dzero \<and> dlt price one_million
      then place_order ''sell'' (double_to_string price) (double_to_string amount) ''websocket is invalid for sell.''
      else and_then (okbot_log Fatal ''sell price is illegal.'') (\<lambda>_. ret (- 1)))"

definition sell_at_market :: "double \<Rightarrow> ('z, int) bot" where
  "sell_at_market amount =
     (if dgt amount dzero
      then place_order ''sell_market'' [] (double_to_string amount) ''websocket is invalid for sell at market.''
      else and_then (okbot_log Fatal ''sell at market amount is illegal: {}'') (\<lambda>_. ret (- 1)))"

definition cancel :: "string \<Rightarrow> ('z, int) bot" where
  "cancel order_id =
     and_then (ok_spotcny_cancel_order ''btc_cny'' order_id) (\<lambda>r.
       if r = 0
       then and_then (pop_wait ''ok_spotcny_cancel_order'') (\<lambda>data.
              case data of
                JArray es \<Rightarrow>
                  and_then (reply_loop ''ok_spotcny_cancel_order'' ''mesg={} with data.result={}'' es)
                    (\<lambda>ok. ret (if ok then 0 else - 1))
              | _ \<Rightarrow> ret (- 1))
       else and_then (okbot_log Fatal ''websocket is invalid for cancel.'') (\<lambda>_. ret (- 1)))"

definition get_res_by_channel :: "string \<Rightarrow> ('z, json option) bot" where
  "get_res_by_channel channel =
     and_then (gets (get_queue channel \<circ> pipes)) (\<lambda>(q, p).
     and_then (set_pipes p) (\<lambda>_.
     and_then (if 1 < queue_size q then okbot_log Fatal ''illegal queue size {}'' else ret ()) (\<lambda>_.
       pop_timed channel)))"

end
