(* ===== verification/Trade_Facts.thy ===== *)
theory Trade_Facts
  imports Trades
begin

section \<open>What the orders promise\<close>

text \<open>
  The operations of \<open>Trade\<close> keep the relations of \<open>Evolution\<close>; an order sends at most one
  frame; success means that a document from the server said so; every request is signed as the
  exchange verifies it; and the outcome of a request in each state of the connection.
\<close>

subsection \<open>The relations are kept\<close>

lemma evolves_if_valid [evolves_intros]:
  "(\<And>a. keeps evolves (f a)) \<Longrightarrow> keeps evolves (if_valid f)"
  unfolding if_valid_def by (intro evolves_intros)

lemma heap_if_valid [heap_intros]:
  "(\<And>a. keeps heap_kept (f a)) \<Longrightarrow> keeps heap_kept (if_valid f)"
  unfolding if_valid_def by (intro heap_intros)

lemma order_if_valid [order_intros]:
  "(\<And>a. keeps same_orders (f a)) \<Longrightarrow> keeps same_orders (if_valid f)"
  unfolding if_valid_def by (intro order_intros)

lemma try_emit_kept:
  "keeps evolves (try_emit c p m)" "keeps heap_kept (try_emit c p m)"
  unfolding try_emit_def by (intro evolves_intros heap_intros)+

declare try_emit_kept(1) [evolves_intros]
declare try_emit_kept(2) [heap_intros]

lemma order_try_emit:
  "quote \<notin> set c \<Longrightarrow> c \<noteq> ''ok_spotcny_trade'' \<Longrightarrow> keeps same_orders (try_emit c p m)"
  unfolding try_emit_def by (intro order_intros order_with_socket no_order_emit; assumption)

lemma requests_kept:
  "keeps evolves (ok_spotcny_trade s t p q)" "keeps heap_kept (ok_spotcny_trade s t p q)"
  "keeps evolves (ok_spotcny_orderinfo i)" "keeps heap_kept (ok_spotcny_orderinfo i)"
  "keeps evolves (ok_spotcny_cancel_order s i)" "keeps heap_kept (ok_spotcny_cancel_order s i)"
  "keeps evolves ok_spotcny_userinfo" "keeps heap_kept ok_spotcny_userinfo"
  unfolding ok_spotcny_trade_def ok_spotcny_orderinfo_def ok_spotcny_cancel_order_def
    ok_spotcny_userinfo_def by (intro evolves_intros heap_intros)+

lemmas requests_evolve [evolves_intros] = requests_kept(1,3,5,7)
lemmas requests_heap [heap_intros] = requests_kept(2,4,6,8)

lemma queries_no_order [order_intros]:
  "keeps same_orders (ok_spotcny_orderinfo i)" "keeps same_orders (ok_spotcny_cancel_order s i)"
  "keeps same_orders ok_spotcny_userinfo"
  unfolding ok_spotcny_orderinfo_def ok_spotcny_cancel_order_def ok_spotcny_userinfo_def
  by (intro order_intros order_try_emit; simp)+

lemma reply_loop_kept [evolves_intros]: "keeps evolves (reply_loop c m es)"
  by (induction es) (simp_all, (intro evolves_intros | assumption)+)

lemma reply_loop_heap [heap_intros]: "keeps heap_kept (reply_loop c m es)"
  by (induction es) (simp_all, (intro heap_intros | assumption)+)

lemma reply_loop_orders [order_intros]: "keeps same_orders (reply_loop c m es)"
  by (induction es) (simp_all, (intro order_intros | assumption)+)

lemma CHECK_AND_RETURN_evolves [evolves_intros]: "keeps evolves CHECK_AND_RETURN"
  unfolding CHECK_AND_RETURN_def
  by (intro evo.keeps_and_then evolves_pops evo.keeps_option)
    (auto split: json.split intro!: evolves_intros)

lemma CHECK_AND_RETURN_heap [heap_intros]: "keeps heap_kept CHECK_AND_RETURN"
  unfolding CHECK_AND_RETURN_def
  by (intro heap.keeps_and_then heap_pops heap.keeps_option)
    (auto split: json.split intro!: heap_intros)

lemma CHECK_AND_RETURN_orders [order_intros]: "keeps same_orders CHECK_AND_RETURN"
  unfolding CHECK_AND_RETURN_def
  by (intro ord.keeps_and_then order_pops ord.keeps_option)
    (auto split: json.split intro!: order_intros)

lemma place_order_evolves [evolves_intros]: "keeps evolves (place_order t p q m)"
  unfolding place_order_def by (intro evolves_intros)

lemma place_order_heap [heap_intros]: "keeps heap_kept (place_order t p q m)"
  unfolding place_order_def by (intro heap_intros)

lemma orders_evolve [evolves_intros]:
  "keeps evolves (buy x y)" "keeps evolves (buy_at_market x)" "keeps evolves (sell x y)"
  "keeps evolves (sell_at_market y)" "keeps evolves close_trade_ugly"
  unfolding buy_def buy_at_market_def sell_def sell_at_market_def close_trade_ugly_def
  by (intro evolves_intros)+

lemma orders_heap [heap_intros]:
  "keeps heap_kept (buy x y)" "keeps heap_kept (buy_at_market x)" "keeps heap_kept (sell x y)"
  "keeps heap_kept (sell_at_market y)"
  unfolding buy_def buy_at_market_def sell_def sell_at_market_def by (intro heap_intros)+

subsection \<open>Which order frames are sent, and how many\<close>

text \<open>An operation sends at most \<open>n\<close> orders, all from the set \<open>Q\<close>.\<close>

definition sends :: "string set \<Rightarrow> nat \<Rightarrow> ('z, 'a) bot \<Rightarrow> bool" where
  "sends Q n m \<longleftrightarrow>
     (\<forall>w. \<exists>xs. orders (snd (m w)) = orders w @ xs \<and> length xs \<le> n \<and> set xs \<subseteq> Q)"

lemma sends_same: "keeps same_orders m \<Longrightarrow> sends Q n m"
  by (auto simp: keeps_def same_orders_def sends_def)

lemma sends_mono: "sends Q n m \<Longrightarrow> Q \<subseteq> Q' \<Longrightarrow> n \<le> n' \<Longrightarrow> sends Q' n' m"
  unfolding sends_def by (meson order_trans subset_trans)

lemma sends_and_then:
  assumes m: "sends Q n m" and f: "\<And>x. sends Q k (f x)"
  shows "sends Q (n + k) (and_then m f)"
  unfolding sends_def
proof
  fix w
  obtain xs where xs: "orders (snd (m w)) = orders w @ xs" "length xs \<le> n" "set xs \<subseteq> Q"
    using m unfolding sends_def by blast
  show "\<exists>ys. orders (snd (and_then m f w)) = orders w @ ys \<and> length ys \<le> n + k \<and> set ys \<subseteq> Q"
  proof (cases rule: and_then_cases[of m w f])
    case (failed e s')
    with xs show ?thesis by (intro exI[of _ xs]) simp
  next
    case (returned x s')
    obtain ys where "orders (snd (f x s')) = orders s' @ ys" "length ys \<le> k" "set ys \<subseteq> Q"
      using f[of x] unfolding sends_def by blast
    with returned xs show ?thesis by (intro exI[of _ "xs @ ys"]) simp
  qed
qed

lemma sends_try_catch:
  assumes "sends Q n m" "keeps same_orders h"
  shows "sends Q n (try_catch m h)"
  unfolding sends_def
proof
  fix w
  obtain xs where xs: "orders (snd (m w)) = orders w @ xs" "length xs \<le> n" "set xs \<subseteq> Q"
    using assms(1) unfolding sends_def by blast
  moreover have "orders (snd (h (snd (m w)))) = orders (snd (m w))"
    using assms(2) by (simp add: keeps_def same_orders_def)
  ultimately show "\<exists>xs. orders (snd (try_catch m h w)) = orders w @ xs \<and> length xs \<le> n \<and> set xs \<subseteq> Q"
    by (intro exI[of _ xs]) (auto simp: try_catch_def split: prod.splits sum.splits)
qed

lemma sends_if: "sends Q n m \<Longrightarrow> sends Q n m' \<Longrightarrow> sends Q n (if b then m else m')"
  by simp

text \<open>Only one part of a sequence sends orders.\<close>

lemma sends_second: "keeps same_orders m \<Longrightarrow> (\<And>x. sends Q n (f x)) \<Longrightarrow> sends Q n (and_then m f)"
  using sends_and_then[of Q 0 m n f] sends_same[of m Q 0] by simp

lemma sends_first: "sends Q n m \<Longrightarrow> (\<And>x. keeps same_orders (f x)) \<Longrightarrow> sends Q n (and_then m f)"
  using sends_and_then[of Q n m 0 f, OF _ sends_same] by simp

lemma sends_ret [simp]: "sends Q n (ret x)"
  by (simp add: sends_same ord.keeps_ret)

lemma sends_emit: "sends {emit_param_frame c p} 1 (with_socket a (ws_emit_param c p))"
  by (auto simp: sends_def with_socket_def ws_emit_param_def endpoint_send_result orders_def
      split: option.split)

lemma sends_if_valid: "(\<And>a. sends Q n (f a)) \<Longrightarrow> sends Q n (if_valid f)"
  unfolding if_valid_def
  by (intro sends_second ord.keeps_gets)
    (auto split: option.split intro: sends_same ord.keeps_ret order_sockets intro!: sends_second)

text \<open>The frames of an order on the market, whatever the keys are.\<close>

definition order_frames :: "string \<Rightarrow> string \<Rightarrow> string \<Rightarrow> string set" where
  "order_frames type price amount =
     range (\<lambda>t. emit_param_frame ''ok_spotcny_trade''
       (param_ToJsonString (order_params ''btc_cny'' type price amount t)))"

lemma sends_trade_request: "sends (order_frames t p q) 1 (ok_spotcny_trade ''btc_cny'' t p q)"
  unfolding ok_spotcny_trade_def try_emit_def
  by (intro sends_second ord.keeps_gets sends_try_catch sends_first sends_if_valid
      sends_mono[OF sends_emit _ order_refl] ord.keeps_ret ord.keeps_and_then order_prims)
    (auto simp: order_frames_def)

lemma sends_place_order: "sends (order_frames t p q) 1 (place_order t p q m)"
  unfolding place_order_def
  by (intro sends_first sends_trade_request) (intro order_intros)

lemma sends_orders:
  "sends (order_frames ''buy'' (double_to_string x) (double_to_string y)) 1 (buy x y)"
  "sends (order_frames ''buy_market'' (double_to_string x) []) 1 (buy_at_market x)"
  "sends (order_frames ''sell'' (double_to_string x) (double_to_string y)) 1 (sell x y)"
  "sends (order_frames ''sell_market'' [] (double_to_string y)) 1 (sell_at_market y)"
  unfolding buy_def buy_at_market_def sell_def sell_at_market_def
  by (intro sends_if sends_place_order; intro sends_same order_intros)+

text \<open>What one run sent, between two states.\<close>

lemma and_then_gets: "and_then (gets f) g w = g (f w) w"
  by (simp add: prog_defs)

definition sent_by :: "string set \<Rightarrow> nat \<Rightarrow> 'z world_scheme \<Rightarrow> 'z world_scheme \<Rightarrow> bool" where
  "sent_by Q n w w' \<longleftrightarrow> (\<exists>xs. orders w' = orders w @ xs \<and> length xs \<le> n \<and> set xs \<subseteq> Q)"

lemma sends_sent_by: "sends Q n m \<Longrightarrow> sent_by Q n w (snd (m w))"
  by (simp add: sends_def sent_by_def)

lemma sent_by_none: "orders w' = orders w \<Longrightarrow> sent_by Q n w w'"
  by (simp add: sent_by_def)

lemma sent_by_trans_same: "orders w1 = orders w \<Longrightarrow> sent_by Q n w1 w' \<Longrightarrow> sent_by Q n w w'"
  by (simp add: sent_by_def)

subsection \<open>Success is the word of the server\<close>

text \<open>A document confirms an order when an element on its channel carries \<open>data.result\<close> true.\<close>

definition confirms :: "string \<Rightarrow> json \<Rightarrow> bool" where
  "confirms channel d \<longleftrightarrow>
     (\<exists>es e. d = JArray es \<and> e \<in> set es \<and> channel_of e = Inr channel \<and> result_of e = Inr ''true'')"

lemma and_then_Inr:
  "and_then m f w = (Inr y, w') \<longleftrightarrow> (\<exists>x w1. m w = (Inr x, w1) \<and> f x w1 = (Inr y, w'))"
  by (auto simp: and_then_def split: prod.split sum.split)

lemma reply_loop_True:
  "reply_loop channel msg es w = (Inr True, w') \<Longrightarrow> confirms channel (JArray es)"
proof (induction es arbitrary: w)
  case (Cons e es)
  from Cons.prems show ?case
  proof (cases "channel_of e = Inr channel \<and> result_of e = Inr ''true''")
    case True
    then show ?thesis by (auto simp: confirms_def)
  next
    case False
    with Cons.prems obtain w1 where "reply_loop channel msg es w1 = (Inr True, w')"
      by (auto simp: and_then_Inr lift_result_def ret_def split: if_splits)
    then have "confirms channel (JArray es)" by (rule Cons.IH)
    then show ?thesis by (auto simp: confirms_def)
  qed
qed (simp add: ret_def)

text \<open>Every document in a queue was there before or came as a message.\<close>

definition docs_from :: "json set \<Rightarrow> 'z world_scheme \<Rightarrow> 'z world_scheme \<Rightarrow> bool" where
  "docs_from D w w' \<longleftrightarrow>
     (\<forall>name. set (channel_items (pipes w') name) \<subseteq> set (channel_items (pipes w) name) \<union> D)"

interpretation docs: kept "docs_from D" for D
  by unfold_locales (auto simp: docs_from_def)

lemma docs_prims:
  "pipes (snd (m w)) = pipes w \<Longrightarrow> docs_from D w (snd (m w))"
  by (simp add: docs_from_def)

definition same_pipes :: "'z world_scheme \<Rightarrow> 'z world_scheme \<Rightarrow> bool" where
  "same_pipes w w' \<longleftrightarrow> pipes w' = pipes w"

interpretation same: kept same_pipes
  by unfold_locales (auto simp: same_pipes_def)

named_theorems pipe_intros \<open>operations that leave the queues alone\<close>
declare same.keeps_intros [pipe_intros]

lemma same_pipes_prims [pipe_intros]:
  "keeps same_pipes (okbot_log level msg)" "keeps same_pipes (set_hThread b)"
  "keeps same_pipes (set_pWebsocket s)" "keeps same_pipes (trade_set_websocket s)"
  "keeps same_pipes (delete_socket a)" "keeps same_pipes new_socket"
  "keeps same_pipes (modify (\<lambda>w. w\<lparr>signal := Suc (signal w)\<rparr>))"
  "keeps same_pipes (modify (\<lambda>w. w\<lparr>env := tl (env w)\<rparr>))"
  "keeps same_pipes (with_socket a m)"
  by (simp_all add: keeps_def okbot_log_def set_hThread_def set_pWebsocket_def with_socket_frame
      trade_set_websocket_def delete_socket_def new_socket_def prog_defs same_pipes_def)

lemma same_pipes_if_socket [pipe_intros]:
  "(\<And>a. keeps same_pipes (f a)) \<Longrightarrow> keeps same_pipes (if_socket f)"
  unfolding if_socket_def by (intro pipe_intros)

lemma same_pipes_sessions [pipe_intros]:
  "keeps same_pipes session_begin" "keeps same_pipes session_end" "keeps same_pipes Close"
  "keeps same_pipes (handle_open a)"
  unfolding session_begin_def session_end_def Close_def handle_open_def cn_callbak_open_def
    cn_callbak_close_def ok_spotcny_btc_kline_1min_def Emit_def
  by (intro pipe_intros)+

lemma dispatch_elems_items:
  "dispatch_elems d elems p = Inr p' \<Longrightarrow>
     set (channel_items p' name) \<subseteq> set (channel_items p name) \<union> {d}"
proof (induction elems arbitrary: p)
  case (Cons e es)
  from Cons.prems consider "dispatch_elems d es p = Inr p'"
    | c where "dispatch_elems d es (pipeline_push c d p) = Inr p'"
    by (auto simp: bind_result_eq_Inr split: if_splits)
  then show ?case
  proof cases
    case (2 c)
    from Cons.IH[OF this] show ?thesis by (auto split: if_splits)
  qed (rule Cons.IH)
qed auto

lemma cn_callbak_message_items:
  "cn_callbak_message d p = Inr p' \<Longrightarrow>
     set (channel_items p' name) \<subseteq> set (channel_items p name) \<union> {d}"
  by (cases d) (auto dest!: dispatch_elems_items[where name = name])

lemma docs_handle_message: "keeps (docs_from {d}) (handle_message a d)"
  unfolding keeps_def handle_message_def
proof
  fix w :: "'z world_scheme"
  let ?m = "with_socket a (gets (callbak_message \<circ> fst))"
  show "docs_from {d} w (snd (and_then ?m (\<lambda>callbak. if callbak then and_then (gets pipes)
      (\<lambda>p. and_then (lift_result (cn_callbak_message d p)) set_pipes) else ret ()) w))"
    using with_socket_frame(5)[of a "gets (callbak_message \<circ> fst)" w]
      cn_callbak_message_items[of d "pipes w"]
    by (cases "?m w"; cases "cn_callbak_message d (pipes w)"; cases "fst (?m w)")
      (auto simp: prog_defs docs_from_def set_pipes_def)
qed

lemma keeps_same_docs: "keeps same_pipes m \<Longrightarrow> keeps (docs_from D) m"
  by (auto simp: keeps_def same_pipes_def docs_from_def)

lemma keeps_docs_mono: "keeps (docs_from D) m \<Longrightarrow> D \<subseteq> E \<Longrightarrow> keeps (docs_from E) m"
  unfolding keeps_def docs_from_def by (meson order_trans Un_mono subset_refl)

lemma docs_deliver: "keeps (docs_from {d. e = Message d}) (deliver e)"
proof (cases e)
  case (Message d)
  have "{d'. e = Message d'} = {d}" using Message by auto
  moreover have "keeps (docs_from {d}) (deliver (Message d))"
    unfolding deliver.simps on_endpoint_def if_socket_def
    by (intro docs.keeps_intros docs_handle_message keeps_same_docs[OF same_pipes_prims(9)])
  ultimately show ?thesis using Message by simp
qed (simp_all add: on_endpoint_def keeps_same_docs, (intro keeps_same_docs pipe_intros)+)


lemma take_item_result:
  "take_item name w =
     (case channel_items (pipes w) name of
        [] \<Rightarrow> (Inr None, w\<lparr>pipes := snd (get_queue name (pipes w))\<rparr>)
      | d # q \<Rightarrow> (Inr (Some d), w\<lparr>pipes := (snd (get_queue name (pipes w)))(name \<mapsto> q)\<rparr>))"
proof -
  obtain p where g: "get_queue name (pipes w) = (channel_items (pipes w) name, p)"
    by (metis get_queue_items(1) prod.collapse)
  then show ?thesis
    by (cases "channel_items (pipes w) name") (simp_all add: take_item_def prog_defs set_pipes_def)
qed

lemma docs_take_item: "keeps (docs_from D) (take_item name)"
proof -
  have "set (channel_items (pipes (snd (take_item name w))) c) \<subseteq> set (channel_items (pipes w) c)" for w c
    by (cases "channel_items (pipes w) name") (auto simp: take_item_result)
  then show ?thesis unfolding keeps_def docs_from_def by blast
qed

lemma docs_next_event: "keeps (docs_from {d. e = Message d}) (next_event e)"
  unfolding next_event_def
  by (intro docs.keeps_and_then keeps_same_docs[OF same_pipes_prims(8)] docs_deliver)

lemma timed_events_from:
  "timed_events name es w = (Inr (Some d), w') \<Longrightarrow>
     d \<in> set (channel_items (pipes w) name) \<or> Message d \<in> set es"
proof (induction es arbitrary: w)
  case Nil
  then show ?case by (auto simp: take_item_result split: list.splits)
next
  case (Cons e es)
  show ?case
  proof (cases "channel_items (pipes w) name")
    case (Cons x q)
    with Cons.prems show ?thesis by (simp add: take_item_result prog_defs)
  next
    case Nil
    let ?w1 = "w\<lparr>pipes := snd (get_queue name (pipes w))\<rparr>"
    from Cons.prems Nil obtain x w2 where nxt: "next_event e ?w1 = (Inr x, w2)"
      and rest: "(if e = Timeout then take_item name else timed_events name es) w2 = (Inr (Some d), w')"
      by (auto simp: take_item_result and_then_Inr)
    have "docs_from {d. e = Message d} ?w1 w2"
      using docs_next_event[of e] nxt unfolding keeps_def by (metis snd_conv)
    then have "set (channel_items (pipes w2) name) \<subseteq>
        set (channel_items (pipes ?w1) name) \<union> {d. e = Message d}"
      unfolding docs_from_def by blast
    then have w2: "set (channel_items (pipes w2) name) \<subseteq> {d. e = Message d}"
      using Nil by simp
    have "d \<in> set (channel_items (pipes w2) name) \<or> Message d \<in> set es"
      using rest Cons.IH by (auto simp: take_item_result split: if_splits list.splits)
    with w2 show ?thesis by auto
  qed
qed

lemma wait_events_from:
  "wait_events name es w = (Inr d, w') \<Longrightarrow>
     d \<in> set (channel_items (pipes w) name) \<or> Message d \<in> set es"
proof (induction es arbitrary: w)
  case Nil
  then show ?case by (auto simp: take_item_result prog_defs split: list.splits)
next
  case (Cons e es)
  show ?case
  proof (cases "channel_items (pipes w) name")
    case (Cons x q)
    with Cons.prems show ?thesis by (simp add: take_item_result prog_defs)
  next
    case Nil
    let ?w1 = "w\<lparr>pipes := snd (get_queue name (pipes w))\<rparr>"
    from Cons.prems Nil obtain x w2 where nxt: "next_event e ?w1 = (Inr x, w2)"
      and rest: "wait_events name es w2 = (Inr d, w')"
      by (auto simp: take_item_result and_then_Inr)
    have "docs_from {d. e = Message d} ?w1 w2"
      using docs_next_event[of e] nxt unfolding keeps_def by (metis snd_conv)
    then have "set (channel_items (pipes w2) name) \<subseteq>
        set (channel_items (pipes ?w1) name) \<union> {d. e = Message d}"
      unfolding docs_from_def by blast
    then have "set (channel_items (pipes w2) name) \<subseteq> {d. e = Message d}"
      using Nil by simp
    with Cons.IH[OF rest] show ?thesis by auto
  qed
qed

lemma pop_timed_from:
  "pop_timed name w = (Inr (Some d), w') \<Longrightarrow>
     d \<in> set (channel_items (pipes w) name) \<or> Message d \<in> set (env w)"
  using timed_events_from by (simp add: pop_timed_def and_then_def gets_def)

lemma pop_wait_from:
  "pop_wait name w = (Inr d, w') \<Longrightarrow>
     d \<in> set (channel_items (pipes w) name) \<or> Message d \<in> set (env w)"
  using wait_events_from by (simp add: pop_wait_def and_then_def gets_def)

text \<open>A request neither waits nor touches a queue.\<close>

definition io_only :: "'z world_scheme \<Rightarrow> 'z world_scheme \<Rightarrow> bool" where
  "io_only w w' \<longleftrightarrow>
     pipes w' = pipes w \<and> env w' = env w \<and> api w' = api w \<and> trade w' = trade w \<and> signal w' = signal w"

interpretation io: kept io_only
  by unfold_locales (auto simp: io_only_def)

lemma io_only_prims:
  "keeps io_only (with_socket a m)" "keeps io_only (okbot_log level msg)"
  by (auto simp: keeps_def io_only_def okbot_log_def modify_def with_socket_def
      split: option.split prod.split)

lemma io_only_try_emit: "keeps io_only (try_emit c p m)"
  unfolding try_emit_def if_valid_def by (intro io.keeps_intros io_only_prims)

lemma io_only_requests:
  "keeps io_only (ok_spotcny_trade s t p q)" "keeps io_only (ok_spotcny_orderinfo i)"
  "keeps io_only (ok_spotcny_cancel_order s i)" "keeps io_only ok_spotcny_userinfo"
  unfolding ok_spotcny_trade_def ok_spotcny_orderinfo_def ok_spotcny_cancel_order_def
    ok_spotcny_userinfo_def by (intro io.keeps_intros io_only_try_emit)+

text \<open>An order succeeds only on a document that confirms it. The document may have been in the
  queue before the order: replies carry no reference to the request.\<close>

lemma place_order_confirmed:
  assumes "place_order type price amount msg w = (Inr 0, w')"
  shows "\<exists>d. confirms ''ok_spotcny_trade'' d \<and>
           (d \<in> set (channel_items (pipes w) ''ok_spotcny_trade'') \<or> Message d \<in> set (env w))"
proof -
  let ?req = "ok_spotcny_trade ''btc_cny'' type price amount"
  obtain w1 where req: "?req w = (Inr 0, w1)" and check: "CHECK_AND_RETURN w1 = (Inr 0, w')"
    using assms by (auto simp: place_order_def and_then_Inr ret_def split: if_splits)
  have "io_only w w1"
    using io_only_requests(1)[of "''btc_cny''" type price amount] req unfolding keeps_def
    by (metis snd_conv)
  then have same: "pipes w1 = pipes w" "env w1 = env w" by (simp_all add: io_only_def)
  obtain data w2 where pop: "pop_timed ''ok_spotcny_trade'' w1 = (Inr data, w2)"
    and rest: "(case data of
         Some (JArray es) \<Rightarrow>
           and_then (reply_loop ''ok_spotcny_trade'' ''{} with mesg={}'' es)
             (\<lambda>ok. ret (if ok then 0 else - 1))
       | _ \<Rightarrow> and_then (okbot_log Fatal ''get data from queue failed: {}'') (\<lambda>_. ret (- 1))) w2 = (Inr (0::int), w')"
    using check unfolding CHECK_AND_RETURN_def and_then_Inr by blast
  from rest obtain es where es: "data = Some (JArray es)"
    and "reply_loop ''ok_spotcny_trade'' ''{} with mesg={}'' es w2 = (Inr True, w')"
    by (auto simp: and_then_Inr ret_def split: option.splits json.splits if_splits)
  then have "confirms ''ok_spotcny_trade'' (JArray es)" by (auto dest: reply_loop_True)
  with pop_timed_from[of "''ok_spotcny_trade''" w1 "JArray es" w2] pop es same show ?thesis by auto
qed

lemma orders_confirmed:
  assumes "buy x y w = (Inr 0, w') \<or> buy_at_market x w = (Inr 0, w') \<or>
           sell x y w = (Inr 0, w') \<or> sell_at_market y w = (Inr 0, w')"
  shows "\<exists>d. confirms ''ok_spotcny_trade'' d \<and>
           (d \<in> set (channel_items (pipes w) ''ok_spotcny_trade'') \<or> Message d \<in> set (env w))"
proof -
  have "(\<exists>t p q m. place_order t p q m w = (Inr 0, w'))"
    using assms by (auto simp: buy_def buy_at_market_def sell_def sell_at_market_def and_then_Inr
        ret_def split: if_splits)
  then show ?thesis using place_order_confirmed by blast
qed


subsection \<open>The outcome of a request\<close>

lemma with_socket_gets:
  "sockets w a = Some ws \<Longrightarrow> with_socket a (gets f) w = (Inr (f (ws, wire w)), w)"
  by (simp add: with_socket_def gets_def map_upd_triv)

lemma with_socket_emit:
  "sockets w a = Some ws \<Longrightarrow>
     with_socket a (ws_emit_param c p) w =
       (if endpoint_open ws then (Inr (), w\<lparr>wire := wire w @ [emit_param_frame c p]\<rparr>)
        else (Inl Net_Exception, w))"
  by (simp add: with_socket_def ws_emit_param_def endpoint_send_result map_upd_triv)

lemma try_emit_null: "trade_s (trade w) = None \<Longrightarrow> try_emit c p m w = (Inr 0, w)"
  by (simp add: try_emit_def try_catch_def if_valid_def prog_defs)

lemma try_emit_dangling:
  "trade_s (trade w) = Some a \<Longrightarrow> sockets w a = None \<Longrightarrow> try_emit c p m w = (Inl Undefined_Behaviour, w)"
  by (simp add: try_emit_def try_catch_def if_valid_def prog_defs with_socket_def)

lemma try_emit_invalid:
  "trade_s (trade w) = Some a \<Longrightarrow> sockets w a = Some ws \<Longrightarrow> \<not> is_valid ws \<Longrightarrow>
     try_emit c p m w = (Inr 0, w)"
  by (simp add: try_emit_def try_catch_def if_valid_def and_then_def gets_def[of "trade_s \<circ> trade"]
      ret_def with_socket_gets)

lemma try_emit_open:
  "trade_s (trade w) = Some a \<Longrightarrow> sockets w a = Some ws \<Longrightarrow> is_valid ws \<Longrightarrow> endpoint_open ws \<Longrightarrow>
     try_emit c p m w = (Inr 0, w\<lparr>wire := wire w @ [emit_param_frame c (param_ToJsonString p)]\<rparr>)"
  by (simp add: try_emit_def try_catch_def if_valid_def and_then_def gets_def[of "trade_s \<circ> trade"]
      ret_def with_socket_gets with_socket_emit)

lemma try_emit_not_open:
  "trade_s (trade w) = Some a \<Longrightarrow> sockets w a = Some ws \<Longrightarrow> is_valid ws \<Longrightarrow> \<not> endpoint_open ws \<Longrightarrow>
     try_emit c p m w = (Inr (- 1), w\<lparr>logs := logs w @ [(Fatal, m)]\<rparr>)"
  by (simp add: try_emit_def try_catch_def if_valid_def and_then_def gets_def[of "trade_s \<circ> trade"]
      ret_def with_socket_gets with_socket_emit okbot_log_def modify_def)

lemmas try_emit_cases = try_emit_null try_emit_dangling try_emit_invalid try_emit_open try_emit_not_open

text \<open>What is sent is sent on a valid, open socket, and 0 does not say that it was sent.\<close>

lemma try_emit_sent:
  assumes "try_emit c p m w = (r, w')" "wire w' \<noteq> wire w"
  shows "r = Inr 0 \<and> wire w' = wire w @ [emit_param_frame c (param_ToJsonString p)] \<and>
    (\<exists>a ws. trade_s (trade w) = Some a \<and> sockets w a = Some ws \<and> is_valid ws \<and> endpoint_open ws)"
proof (cases "trade_s (trade w)")
  case None
  with assms show ?thesis by (simp add: try_emit_null)
next
  case (Some a)
  show ?thesis
  proof (cases "sockets w a")
    case None
    with assms Some show ?thesis by (simp add: try_emit_dangling)
  next
    case (Some ws)
    with \<open>trade_s (trade w) = Some a\<close> assms show ?thesis
      by (cases "is_valid ws"; cases "endpoint_open ws") (auto simp: try_emit_cases)
  qed
qed

subsection \<open>The connection is lost and rebuilt\<close>

text \<open>The connection thread deletes the socket and leaves \<open>Trade::s_\<close> pointing to it.\<close>

lemma lost_dangles:
  assumes "pWebsocket (api w) = Some a" "sockets w a = Some ws"
  shows "sockets (snd (deliver Lost w)) a = None \<and> trade (snd (deliver Lost w)) = trade w \<and>
         pWebsocket (api (snd (deliver Lost w))) = None"
  using assms
  by (simp add: session_end_def prog_defs with_socket_def ws_on_close_def ws_update_def
      cn_callbak_close_def delete_socket_def set_pWebsocket_def okbot_log_def set_hThread_def)

lemma restart_relinks:
  assumes "hThread (api w)" "pWebsocket (api w) = None"
  shows "trade_s (trade (snd (deliver Restarted w))) = Some (next_socket w) \<and>
         pWebsocket (api (snd (deliver Restarted w))) = Some (next_socket w) \<and>
         (\<exists>ws. sockets (snd (deliver Restarted w)) (next_socket w) = Some ws \<and>
            is_valid ws \<and> endpoint ws = Ep_Connecting \<and> \<not> m_manual_close ws)"
  using assms
  by (simp add: session_begin_def if_socket_def prog_defs new_socket_def set_pWebsocket_def
      trade_set_websocket_def with_socket_def ws_update_def ws_new_def)

subsection \<open>Signatures\<close>

text \<open>
  How the exchange checks a request: the parameters except \<open>sign\<close>, in alphabetical order, as
  \<open>name=value\<close> joined by ampersands, then the secret key; the MD5 of that in upper case.
\<close>

definition unsigned_params :: "parameter \<Rightarrow> parameter" where
  "unsigned_params p = filter (\<lambda>(k, v). k \<noteq> ''sign'') p"

definition signed_text :: "string \<Rightarrow> parameter \<Rightarrow> string" where
  "signed_text secret p = param_ToString p @ ''&secret_key='' @ secret"

definition signature_valid :: "string \<Rightarrow> parameter \<Rightarrow> bool" where
  "signature_valid secret p \<longleftrightarrow>
     map_sorted p \<and>
     map_of p ''sign'' =
       Some (map toupper (md5_PrintMD5 (rfc_md5 (bytes_of (cstr (signed_text secret (unsigned_params p)))))))"

lemma unsigned_put_sign: "unsigned_params (map_put ''sign'' v p) = unsigned_params p"
  by (induction p) (auto simp: unsigned_params_def)

lemma unsigned_id: "map_of p ''sign'' = None \<Longrightarrow> unsigned_params p = p"
  unfolding unsigned_params_def by (induction p) (auto split: if_splits)

lemma no_nul_sign [simp]: "no_nul ''sign''"
  by simp

lemma add_sign_valid:
  assumes "map_sorted p" "map_of p ''sign'' = None" "length (signed_text secret p) < 2 ^ 31"
  shows "signature_valid secret (add_sign secret p)"
proof -
  have add: "add_sign secret p = map_put ''sign'' (param_GetSign secret p) p"
    by (simp add: add_sign_def param_AddParam_def param_Add_def)
  have "param_GetSign secret p = map toupper (md5_PrintMD5 (rfc_md5 (bytes_of (cstr (signed_text secret p)))))"
    using assms(3) by (simp add: param_GetSign_def MD5String_def signed_text_def MD5String_from_rfc)
  then show ?thesis
    using assms by (simp add: signature_valid_def add map_sorted_put map_of_map_put
        unsigned_put_sign unsigned_id)
qed

lemma map_sorted_AddParam: "map_sorted p \<Longrightarrow> map_sorted (param_AddParam k v p)"
  by (simp add: param_AddParam_def param_Add_def map_sorted_put)

lemma map_sorted_AddParam_cstr: "map_sorted p \<Longrightarrow> map_sorted (param_AddParam_cstr k v p)"
  by (simp add: param_AddParam_cstr_def param_Add_def map_sorted_put)

lemma map_of_AddParam:
  "map_of (param_AddParam k v p) = (if v = [] then map_of p else (map_of p)(cstr k \<mapsto> cstr v))"
  by (simp add: param_AddParam_def param_Add_def map_of_map_put)

lemma map_of_AddParam_cstr: "map_of (param_AddParam_cstr k v p) = (map_of p)(cstr k \<mapsto> cstr v)"
  by (simp add: param_AddParam_cstr_def param_Add_def map_of_map_put)

lemma map_sorted_Nil [simp]: "map_sorted []"
  by (simp add: map_sorted_def)

lemmas param_facts = map_sorted_AddParam map_sorted_AddParam_cstr map_of_AddParam map_of_AddParam_cstr

text \<open>What the parameters of an order are before they are signed.\<close>

definition order_fields :: "string \<Rightarrow> string \<Rightarrow> string \<Rightarrow> string \<Rightarrow> string \<Rightarrow> parameter" where
  "order_fields key symbol type price amount =
     param_AddParam ''amount'' amount (param_AddParam ''price'' price
       (param_AddParam ''type'' type (param_AddParam ''symbol'' symbol
         (param_AddParam ''api_key'' key []))))"

lemma order_params_fields:
  "order_params symbol type price amount t =
     add_sign (m_secret_key t) (order_fields (m_api_key t) symbol type price amount)"
  by (simp add: order_params_def order_fields_def Let_def param_AddParam_def)

lemma order_fields_sorted: "map_sorted (order_fields key symbol type price amount)"
  by (simp add: order_fields_def param_facts)

lemma order_fields_sign: "map_of (order_fields key symbol type price amount) ''sign'' = None"
  by (simp add: order_fields_def param_facts)

lemma order_params_signed:
  assumes "length (signed_text (m_secret_key t) (order_fields (m_api_key t) symbol type price amount)) < 2 ^ 31"
  shows "signature_valid (m_secret_key t) (order_params symbol type price amount t)"
  unfolding order_params_fields
  by (intro add_sign_valid order_fields_sorted order_fields_sign assms)

end
