(* ===== verification/Pending.thy ===== *)
theory Pending
  imports Trade_Facts
begin

section \<open>Pending documents\<close>

text \<open>
  A thread that waits uses up events or documents. \<open>pending\<close> counts the documents a channel
  still has or will get; no operation adds to it, and a consumer that returns from its wait
  has taken one away. The loops of the strategies end by this measure.
\<close>

subsection \<open>Events leave the script alone\<close>

definition same_env :: "'z world_scheme \<Rightarrow> 'z world_scheme \<Rightarrow> bool" where
  "same_env w w' \<longleftrightarrow> env w' = env w"

interpretation senv: kept same_env
  by unfold_locales (auto simp: same_env_def)

named_theorems env_intros \<open>operations that leave the environment alone\<close>
declare senv.keeps_intros [env_intros]

lemma same_env_prims [env_intros]:
  "keeps same_env (okbot_log level msg)" "keeps same_env (set_hThread b)"
  "keeps same_env (set_pWebsocket s)" "keeps same_env (trade_set_websocket s)"
  "keeps same_env (delete_socket a)" "keeps same_env new_socket" "keeps same_env (set_pipes p)"
  "keeps same_env (modify (\<lambda>w. w\<lparr>signal := Suc (signal w)\<rparr>))"
  "keeps same_env (with_socket a m)"
  by (simp_all add: keeps_def okbot_log_def set_hThread_def set_pWebsocket_def with_socket_frame
      trade_set_websocket_def delete_socket_def new_socket_def set_pipes_def prog_defs same_env_def)

lemma same_env_if_socket [env_intros]:
  "(\<And>a. keeps same_env (f a)) \<Longrightarrow> keeps same_env (if_socket f)"
  unfolding if_socket_def by (intro env_intros)

lemma same_env_sessions [env_intros]:
  "keeps same_env session_begin" "keeps same_env session_end" "keeps same_env Close"
  "keeps same_env (handle_open a)" "keeps same_env (handle_message a d)"
  unfolding session_begin_def session_end_def Close_def handle_open_def handle_message_def
    cn_callbak_open_def cn_callbak_close_def ok_spotcny_btc_kline_1min_def Emit_def
  by (intro env_intros)+

lemma same_env_deliver [env_intros]: "keeps same_env (deliver e)"
  by (cases e) (simp_all add: on_endpoint_def, (intro env_intros)+)

lemma env_deliver: "env (snd (deliver e w)) = env w"
  using keepsD[OF same_env_deliver, of w e] by (simp add: same_env_def)

lemma env_take_item: "env (snd (take_item name w)) = env w"
  by (cases "channel_items (pipes w) name") (simp_all add: take_item_result)

subsection \<open>Pending documents\<close>

fun weight :: "string \<Rightarrow> event \<Rightarrow> nat" where
  "weight name (Message (JArray es)) = length (filter (\<lambda>e. names_channel e name) es)"
| "weight name _ = 0"

definition pending :: "string \<Rightarrow> 'z world_scheme \<Rightarrow> nat" where
  "pending name w = length (channel_items (pipes w) name) + sum_list (map (weight name) (env w))"

definition drains :: "string \<Rightarrow> 'z world_scheme \<Rightarrow> 'z world_scheme \<Rightarrow> bool" where
  "drains name w w' \<longleftrightarrow> pending name w' \<le> pending name w"

lemma drains_quiet:
  assumes "keeps same_pipes m" "keeps same_env m"
  shows "keeps (drains name) m"
  using assms by (auto simp: keeps_def same_pipes_def same_env_def drains_def pending_def)

lemma dispatch_elems_length:
  "dispatch_elems d elems p = Inr p' \<Longrightarrow>
     length (channel_items p' name) \<le>
     length (channel_items p name) + length (filter (\<lambda>e. names_channel e name) elems)"
proof -
  assume a: "dispatch_elems d elems p = Inr p'"
  then have "list_all dispatchable elems"
    using dispatch_elems_abort by fastforce
  from dispatch_elems_ok[OF this, of d p] a show ?thesis by auto
qed

lemma callback_length:
  "cn_callbak_message d p = Inr p' \<Longrightarrow>
     length (channel_items p' name) \<le> length (channel_items p name) + weight name (Message d)"
  by (cases d) (auto dest: dispatch_elems_length)

lemma items_handle_message:
  "length (channel_items (pipes (snd (handle_message a d w))) name) \<le>
     length (channel_items (pipes w) name) + weight name (Message d)"
proof -
  let ?m = "with_socket a (gets (callbak_message \<circ> fst))"
  have "pipes (snd (?m w)) = pipes w" by (rule with_socket_frame)
  then show ?thesis
    using callback_length[of d "pipes w" _ name]
    by (cases "?m w"; cases "fst (?m w)"; cases "cn_callbak_message d (pipes w)")
      (auto simp: handle_message_def prog_defs set_pipes_def)
qed

lemma items_deliver:
  fixes w :: "'a world_scheme"
  shows
  "length (channel_items (pipes (snd (deliver e w))) name) \<le>
     length (channel_items (pipes w) name) + weight name e"
proof (cases "\<exists>d. e = Message d")
  case True
  then obtain d where e: "e = Message d" ..
  have sock: "pipes (snd (with_socket a (gets (\<lambda>s. endpoint (fst s))) w)) = pipes w" for a
    by (rule with_socket_frame)
  show ?thesis
  proof (cases "pWebsocket (api w)")
    case None
    then show ?thesis using e by (simp add: on_endpoint_def if_socket_def prog_defs)
  next
    case (Some a)
    obtain r w1 where m: "with_socket a (gets (\<lambda>s. endpoint (fst s))) w = (r, w1)" by fastforce
    then have "pipes w1 = pipes w" using sock[of a] by simp
    with Some m e items_handle_message[where name = name and a = a and d = d and w = w1] show ?thesis
      by (cases r) (auto simp: on_endpoint_def if_socket_def prog_defs)
  qed
next
  case False
  then have "keeps same_pipes (deliver e :: ('a, unit) bot)"
    by (cases e) (simp_all add: on_endpoint_def, (intro pipe_intros)+)
  from keepsD[OF this, of w] have "pipes (snd (deliver e w)) = pipes w" by (simp add: same_pipes_def)
  then show ?thesis by simp
qed

lemma pending_next_event:
  assumes "env w = e # es"
  shows "pending name (snd (next_event e w)) \<le> pending name w" "env (snd (next_event e w)) = es"
proof -
  have n: "next_event e w = deliver e (w\<lparr>env := es\<rparr>)"
    using assms by (simp add: next_event_def prog_defs)
  show "env (snd (next_event e w)) = es" by (simp add: n env_deliver)
  then show "pending name (snd (next_event e w)) \<le> pending name w"
    using items_deliver[where name = name and e = e and w = "w\<lparr>env := es\<rparr>"] assms by (simp add: pending_def n)
qed

lemma pending_take_item:
  "pending name (snd (take_item c w)) \<le> pending name w"
  "take_item name w = (Inr (Some d), w') \<Longrightarrow> pending name w' < pending name w"
  by (cases "channel_items (pipes w) c"; auto simp: take_item_result pending_def)
    (cases "channel_items (pipes w) name"; auto simp: take_item_result pending_def)

lemma take_item_returns: "\<exists>d. fst (take_item name w) = Inr d"
  by (cases "channel_items (pipes w) name") (simp_all add: take_item_result)

subsection \<open>Relations kept while a thread waits\<close>

text \<open>
  A wait is made of takes and events. \<open>wait_kept\<close> asks that both keep a relation, an event as it
  is consumed from the environment, and gives it for \<open>pop_wait\<close> and \<open>pop_timed\<close>.
\<close>

locale wait_kept = kept R for R :: "'z world_scheme \<Rightarrow> 'z world_scheme \<Rightarrow> bool" +
  assumes take_R: "R w (snd (take_item c w))"
    and next_R: "env w = e # es \<Longrightarrow> R w (snd (next_event e w))"
begin

lemma wait_step:
  assumes "env w = e # es" "take_item c w = (Inr None, w1)"
  shows "R w w1" "R w (snd (next_event e w1))" "env (snd (next_event e w1)) = es"
proof -
  have env1: "env w1 = e # es" using assms env_take_item[of c w] by simp
  show 1: "R w w1" using take_R[of w c] assms(2) by simp
  show "R w (snd (next_event e w1))" using trans_R[OF 1 next_R[OF env1]] .
  show "env (snd (next_event e w1)) = es"
    using env1 by (simp add: next_event_def prog_defs env_deliver)
qed

lemma wait_events_R: "env w = es \<Longrightarrow> R w (snd (wait_events c es w))"
proof (induction es arbitrary: w)
  case Nil
  obtain d w1 where t: "take_item c w = (Inr d, w1)"
    using take_item_returns[of c w] by (metis prod.collapse)
  with take_R[of w c] show ?case by (cases d) (simp_all add: prog_defs)
next
  case (Cons e es)
  obtain d w1 where t: "take_item c w = (Inr d, w1)"
    using take_item_returns[of c w] by (metis prod.collapse)
  show ?case
  proof (cases d)
    case None
    note st = wait_step[OF Cons.prems t[unfolded None]]
    obtain r w2 where n: "next_event e w1 = (r, w2)" by fastforce
    from st(2) n have "R w w2" by simp
    with None t n st Cons.IH[of w2] show ?thesis
      by (cases r) (auto simp: and_then_def intro: trans_R)
  next
    case (Some x)
    with t take_R[of w c] show ?thesis by (simp add: prog_defs)
  qed
qed

lemma timed_events_R: "env w = es \<Longrightarrow> R w (snd (timed_events c es w))"
proof (induction es arbitrary: w)
  case Nil
  show ?case by (simp add: take_R)
next
  case (Cons e es)
  obtain d w1 where t: "take_item c w = (Inr d, w1)"
    using take_item_returns[of c w] by (metis prod.collapse)
  show ?case
  proof (cases d)
    case None
    note st = wait_step[OF Cons.prems t[unfolded None]]
    obtain r w2 where n: "next_event e w1 = (r, w2)" by fastforce
    from st(2) n have "R w w2" by simp
    with None t n st Cons.IH[of w2] take_R[of w2 c] show ?thesis
      by (cases r) (auto simp: and_then_def intro: trans_R)
  next
    case (Some x)
    with t take_R[of w c] show ?thesis by (simp add: prog_defs)
  qed
qed

lemma keeps_pops: "keeps R (pop_wait c)" "keeps R (pop_timed c)"
  by (simp_all add: keeps_def pop_wait_def pop_timed_def and_then_def gets_def
      wait_events_R[OF refl] timed_events_R[OF refl])

end

text \<open>
  \<open>comm_kept\<close> is for relations that depend on the queues, the environment and the signal only: the
  requests and the orders keep them, and so does every change of the other fields.
\<close>

locale comm_kept = wait_kept R for R :: "'z world_scheme \<Rightarrow> 'z world_scheme \<Rightarrow> bool" +
  assumes only_R: "pipes w' = pipes w \<Longrightarrow> env w' = env w \<Longrightarrow> signal w' = signal w \<Longrightarrow> R w w'"
begin

lemma sets_R:
  "(\<And>w. pipes (f w) = pipes w \<and> env (f w) = env w \<and> signal (f w) = signal w) \<Longrightarrow> keeps R (modify f)"
  by (rule keeps_modify) (simp add: only_R)

lemma io_R: "keeps io_only m \<Longrightarrow> keeps R m"
  unfolding keeps_def io_only_def using only_R by blast

lemma prims_R:
  "keeps R (okbot_log level msg)" "keeps R (set_status st)" "keeps R get_status"
  "keeps R (with_socket a m)" "keeps R (trade_set_websocket s)"
  unfolding okbot_log_def set_status_def get_status_def trade_set_websocket_def
  by (intro sets_R keeps_gets io_R[OF io_only_prims(1)]; simp)+

lemmas requests_R = io_only_requests[THEN io_R]

lemma reply_loop_R: "keeps R (reply_loop c m es)"
  by (induction es) (simp_all, (intro keeps_intros prims_R | assumption)+)

lemma CHECK_R: "keeps R CHECK_AND_RETURN"
  unfolding CHECK_AND_RETURN_def
  by (intro keeps_and_then keeps_pops keeps_option)
    (auto split: json.split intro!: keeps_intros prims_R reply_loop_R)

lemma orders_R:
  "keeps R (buy x y)" "keeps R (buy_at_market x)" "keeps R (sell x y)" "keeps R (sell_at_market y)"
  "keeps R close_trade_ugly"
  unfolding buy_def buy_at_market_def sell_def sell_at_market_def place_order_def close_trade_ugly_def
    if_valid_def
  by (intro keeps_intros prims_R requests_R CHECK_R)+

lemmas comm_intros = keeps_intros keeps_pops prims_R requests_R reply_loop_R CHECK_R orders_R

end

interpretation drain: comm_kept "drains name" for name
  by unfold_locales
    (simp_all add: drains_def pending_take_item pending_next_event(1), simp add: pending_def)

text \<open>The documents a channel holds, and the messages that may still come.\<close>

definition avail :: "string \<Rightarrow> 'z world_scheme \<Rightarrow> json set" where
  "avail c w = set (channel_items (pipes w) c) \<union> {d. Message d \<in> set (env w)}"

definition no_new_docs :: "'z world_scheme \<Rightarrow> 'z world_scheme \<Rightarrow> bool" where
  "no_new_docs w w' \<longleftrightarrow> (\<forall>c. avail c w' \<subseteq> avail c w)"

lemma no_new_docs_take: "no_new_docs w (snd (take_item c w))"
  by (cases "channel_items (pipes w) c") (auto simp: no_new_docs_def avail_def take_item_result)

lemma no_new_docs_next:
  assumes "env w = e # es"
  shows "no_new_docs w (snd (next_event e w))"
proof -
  have "docs_from {d. e = Message d} w (snd (next_event e w))"
    by (rule keepsD[OF docs_next_event])
  moreover have "env (snd (next_event e w)) = es" by (rule pending_next_event(2)[OF assms])
  ultimately show ?thesis
    using assms unfolding no_new_docs_def avail_def docs_from_def by fastforce
qed

interpretation avl: comm_kept no_new_docs
proof unfold_locales
  show "no_new_docs s t \<Longrightarrow> no_new_docs t u \<Longrightarrow> no_new_docs s u" for s t u
    unfolding no_new_docs_def by blast
qed (simp_all add: no_new_docs_take no_new_docs_next, simp_all add: no_new_docs_def avail_def)

lemma pop_wait_pending:
  "pop_wait c w = (Inr d, w') \<Longrightarrow> pending c w' < pending c w"
proof -
  have "env w = es \<Longrightarrow> wait_events c es w = (Inr d, w') \<Longrightarrow> pending c w' < pending c w" for es w
  proof (induction es arbitrary: w)
    case Nil
    then show ?case using pending_take_item(2)[of c w]
      by (auto simp: and_then_Inr ret_def raise_def split: option.splits)
  next
    case (Cons e es)
    obtain v w1 where t: "take_item c w = (Inr v, w1)"
      using take_item_returns[of c w] by (metis prod.collapse)
    have le: "pending c w1 \<le> pending c w" "env w1 = e # es"
      using t pending_take_item(1)[of c c w] env_take_item[of c w] Cons.prems by simp_all
    show ?case
    proof (cases v)
      case None
      then obtain x w2 where n: "next_event e w1 = (Inr x, w2)" and rest: "wait_events c es w2 = (Inr d, w')"
        using Cons.prems(2) t by (auto simp: and_then_def split: prod.splits sum.splits)
      then have "pending c w2 \<le> pending c w1" "env w2 = es"
        using pending_next_event(1)[OF le(2), of c] pending_next_event(2)[OF le(2)] by simp_all
      with Cons.IH[OF _ rest] le show ?thesis by simp
    next
      case (Some v')
      with t Cons.prems(2) have "w1 = w'" by (simp add: prog_defs)
      with t Some pending_take_item(2) show ?thesis by blast
    qed
  qed
  then show "pop_wait c w = (Inr d, w') \<Longrightarrow> pending c w' < pending c w"
    by (simp add: pop_wait_def prog_defs)
qed

text \<open>A round that returns took a document from its queue.\<close>

lemma round_pending:
  assumes "\<And>d. keeps (drains c) (f d)" "and_then (pop_wait c) f w = (Inr x, w')"
  shows "pending c w' < pending c w"
proof -
  obtain d w1 where pop: "pop_wait c w = (Inr d, w1)" and rest: "f d w1 = (Inr x, w')"
    using assms(2) by (auto simp: and_then_Inr)
  have "pending c w' \<le> pending c w1"
    using keepsD[OF assms(1)[of d], of w1] rest by (simp add: drains_def)
  with pop_wait_pending[OF pop] show ?thesis by simp
qed

text \<open>When nothing comes, the wait does not end.\<close>

lemma wait_events_blocked:
  "env w = es \<Longrightarrow> channel_items (pipes w) c = [] \<Longrightarrow> set es \<subseteq> {Stop, Timeout} \<Longrightarrow>
     fst (wait_events c es w) = Inl Blocked"
proof (induction es arbitrary: w)
  case Nil
  then show ?case by (simp add: take_item_result prog_defs)
next
  case (Cons e es)
  let ?w1 = "w\<lparr>pipes := snd (get_queue c (pipes w))\<rparr>"
  obtain w2 where n: "next_event e ?w1 = (Inr (), w2)" "env w2 = es" "channel_items (pipes w2) c = []"
    using Cons.prems by (cases e) (auto simp: next_event_def prog_defs)
  with Cons show ?case by (simp add: take_item_result and_then_def)
qed

end
