(* ===== verification/Histories.thy ===== *)
theory Histories
  imports Prelude
begin

section \<open>The contract of a bounded history\<close>

text \<open>
  Both ring buffers of the program (\<open>util/window.h\<close> and \<open>util/time_window.h\<close>) promise
  their clients the same thing: they hold the newest \<open>cap\<close> accepted elements, the newest
  first. The locale states that promise; the strategy uses what is proved inside it.
\<close>

locale bounded_history =
  fixes cap :: nat
    and wf :: "'w \<Rightarrow> bool"
    and hist :: "'w \<Rightarrow> 'e list"
    and accepts :: "'e \<Rightarrow> 'w \<Rightarrow> bool"
    and push :: "'e \<Rightarrow> 'w \<Rightarrow> 'w"
    and reset :: "'w \<Rightarrow> 'w"
    and stored :: "'w \<Rightarrow> nat"
    and filled :: "'w \<Rightarrow> bool"
    and latest :: "'w \<Rightarrow> nat \<Rightarrow> 'e"
  assumes cap_pos: "wf w \<Longrightarrow> 0 < cap"
    and wf_push: "wf w \<Longrightarrow> wf (push e w)"
    and hist_push: "wf w \<Longrightarrow> accepts e w \<Longrightarrow> hist (push e w) = take cap (e # hist w)"
    and wf_reset: "wf w \<Longrightarrow> wf (reset w)"
    and hist_reset: "wf w \<Longrightarrow> hist (reset w) = []"
    and stored_hist: "wf w \<Longrightarrow> stored w = length (hist w)"
    and length_hist: "wf w \<Longrightarrow> length (hist w) \<le> cap"
    and filled_hist: "wf w \<Longrightarrow> filled w \<longleftrightarrow> length (hist w) = cap"
    and latest_hist: "wf w \<Longrightarrow> k < length (hist w) \<Longrightarrow> latest w k = hist w ! k"
begin

text \<open>A run of pushes, each of which the state it meets accepts.\<close>

fun push_all :: "'e list \<Rightarrow> 'w \<Rightarrow> 'w" where
  "push_all [] w = w"
| "push_all (e # es) w = push_all es (push e w)"

fun all_accepted :: "'e list \<Rightarrow> 'w \<Rightarrow> bool" where
  "all_accepted [] w = True"
| "all_accepted (e # es) w = (accepts e w \<and> all_accepted es (push e w))"

lemma wf_push_all: "wf w \<Longrightarrow> wf (push_all es w)"
  by (induction es arbitrary: w) (auto intro: wf_push)

lemma hist_push_all:
  "wf w \<Longrightarrow> all_accepted es w \<Longrightarrow> hist (push_all es w) = take cap (rev es @ hist w)"
proof (induction es arbitrary: w)
  case Nil
  then show ?case using length_hist by simp
next
  case (Cons e es)
  then have "hist (push_all (e # es) w) = take cap (rev es @ take cap (e # hist w))"
    by (simp add: wf_push hist_push)
  also have "\<dots> = take cap (rev es @ e # hist w)"
    by (simp add: take_append min_def)
  finally show ?case by simp
qed

lemma latest_push:
  assumes "wf w" "accepts e w"
  shows "latest (push e w) 0 = e"
proof -
  have "hist (push e w) = take cap (e # hist w)" using assms by (rule hist_push)
  moreover have "0 < cap" using assms(1) by (rule cap_pos)
  ultimately show ?thesis using latest_hist[OF wf_push[OF assms(1)], of 0 e] by simp
qed

lemma pushed_in_hist: "wf w \<Longrightarrow> accepts e w \<Longrightarrow> e \<in> set (hist (push e w))"
  using cap_pos[of w] by (cases cap) (auto simp: hist_push)

text \<open>Once \<open>cap\<close> elements are accepted, the window is filled with exactly these.\<close>

lemma filled_after_cap:
  assumes "wf w" "all_accepted es w" "length es = cap"
  shows "filled (push_all es w) \<and> hist (push_all es w) = rev es"
  using assms by (simp add: hist_push_all filled_hist wf_push_all)

lemma filled_mono: "wf w \<Longrightarrow> accepts e w \<Longrightarrow> filled w \<Longrightarrow> filled (push e w)"
  by (simp add: filled_hist wf_push hist_push)

lemma reset_not_filled: "wf w \<Longrightarrow> \<not> filled (reset w)"
  using cap_pos[of w] by (simp add: filled_hist wf_reset hist_reset)

end

end
