(* ===== verification/Time_Windows.thy ===== *)
theory Time_Windows
  imports Histories
begin

section \<open>util/time_window.h: the ring buffer of time-stamped values\<close>

text \<open>
  \<open>TimeWindow<T, N>\<close>: a fixed array of \<open>N\<close> pairs written round-robin, with the flags
  the class keeps. The capacity \<open>N\<close> is a template parameter, here the first argument.
  Indices are \<open>size_t\<close>: where the code subtracts, the wrap-around is written out. The
  refinement relates the array to the list of its entries, newest first.
\<close>

record 'a time_window =
  tw_full :: bool
  tw_valid_size :: nat
  tw_first :: bool
  tw_index :: nat
  tw_slots :: "(int \<times> 'a) list"

text \<open>Default construction: the pairs of the array are value-initialised.\<close>

definition tw_new :: "nat \<Rightarrow> 'a \<Rightarrow> 'a time_window" where
  "tw_new N zero =
     \<lparr>tw_full = False, tw_valid_size = 0, tw_first = True, tw_index = 0,
      tw_slots = replicate N (0, zero)\<rparr>"

text \<open>The block that stores a new entry and moves the index, the same in both branches of \<open>put\<close>.\<close>

definition tw_append :: "nat \<Rightarrow> int \<Rightarrow> 'a \<Rightarrow> 'a time_window \<Rightarrow> 'a time_window" where
  "tw_append N ts x w =
     (let i = tw_index w + 1
      in w\<lparr>tw_slots := (tw_slots w)[tw_index w := (ts, x)],
           tw_valid_size := (if tw_full w then tw_valid_size w else tw_valid_size w + 1),
           tw_full := (tw_full w \<or> i = N),
           tw_index := i mod N\<rparr>)"

definition tw_last_slot :: "nat \<Rightarrow> 'a time_window \<Rightarrow> nat" where
  "tw_last_slot N w = (tw_index w + N - 1) mod N"

definition tw_put :: "nat \<Rightarrow> int \<Rightarrow> 'a \<Rightarrow> 'a time_window \<Rightarrow> int \<times> 'a time_window" where
  "tw_put N ts x w =
     (if tw_first w then (0, (tw_append N ts x w)\<lparr>tw_first := False\<rparr>)
      else let last = tw_slots w ! tw_last_slot N w
        in if fst last = ts
           then (1, w\<lparr>tw_slots := (tw_slots w)[tw_last_slot N w := (fst last, x)]\<rparr>)
           else if fst last < ts then (0, tw_append N ts x w)
           else (- 1, w))"

definition tw_is_full :: "'a time_window \<Rightarrow> bool" where
  "tw_is_full w = tw_full w"

definition tw_get_size :: "'a time_window \<Rightarrow> nat" where
  "tw_get_size w = tw_valid_size w"

text \<open>The guard of \<open>update\<close> is the code's: it writes only when \<open>place\<close> is out of range.\<close>

definition tw_update :: "nat \<Rightarrow> 'a \<Rightarrow> nat \<Rightarrow> 'a time_window \<Rightarrow> 'a time_window" where
  "tw_update N x place w =
     (if N \<le> place
      then let i = size_t (int (tw_index w) + int N - 1 - int place) mod N
           in w\<lparr>tw_slots := (tw_slots w)[i := (fst (tw_slots w ! i), x)]\<rparr>
      else w)"

definition tw_get :: "nat \<Rightarrow> 'a time_window \<Rightarrow> nat \<Rightarrow> (int \<times> 'a) result" where
  "tw_get N w at =
     (if N \<le> at then Inl Invalid_Argument
      else Inr (tw_slots w ! ((tw_index w + N - 1 - at) mod N)))"

definition tw_get_range :: "nat \<Rightarrow> 'a time_window \<Rightarrow> nat \<Rightarrow> nat \<Rightarrow> (int \<times> 'a) list result" where
  "tw_get_range N w beg len =
     (if N \<le> beg \<or> N \<le> len then Inl Invalid_Argument
      else let len' = (if N < beg + len then N - beg else len)
           in Inr (map (\<lambda>i. tw_slots w !
                 (size_t (int beg - int i + int (tw_index w) + int N - 1) mod N)) [0..<len']))"

definition tw_clear :: "'a time_window \<Rightarrow> 'a time_window" where
  "tw_clear w = w\<lparr>tw_full := False, tw_valid_size := 0, tw_first := True, tw_index := 0\<rparr>"

text \<open>\<open>debug_str\<close>; the two printers (local time, stream output of \<open>T\<close>) are parameters.\<close>

definition tw_debug_str ::
    "(int \<Rightarrow> string) \<Rightarrow> ('a \<Rightarrow> string) \<Rightarrow> nat \<Rightarrow> 'a time_window \<Rightarrow> string" where
  "tw_debug_str show_time show_val N w =
     concat (map (\<lambda>i. let e = tw_slots w ! ((tw_index w + N - 1 - i) mod N)
                      in show_time (fst e) @ CHR 0x09 # show_val (snd e) @ [CHR 0x0A])
                 [0..<tw_valid_size w])"

subsection \<open>Invariant and abstraction\<close>

definition tw_wf :: "nat \<Rightarrow> 'a time_window \<Rightarrow> bool" where
  "tw_wf N w \<longleftrightarrow>
     0 < N \<and> N < 2 ^ 62 \<and> length (tw_slots w) = N \<and> tw_index w < N \<and> tw_valid_size w \<le> N \<and>
     (tw_full w \<longleftrightarrow> tw_valid_size w = N) \<and> (tw_first w \<longleftrightarrow> tw_valid_size w = 0) \<and>
     (\<not> tw_full w \<longrightarrow> tw_index w = tw_valid_size w)"

definition tw_series :: "nat \<Rightarrow> 'a time_window \<Rightarrow> (int \<times> 'a) list" where
  "tw_series N w = map (\<lambda>k. tw_slots w ! ring_slot N (tw_index w) k) [0..<tw_valid_size w]"

text \<open>The abstract operation: a series ordered by time, newest first, at most \<open>N\<close> long.\<close>

fun series_put :: "nat \<Rightarrow> int \<Rightarrow> 'a \<Rightarrow> (int \<times> 'a) list \<Rightarrow> int \<times> (int \<times> 'a) list" where
  "series_put N ts x [] = (0, [(ts, x)])"
| "series_put N ts x ((t, y) # s) =
     (if t = ts then (1, (ts, x) # s)
      else if t < ts then (0, take N ((ts, x) # (t, y) # s))
      else (- 1, (t, y) # s))"

lemma tw_wf_new: "0 < N \<Longrightarrow> N < 2 ^ 62 \<Longrightarrow> tw_wf N (tw_new N zero)"
  by (simp add: tw_wf_def tw_new_def)

lemma length_tw_series [simp]: "length (tw_series N w) = tw_valid_size w"
  by (simp add: tw_series_def)

lemma tw_series_new [simp]: "tw_series N (tw_new N zero) = []"
  by (simp add: tw_series_def tw_new_def)

lemma tw_series_first [simp]: "tw_series N (w\<lparr>tw_first := b\<rparr>) = tw_series N w"
  by (simp add: tw_series_def)

lemma tw_append_first: "tw_append N ts x w = tw_append N ts x (w\<lparr>tw_first := b\<rparr>)\<lparr>tw_first := tw_first w\<rparr>"
  by (simp add: tw_append_def Let_def)

lemma tw_append_wf: "tw_wf N w \<Longrightarrow> tw_wf N ((tw_append N ts x w)\<lparr>tw_first := False\<rparr>)"
  by (auto simp: tw_wf_def tw_append_def Let_def)

lemma tw_append_series:
  assumes "tw_wf N w"
  shows "tw_series N (tw_append N ts x w) = take N ((ts, x) # tw_series N w)"
proof (rule nth_equalityI)
  let ?w' = "tw_append N ts x w" and ?i = "tw_index w" and ?v = "tw_valid_size w"
  have N: "0 < N" and i: "?i < N" and len: "length (tw_slots w) = N" and v: "?v \<le> N"
    and full: "tw_full w \<longleftrightarrow> ?v = N"
    using assms by (auto simp: tw_wf_def)
  have v': "tw_valid_size ?w' = min N (Suc ?v)"
    using v full by (auto simp: tw_append_def Let_def)
  then show "length (tw_series N ?w') = length (take N ((ts, x) # tw_series N w))" by simp
  fix k assume "k < length (tw_series N ?w')"
  then have k: "k < N" "k < Suc ?v" using v' by auto
  have nth: "tw_series N ?w' ! k = (tw_slots w)[?i := (ts, x)] ! ring_slot N ((?i + 1) mod N) k"
    using k v' by (simp add: tw_series_def tw_append_def Let_def)
  show "tw_series N ?w' ! k = take N ((ts, x) # tw_series N w) ! k"
  proof (cases k)
    case 0
    then show ?thesis using nth N i len ring_slot_zero[OF N i] by simp
  next
    case (Suc j)
    then have "ring_slot N ((?i + 1) mod N) k = ring_slot N ?i j"
      using ring_slot_Suc[OF N i] k by simp
    moreover have "ring_slot N ?i j \<noteq> ?i" using ring_slot_neq[OF i] k Suc by simp
    ultimately show ?thesis using nth k Suc by (simp add: tw_series_def)
  qed
qed

lemma tw_last_slot_ring: "tw_last_slot N w = ring_slot N (tw_index w) 0"
  by (simp add: tw_last_slot_def ring_slot_def)

lemma tw_series_hd:
  "tw_wf N w \<Longrightarrow> \<not> tw_first w \<Longrightarrow>
     tw_series N w = (tw_slots w ! tw_last_slot N w) # tl (tw_series N w)"
  by (auto simp: tw_wf_def tw_series_def tw_last_slot_ring map_tl upt_conv_Cons)

lemma tw_rewrite_series:
  assumes "tw_wf N w" "\<not> tw_first w"
  shows "tw_series N (w\<lparr>tw_slots := (tw_slots w)[tw_last_slot N w := e]\<rparr>) = e # tl (tw_series N w)"
proof (rule nth_equalityI)
  have N: "0 < N" and len: "length (tw_slots w) = N" and v: "0 < tw_valid_size w" "tw_valid_size w \<le> N"
    using assms by (auto simp: tw_wf_def)
  show "length (tw_series N (w\<lparr>tw_slots := (tw_slots w)[tw_last_slot N w := e]\<rparr>)) =
        length (e # tl (tw_series N w))" using v by simp
  fix k assume "k < length (tw_series N (w\<lparr>tw_slots := (tw_slots w)[tw_last_slot N w := e]\<rparr>))"
  then have k: "k < tw_valid_size w" "k < N" using v by auto
  have "ring_slot N (tw_index w) 0 = ring_slot N (tw_index w) k \<longleftrightarrow> k = 0"
    using ring_slot_inj[OF N N, of k "tw_index w"] k by auto
  then show "tw_series N (w\<lparr>tw_slots := (tw_slots w)[tw_last_slot N w := e]\<rparr>) ! k = (e # tl (tw_series N w)) ! k"
    using k N len by (cases k) (auto simp: tw_series_def tw_last_slot_ring nth_tl)
qed

lemma tw_put_wf: "tw_wf N w \<Longrightarrow> tw_wf N (snd (tw_put N ts x w))"
  using tw_append_wf[of N w ts x]
  by (auto simp: tw_put_def Let_def) (auto simp: tw_wf_def tw_append_def Let_def)

lemma tw_put_refines:
  assumes "tw_wf N w"
  shows "map_prod id (tw_series N) (tw_put N ts x w) = series_put N ts x (tw_series N w)"
proof (cases "tw_first w")
  case True
  then have "tw_series N w = []" "0 < N" using assms by (auto simp: tw_wf_def tw_series_def)
  then show ?thesis using True by (simp add: tw_put_def tw_append_series[OF assms])
next
  case False
  obtain t y where last: "tw_slots w ! tw_last_slot N w = (t, y)" by fastforce
  have hd: "tw_series N w = (t, y) # tl (tw_series N w)"
    using tw_series_hd[OF assms False] last by simp
  have "series_put N ts x (tw_series N w) =
      (if t = ts then (1, (ts, x) # tl (tw_series N w))
       else if t < ts then (0, take N ((ts, x) # tw_series N w)) else (- 1, tw_series N w))"
    using hd by (metis series_put.simps(2))
  then show ?thesis
    by (simp add: tw_put_def False last tw_append_series[OF assms] tw_rewrite_series[OF assms False])
qed

lemma tw_get_series:
  "tw_wf N w \<Longrightarrow> k < tw_valid_size w \<Longrightarrow> tw_get N w k = Inr (tw_series N w ! k)"
  by (auto simp: tw_wf_def tw_get_def tw_series_def ring_slot_def)

lemma tw_get_range_series:
  assumes "tw_wf N w" "len \<le> tw_valid_size w" "len < N"
  shows "tw_get_range N w 0 len = Inr (take len (tw_series N w))"
proof -
  have "size_t (0 - int i + int (tw_index w) + int N - 1) mod N = ring_slot N (tw_index w) i"
    if "i < len" for i
  proof -
    have b: "tw_index w < N" "N < 2 ^ 62" "i < N" using that assms by (auto simp: tw_wf_def)
    then have "size_t (0 - int i + int (tw_index w) + int N - 1) = tw_index w + N - 1 - i"
      by (subst size_t_id) (auto simp: nat_eq_iff of_nat_diff)
    then show ?thesis by (simp add: ring_slot_def)
  qed
  then show ?thesis using assms by (auto simp: tw_get_range_def tw_wf_def tw_series_def take_map)
qed

lemma tw_clear_wf: "tw_wf N w \<Longrightarrow> tw_wf N (tw_clear w)"
  by (simp add: tw_wf_def tw_clear_def)

lemma tw_clear_series [simp]: "tw_series N (tw_clear w) = []"
  by (simp add: tw_series_def tw_clear_def)

subsection \<open>Time order\<close>

definition time_ordered :: "(int \<times> 'a) list \<Rightarrow> bool" where
  "time_ordered s \<longleftrightarrow> sorted_wrt (\<lambda>a b. fst b < fst a) s"

lemma time_ordered_take: "time_ordered s \<Longrightarrow> time_ordered (take n s)"
  by (simp add: time_ordered_def sorted_wrt_take)

lemma series_put_ordered: "time_ordered s \<Longrightarrow> time_ordered (snd (series_put N ts x s))"
proof (induction N ts x s rule: series_put.induct)
  case (2 N ts x t y s)
  show ?case
  proof (cases "t < ts")
    case True
    with 2 have "time_ordered ((ts, x) # (t, y) # s)" by (auto simp: time_ordered_def)
    with True show ?thesis by (auto dest: time_ordered_take[of _ N])
  qed (use 2 in \<open>auto simp: time_ordered_def\<close>)
qed (simp add: time_ordered_def)

text \<open>The window as a bounded history: it accepts an entry that is newer than its newest.\<close>

definition tw_accepts :: "nat \<Rightarrow> int \<times> 'a \<Rightarrow> 'a time_window \<Rightarrow> bool" where
  "tw_accepts N e w \<longleftrightarrow> tw_first w \<or> fst (tw_slots w ! tw_last_slot N w) < fst e"

definition tw_push :: "nat \<Rightarrow> int \<times> 'a \<Rightarrow> 'a time_window \<Rightarrow> 'a time_window" where
  "tw_push N e w = snd (tw_put N (fst e) (snd e) w)"

definition tw_entry :: "nat \<Rightarrow> 'a time_window \<Rightarrow> nat \<Rightarrow> int \<times> 'a" where
  "tw_entry N w k = tw_slots w ! ((tw_index w + N - 1 - k) mod N)"

lemma tw_push_series:
  "tw_wf N w \<Longrightarrow> tw_accepts N e w \<Longrightarrow> tw_series N (tw_push N e w) = take N (e # tw_series N w)"
  by (auto simp: tw_push_def tw_put_def tw_accepts_def Let_def tw_append_series)

interpretation tw: bounded_history N "tw_wf N" "tw_series N" "tw_accepts N" "tw_push N"
    tw_clear tw_get_size tw_is_full "tw_entry N" for N
proof (unfold_locales, goal_cases)
  case (2 w e)
  then show ?case by (simp add: tw_push_def tw_put_wf)
next
  case (3 w e)
  then show ?case by (rule tw_push_series)
qed (auto simp: tw_wf_def tw_clear_wf tw_get_size_def tw_is_full_def tw_entry_def tw_series_def
      tw_clear_def ring_slot_def)

end
