(* ===== verification/Tech_Index.thy ===== *)
theory Tech_Index
  imports Doubles
begin

section \<open>strategy/tech_index.h: the technical indicators\<close>

text \<open>
  \<open>ROC\<close>, \<open>MAROC\<close>, \<open>SUM\<close>, \<open>AVERAGE\<close> and \<open>MIN\<close> on doubles (as \<open>vec_SUM\<close> and so on), with the operations in
  the order of the code. \<open>vec.size()\<close> is converted to double before the division.
\<close>

definition ROC :: "double \<Rightarrow> double \<Rightarrow> double" where
  "ROC today n_days_ago =
     dsub (ddiv (dmul today (double_of_int 100)) n_days_ago) (double_of_int 100)"

definition MAROC :: "(int \<times> double) list \<Rightarrow> double" where
  "MAROC roc_vec =
     ddiv (foldl (\<lambda>sum roc. dadd sum (snd roc)) dzero roc_vec) (double_of_int (int (length roc_vec)))"

definition vec_SUM :: "double list \<Rightarrow> double" where
  "vec_SUM vec = foldl dadd dzero vec"

definition vec_AVERAGE :: "double list \<Rightarrow> double" where
  "vec_AVERAGE vec = ddiv (vec_SUM vec) (double_of_int (int (length vec)))"

fun min_loop :: "double \<Rightarrow> double list \<Rightarrow> double" where
  "min_loop m [] = m"
| "min_loop m (x # xs) = min_loop (if dgt m x then x else m) xs"

definition vec_MIN :: "double list \<Rightarrow> double" where
  "vec_MIN vec =
     (if length vec = 1 then vec ! 0
      else if 1 < length vec then min_loop (vec ! 0) (tl vec)
      else double_of_int (- 1))"

subsection \<open>\<open>MIN\<close> is a lower bound\<close>

lemma min_loop_NaN [simp]: "min_loop NaN xs = NaN"
  by (induction xs) auto

lemma min_loop_not_above: "m \<noteq> NaN \<Longrightarrow> \<not> dlt m (min_loop m xs)"
proof (induction xs arbitrary: m)
  case (Cons x xs)
  show ?case
  proof (cases "dlt x m")
    case True
    then have "x \<noteq> NaN" by auto
    then have "\<not> dlt x (min_loop x xs)" by (rule Cons.IH)
    then have "\<not> dlt m (min_loop x xs)" using True dlt_trans by blast
    with True show ?thesis by simp
  next
    case False
    with Cons show ?thesis by simp
  qed
qed simp

lemma min_loop_lower_bound: "x \<in> set (m # xs) \<Longrightarrow> \<not> dlt x (min_loop m xs)"
proof (induction xs arbitrary: m x)
  case Nil
  then show ?case by simp
next
  case (Cons y ys)
  show ?case
  proof (cases "m = NaN")
    case True
    then show ?thesis by simp
  next
    case m: False
    show ?thesis
    proof (cases "dlt y m")
      case True
      then have y: "y \<noteq> NaN" by auto
      have ym: "\<not> dlt y (min_loop y ys)" using Cons.IH by simp
      have "\<not> dlt m (min_loop y ys)" using True ym by (meson dlt_trans)
      with Cons True show ?thesis by auto
    next
      case False
      have ml: "\<not> dlt m (min_loop m ys)" using m by (rule min_loop_not_above)
      have "\<not> dlt y (min_loop m ys)" using not_dlt_trans[OF m False ml] .
      with Cons False show ?thesis by auto
    qed
  qed
qed

text \<open>No element of the vector compares below \<open>MIN\<close> of it, NaN or not.\<close>

lemma vec_MIN_lower_bound: "x \<in> set vec \<Longrightarrow> \<not> dlt x (vec_MIN vec)"
proof (cases vec)
  case (Cons m xs)
  assume "x \<in> set vec"
  with Cons show ?thesis using min_loop_lower_bound[of x m xs] by (auto simp: vec_MIN_def)
qed simp

lemma min_loop_mem: "min_loop m xs \<in> set (m # xs)"
proof (induction xs arbitrary: m)
  case (Cons x xs)
  show ?case using Cons[of x] Cons[of m] by auto
qed simp

lemma vec_MIN_mem: "vec \<noteq> [] \<Longrightarrow> vec_MIN vec \<in> set vec"
  using min_loop_mem[of "vec ! 0" "tl vec"] by (cases vec) (auto simp: vec_MIN_def)

end
