(* ===== verification/Roc_Indicators.thy ===== *)
theory Roc_Indicators
  imports Time_Windows Tech_Index Json
begin

section \<open>strategy/roc\_strategy.h: the indicators\<close>

text \<open>
  The three time windows of \<open>RocStrategy\<close>, the computation of the rate of change and of its
  moving average from a message (\<open>calc_roc_and_maroc\<close>), and the three signals. What the
  windows hold is refined to plain lists, newest entry first. The dumps to files and the
  text built for them are not modelled; \<open>(t, c)\<close> is a data point: time and closing price.
\<close>

definition COUNT :: nat where
  "COUNT = 12"

definition AVG_NUM :: nat where
  "AVG_NUM = 6"

definition ROC_LEN :: nat where
  "ROC_LEN = 720"

record indicators =
  window :: "double time_window"
  roc_win :: "double time_window"
  maroc_win :: "double time_window"

definition indicators_new :: indicators where
  "indicators_new =
     \<lparr>window = tw_new COUNT dzero, roc_win = tw_new ROC_LEN dzero, maroc_win = tw_new ROC_LEN dzero\<rparr>"

definition strategy_data_source :: string where
  "strategy_data_source = ''ok_sub_spotcny_btc_kline_1min''"

subsection \<open>One data point\<close>

text \<open>The first part of \<open>operator[]\<close> and \<open>get\<close> that the code uses: the value of an entry.\<close>

definition value_at :: "nat \<Rightarrow> double time_window \<Rightarrow> nat \<Rightarrow> double result" where
  "value_at N w k = bind_result (tw_get N w k) (\<lambda>e. Inr (snd e))"

text \<open>
  The body shared by the two branches of the loop. The first component is what \<open>updated\<close>
  becomes, \<open>None\<close> when the code leaves it alone.
\<close>

definition calc_point :: "int \<times> double \<Rightarrow> indicators \<Rightarrow> (bool option \<times> indicators) result" where
  "calc_point point s =
     (let t = fst point;
          win = snd (tw_put COUNT t (snd point) (window s));
          s1 = s\<lparr>window := win\<rparr>
      in if tw_is_full win
         then bind_result (value_at COUNT win 0) (\<lambda>today.
              bind_result (value_at COUNT win (COUNT - 1)) (\<lambda>before.
                let roc = snd (tw_put ROC_LEN t (ROC today before) (roc_win s1));
                    s2 = s1\<lparr>roc_win := roc\<rparr>
                in if AVG_NUM \<le> tw_get_size roc
                   then bind_result (tw_get ROC_LEN (maroc_win s2) 0) (\<lambda>newest.
                        bind_result (tw_get_range ROC_LEN roc 0 AVG_NUM) (\<lambda>rocs.
                          Inr (Some (t \<noteq> fst newest),
                               s2\<lparr>maroc_win := snd (tw_put ROC_LEN t (MAROC rocs) (maroc_win s2))\<rparr>)))
                   else Inr (None, s2)))
         else Inr (None, s1))"

definition kline_point :: "json \<Rightarrow> (int \<times> double) result" where
  "kline_point node =
     bind_result (elem_at node 0) (\<lambda>a. bind_result (get_int64 a) (\<lambda>t.
     bind_result (elem_at node 4) (\<lambda>b. bind_result (get_double b) (\<lambda>c. Inr (t, c)))))"

text \<open>Data points one after the other; \<open>updated\<close> is what the last of them made of it.\<close>

fun calc_points :: "json list \<Rightarrow> bool \<Rightarrow> indicators \<Rightarrow> (bool \<times> indicators) result" where
  "calc_points [] updated s = Inr (updated, s)"
| "calc_points (node # nodes) updated s =
     bind_result (kline_point node) (\<lambda>point.
     bind_result (calc_point point s) (\<lambda>(u, s').
       calc_points nodes (case u of None \<Rightarrow> updated | Some b \<Rightarrow> b) s'))"

text \<open>The data of one element: a list of points, or one point.\<close>

definition calc_data :: "json option \<Rightarrow> bool \<Rightarrow> indicators \<Rightarrow> (bool \<times> indicators) result" where
  "calc_data new_node updated s =
     (case new_node of
        Some (JArray (v # vs)) \<Rightarrow>
          calc_points (if is_array v then v # vs else [JArray (v # vs)]) updated s
      | _ \<Rightarrow> Inr (updated, s))"

fun calc_elems :: "json list \<Rightarrow> bool \<Rightarrow> indicators \<Rightarrow> (bool \<times> indicators) result" where
  "calc_elems [] updated s = Inr (updated, s)"
| "calc_elems (e # es) updated s =
     bind_result (channel_of e) (\<lambda>name.
       if name = strategy_data_source
       then bind_result (get_node e ''data'') (\<lambda>new_node.
            bind_result (calc_data new_node updated s) (\<lambda>(u, s'). calc_elems es u s'))
       else calc_elems es updated s)"

fun calc_roc_and_maroc :: "json \<Rightarrow> indicators \<Rightarrow> (bool \<times> indicators) result" where
  "calc_roc_and_maroc (JArray es) s = calc_elems es False s"
| "calc_roc_and_maroc _ s = Inr (False, s)"

text \<open>The unfinished \<open>calc_s_roc\<close>: it looks the data up and never reports an update. The
  second component says whether the message was logged as invalid.\<close>

definition calc_s_roc :: "json \<Rightarrow> (bool \<times> bool) result" where
  "calc_s_roc doc =
     bind_result (get_data doc strategy_data_source) (\<lambda>node. Inr (False, node = None))"

subsection \<open>The signals\<close>

text \<open>The four values they compare: the two entries before the newest of both windows.\<close>

definition last_pairs :: "indicators \<Rightarrow> (double \<times> double \<times> double \<times> double) result" where
  "last_pairs s =
     bind_result (value_at ROC_LEN (roc_win s) 1) (\<lambda>roc1.
     bind_result (value_at ROC_LEN (maroc_win s) 1) (\<lambda>maroc1.
     bind_result (value_at ROC_LEN (roc_win s) 2) (\<lambda>roc2.
     bind_result (value_at ROC_LEN (maroc_win s) 2) (\<lambda>maroc2.
       Inr (roc1, maroc1, roc2, maroc2)))))"

definition if_three :: "indicators \<Rightarrow> (double \<times> double \<times> double \<times> double \<Rightarrow> bool) \<Rightarrow> bool result" where
  "if_three s test =
     (if 3 \<le> tw_get_size (maroc_win s)
      then bind_result (last_pairs s) (\<lambda>q. Inr (test q)) else Inr False)"

definition cross_for_up :: "indicators \<Rightarrow> bool result" where
  "cross_for_up s =
     if_three s (\<lambda>(roc1, maroc1, roc2, maroc2).
       dgt roc1 maroc1 \<and> dlt roc2 maroc2 \<and> dgt maroc1 maroc2)"

definition stay_for_up :: "indicators \<Rightarrow> bool result" where
  "stay_for_up s =
     if_three s (\<lambda>(roc1, maroc1, roc2, maroc2).
       dgt roc1 maroc1 \<and> dgt roc2 maroc2 \<and> dgt maroc1 maroc2)"

definition cross_for_down :: "indicators \<Rightarrow> bool result" where
  "cross_for_down s =
     if_three s (\<lambda>(roc1, maroc1, roc2, maroc2). dlt roc1 maroc1 \<and> dgt roc2 maroc2)"

subsection \<open>Well-formed indicators\<close>

definition ind_wf :: "indicators \<Rightarrow> bool" where
  "ind_wf s \<longleftrightarrow> tw_wf COUNT (window s) \<and> tw_wf ROC_LEN (roc_win s) \<and> tw_wf ROC_LEN (maroc_win s)"

lemma ind_wf_new: "ind_wf indicators_new"
  by (simp add: ind_wf_def indicators_new_def tw_wf_new COUNT_def ROC_LEN_def)

lemma value_at_Inr: "k < N \<Longrightarrow> value_at N w k = Inr (snd (tw_entry N w k))"
  by (simp add: value_at_def tw_get_def tw_entry_def)

lemma value_at_series:
  "tw_wf N w \<Longrightarrow> k < tw_valid_size w \<Longrightarrow> value_at N w k = Inr (snd (tw_series N w ! k))"
  by (simp add: value_at_def tw_get_series)

lemma last_pairs_Inr: "\<exists>q. last_pairs s = Inr q"
  by (simp add: last_pairs_def value_at_Inr ROC_LEN_def)

subsection \<open>Refinement to lists\<close>

type_synonym series = "(int \<times> double) list"

definition abs_ind :: "indicators \<Rightarrow> series \<times> series \<times> series" where
  "abs_ind s = (tw_series COUNT (window s), tw_series ROC_LEN (roc_win s), tw_series ROC_LEN (maroc_win s))"

text \<open>The computation on lists. An empty list of averages stands for the initial slots,
  whose time is 0.\<close>

definition newest_time :: "series \<Rightarrow> int" where
  "newest_time s = (case s of [] \<Rightarrow> 0 | e # _ \<Rightarrow> fst e)"

definition abs_point ::
    "int \<times> double \<Rightarrow> series \<times> series \<times> series \<Rightarrow> bool option \<times> series \<times> series \<times> series" where
  "abs_point point hist =
     (case hist of (ps, rs, ms) \<Rightarrow>
       let t = fst point;
           ps' = snd (series_put COUNT t (snd point) ps)
       in if length ps' = COUNT
          then let rs' = snd (series_put ROC_LEN t (ROC (snd (ps' ! 0)) (snd (ps' ! (COUNT - 1)))) rs)
               in if AVG_NUM \<le> length rs'
                  then (Some (t \<noteq> newest_time ms), ps', rs',
                        snd (series_put ROC_LEN t (MAROC (take AVG_NUM rs')) ms))
                  else (None, ps', rs', ms)
          else (None, ps', rs, ms))"

lemma tw_put_series:
  "tw_wf N w \<Longrightarrow> tw_series N (snd (tw_put N t x w)) = snd (series_put N t x (tw_series N w))"
  using tw_put_refines[of N w t x] by (metis snd_map_prod)

text \<open>The slot before the first one is still zero while a window is empty.\<close>

definition fresh_slot :: "nat \<Rightarrow> 'a time_window \<Rightarrow> bool" where
  "fresh_slot N w \<longleftrightarrow> (tw_valid_size w = 0 \<longrightarrow> fst (tw_entry N w 0) = 0)"

lemma fresh_slot_put: "tw_wf N w \<Longrightarrow> fresh_slot N (snd (tw_put N t x w))"
  by (auto simp: fresh_slot_def tw_wf_def tw_put_def tw_append_def Let_def)

lemma newest_entry:
  assumes "tw_wf N w" "fresh_slot N w" "0 < N"
  shows "tw_get N w 0 = Inr (tw_entry N w 0)" "fst (tw_entry N w 0) = newest_time (tw_series N w)"
proof -
  show g: "tw_get N w 0 = Inr (tw_entry N w 0)"
    using assms(3) by (simp add: tw_get_def tw_entry_def)
  show "fst (tw_entry N w 0) = newest_time (tw_series N w)"
  proof (cases "tw_series N w")
    case Nil
    with assms(2) show ?thesis by (auto simp: fresh_slot_def newest_time_def tw_series_def)
  next
    case (Cons e s)
    then have "0 < tw_valid_size w" using length_tw_series[of N w] by simp
    with g tw_get_series[OF assms(1)] have "tw_entry N w 0 = tw_series N w ! 0" by simp
    with Cons show ?thesis by (simp add: newest_time_def)
  qed
qed

definition ind_ok :: "indicators \<Rightarrow> bool" where
  "ind_ok s \<longleftrightarrow> ind_wf s \<and> fresh_slot ROC_LEN (maroc_win s)"

lemma ind_ok_new: "ind_ok indicators_new"
  by (simp add: ind_ok_def ind_wf_new fresh_slot_def)
    (simp add: indicators_new_def tw_new_def tw_entry_def ROC_LEN_def)

lemma calc_point_refines:
  assumes "ind_ok s"
  shows "\<exists>u s'. calc_point p s = Inr (u, s') \<and> ind_ok s' \<and> (u, abs_ind s') = abs_point p (abs_ind s)"
proof -
  obtain t c where p: "p = (t, c)" by fastforce
  let ?win = "snd (tw_put COUNT t c (window s))"
  have wf: "tw_wf COUNT (window s)" "tw_wf ROC_LEN (roc_win s)" "tw_wf ROC_LEN (maroc_win s)"
    and fresh: "fresh_slot ROC_LEN (maroc_win s)"
    using assms by (auto simp: ind_ok_def ind_wf_def)
  have win: "tw_wf COUNT ?win" using wf(1) by (rule tw_put_wf)
  have full: "tw_is_full ?win \<longleftrightarrow> length (tw_series COUNT ?win) = COUNT"
    using tw.filled_hist[OF win] .
  have ps: "tw_series COUNT ?win = snd (series_put COUNT t c (tw_series COUNT (window s)))"
    using wf(1) by (rule tw_put_series)
  show ?thesis
  proof (cases "tw_is_full ?win")
    case False
    then show ?thesis
      using wf win fresh full ps
      by (simp add: calc_point_def p Let_def ind_ok_def ind_wf_def abs_ind_def abs_point_def)
  next
    case True
    then have size: "tw_valid_size ?win = COUNT" using full by simp
    have vals: "value_at COUNT ?win 0 = Inr (snd (tw_series COUNT ?win ! 0))"
      "value_at COUNT ?win (COUNT - 1) = Inr (snd (tw_series COUNT ?win ! (COUNT - 1)))"
      using win size by (auto intro!: value_at_series simp: COUNT_def)
    let ?roc = "snd (tw_put ROC_LEN t (ROC (snd (tw_series COUNT ?win ! 0))
        (snd (tw_series COUNT ?win ! (COUNT - 1)))) (roc_win s))"
    have roc: "tw_wf ROC_LEN ?roc" using wf(2) by (rule tw_put_wf)
    have rs: "tw_series ROC_LEN ?roc = snd (series_put ROC_LEN t (ROC (snd (tw_series COUNT ?win ! 0))
        (snd (tw_series COUNT ?win ! (COUNT - 1)))) (tw_series ROC_LEN (roc_win s)))"
      using wf(2) by (rule tw_put_series)
    have rsize: "tw_get_size ?roc = length (tw_series ROC_LEN ?roc)" by (simp add: tw_get_size_def)
    show ?thesis
    proof (cases "AVG_NUM \<le> tw_get_size ?roc")
      case False
      then show ?thesis
        using wf win roc fresh full True ps rs rsize vals
        by (simp add: calc_point_def p Let_def ind_ok_def ind_wf_def abs_ind_def abs_point_def)
    next
      case avg: True
      then have "AVG_NUM \<le> tw_valid_size ?roc" by (simp add: tw_get_size_def)
      then have range: "tw_get_range ROC_LEN ?roc 0 AVG_NUM = Inr (take AVG_NUM (tw_series ROC_LEN ?roc))"
        using roc by (intro tw_get_range_series) (auto simp: AVG_NUM_def ROC_LEN_def)
      have newest: "tw_get ROC_LEN (maroc_win s) 0 = Inr (tw_entry ROC_LEN (maroc_win s) 0)"
        "fst (tw_entry ROC_LEN (maroc_win s) 0) = newest_time (tw_series ROC_LEN (maroc_win s))"
        using newest_entry[OF wf(3) fresh] by (simp_all add: ROC_LEN_def)
      show ?thesis
        using wf win roc fresh full True avg ps rs rsize vals range newest
          tw_put_wf[OF wf(3)] tw_put_series[OF wf(3)] fresh_slot_put[OF wf(3)]
        by (simp add: calc_point_def p Let_def ind_ok_def ind_wf_def abs_ind_def abs_point_def)
    qed
  qed
qed

end
