(* ===== verification/Roc_Series.thy ===== *)
theory Roc_Series
  imports Roc_Indicators
begin

section \<open>The invariant of the indicator series\<close>

text \<open>
  Over every sequence of data points, late and repeated ones included: the three series are
  ordered by time, the averages and the rates are aligned minute by minute, the newest rate
  is computed from the newest price and the one eleven places before, and every average is
  the mean of the six rates that end at its minute (as long as these are still stored).
\<close>

definition ind_inv :: "series \<times> series \<times> series \<Rightarrow> bool" where
  "ind_inv hist \<longleftrightarrow>
     (case hist of (ps, rs, ms) \<Rightarrow>
       time_ordered ps \<and> time_ordered rs \<and> time_ordered ms \<and>
       length ps \<le> COUNT \<and> length rs \<le> ROC_LEN \<and> length ms \<le> ROC_LEN \<and>
       (rs = [] \<longleftrightarrow> length ps < COUNT) \<and> (ms = [] \<longleftrightarrow> length rs < AVG_NUM) \<and>
       (rs \<noteq> [] \<longrightarrow> fst (hd rs) = fst (hd ps) \<and>
          snd (hd rs) = ROC (snd (ps ! 0)) (snd (ps ! (COUNT - 1)))) \<and>
       length ms \<le> length rs \<and> map fst ms = take (length ms) (map fst rs) \<and>
       (\<forall>k < length ms. k + AVG_NUM \<le> length rs \<longrightarrow>
          snd (ms ! k) = MAROC (take AVG_NUM (drop k rs))))"

lemma ind_inv_empty: "ind_inv ([], [], [])"
  by (simp add: ind_inv_def time_ordered_def COUNT_def AVG_NUM_def)

text \<open>What \<open>put\<close> does to a series: it appends, rewrites the newest entry, or ignores.\<close>

lemma series_put_cases:
  obtains (append) "s = [] \<or> fst (hd s) < t" "snd (series_put N t x s) = (if s = [] then [(t, x)] else take N ((t, x) # s))"
  | (rewrite) "s \<noteq> []" "fst (hd s) = t" "snd (series_put N t x s) = (t, x) # tl s"
  | (ignore) "s \<noteq> []" "t < fst (hd s)" "snd (series_put N t x s) = s"
proof (cases s)
  case Nil
  then show ?thesis using append by simp
next
  case (Cons e s')
  obtain u y where e: "e = (u, y)" by fastforce
  consider "u < t" | "u = t" | "t < u" by linarith
  then show ?thesis
    by cases (use Cons e append rewrite ignore in simp_all)
qed

lemma series_put_new:
  assumes "0 < N" "s = [] \<or> fst (hd s) < t"
  shows "snd (series_put N t x s) = take N ((t, x) # s)"
proof (cases s)
  case Nil
  with assms(1) show ?thesis by (cases N) auto
next
  case (Cons e s')
  with assms(2) show ?thesis by (cases e) auto
qed

lemma ROC_LEN_pos: "0 < ROC_LEN"
  by (simp add: ROC_LEN_def)

lemma series_put_not_Nil: "snd (series_put ROC_LEN t x s) \<noteq> []"
  by (cases rule: series_put_cases[of s t ROC_LEN x]) (auto simp: ROC_LEN_def split: if_splits)

lemma length_series_put_le: "0 < N \<Longrightarrow> length s \<le> N \<Longrightarrow> length (snd (series_put N t x s)) \<le> N"
  by (cases s) auto

text \<open>An average appended to a new rate, and one that rewrites the newest.\<close>

lemma averages_append:
  assumes avg: "\<forall>k < length ms. k + AVG_NUM \<le> length rs \<longrightarrow> snd (ms ! k) = MAROC (take AVG_NUM (drop k rs))"
    and rs': "rs' = take ROC_LEN (r # rs)"
    and ms': "ms' = take ROC_LEN ((t, MAROC (take AVG_NUM rs')) # ms)"
  shows "\<forall>k < length ms'. k + AVG_NUM \<le> length rs' \<longrightarrow> snd (ms' ! k) = MAROC (take AVG_NUM (drop k rs'))"
proof (intro allI impI)
  fix k assume k: "k < length ms'" "k + AVG_NUM \<le> length rs'"
  show "snd (ms' ! k) = MAROC (take AVG_NUM (drop k rs'))"
  proof (cases k)
    case 0
    then show ?thesis using ms' by (simp add: ROC_LEN_def)
  next
    case (Suc j)
    have le: "length rs' \<le> ROC_LEN" "length rs' \<le> Suc (length rs)" using rs' by auto
    have j: "j < length ms" "j + AVG_NUM \<le> length rs" "k < ROC_LEN"
      using k Suc ms' le by (auto simp: AVG_NUM_def)
    have "drop k rs' = take (ROC_LEN - k) (drop j rs)"
      using Suc rs' by (simp add: drop_take)
    moreover have "AVG_NUM \<le> ROC_LEN - k" using k le by simp
    ultimately have "take AVG_NUM (drop k rs') = take AVG_NUM (drop j rs)"
      by (simp add: min_def)
    moreover have "ms' ! k = ms ! j" using j Suc ms' by simp
    ultimately show ?thesis using avg j by simp
  qed
qed

lemma averages_rewrite:
  assumes avg: "\<forall>k < length ms. k + AVG_NUM \<le> length rs \<longrightarrow> snd (ms ! k) = MAROC (take AVG_NUM (drop k rs))"
    and rs': "rs' = r # tl rs" "rs \<noteq> []"
    and ms': "ms' = (t, MAROC (take AVG_NUM rs')) # tl ms" "ms \<noteq> []"
  shows "\<forall>k < length ms'. k + AVG_NUM \<le> length rs' \<longrightarrow> snd (ms' ! k) = MAROC (take AVG_NUM (drop k rs'))"
proof (intro allI impI)
  fix k assume k: "k < length ms'" "k + AVG_NUM \<le> length rs'"
  show "snd (ms' ! k) = MAROC (take AVG_NUM (drop k rs'))"
  proof (cases k)
    case 0
    then show ?thesis using ms' by simp
  next
    case (Suc j)
    have "k < length ms" "k + AVG_NUM \<le> length rs" using k rs' ms' by auto
    moreover have "ms' ! k = ms ! k" using Suc ms' by (cases ms) auto
    moreover have "drop k rs' = drop k rs" using Suc rs' by (cases rs) auto
    ultimately show ?thesis using avg by simp
  qed
qed

text \<open>Aligned series stay aligned.\<close>

lemma aligned_append:
  assumes "length ms \<le> length rs" "map fst ms = take (length ms) (map fst rs)"
  shows "map fst (take N ((t, y) # ms)) = take (length (take N ((t, y) # ms))) (map fst (take N ((t, x) # rs)))"
proof (cases N)
  case (Suc n)
  have "map fst (take n ms) = take n (take (length ms) (map fst rs))"
    using assms(2) by (metis take_map)
  also have "\<dots> = take (length (take n ms)) (map fst (take n rs))"
    using assms(1) by (simp add: take_map min_def)
  finally show ?thesis using Suc by simp
qed simp

lemma aligned_rewrite:
  assumes "length ms \<le> length rs" "map fst ms = take (length ms) (map fst rs)" "ms \<noteq> []"
  shows "map fst ((t, y) # tl ms) = take (length ((t, y) # tl ms)) (map fst ((t, x) # tl rs))"
  using assms by (cases ms; cases rs) auto


lemma ordered_put: "time_ordered s \<Longrightarrow> time_ordered (snd (series_put N t x s))"
  by (rule series_put_ordered)

text \<open>The price window: what a point makes of it, and that it never empties.\<close>

lemma price_put:
  assumes "length ps \<le> COUNT"
  shows "ps' = snd (series_put COUNT t x ps) \<Longrightarrow>
     length ps \<le> length ps' \<and> length ps' \<le> COUNT \<and> ps' \<noteq> [] \<and> t \<le> fst (hd ps') \<and>
     (t < fst (hd ps') \<longrightarrow> ps' = ps)"
  using assms by (cases rule: series_put_cases[of ps t COUNT x]) (auto simp: COUNT_def)

text \<open>The series of a window that only the newest points reach: its newest entry afterwards.\<close>

lemma put_newest:
  assumes "0 < N" "rs = [] \<or> fst (hd rs) \<le> t"
  shows "hd (snd (series_put N t x rs)) = (t, x) \<and> snd (series_put N t x rs) \<noteq> []"
  using assms by (cases rule: series_put_cases[of rs t N x]) (auto simp: take_Cons')

lemma ind_inv_no_roc:
  assumes "ind_inv (ps, rs, ms)" "ps' = snd (series_put COUNT t x ps)" "length ps' \<noteq> COUNT"
  shows "ind_inv (ps', rs, ms)"
proof -
  have ps: "length ps \<le> COUNT" "time_ordered ps" using assms(1) by (auto simp: ind_inv_def)
  have len: "length ps \<le> length ps'" "length ps' \<le> COUNT" using price_put[OF ps(1) assms(2)] by auto
  then have "length ps < COUNT" "length ps' < COUNT" using assms(3) by auto
  moreover have "time_ordered ps'" using ps(2) assms(2) by (simp add: ordered_put)
  ultimately show ?thesis using assms(1) len by (auto simp: ind_inv_def)
qed

lemma hd_conv_nth0: "xs \<noteq> [] \<Longrightarrow> hd xs = xs ! 0"
  by (rule hd_conv_nth)

text \<open>A point with a rate: three cases for the rates, and the averages follow.\<close>

lemma ind_inv_roc:
  assumes inv: "ind_inv (ps, rs, ms)"
    and ps': "ps' = snd (series_put COUNT t x ps)" and full: "length ps' = COUNT"
    and r: "r = ROC (snd (ps' ! 0)) (snd (ps' ! (COUNT - 1)))"
    and rs': "rs' = snd (series_put ROC_LEN t r rs)"
    and ms': "ms' = (if AVG_NUM \<le> length rs'
                then snd (series_put ROC_LEN t (MAROC (take AVG_NUM rs')) ms) else ms)"
  shows "ind_inv (ps', rs', ms')"
proof -
  have ord: "time_ordered ps" "time_ordered rs" "time_ordered ms"
    and len: "length ps \<le> COUNT" "length rs \<le> ROC_LEN" "length ms \<le> ROC_LEN"
    and none: "rs = [] \<longleftrightarrow> length ps < COUNT" "ms = [] \<longleftrightarrow> length rs < AVG_NUM"
    and newest: "rs \<noteq> [] \<Longrightarrow> fst (hd rs) = fst (hd ps) \<and> snd (hd rs) = ROC (snd (ps ! 0)) (snd (ps ! (COUNT - 1)))"
    and al: "length ms \<le> length rs" "map fst ms = take (length ms) (map fst rs)"
    and avg: "\<forall>k < length ms. k + AVG_NUM \<le> length rs \<longrightarrow> snd (ms ! k) = MAROC (take AVG_NUM (drop k rs))"
    using inv by (auto simp: ind_inv_def)
  have ord': "time_ordered ps'" "time_ordered rs'" "time_ordered ms'"
    using ord by (simp_all add: ps' rs' ms' ordered_put)
  note pp = price_put[OF len(1) ps']
  have rl: "0 < ROC_LEN" "AVG_NUM \<le> ROC_LEN" "0 < AVG_NUM" by (simp_all add: ROC_LEN_def AVG_NUM_def)
  have msnewest: "ms \<noteq> [] \<Longrightarrow> fst (hd ms) = fst (hd rs)"
    using al by (cases ms; cases rs) auto
  show ?thesis
  proof (cases rule: series_put_cases[of rs t ROC_LEN r])
    case append
    have app: "rs' = take ROC_LEN ((t, r) # rs)"
      using append(1) rl(1) by (simp add: rs' series_put_new)
    have pst: "fst (hd ps') = t"
    proof (rule ccontr)
      assume "fst (hd ps') \<noteq> t"
      then have "ps' = ps" "t < fst (hd ps)" using pp by auto
      with full none(1) newest append(1) show False by auto
    qed
    have hd': "hd rs' = (t, r)" "rs' \<noteq> []" using app rl(1) by (cases ROC_LEN; simp)+
    show ?thesis
    proof (cases "AVG_NUM \<le> length rs'")
      case True
      have "ms = [] \<or> fst (hd ms) < t" using append(1) msnewest none(2) rl(3) by auto
      then have ms2: "ms' = take ROC_LEN ((t, MAROC (take AVG_NUM rs')) # ms)"
        using True rl(1) by (simp add: ms' series_put_new)
      show ?thesis
        using ord' full pp hd' pst r True al app ms2 rl
          averages_append[OF avg app ms2] aligned_append[OF al, of ROC_LEN t "MAROC (take AVG_NUM rs')" r]
        by (auto simp: ind_inv_def)
    next
      case False
      have l: "length rs' = Suc (length rs)" using app False rl len by auto
      then have "ms = []" using False none(2) by auto
      then show ?thesis using ord' full pp hd' pst r False app by (auto simp: ind_inv_def ms')
    qed
  next
    case rewrite
    have app: "rs' = (t, r) # tl rs" using rewrite(3) rs' by simp
    have l: "length rs' = length rs" using rewrite(1) app by simp
    have pst: "fst (hd ps') = t"
    proof (rule ccontr)
      assume "fst (hd ps') \<noteq> t"
      then have "ps' = ps" "t < fst (hd ps)" using pp by auto
      with newest rewrite show False by auto
    qed
    show ?thesis
    proof (cases "AVG_NUM \<le> length rs'")
      case True
      then have "ms \<noteq> []" using none(2) l by auto
      then have ms2: "ms' = (t, MAROC (take AVG_NUM rs')) # tl ms"
        using True msnewest rewrite(2) by (cases ms) (auto simp: ms')
      show ?thesis
        using ord' full pp pst r True al app ms2 rl l len \<open>ms \<noteq> []\<close>
          averages_rewrite[OF avg app rewrite(1) ms2 \<open>ms \<noteq> []\<close>]
          aligned_rewrite[OF al \<open>ms \<noteq> []\<close>, of t "MAROC (take AVG_NUM rs')" r]
        by (auto simp: ind_inv_def)
    next
      case False
      then have "ms = []" using none(2) l by auto
      then show ?thesis using ord' full pp pst r False app l len by (auto simp: ind_inv_def ms')
    qed
  next
    case ignore
    have same: "rs' = rs" using ignore(3) rs' by simp
    have "\<not> length ps < COUNT" using none(1) ignore(1) by simp
    then have "t < fst (hd ps)" using newest ignore by auto
    then have "ps' = ps"
      by (cases rule: series_put_cases[of ps t COUNT x]) (use ps' ignore none in \<open>auto simp: COUNT_def\<close>)
    moreover have "ms' = ms"
    proof (cases "ms = []")
      case True
      then show ?thesis using none(2) same by (simp add: ms')
    next
      case False
      then have "t < fst (hd ms)" using msnewest ignore(2) by simp
      with False show ?thesis
        by (cases rule: series_put_cases[of ms t ROC_LEN "MAROC (take AVG_NUM rs')"]) (auto simp: ms')
    qed
    ultimately show ?thesis using inv same by simp
  qed
qed

lemma abs_point_inv: "ind_inv hist \<Longrightarrow> ind_inv (snd (abs_point p hist))"
proof -
  assume inv: "ind_inv hist"
  obtain ps rs ms where h: "hist = (ps, rs, ms)" by (cases hist)
  define ps' where "ps' = snd (series_put COUNT (fst p) (snd p) ps)"
  define rs' where "rs' = snd (series_put ROC_LEN (fst p) (ROC (snd (ps' ! 0)) (snd (ps' ! (COUNT - 1)))) rs)"
  define ms' where "ms' = (if AVG_NUM \<le> length rs'
      then snd (series_put ROC_LEN (fst p) (MAROC (take AVG_NUM rs')) ms) else ms)"
  have "snd (abs_point p hist) = (if length ps' = COUNT then (ps', rs', ms') else (ps', rs, ms))"
    by (simp add: abs_point_def h Let_def ps'_def rs'_def ms'_def)
  moreover have "length ps' \<noteq> COUNT \<Longrightarrow> ind_inv (ps', rs, ms)"
    using ind_inv_no_roc[OF inv[unfolded h] ps'_def] .
  moreover have "length ps' = COUNT \<Longrightarrow> ind_inv (ps', rs', ms')"
    using ind_inv_roc[OF inv[unfolded h] ps'_def _ refl rs'_def ms'_def] .
  ultimately show ?thesis by simp
qed

text \<open>The invariant on the windows of the program.\<close>

definition ind_sound :: "indicators \<Rightarrow> bool" where
  "ind_sound s \<longleftrightarrow> ind_ok s \<and> ind_inv (abs_ind s)"

lemma ind_sound_new: "ind_sound indicators_new"
  using ind_inv_empty
  by (simp add: ind_sound_def ind_ok_new abs_ind_def) (simp add: indicators_new_def)

lemma calc_point_sound:
  assumes "ind_sound s"
  shows "\<exists>u s'. calc_point p s = Inr (u, s') \<and> ind_sound s' \<and> (u, abs_ind s') = abs_point p (abs_ind s)"
proof -
  from assms calc_point_refines[of s p] obtain u s' where *: "calc_point p s = Inr (u, s')" "ind_ok s'"
    "(u, abs_ind s') = abs_point p (abs_ind s)" by (auto simp: ind_sound_def)
  then have "abs_ind s' = snd (abs_point p (abs_ind s))" by (metis snd_conv)
  with * assms abs_point_inv[of "abs_ind s" p] show ?thesis by (auto simp: ind_sound_def)
qed

lemma calc_points_sound:
  "ind_sound s \<Longrightarrow> calc_points nodes b s = Inr (u, s') \<Longrightarrow> ind_sound s'"
proof (induction nodes arbitrary: b s)
  case (Cons node nodes)
  from Cons.prems obtain p v s1 where "calc_point p s = Inr (v, s1)"
    and rest: "calc_points nodes (case v of None \<Rightarrow> b | Some b \<Rightarrow> b) s1 = Inr (u, s')"
    by (auto simp: bind_result_eq_Inr)
  moreover have "ind_sound s1" using calc_point_sound[OF Cons.prems(1), of p] calculation(1) by auto
  ultimately show ?case using Cons.IH by blast
qed simp

lemma calc_data_sound: "ind_sound s \<Longrightarrow> calc_data n b s = Inr (u, s') \<Longrightarrow> ind_sound s'"
  by (auto simp: calc_data_def intro: calc_points_sound split: option.splits json.splits list.splits)

lemma calc_elems_sound: "ind_sound s \<Longrightarrow> calc_elems es b s = Inr (u, s') \<Longrightarrow> ind_sound s'"
proof (induction es arbitrary: b s)
  case (Cons e es)
  from Cons.prems(2) consider "calc_elems es b s = Inr (u, s')"
    | n v s1 where "calc_data n b s = Inr (v, s1)" "calc_elems es v s1 = Inr (u, s')"
    by (auto simp: bind_result_eq_Inr split: if_splits)
  then show ?case
    using Cons.IH Cons.prems(1) calc_data_sound by cases blast+
qed simp

lemma calc_sound: "ind_sound s \<Longrightarrow> calc_roc_and_maroc d s = Inr (u, s') \<Longrightarrow> ind_sound s'"
  by (cases d) (auto intro: calc_elems_sound)


subsection \<open>A whole message\<close>

fun abs_points :: "(int \<times> double) list \<Rightarrow> bool \<Rightarrow> series \<times> series \<times> series \<Rightarrow>
    bool \<times> series \<times> series \<times> series" where
  "abs_points [] updated hist = (updated, hist)"
| "abs_points (p # points) updated hist =
     (let (u, hist') = abs_point p hist
      in abs_points points (case u of None \<Rightarrow> updated | Some b \<Rightarrow> b) hist')"

text \<open>A message as the exchange sends it: rows of time, open, high, low, close and more.\<close>

definition kline_row :: "int \<times> double \<Rightarrow> json" where
  "kline_row p = JArray [JInt (fst p), JDouble dzero, JDouble dzero, JDouble dzero, JDouble (snd p), JDouble dzero]"

definition kline_doc :: "json \<Rightarrow> json" where
  "kline_doc data =
     JArray [JObject [(''channel'', JString strategy_data_source), (''data'', data)]]"

lemma kline_point_row: "int64_range (fst p) \<Longrightarrow> kline_point (kline_row p) = Inr p"
  by (simp add: kline_point_def kline_row_def elem_at_def)

lemma calc_points_refines:
  assumes "ind_sound s" "\<forall>p \<in> set points. int64_range (fst p)"
  shows "\<exists>u s'. calc_points (map kline_row points) b s = Inr (u, s') \<and> ind_sound s' \<and>
           (u, abs_ind s') = abs_points points b (abs_ind s)"
  using assms
proof (induction points arbitrary: b s)
  case (Cons p points)
  obtain v s1 where p: "calc_point p s = Inr (v, s1)" "ind_sound s1"
    "(v, abs_ind s1) = abs_point p (abs_ind s)"
    using calc_point_sound[OF Cons.prems(1), of p] by blast
  from Cons.IH[OF p(2), of "case v of None \<Rightarrow> b | Some b \<Rightarrow> b"] Cons.prems(2)
  show ?case by (simp add: kline_point_row p(1) flip: p(3))
qed simp

lemma strategy_data_source_no_nul [simp]: "no_nul strategy_data_source"
  by (simp add: strategy_data_source_def)

lemma kline_doc_data:
  "calc_roc_and_maroc (kline_doc data) s = calc_data (Some data) False s"
proof -
  have "get_node (JObject [(''channel'', JString strategy_data_source), (''data'', data)]) ''data'' = Inr (Some data)"
    using get_node_navigate[of "[Member ''data'']"] by (simp add: plain_name_def)
  then show ?thesis
    by (simp add: kline_doc_def channel_of_def find_member_def)
      (cases "calc_data (Some data) False s"; auto)
qed

lemma calc_message_refines:
  assumes "ind_sound s" "\<forall>p \<in> set points. int64_range (fst p)"
  shows "\<exists>u s'. calc_roc_and_maroc (kline_doc (JArray (map kline_row points))) s = Inr (u, s') \<and>
           ind_sound s' \<and> (u, abs_ind s') = abs_points points False (abs_ind s)"
proof (cases points)
  case Nil
  with assms show ?thesis by (auto simp: kline_doc_data calc_data_def)
next
  case (Cons p ps)
  with calc_points_refines[OF assms, of False] show ?thesis
    by (simp add: kline_doc_data calc_data_def kline_row_def[of p])
qed

text \<open>The second form of a message: one row in place of a list of rows.\<close>

lemma calc_single_refines:
  assumes "ind_sound s" "int64_range (fst p)"
  shows "\<exists>u s'. calc_roc_and_maroc (kline_doc (kline_row p)) s = Inr (u, s') \<and>
           ind_sound s' \<and> (u, abs_ind s') = abs_points [p] False (abs_ind s)"
  using calc_points_refines[of s "[p]" False] assms
  by (simp add: kline_doc_data calc_data_def kline_row_def)

subsection \<open>Late and repeated points\<close>

lemma hd_newest: "s \<noteq> [] \<Longrightarrow> newest_time s = fst (hd s)"
  by (cases s) (auto simp: newest_time_def)

lemma ind_inv_newest:
  assumes "ind_inv (ps, rs, ms)" "ms \<noteq> []"
  shows "ps \<noteq> [] \<and> rs \<noteq> [] \<and> length ps = COUNT \<and> AVG_NUM \<le> length rs \<and>
         fst (hd rs) = fst (hd ps) \<and> fst (hd ms) = fst (hd ps)"
proof -
  have "rs \<noteq> []" "AVG_NUM \<le> length rs" using assms by (auto simp: ind_inv_def AVG_NUM_def)
  then have "length ps = COUNT" "fst (hd rs) = fst (hd ps)"
    using assms by (auto simp: ind_inv_def)
  moreover from this have "ps \<noteq> []" by (auto simp: COUNT_def)
  moreover have "fst (hd ms) = fst (hd rs)"
    using assms \<open>rs \<noteq> []\<close> unfolding ind_inv_def by (cases ms; cases rs) auto
  ultimately show ?thesis using \<open>rs \<noteq> []\<close> \<open>AVG_NUM \<le> length rs\<close> by simp
qed

lemma series_put_late: "s \<noteq> [] \<Longrightarrow> t < fst (hd s) \<Longrightarrow> snd (series_put N t x s) = s"
  by (cases s) auto

lemma series_put_same: "s \<noteq> [] \<Longrightarrow> fst (hd s) = t \<Longrightarrow> snd (series_put N t x s) = (t, x) # tl s"
  by (cases s) auto

text \<open>A late point changes nothing, but it is reported as an update.\<close>

lemma late_point_updated:
  assumes "ind_inv (ps, rs, ms)" "ms \<noteq> []" "t < fst (hd ps)"
  shows "abs_point (t, c) (ps, rs, ms) = (Some True, ps, rs, ms)"
  using ind_inv_newest[OF assms(1,2)] assms(2,3)
  by (simp add: abs_point_def series_put_late hd_newest)

text \<open>A repeated minute rewrites the newest entries and is not reported as an update.\<close>

lemma same_minute_not_updated:
  assumes "ind_inv (ps, rs, ms)" "ms \<noteq> []" "t = fst (hd ps)"
  shows "fst (abs_point (t, c) (ps, rs, ms)) = Some False"
proof -
  note n = ind_inv_newest[OF assms(1,2)]
  have l: "length (snd (series_put COUNT t c ps)) = COUNT"
    using n assms(3) by (cases ps) (auto simp: COUNT_def)
  have "AVG_NUM \<le> length (snd (series_put ROC_LEN t x rs))" for x
    using n assms(3) by (cases rs) (auto simp: AVG_NUM_def)
  with l n assms(2,3) show ?thesis by (simp add: abs_point_def Let_def hd_newest)
qed

text \<open>So a new minute that a message repeats is lost to the strategy.\<close>

lemma new_minute_lost:
  assumes inv: "ind_inv (ps, rs, ms)" "ms \<noteq> []" and t: "fst (hd ps) < t"
  shows "fst (abs_points [(t, c), (t, c')] False (ps, rs, ms)) = False"
proof -
  note n = ind_inv_newest[OF inv]
  obtain u ps' rs' ms' where step: "abs_point (t, c) (ps, rs, ms) = (u, ps', rs', ms')" by (metis prod_cases4)
  have inv': "ind_inv (ps', rs', ms')" using abs_point_inv[OF inv(1), of "(t, c)"] step by simp
  have put: "snd (series_put COUNT t c ps) = take COUNT ((t, c) # ps)"
    using t by (intro series_put_new) (simp_all add: COUNT_def)
  have "ps' = snd (series_put COUNT t c ps)"
    using step by (auto simp: abs_point_def Let_def split: if_splits)
  then have ps': "ps' = take COUNT ((t, c) # ps)" using put by simp
  then have hd': "fst (hd ps') = t" by (simp add: COUNT_def)
  have full: "length (take COUNT ((t, c) # ps)) = COUNT" using n by simp
  have "AVG_NUM \<le> length (snd (series_put ROC_LEN t x rs))" for x
    using n t by (subst series_put_new) (auto simp: ROC_LEN_def AVG_NUM_def)
  then have "ms' \<noteq> []"
    using step full put t n inv(2)
    by (auto simp: abs_point_def Let_def series_put_not_Nil split: if_splits)
  from same_minute_not_updated[OF inv' this hd'[symmetric], of c'] step show ?thesis
    by (cases "abs_point (t, c') (ps', rs', ms')") simp
qed

subsection \<open>The signals on the series\<close>

text \<open>The entries the signals compare carry the same minutes in both series.\<close>

lemma signal_minutes:
  assumes "ind_inv (ps, rs, ms)" "k < length ms"
  shows "k < length rs \<and> fst (ms ! k) = fst (rs ! k)"
proof -
  have al: "length ms \<le> length rs" "map fst ms = take (length ms) (map fst rs)"
    using assms(1) by (auto simp: ind_inv_def)
  then have "map fst ms ! k = take (length ms) (map fst rs) ! k" by simp
  then show ?thesis using assms(2) al(1) by simp
qed

lemma last_pairs_series:
  assumes "ind_sound s" "abs_ind s = (ps, rs, ms)" "3 \<le> length ms"
  shows "last_pairs s = Inr (snd (rs ! 1), snd (ms ! 1), snd (rs ! 2), snd (ms ! 2))"
proof -
  have wf: "tw_wf ROC_LEN (roc_win s)" "tw_wf ROC_LEN (maroc_win s)"
    using assms(1) by (auto simp: ind_sound_def ind_ok_def ind_wf_def)
  have rs: "rs = tw_series ROC_LEN (roc_win s)" "ms = tw_series ROC_LEN (maroc_win s)"
    using assms(2) by (auto simp: abs_ind_def)
  have "length ms \<le> length rs" using assms(1,2) by (auto simp: ind_sound_def ind_inv_def)
  then have "3 \<le> tw_valid_size (roc_win s)" "3 \<le> tw_valid_size (maroc_win s)"
    using assms(3) by (simp_all add: rs)
  then show ?thesis by (simp add: last_pairs_def value_at_series wf rs)
qed

lemma if_three_series:
  assumes "ind_sound s" "abs_ind s = (ps, rs, ms)"
  shows "if_three s test =
     Inr (3 \<le> length ms \<and> test (snd (rs ! 1), snd (ms ! 1), snd (rs ! 2), snd (ms ! 2)))"
proof -
  have "tw_get_size (maroc_win s) = length ms" using assms(2) by (auto simp: abs_ind_def tw_get_size_def)
  then show ?thesis using last_pairs_series[OF assms] by (simp add: if_three_def)
qed

text \<open>Buying and selling signals never coincide.\<close>

lemma if_three_cases:
  "if_three s test = Inr True \<Longrightarrow> \<exists>q. last_pairs s = Inr q \<and> test q"
  by (auto simp: if_three_def bind_result_eq_Inr split: if_splits)

lemma signals_exclusive:
  assumes "cross_for_down s = Inr True"
  shows "cross_for_up s = Inr False \<and> stay_for_up s = Inr False"
proof -
  obtain q where q: "last_pairs s = Inr q" using last_pairs_Inr by blast
  obtain r1 m1 r2 m2 where q': "q = (r1, m1, r2, m2)" by (cases q)
  from assms q q' have "3 \<le> tw_get_size (maroc_win s)" "dlt r1 m1"
    by (auto simp: cross_for_down_def if_three_def split: if_splits)
  with q q' show ?thesis
    by (auto simp: cross_for_up_def stay_for_up_def if_three_def dest: dlt_asym)
qed

lemma up_signals_exclusive: "cross_for_up s = Inr True \<Longrightarrow> stay_for_up s = Inr False"
proof -
  assume a: "cross_for_up s = Inr True"
  obtain q where q: "last_pairs s = Inr q" using last_pairs_Inr by blast
  obtain r1 m1 r2 m2 where q': "q = (r1, m1, r2, m2)" by (cases q)
  from a q q' have "3 \<le> tw_get_size (maroc_win s)" "dlt r2 m2"
    by (auto simp: cross_for_up_def if_three_def split: if_splits)
  with q q' show ?thesis by (auto simp: stay_for_up_def if_three_def dest: dlt_asym)
qed

lemma signals_return:
  "\<exists>b. cross_for_up s = Inr b" "\<exists>b. stay_for_up s = Inr b" "\<exists>b. cross_for_down s = Inr b"
  using last_pairs_Inr[of s]
  by (auto simp: cross_for_up_def stay_for_up_def cross_for_down_def if_three_def)

end
