(* ===== verification/Windows.thy ===== *)
theory Windows
  imports Histories
begin

section \<open>util/window.h: the ring buffer of plain values\<close>

text \<open>
  \<open>Window<T, N>\<close>: as \<open>TimeWindow\<close> without time stamps. The array of a local
  \<open>Window<double, N>\<close> starts with indeterminate values, so the initial slots are an
  argument of \<open>win_new\<close>. Note the two differences of \<open>get_range\<close>: it accepts
  \<open>length = N\<close>, and it reads the slots in array order from slot 0, whatever \<open>beg\<close> is.
\<close>

record 'a window =
  win_full :: bool
  win_valid_size :: nat
  win_first :: bool
  win_index :: nat
  win_slots :: "'a list"

definition win_new :: "'a list \<Rightarrow> 'a window" where
  "win_new slots =
     \<lparr>win_full = False, win_valid_size = 0, win_first = True, win_index = 0, win_slots = slots\<rparr>"

definition win_put :: "nat \<Rightarrow> 'a \<Rightarrow> 'a window \<Rightarrow> 'a window" where
  "win_put N x w =
     (let i = win_index w + 1
      in w\<lparr>win_slots := (win_slots w)[win_index w := x],
           win_valid_size := (if win_full w then win_valid_size w else win_valid_size w + 1),
           win_full := (win_full w \<or> i = N),
           win_index := i mod N,
           win_first := False\<rparr>)"

definition win_is_full :: "'a window \<Rightarrow> bool" where
  "win_is_full w = win_full w"

definition win_get_size :: "'a window \<Rightarrow> nat" where
  "win_get_size w = win_valid_size w"

text \<open>The guard of \<open>update\<close> is the code's: it writes only when \<open>place\<close> is out of range.\<close>

definition win_update :: "nat \<Rightarrow> 'a \<Rightarrow> nat \<Rightarrow> 'a window \<Rightarrow> 'a window" where
  "win_update N x place w =
     (if N \<le> place
      then w\<lparr>win_slots := (win_slots w)
               [size_t (int (win_index w) + int N - 1 - int place) mod N := x]\<rparr>
      else w)"

definition win_get :: "nat \<Rightarrow> 'a window \<Rightarrow> nat \<Rightarrow> 'a result" where
  "win_get N w at =
     (if N \<le> at then Inl Invalid_Argument
      else Inr (win_slots w ! ((win_index w + N - 1 - at) mod N)))"

definition win_get_range :: "nat \<Rightarrow> 'a window \<Rightarrow> nat \<Rightarrow> nat \<Rightarrow> 'a list result" where
  "win_get_range N w beg len =
     (if N \<le> beg \<or> N < len then Inl Invalid_Argument
      else Inr (map (\<lambda>i. win_slots w ! i) [0..<len]))"

definition win_clear :: "'a window \<Rightarrow> 'a window" where
  "win_clear w = w\<lparr>win_full := False, win_valid_size := 0, win_first := True, win_index := 0\<rparr>"

definition win_debug_str :: "('a \<Rightarrow> string) \<Rightarrow> nat \<Rightarrow> 'a window \<Rightarrow> string" where
  "win_debug_str show_val N w =
     concat (map (\<lambda>i. show_val (win_slots w ! ((win_index w + N - 1 - i) mod N)) @ [CHR 0x09])
                 [0..<win_valid_size w])"

subsection \<open>Invariant and abstraction\<close>

definition win_wf :: "nat \<Rightarrow> 'a window \<Rightarrow> bool" where
  "win_wf N w \<longleftrightarrow>
     0 < N \<and> N < 2 ^ 62 \<and> length (win_slots w) = N \<and> win_index w < N \<and> win_valid_size w \<le> N \<and>
     (win_full w \<longleftrightarrow> win_valid_size w = N) \<and> (win_first w \<longleftrightarrow> win_valid_size w = 0) \<and>
     (\<not> win_full w \<longrightarrow> win_index w = win_valid_size w)"

definition win_hist :: "nat \<Rightarrow> 'a window \<Rightarrow> 'a list" where
  "win_hist N w = map (\<lambda>k. win_slots w ! ring_slot N (win_index w) k) [0..<win_valid_size w]"

lemma win_wf_new: "0 < N \<Longrightarrow> N < 2 ^ 62 \<Longrightarrow> length slots = N \<Longrightarrow> win_wf N (win_new slots)"
  by (simp add: win_wf_def win_new_def)

lemma length_win_hist [simp]: "length (win_hist N w) = win_valid_size w"
  by (simp add: win_hist_def)

lemma win_put_wf: "win_wf N w \<Longrightarrow> win_wf N (win_put N x w)"
  by (auto simp: win_wf_def win_put_def Let_def)

lemma win_clear_wf: "win_wf N w \<Longrightarrow> win_wf N (win_clear w)"
  by (simp add: win_wf_def win_clear_def)

lemma win_put_hist:
  assumes "win_wf N w"
  shows "win_hist N (win_put N x w) = take N (x # win_hist N w)"
proof (rule nth_equalityI)
  let ?w' = "win_put N x w" and ?i = "win_index w" and ?v = "win_valid_size w"
  have N: "0 < N" and i: "?i < N" and len: "length (win_slots w) = N" and v: "?v \<le> N"
    and full: "win_full w \<longleftrightarrow> ?v = N"
    using assms by (auto simp: win_wf_def)
  have v': "win_valid_size ?w' = min N (Suc ?v)"
    using v full by (auto simp: win_put_def Let_def)
  then show "length (win_hist N ?w') = length (take N (x # win_hist N w))" by simp
  fix k assume "k < length (win_hist N ?w')"
  then have k: "k < N" "k < Suc ?v" using v' by auto
  have nth: "win_hist N ?w' ! k = (win_slots w)[?i := x] ! ring_slot N ((?i + 1) mod N) k"
    using k v' by (simp add: win_hist_def win_put_def Let_def)
  show "win_hist N ?w' ! k = take N (x # win_hist N w) ! k"
  proof (cases k)
    case 0
    then show ?thesis using nth N i len ring_slot_zero[OF N i] by simp
  next
    case (Suc j)
    then have "ring_slot N ((?i + 1) mod N) k = ring_slot N ?i j"
      using ring_slot_Suc[OF N i] k by simp
    moreover have "ring_slot N ?i j \<noteq> ?i" using ring_slot_neq[OF i] k Suc by simp
    ultimately show ?thesis using nth k Suc by (simp add: win_hist_def)
  qed
qed

lemma win_get_hist:
  "win_wf N w \<Longrightarrow> k < win_valid_size w \<Longrightarrow> win_get N w k = Inr (win_hist N w ! k)"
  by (auto simp: win_wf_def win_get_def win_hist_def ring_slot_def)

definition win_entry :: "nat \<Rightarrow> 'a window \<Rightarrow> nat \<Rightarrow> 'a" where
  "win_entry N w k = win_slots w ! ((win_index w + N - 1 - k) mod N)"

interpretation win: bounded_history N "win_wf N" "win_hist N" "\<lambda>_ _. True" "win_put N"
    win_clear win_get_size win_is_full "win_entry N" for N
proof (unfold_locales, goal_cases)
  case (2 w e)
  then show ?case by (rule win_put_wf)
next
  case (3 w e)
  then show ?case by (simp add: win_put_hist)
qed (auto simp: win_wf_def win_clear_wf win_get_size_def win_is_full_def win_entry_def win_hist_def
      win_clear_def ring_slot_def)

subsection \<open>A full window read as a whole\<close>

lemma win_slots_hist:
  assumes "win_wf N w" "win_full w"
  shows "set (win_hist N w) = set (win_slots w)"
proof -
  have N: "0 < N" and v: "win_valid_size w = N" and len: "length (win_slots w) = N"
    using assms by (auto simp: win_wf_def)
  have inj: "inj_on (ring_slot N (win_index w)) {0..<N}"
    using ring_slot_inj[OF N] by (auto simp: inj_on_def)
  have "ring_slot N (win_index w) ` {0..<N} \<subseteq> {0..<N}" using N by auto
  then have surj: "ring_slot N (win_index w) ` {0..<N} = {0..<N}"
    by (rule endo_inj_surj[OF _ _ inj, simplified])
  have "set (win_hist N w) = (!) (win_slots w) ` (ring_slot N (win_index w) ` {0..<N})"
    by (simp add: win_hist_def v image_image)
  also have "\<dots> = set (win_slots w)"
    unfolding surj using len by (auto simp: set_conv_nth)
  finally show ?thesis .
qed

lemma win_get_range_full:
  assumes "win_wf N w" "win_full w"
  shows "win_get_range N w 0 (win_get_size w) = Inr (win_slots w)"
proof -
  have "length (win_slots w) = N" "win_valid_size w = N" "0 < N"
    using assms by (auto simp: win_wf_def)
  then show ?thesis
    using map_nth[of "win_slots w"] by (simp add: win_get_range_def win_get_size_def)
qed


text \<open>What the window promises, in one statement.\<close>

lemma win_newest:
  assumes "win_wf N w"
  shows "win_hist N (win_put N x w) = take N (x # win_hist N w) \<and>
         (\<forall>k < win_valid_size w. win_get N w k = Inr (win_hist N w ! k)) \<and>
         (win_is_full w \<longrightarrow> (\<exists>vs. win_get_range N w 0 (win_get_size w) = Inr vs \<and>
            set vs = set (win_hist N w) \<and> length vs = N))"
proof (intro conjI)
  show "win_hist N (win_put N x w) = take N (x # win_hist N w)" using assms by (rule win_put_hist)
  show "\<forall>k < win_valid_size w. win_get N w k = Inr (win_hist N w ! k)"
    by (simp add: win_get_hist[OF assms])
  show "win_is_full w \<longrightarrow> (\<exists>vs. win_get_range N w 0 (win_get_size w) = Inr vs \<and>
            set vs = set (win_hist N w) \<and> length vs = N)"
  proof
  assume "win_is_full w"
  then have full: "win_full w" by (simp add: win_is_full_def)
  have "length (win_slots w) = N" using assms by (simp add: win_wf_def)
  then show "\<exists>vs. win_get_range N w 0 (win_get_size w) = Inr vs \<and>
            set vs = set (win_hist N w) \<and> length vs = N"
    using win_get_range_full[OF assms full] win_slots_hist[OF assms full] by auto
  qed
qed

end
