(* ===== verification/Roc_Strategy.thy ===== *)
theory Roc_Strategy
  imports Trade_Facts Roc_Series Windows
begin

section \<open>strategy/roc\_strategy.h: the strategy\<close>

text \<open>
  \<open>RocStrategy\<close> runs three threads: \<open>run_strategy\<close> (buy and sell on the signals),
  \<open>risk_control\<close> (the stop loss) and \<open>query_asset\<close> (polls the account). Its fields extend the
  world. Each loop is a function that runs one round, and the loop with fuel around it; the
  mutex that orders the two selling threads makes a round one step.
\<close>

definition PROFIT_LEN :: nat where
  "PROFIT_LEN = 12"

record strategy = world +
  ind :: indicators
  profit_win :: "double window"
  trading_asset :: double
  trading_btc :: double
  origin_asset :: double
  inner_sig :: nat
  freq :: int
  security :: double
  asset :: double

type_synonym ('z, 'a) strat = "('z strategy_scheme, 'a) prog"

text \<open>The object as it is constructed in a world: \<open>freq\<close> and the slots of the profit window are
  not initialised.\<close>

definition roc_init :: "double list \<Rightarrow> int \<Rightarrow> world \<Rightarrow> strategy" where
  "roc_init slots f w =
     \<lparr>sockets = sockets w, next_socket = next_socket w, wire = wire w, api = api w, trade = trade w,
      pipes = pipes w, account = account w, signal = signal w, env = env w, logs = logs w,
      ind = indicators_new, profit_win = win_new slots, trading_asset = dzero, trading_btc = dzero,
      origin_asset = round_double False (4 / 10000), inner_sig = 0, freq = f, security = dzero,
      asset = dzero\<rparr>"

definition set_asset_and_security :: "double \<Rightarrow> double \<Rightarrow> ('z, unit) strat" where
  "set_asset_and_security s sec = modify (\<lambda>w. w\<lparr>asset := s, security := sec\<rparr>)"

definition set_interval :: "int \<Rightarrow> ('z, unit) strat" where
  "set_interval milliseconds = modify (\<lambda>w. w\<lparr>freq := milliseconds\<rparr>)"

text \<open>\<open>stop\<close>.\<close>

definition stop :: "('z, unit) strat" where
  "stop = modify (\<lambda>w. w\<lparr>signal := Suc (signal w)\<rparr>)"

definition clear_position :: "('z, unit) strat" where
  "clear_position = modify (\<lambda>w. w\<lparr>trading_asset := dzero, trading_btc := dzero\<rparr>)"

definition clear_profits :: "('z, unit) strat" where
  "clear_profits = modify (\<lambda>w. w\<lparr>profit_win := win_clear (profit_win w)\<rparr>)"

subsection \<open>run\_strategy\<close>

text \<open>The branch of \<open>in_trading\<close>, after \<open>cross_for_down\<close>.\<close>

definition sell_all :: "('z, unit) strat" where
  "sell_all =
     and_then (gets trading_btc) (\<lambda>btc.
       if dgt btc dzero
       then and_then (sell_at_market btc) (\<lambda>r.
              if r = 0
              then and_then (okbot_log Notice ''op={} asset={} btc={}'') (\<lambda>_.
                   and_then (set_status out_of_trading) (\<lambda>_.
                   and_then clear_position (\<lambda>_. clear_profits)))
              else ret ())
       else ret ())"

definition first_order :: "string \<Rightarrow> string" where
  "first_order field = ''data.orders'' @ [backslash] @ ''0.'' @ field"

text \<open>The information about the order: whether the loop over the reply is left.\<close>

definition book_order :: "int \<Rightarrow> double \<Rightarrow> double \<Rightarrow> ('z, unit) strat" where
  "book_order st avg_price deal_amount =
     and_then
       (if st = 2
        then and_then (modify (\<lambda>w. w\<lparr>trading_asset := dmul avg_price deal_amount,
                                     trading_btc := deal_amount\<rparr>))
               (\<lambda>_. set_status in_trading)
        else and_then (modify (\<lambda>w. w\<lparr>origin_asset := dadd (origin_asset w) deal_amount\<rparr>))
               (\<lambda>_. okbot_log Notice ''order is partially checked with deal_amount={}''))
       (\<lambda>_. okbot_log Notice ''op={} asset={} btc={}'')"

definition handle_order_info :: "json \<Rightarrow> ('z, bool) strat" where
  "handle_order_info info =
     and_then (lift_result (get_value int_value info (first_order ''status''))) (\<lambda>st.
       case st of
         None \<Rightarrow> ret False
       | Some st \<Rightarrow>
           if st = 2 \<or> st = - 1
           then and_then (lift_result (get_value double_value_of info (first_order ''avg_price''))) (\<lambda>avg.
                and_then (lift_result (get_value double_value_of info (first_order ''deal_amount''))) (\<lambda>deal.
                and_then
                  (case (avg, deal) of
                     (Some avg_price, Some deal_amount) \<Rightarrow> book_order st avg_price deal_amount
                   | _ \<Rightarrow> okbot_log Fatal ''failed to get order info.'')
                  (\<lambda>_. ret True)))
           else and_then (okbot_log Fatal ''invalid status for market buy. status={}'') (\<lambda>_. ret False))"

definition query_order :: "string \<Rightarrow> ('z, bool) strat" where
  "query_order order_id =
     and_then (ok_spotcny_orderinfo order_id) (\<lambda>r.
       if r = 0
       then and_then (pop_timed ''ok_spotcny_orderinfo'') (\<lambda>order_info.
              case order_info of
                Some (JArray (info # _)) \<Rightarrow> handle_order_info info
              | _ \<Rightarrow> ret False)
       else ret False)"

fun buy_reply :: "json list \<Rightarrow> ('z, unit) strat" where
  "buy_reply [] = ret ()"
| "buy_reply (e # es) =
     and_then (lift_result (channel_of e)) (\<lambda>name.
       if name = ''ok_spotcny_trade''
       then and_then (lift_result (result_of e)) (\<lambda>res.
              if res = ''true''
              then and_then (lift_result (get_value string_value e ''data.order_id'')) (\<lambda>order_id.
                     case order_id of
                       None \<Rightarrow> buy_reply es
                     | Some order_id \<Rightarrow>
                         and_then (query_order order_id) (\<lambda>leave.
                           if leave then ret () else buy_reply es))
              else and_then (okbot_log Fatal ''{} with mesg={}'') (\<lambda>_. buy_reply es))
       else buy_reply es)"

text \<open>The branch of \<open>out_of_trading\<close>, after the signals.\<close>

definition buy_in :: "('z, unit) strat" where
  "buy_in =
     and_then (gets asset) (\<lambda>money.
     and_then (ok_spotcny_trade ''btc_cny'' ''buy_market'' (double_to_string money) []) (\<lambda>r.
       if r = 0
       then and_then (pop_timed ''ok_spotcny_trade'') (\<lambda>data.
              case data of
                Some (JArray es) \<Rightarrow> buy_reply es
              | _ \<Rightarrow> okbot_log Fatal ''get data from queue failed: {}'')
       else okbot_log Fatal ''buy in roc_strategy failed.''))"

definition trade_on_signals :: "('z, unit) strat" where
  "trade_on_signals =
     and_then (gets ind) (\<lambda>i.
     and_then get_status (\<lambda>st.
       case st of
         in_trading \<Rightarrow>
           and_then (lift_result (cross_for_down i)) (\<lambda>down. if down then sell_all else ret ())
       | out_of_trading \<Rightarrow>
           and_then (lift_result (cross_for_up i)) (\<lambda>up.
             if up then buy_in
             else and_then (lift_result (stay_for_up i)) (\<lambda>stay. if stay then buy_in else ret ()))))"

text \<open>One round of the loop.\<close>

definition strategy_round :: "('z, unit) strat" where
  "strategy_round =
     and_then (pop_wait strategy_data_source) (\<lambda>node.
     and_then (gets ind) (\<lambda>i.
     and_then (lift_result (calc_roc_and_maroc node i)) (\<lambda>(updated, i').
     and_then (modify (\<lambda>w. w\<lparr>ind := i'\<rparr>)) (\<lambda>_.
       if updated then trade_on_signals else ret ()))))"

text \<open>When the strategy quits, it sells what it holds, whatever comes of it.\<close>

definition sell_on_quit :: "('z, unit) strat" where
  "sell_on_quit =
     and_then (gets trading_btc) (\<lambda>btc.
       if dgt btc dzero
       then and_then (okbot_log Notice ''start sell all bitcoin={} in roc strategy.'') (\<lambda>_.
            and_then (sell_at_market btc) (\<lambda>_.
              okbot_log Notice ''end sell all bitcoin roc strategy.''))
       else ret ())"

text \<open>The thread; the result says whether it ended within the fuel.\<close>

fun run_strategy :: "nat \<Rightarrow> ('z, bool) strat" where
  "run_strategy 0 = ret False"
| "run_strategy (Suc n) =
     and_then (gets signal) (\<lambda>sg.
       if sg = 0 then and_then strategy_round (\<lambda>_. run_strategy n)
       else and_then sell_on_quit (\<lambda>_. ret True))"

subsection \<open>risk\_control\<close>

definition current_profit :: "double \<Rightarrow> double \<Rightarrow> 'z strategy_scheme \<Rightarrow> double" where
  "current_profit whole cny_free w =
     (let current_asset =
            dmul (ddiv (dsub whole cny_free) (dadd (trading_btc w) (origin_asset w))) (trading_btc w)
      in dmul (ddiv (dsub current_asset (trading_asset w)) (trading_asset w)) (double_of_int 100))"

function stop_loss :: "nat \<Rightarrow> ('z, unit) strat" where
  "stop_loss retry =
     (if retry < 500
      then and_then (gets trading_btc) (\<lambda>btc.
             if dgt btc dzero
             then and_then (sell_at_market btc) (\<lambda>r.
                    if r = 0
                    then and_then (okbot_log Warning
                           ''trigger risk control, sell all bitcoin with total asset={} profit={} security={}'') (\<lambda>_.
                         and_then (okbot_log Notice ''op={} asset={} btc={}'') (\<lambda>_.
                         and_then clear_position (\<lambda>_.
                         and_then clear_profits (\<lambda>_. set_status out_of_trading))))
                    else and_then (okbot_log Warning
                           ''sell btc by risk control failed, after sleep 2ms retry: {} '')
                           (\<lambda>_. stop_loss (Suc retry)))
             else ret ())
      else ret ())"
  by pat_completeness auto
termination
  by (relation "measure (\<lambda>retry. 500 - retry)") auto

declare stop_loss.simps [simp del]

definition record_profit :: "double \<Rightarrow> ('z, unit) strat" where
  "record_profit profit =
     modify (\<lambda>w. w\<lparr>profit_win := win_put PROFIT_LEN profit (profit_win w)\<rparr>)"

definition check_profit :: "double \<Rightarrow> ('z, unit) strat" where
  "check_profit profit =
     and_then (gets profit_win) (\<lambda>win.
       if win_is_full win
       then and_then (lift_result (win_get_range PROFIT_LEN win 0 (win_get_size win))) (\<lambda>range.
            and_then (modify (\<lambda>w. w\<lparr>security := vec_MIN range\<rparr>)) (\<lambda>_.
            and_then (gets security) (\<lambda>sec.
              if dlt profit sec then stop_loss 1 else ret ())))
       else ret ())"

definition risk_on_funds :: "json \<Rightarrow> ('z, unit) strat" where
  "risk_on_funds node =
     and_then (lift_result (get_value double_value_of node ''info.funds.asset.total'')) (\<lambda>whole.
       case whole of
         None \<Rightarrow> okbot_log Fatal ''can't get total and free cny: {}''
       | Some whole \<Rightarrow>
           and_then (lift_result (get_value double_value_of node ''info.funds.free.cny'')) (\<lambda>cny.
             case cny of
               None \<Rightarrow> okbot_log Fatal ''can't get total and free cny: {}''
             | Some cny_free \<Rightarrow>
                 and_then (gets (current_profit whole cny_free)) (\<lambda>profit.
                 and_then (okbot_log Notice ''current_asset={} trade_asset={} profit={}%'') (\<lambda>_.
                 and_then (record_profit profit) (\<lambda>_. check_profit profit)))))"

definition risk_round :: "('z, unit) strat" where
  "risk_round =
     and_then (pop_wait ''ok_spotcny_userinfo'') (\<lambda>doc.
     and_then (lift_result (get_data doc ''ok_spotcny_userinfo'')) (\<lambda>data_node.
       case data_node of
         None \<Rightarrow> ret ()
       | Some node \<Rightarrow>
           and_then get_status (\<lambda>st.
             if st = in_trading then risk_on_funds node else ret ())))"

fun risk_control :: "nat \<Rightarrow> ('z, bool) strat" where
  "risk_control 0 = ret False"
| "risk_control (Suc n) =
     and_then (gets signal) (\<lambda>sg.
       if sg \<noteq> 1 then and_then risk_round (\<lambda>_. risk_control n)
       else and_then (modify (\<lambda>w. w\<lparr>inner_sig := Suc (inner_sig w)\<rparr>)) (\<lambda>_. ret True))"

subsection \<open>query\_asset\<close>

definition query_round :: "('z, unit) strat" where
  "query_round =
     and_then ok_spotcny_userinfo (\<lambda>r.
       if r = 0 then ret ()
       else okbot_log Fatal ''send user info request failed. resend after 400ms'')"

fun query_asset :: "nat \<Rightarrow> ('z, bool) strat" where
  "query_asset 0 = ret False"
| "query_asset (Suc n) =
     and_then (gets inner_sig) (\<lambda>sg.
       if sg \<noteq> 1 then and_then query_round (\<lambda>_. query_asset n) else ret True)"

end
