(* ===== verification/Roc_Facts.thy ===== *)
theory Roc_Facts
  imports Roc_Strategy
begin

section \<open>What the strategy keeps\<close>

text \<open>
  The invariant of the strategy: the indicators are sound, the profit window is well formed,
  and without a position (\<open>out_of_trading\<close>) the recorded position is zero. Every round of
  each of the three threads keeps it, so does every event, and so it holds in every state
  that the interleaved threads reach. Under it the stop loss never fires and a round sends
  at most one order, of the kind the status allows.
\<close>

definition position_ok :: "'z strategy_scheme \<Rightarrow> bool" where
  "position_ok w \<longleftrightarrow>
     (status (account w) = out_of_trading \<longrightarrow> trading_btc w = dzero \<and> trading_asset w = dzero)"

definition strategy_inv :: "'z strategy_scheme \<Rightarrow> bool" where
  "strategy_inv w \<longleftrightarrow>
     ind_sound (ind w) \<and> win_wf PROFIT_LEN (profit_win w) \<and> position_ok w"

definition inv_kept :: "'z strategy_scheme \<Rightarrow> 'z strategy_scheme \<Rightarrow> bool" where
  "inv_kept w w' \<longleftrightarrow> (strategy_inv w \<longrightarrow> strategy_inv w')"

interpretation inv: kept inv_kept
  by unfold_locales (auto simp: inv_kept_def)

named_theorems inv_intros \<open>operations that keep the invariant of the strategy\<close>

declare inv.keeps_intros [inv_intros]

text \<open>The strategy's fields live in the extension of the world.\<close>

lemma more_fields:
  assumes "world.more w' = world.more w"
  shows "ind w' = ind w" "profit_win w' = profit_win w" "trading_asset w' = trading_asset w"
    "trading_btc w' = trading_btc w" "origin_asset w' = origin_asset w" "inner_sig w' = inner_sig w"
    "freq w' = freq w" "security w' = security w" "asset w' = asset w"
  using assms by (cases w; cases w'; simp)+

lemma evolves_fields:
  assumes "evolves w w'"
  shows "ind w' = ind w" "profit_win w' = profit_win w" "trading_asset w' = trading_asset w"
    "trading_btc w' = trading_btc w" "origin_asset w' = origin_asset w" "inner_sig w' = inner_sig w"
    "asset w' = asset w" "security w' = security w" "account w' = account w" "signal w \<le> signal w'"
  using assms more_fields[of w' w] by (simp_all add: evolves_def)

lemma inv_evolves: "keeps evolves m \<Longrightarrow> keeps inv_kept m"
  unfolding keeps_def inv_kept_def strategy_inv_def position_ok_def
  using evolves_fields by metis

lemmas inv_evolve_intros [inv_intros] =
  evolves_log[THEN inv_evolves] evolves_pops[THEN inv_evolves] orders_evolve[THEN inv_evolves]
  requests_evolve[THEN inv_evolves] evolves_deliver[THEN inv_evolves]

lemma inv_get_status [inv_intros]: "keeps inv_kept get_status"
  unfolding get_status_def by (intro inv_intros)

subsection \<open>The changes of the position\<close>

lemma inv_clear_profits [inv_intros]: "keeps inv_kept clear_profits"
  by (auto simp: keeps_def clear_profits_def modify_def inv_kept_def strategy_inv_def position_ok_def
      win_clear_wf)

lemma inv_record_profit [inv_intros]: "keeps inv_kept (record_profit p)"
  by (auto simp: keeps_def record_profit_def modify_def inv_kept_def strategy_inv_def position_ok_def
      win_put_wf)

text \<open>The position is closed: in the two orders the code uses.\<close>

lemma inv_close_strategy:
  "keeps inv_kept (and_then (set_status out_of_trading) (\<lambda>_. and_then clear_position (\<lambda>_. clear_profits)))"
  by (auto simp: keeps_def set_status_def clear_position_def clear_profits_def prog_defs inv_kept_def
      strategy_inv_def position_ok_def win_clear_wf)

lemma inv_close_risk:
  "keeps inv_kept (and_then clear_position (\<lambda>_. and_then clear_profits (\<lambda>_. set_status out_of_trading)))"
  by (auto simp: keeps_def set_status_def clear_position_def clear_profits_def prog_defs inv_kept_def
      strategy_inv_def position_ok_def win_clear_wf account_set_status_def)

lemma inv_sell_all [inv_intros]: "keeps inv_kept sell_all"
  unfolding sell_all_def by (rule inv_close_strategy inv_intros)+

lemma inv_book_order [inv_intros]: "keeps inv_kept (book_order st x y)"
proof -
  have filled: "keeps inv_kept (and_then (modify (\<lambda>w. w\<lparr>trading_asset := dmul x y, trading_btc := y\<rparr>))
      (\<lambda>_. set_status in_trading))"
    by (auto simp: keeps_def set_status_def prog_defs inv_kept_def strategy_inv_def position_ok_def
        account_set_status_def)
  have partly: "keeps inv_kept (modify (\<lambda>w. w\<lparr>origin_asset := dadd (origin_asset w) y\<rparr>))"
    by (auto simp: keeps_def modify_def inv_kept_def strategy_inv_def position_ok_def)
  show ?thesis
    unfolding book_order_def by (rule filled partly inv_intros)+
qed

lemma inv_handle_order_info [inv_intros]: "keeps inv_kept (handle_order_info info)"
  unfolding handle_order_info_def by (intro inv_intros)

lemma inv_query_order [inv_intros]: "keeps inv_kept (query_order i)"
  unfolding query_order_def
  by (intro inv_intros) (auto split: json.split list.split intro!: inv_intros)

lemma inv_buy_reply [inv_intros]: "keeps inv_kept (buy_reply es)"
  by (induction es) (simp_all, (intro inv_intros | assumption)+)

lemma inv_buy_in [inv_intros]: "keeps inv_kept buy_in"
  unfolding buy_in_def
  by (intro inv_intros) (auto split: json.split intro!: inv_intros)

lemma inv_trade_on_signals [inv_intros]: "keeps inv_kept trade_on_signals"
  unfolding trade_on_signals_def
  by (intro inv.keeps_and_then inv.keeps_gets inv_get_status)
    (auto split: Status.split intro!: inv_intros)

lemma inv_calc:
  fixes f :: "bool \<Rightarrow> ('z, 'a) strat"
  assumes "\<And>x. keeps inv_kept (f x)"
  shows "keeps inv_kept (and_then (gets ind) (\<lambda>i. and_then (lift_result (calc_roc_and_maroc d i))
     (\<lambda>(u, i'). and_then (modify (\<lambda>w. w\<lparr>ind := i'\<rparr>)) (\<lambda>_. f u))))"
  unfolding keeps_def
proof
  fix w :: "'z strategy_scheme"
  show "inv_kept w (snd (and_then (gets ind) (\<lambda>i. and_then (lift_result (calc_roc_and_maroc d i))
     (\<lambda>(u, i'). and_then (modify (\<lambda>w. w\<lparr>ind := i'\<rparr>)) (\<lambda>_. f u))) w))"
  proof (cases "calc_roc_and_maroc d (ind w)")
    case (Inl e)
    then show ?thesis by (simp add: prog_defs inv.refl_R)
  next
    case (Inr ui)
    obtain u i where ui: "ui = (u, i)" by fastforce
    have "inv_kept w (w\<lparr>ind := i\<rparr>)"
      using calc_sound[of "ind w" d u i] Inr ui
      by (auto simp: inv_kept_def strategy_inv_def position_ok_def)
    moreover have "inv_kept (w\<lparr>ind := i\<rparr>) (snd (f u (w\<lparr>ind := i\<rparr>)))"
      using assms by (simp add: keeps_def)
    ultimately show ?thesis using Inr ui inv.trans_R by (simp add: prog_defs)
  qed
qed

lemma inv_strategy_round [inv_intros]: "keeps inv_kept strategy_round"
  unfolding strategy_round_def by (rule inv_calc inv_intros)+

lemma inv_sell_on_quit [inv_intros]: "keeps inv_kept sell_on_quit"
  unfolding sell_on_quit_def by (intro inv_intros)

lemma inv_run_strategy: "keeps inv_kept (run_strategy n)"
  by (induction n) (simp_all, (intro inv_intros | assumption)+)

lemma inv_stop_loss [inv_intros]: "keeps inv_kept (stop_loss retry)"
proof (induction "500 - retry" arbitrary: retry)
  case 0
  then show ?case by (subst stop_loss.simps) (simp add: inv.keeps_ret)
next
  case (Suc n)
  have "n = 500 - Suc retry" using Suc.hyps(2) by simp
  from Suc.hyps(1)[OF this] show ?case by (subst stop_loss.simps) (rule inv_close_risk inv_intros | assumption)+
qed

lemma inv_set_security [inv_intros]: "keeps inv_kept (modify (\<lambda>w. w\<lparr>security := x\<rparr>))"
  by (auto simp: keeps_def modify_def inv_kept_def strategy_inv_def position_ok_def)

lemma inv_check_profit [inv_intros]: "keeps inv_kept (check_profit p)"
  unfolding check_profit_def by (intro inv_intros)

lemma inv_risk_round [inv_intros]: "keeps inv_kept risk_round"
  unfolding risk_round_def risk_on_funds_def by (intro inv_intros)

lemma inv_query_round [inv_intros]: "keeps inv_kept query_round"
  unfolding query_round_def by (intro inv_intros)


subsection \<open>The stop loss never fires\<close>

text \<open>The minimum is taken over the window that holds the new profit already.\<close>

lemma profit_not_below_min:
  assumes "win_wf PROFIT_LEN win" "win_is_full (win_put PROFIT_LEN p win)"
    and "win_get_range PROFIT_LEN (win_put PROFIT_LEN p win) 0 (win_get_size (win_put PROFIT_LEN p win)) = Inr vals"
  shows "\<not> dlt p (vec_MIN vals)"
proof -
  let ?w = "win_put PROFIT_LEN p win"
  have wf: "win_wf PROFIT_LEN ?w" and full: "win_full ?w"
    using assms by (simp_all add: win_put_wf win_is_full_def)
  then have "vals = win_slots ?w" using assms(3) win_get_range_full by force
  moreover have "p \<in> set (win_hist PROFIT_LEN ?w)"
    using win.pushed_in_hist[OF assms(1)] by simp
  ultimately show ?thesis
    using win_slots_hist[OF wf full] by (intro vec_MIN_lower_bound) simp
qed

lemma check_profit_no_sale:
  assumes "win_wf PROFIT_LEN (profit_win w)"
  shows "and_then (record_profit p) (\<lambda>_. check_profit p) w =
     (let w1 = w\<lparr>profit_win := win_put PROFIT_LEN p (profit_win w)\<rparr>
      in if win_is_full (profit_win w1)
         then (Inr (), w1\<lparr>security := vec_MIN (win_slots (profit_win w1))\<rparr>)
         else (Inr (), w1))"
proof -
  let ?win = "win_put PROFIT_LEN p (profit_win w)"
  have rng: "win_full ?win \<Longrightarrow> win_get_range PROFIT_LEN ?win 0 (win_get_size ?win) = Inr (win_slots ?win)"
    using win_put_wf[OF assms] by (rule win_get_range_full)
  then have "win_full ?win \<Longrightarrow> \<not> dlt p (vec_MIN (win_slots ?win))"
    using profit_not_below_min[OF assms, of p "win_slots ?win"] by (simp add: win_is_full_def)
  with rng show ?thesis
    by (simp add: prog_defs record_profit_def check_profit_def win_is_full_def Let_def)
qed

text \<open>A round of the risk control, seen from outside: no order, no change of status or position.\<close>

definition risk_silent :: "'z strategy_scheme \<Rightarrow> 'z strategy_scheme \<Rightarrow> bool" where
  "risk_silent w w' \<longleftrightarrow>
     (win_wf PROFIT_LEN (profit_win w) \<longrightarrow>
        win_wf PROFIT_LEN (profit_win w') \<and> orders w' = orders w \<and> account w' = account w \<and>
        trading_btc w' = trading_btc w \<and> trading_asset w' = trading_asset w)"

interpretation silent: kept risk_silent
  by unfold_locales (auto simp: risk_silent_def)

lemma silent_io: "keeps evolves m \<Longrightarrow> keeps same_orders m \<Longrightarrow> keeps risk_silent m"
  unfolding keeps_def risk_silent_def same_orders_def using evolves_fields by metis

lemma silent_profit: "keeps risk_silent (and_then (record_profit p) (\<lambda>_. check_profit p))"
  by (auto simp: keeps_def risk_silent_def check_profit_no_sale Let_def win_put_wf orders_def)

lemma silent_get_status: "keeps risk_silent get_status"
  unfolding get_status_def by (rule silent.keeps_gets)

lemma silent_risk_on_funds: "keeps risk_silent (risk_on_funds node)"
  unfolding risk_on_funds_def
  by (rule silent_profit silent.keeps_intros silent_io[OF evolves_log order_prims(1)])+

lemma silent_risk_round: "keeps risk_silent risk_round"
  unfolding risk_round_def
  by (rule silent_risk_on_funds silent_get_status silent.keeps_intros
      silent_io[OF evolves_pops(1) order_pops(1)])+

subsection \<open>One order per round, of the right kind\<close>

text \<open>What a round may order in each status: sell what is held, or buy for the fixed amount.\<close>

definition allowed_orders :: "'z strategy_scheme \<Rightarrow> string set" where
  "allowed_orders w =
     (case status (account w) of
        in_trading \<Rightarrow> order_frames ''sell_market'' [] (double_to_string (trading_btc w))
      | out_of_trading \<Rightarrow> order_frames ''buy_market'' (double_to_string (asset w)) [])"

lemma order_sets [order_intros]:
  "keeps same_orders clear_position" "keeps same_orders clear_profits"
  "keeps same_orders (set_status st)" "keeps same_orders (book_order k x y)"
  "keeps same_orders (modify (\<lambda>w. w\<lparr>ind := i\<rparr>))" "keeps same_orders get_status"
  by (simp_all add: keeps_def clear_position_def clear_profits_def set_status_def book_order_def
      get_status_def okbot_log_def prog_defs same_orders_def orders_def)

lemma order_handle_info [order_intros]: "keeps same_orders (handle_order_info info)"
  unfolding handle_order_info_def by (intro order_intros)

lemma order_query [order_intros]: "keeps same_orders (query_order i)"
  unfolding query_order_def
  by (intro order_intros) (auto split: json.split list.split intro!: order_intros)

lemma order_buy_reply [order_intros]: "keeps same_orders (buy_reply es)"
  by (induction es) (simp_all, (intro order_intros | assumption)+)

lemma sell_all_sends:
  "sent_by (order_frames ''sell_market'' [] (double_to_string (trading_btc w))) 1 w (snd (sell_all w))"
proof -
  let ?Q = "order_frames ''sell_market'' [] (double_to_string (trading_btc w))"
  have "sent_by ?Q 1 w (snd (and_then (sell_at_market (trading_btc w)) (\<lambda>r.
              if r = 0
              then and_then (okbot_log Notice ''op={} asset={} btc={}'') (\<lambda>_.
                   and_then (set_status out_of_trading) (\<lambda>_.
                   and_then clear_position (\<lambda>_. clear_profits)))
              else ret ()) w))"
    by (intro sends_sent_by sends_first sends_orders(4)) (intro order_intros)
  then show ?thesis
    by (simp add: sell_all_def and_then_gets sent_by_none ret_def)
qed

lemma buy_in_sends:
  "sent_by (order_frames ''buy_market'' (double_to_string (asset w)) []) 1 w (snd (buy_in w))"
  unfolding buy_in_def and_then_gets
  by (intro sends_sent_by sends_first sends_trade_request)
    (auto split: json.split intro!: order_intros)

lemma trade_on_signals_sends: "sent_by (allowed_orders w) 1 w (snd (trade_on_signals w))"
proof (cases "status (account w)")
  case in_trading
  then show ?thesis
    using sell_all_sends[of w] signals_return(3)[of "ind w"]
    by (auto simp: trade_on_signals_def and_then_gets get_status_def account_get_status_def
        allowed_orders_def prog_defs sent_by_none)
next
  case out_of_trading
  then show ?thesis
    using buy_in_sends[of w] signals_return(1,2)[of "ind w"]
    by (auto simp: trade_on_signals_def and_then_gets get_status_def account_get_status_def
        allowed_orders_def prog_defs sent_by_none)
qed

lemma allowed_orders_ind [simp]: "allowed_orders (w\<lparr>ind := i\<rparr>) = allowed_orders w"
  by (simp add: allowed_orders_def split: Status.split)

lemma strategy_round_sends: "sent_by (allowed_orders w) 1 w (snd (strategy_round w))"
proof -
  obtain r w1 where pop: "pop_wait strategy_data_source w = (r, w1)" by fastforce
  have same: "orders w1 = orders w"
    using order_pops(1)[of strategy_data_source] pop unfolding keeps_def same_orders_def by (metis snd_conv)
  have "evolves w w1"
    using evolves_pops(1)[of strategy_data_source] pop unfolding keeps_def by (metis snd_conv)
  then have allowed: "allowed_orders w1 = allowed_orders w"
    using evolves_fields[of w w1] by (simp add: allowed_orders_def split: Status.split)
  show ?thesis
  proof (cases r)
    case (Inl e)
    then show ?thesis using pop same by (simp add: strategy_round_def and_then_def sent_by_none)
  next
    case r: (Inr d)
    show ?thesis
    proof (cases "calc_roc_and_maroc d (ind w1)")
      case (Inl e)
      then show ?thesis using r pop same by (simp add: strategy_round_def prog_defs sent_by_none)
    next
      case (Inr ui)
      obtain u i where ui: "ui = (u, i)" by fastforce
      let ?w2 = "w1\<lparr>ind := i\<rparr>"
      have o2: "orders ?w2 = orders w" using same by (simp add: orders_def)
      have "sent_by (allowed_orders w) 1 ?w2 (snd (trade_on_signals ?w2))"
        using trade_on_signals_sends[of ?w2] allowed by simp
      then have "sent_by (allowed_orders w) 1 w (snd (trade_on_signals ?w2))"
        by (rule sent_by_trans_same[OF o2])
      then show ?thesis
        using r pop Inr ui o2 by (simp add: strategy_round_def prog_defs sent_by_none)
    qed
  qed
qed

text \<open>A round that sells has a position to sell, and sells all of it.\<close>

lemma no_position_no_sale:
  "trading_btc w = dzero \<Longrightarrow> sell_all w = (Inr (), w) \<and> sell_on_quit w = (Inr (), w)"
  by (simp add: sell_all_def sell_on_quit_def prog_defs)

subsection \<open>The threads together\<close>

text \<open>
  Any interleaving of rounds of the three threads, of events, and of the two setters and
  \<open>stop\<close>. A thread takes a round as long as its loop condition holds.
\<close>

inductive roc_step :: "'z strategy_scheme \<Rightarrow> 'z strategy_scheme \<Rightarrow> bool" where
  trade_round: "signal w = 0 \<Longrightarrow> strategy_round w = (Inr (), w') \<Longrightarrow> roc_step w w'"
| quit_round: "signal w \<noteq> 0 \<Longrightarrow> sell_on_quit w = (Inr (), w') \<Longrightarrow> roc_step w w'"
| risk: "signal w \<noteq> 1 \<Longrightarrow> risk_round w = (Inr (), w') \<Longrightarrow> roc_step w w'"
| risk_ends: "signal w = 1 \<Longrightarrow> roc_step w (w\<lparr>inner_sig := Suc (inner_sig w)\<rparr>)"
| query: "inner_sig w \<noteq> 1 \<Longrightarrow> query_round w = (Inr (), w') \<Longrightarrow> roc_step w w'"
| event: "deliver e w = (Inr (), w') \<Longrightarrow> roc_step w w'"

inductive roc_reachable :: "'z strategy_scheme \<Rightarrow> 'z strategy_scheme \<Rightarrow> bool" for w0 where
  start: "roc_reachable w0 w0"
| step: "roc_reachable w0 w \<Longrightarrow> roc_step w w' \<Longrightarrow> roc_reachable w0 w'"

lemma roc_step_inv: "roc_step w w' \<Longrightarrow> strategy_inv w \<Longrightarrow> strategy_inv w'"
proof (induction rule: roc_step.induct)
  case (risk_ends w)
  then show ?case by (simp add: strategy_inv_def position_ok_def)
qed (use inv_strategy_round inv_sell_on_quit inv_risk_round inv_query_round
      evolves_deliver[THEN inv_evolves] in \<open>(metis (no_types) keeps_def inv_kept_def snd_conv)+\<close>)

lemma roc_reachable_inv: "roc_reachable w0 w \<Longrightarrow> strategy_inv w0 \<Longrightarrow> strategy_inv w"
  by (induction rule: roc_reachable.induct) (auto dest: roc_step_inv)


lemma roc_init_inv: "length slots = PROFIT_LEN \<Longrightarrow> strategy_inv (roc_init slots f w)"
  by (simp add: strategy_inv_def roc_init_def ind_sound_new position_ok_def win_wf_new PROFIT_LEN_def)

text \<open>The invariant spelt out for the states the program reaches.\<close>

lemma roc_reachable_facts:
  assumes "roc_reachable (roc_init slots f w0) w" "length slots = PROFIT_LEN"
  shows "ind_sound (ind w) \<and> win_wf PROFIT_LEN (profit_win w) \<and>
         (status (account w) = out_of_trading \<longrightarrow> trading_btc w = dzero \<and> trading_asset w = dzero)"
  using roc_reachable_inv[OF assms(1) roc_init_inv[OF assms(2)]]
  by (simp add: strategy_inv_def position_ok_def)

end
