(* ===== verification/Roc_Kept.thy ===== *)
theory Roc_Kept
  imports Pending Roc_Facts
begin

section \<open>Relations that the strategy keeps\<close>

text \<open>
  \<open>roc_ops\<close>: a relation that the primitive operations of the strategy keep is kept by its rounds.
  \<open>strategy_kept\<close> gives that for the relations on queues, environment and signal.
\<close>

locale roc_ops = kept R for R :: "'z strategy_scheme \<Rightarrow> 'z strategy_scheme \<Rightarrow> bool" +
  assumes log_R: "keeps R (okbot_log level msg)"
    and status_R: "keeps R (set_status st)"
    and pop_wait_R: "keeps R (pop_wait c)"
    and pop_timed_R: "keeps R (pop_timed c)"
    and trade_R: "keeps R (ok_spotcny_trade s t p q)"
    and orderinfo_R: "keeps R (ok_spotcny_orderinfo i)"
    and userinfo_R: "keeps R ok_spotcny_userinfo"
    and sell_R: "keeps R (sell_at_market x)"
    and position_R: "keeps R clear_position"
    and profits_R: "keeps R clear_profits"
    and record_R: "keeps R (record_profit pr)"
    and security_R: "keeps R (modify (\<lambda>w. w\<lparr>security := se\<rparr>))"
    and ind_R: "keeps R (modify (\<lambda>w. w\<lparr>ind := ix\<rparr>))"
    and book_R: "keeps R (book_order k av am)"
begin

lemma get_status_R: "keeps R get_status"
  unfolding get_status_def by (rule keeps_gets)

lemmas roc_intros = keeps_intros log_R status_R get_status_R pop_wait_R pop_timed_R trade_R
  orderinfo_R userinfo_R sell_R position_R profits_R record_R security_R ind_R book_R

lemma sell_all_R: "keeps R sell_all"
  unfolding sell_all_def by (intro roc_intros)

lemma handle_order_info_R: "keeps R (handle_order_info info)"
  unfolding handle_order_info_def by (intro roc_intros)

lemma query_order_R: "keeps R (query_order i)"
  unfolding query_order_def
  by (intro roc_intros) (auto split: json.split list.split intro!: roc_intros handle_order_info_R)

lemma buy_reply_R: "keeps R (buy_reply es)"
  by (induction es) (simp_all, (intro roc_intros query_order_R | assumption)+)

lemma buy_in_R: "keeps R buy_in"
  unfolding buy_in_def
  by (intro roc_intros) (auto split: json.split intro!: roc_intros buy_reply_R)

lemma trade_on_signals_R: "keeps R trade_on_signals"
  unfolding trade_on_signals_def
  by (intro keeps_and_then keeps_gets get_status_R)
    (auto split: Status.split intro!: roc_intros sell_all_R buy_in_R)

lemma strategy_round_R: "keeps R strategy_round"
  unfolding strategy_round_def by (intro roc_intros trade_on_signals_R)

lemma sell_on_quit_R: "keeps R sell_on_quit"
  unfolding sell_on_quit_def by (intro roc_intros)

lemma stop_loss_R: "keeps R (stop_loss retry)"
proof (induction "500 - retry" arbitrary: retry)
  case 0
  then show ?case by (subst stop_loss.simps) (simp add: keeps_ret)
next
  case (Suc n)
  have "n = 500 - Suc retry" using Suc.hyps(2) by simp
  from Suc.hyps(1)[OF this] show ?case by (subst stop_loss.simps) (intro roc_intros)
qed

lemma risk_on_funds_R: "keeps R (risk_on_funds node)"
  unfolding risk_on_funds_def check_profit_def by (intro roc_intros stop_loss_R)

lemma risk_round_R: "keeps R risk_round"
  unfolding risk_round_def by (intro roc_intros risk_on_funds_R)

lemma query_round_R: "keeps R query_round"
  unfolding query_round_def by (intro roc_intros)

end

locale strategy_kept = comm_kept R
  for R :: "'z strategy_scheme \<Rightarrow> 'z strategy_scheme \<Rightarrow> bool"

sublocale strategy_kept \<subseteq> ops: roc_ops R
proof unfold_locales
  show "keeps R (book_order k av am)" for k av am
    unfolding book_order_def by (intro comm_intros sets_R; simp)
qed (unfold clear_position_def clear_profits_def record_profit_def,
     (intro comm_intros sets_R; simp)+)

interpretation sdrain: strategy_kept "drains name" for name ..

text \<open>The counter \<open>inner_sig\<close> is changed by the end of the risk control only.\<close>

definition inner_kept :: "'z strategy_scheme \<Rightarrow> 'z strategy_scheme \<Rightarrow> bool" where
  "inner_kept w w' \<longleftrightarrow> inner_sig w' = inner_sig w"

lemma inner_evolves: "keeps evolves m \<Longrightarrow> keeps inner_kept m"
  unfolding keeps_def inner_kept_def using evolves_fields(6) by blast

interpretation inner: kept inner_kept
  by unfold_locales (simp_all add: inner_kept_def)

lemma inner_sets: "(\<And>w. inner_sig (f w) = inner_sig w) \<Longrightarrow> keeps inner_kept (modify f)"
  by (rule inner.keeps_modify) (simp add: inner_kept_def)

lemmas inner_prims = requests_evolve[THEN inner_evolves] orders_evolve[THEN inner_evolves]
  evolves_pops[THEN inner_evolves] evolves_log[THEN inner_evolves]

interpretation inner_ops: roc_ops inner_kept
proof unfold_locales
  show "keeps inner_kept (book_order k av am)" for k av am
    unfolding book_order_def set_status_def by (intro inner.keeps_intros inner_prims inner_sets; simp)
qed (unfold clear_position_def clear_profits_def record_profit_def set_status_def,
     (intro inner_prims inner_sets; simp)+)

end
