(* ===== verification/Waiting.thy ===== *)
theory Waiting
  imports Roc_Kept
begin

section \<open>Termination and shutdown of the strategy\<close>

text \<open>
  Each round of a thread of the strategy takes a document from its queue, so the loops end
  within as much fuel as documents are pending. The rest of the theory is about shutting
  down: what \<open>stop\<close> does to the loops, once and twice.
\<close>

subsection \<open>The loops end\<close>

lemma strategy_round_pending:
  "strategy_round w = (Inr (), w') \<Longrightarrow> pending strategy_data_source w' < pending strategy_data_source w"
  unfolding strategy_round_def
  by (erule round_pending[rotated]) (intro sdrain.ops.roc_intros sdrain.ops.trade_on_signals_R)

lemma risk_round_pending:
  "risk_round w = (Inr (), w') \<Longrightarrow> pending ''ok_spotcny_userinfo'' w' < pending ''ok_spotcny_userinfo'' w"
  unfolding risk_round_def
  by (erule round_pending[rotated]) (intro sdrain.ops.roc_intros sdrain.ops.risk_on_funds_R)

text \<open>With more fuel than pending documents the loop does not run out of it.\<close>

lemma run_strategy_ends:
  "pending strategy_data_source w < n \<Longrightarrow> fst (run_strategy n w) \<noteq> Inr False"
proof (induction n arbitrary: w)
  case (Suc n)
  show ?case
  proof (cases "signal w = 0")
    case True
    then have eq: "run_strategy (Suc n) w = and_then strategy_round (\<lambda>_. run_strategy n) w"
      by (simp add: prog_defs)
    show ?thesis
    proof (cases rule: and_then_cases[of strategy_round w "\<lambda>_. run_strategy n"])
      case (failed e s')
      then show ?thesis unfolding eq by simp
    next
      case (returned x s')
      then have "pending strategy_data_source s' < n"
        using strategy_round_pending[of w s'] Suc.prems by simp
      with returned Suc.IH show ?thesis unfolding eq by simp
    qed
  next
    case False
    then show ?thesis
      by (cases "sell_on_quit w"; cases "fst (sell_on_quit w)") (auto simp: prog_defs)
  qed
qed simp

lemma risk_control_ends:
  "pending ''ok_spotcny_userinfo'' w < n \<Longrightarrow> fst (risk_control n w) \<noteq> Inr False"
proof (induction n arbitrary: w)
  case (Suc n)
  show ?case
  proof (cases "signal w = 1")
    case False
    then have eq: "risk_control (Suc n) w = and_then risk_round (\<lambda>_. risk_control n) w"
      by (simp add: prog_defs)
    show ?thesis
    proof (cases rule: and_then_cases[of risk_round w "\<lambda>_. risk_control n"])
      case (failed e s')
      then show ?thesis unfolding eq by simp
    next
      case (returned x s')
      then have "pending ''ok_spotcny_userinfo'' s' < n"
        using risk_round_pending[of w s'] Suc.prems by simp
      with returned Suc.IH show ?thesis unfolding eq by simp
    qed
  qed (simp add: prog_defs)
qed simp

subsection \<open>Shutting down\<close>

text \<open>A thread blocked on its queue does not see \<open>stop\<close>: without another document it stays.\<close>

lemma stop_not_seen:
  assumes "signal w = 0" "channel_items (pipes w) strategy_data_source = []" "set (env w) \<subseteq> {Stop, Timeout}"
  shows "fst (run_strategy (Suc n) w) = Inl Blocked"
proof -
  have "fst (pop_wait strategy_data_source w) = Inl Blocked"
    using wait_events_blocked[OF refl assms(2,3)] by (simp add: pop_wait_def prog_defs)
  then show ?thesis
    using assms(1)
    by (cases "pop_wait strategy_data_source w") (simp add: prog_defs strategy_round_def)
qed

text \<open>The signal only grows, so after a second \<open>stop\<close> the condition \<open>signal != 1\<close> holds for ever.\<close>

lemma evolves_signal_mono: "keeps evolves m \<Longrightarrow> signal w \<le> signal (snd (m w))"
  using keepsD[of evolves m w] by (simp add: evolves_def)

definition signal_grows :: "'z strategy_scheme \<Rightarrow> 'z strategy_scheme \<Rightarrow> bool" where
  "signal_grows w w' \<longleftrightarrow> signal w \<le> signal w'"

lemma signal_evolves: "keeps evolves m \<Longrightarrow> keeps signal_grows m"
  by (auto simp: keeps_def evolves_def signal_grows_def)

interpretation sig: strategy_kept signal_grows
proof unfold_locales
  show "signal_grows w (snd (take_item c w))" for w :: "'z strategy_scheme" and c
    by (rule keepsD[OF signal_evolves[OF evolves_take_item]])
  show "env w = e # es \<Longrightarrow> signal_grows w (snd (next_event e w))" for w :: "'z strategy_scheme" and e es
    by (rule keepsD[OF signal_evolves[OF evolves_next_event]])
qed (simp_all add: signal_grows_def)

lemma risk_control_never_ends:
  "1 < signal w \<Longrightarrow> fst (risk_control n w) \<noteq> Inr True"
proof (induction n arbitrary: w)
  case (Suc n)
  then have eq: "risk_control (Suc n) w = and_then risk_round (\<lambda>_. risk_control n) w"
    by (simp add: prog_defs)
  show ?case
  proof (cases rule: and_then_cases[of risk_round w "\<lambda>_. risk_control n"])
    case (failed e s')
    then show ?thesis unfolding eq by simp
  next
    case (returned x s')
    have "signal w \<le> signal s'"
      using keepsD[OF sig.ops.risk_round_R, of w] returned by (simp add: signal_grows_def)
    with returned Suc show ?thesis unfolding eq by simp
  qed
qed (simp add: ret_def)

end
