(* ===== verification/Connection_Thread.thy ===== *)
theory Connection_Thread
  imports Trade_Facts
begin

section \<open>The connection thread\<close>

text \<open>
  When \<open>RunThread\<close> returns: at the first session the user closes, and never for the number of
  sessions that were lost, whatever \<open>retry_count\<close> is. And what \<open>Close\<close> does when the connection
  is not open.
\<close>

definition no_manual :: "'z world_scheme \<Rightarrow> bool" where
  "no_manual w \<longleftrightarrow> (\<forall>a ws. sockets w a = Some ws \<longrightarrow> \<not> m_manual_close ws)"

definition manual_kept :: "'z world_scheme \<Rightarrow> 'z world_scheme \<Rightarrow> bool" where
  "manual_kept w w' \<longleftrightarrow> (no_manual w \<longrightarrow> no_manual w')"

interpretation manual: kept manual_kept
  by unfold_locales (auto simp: manual_kept_def)

named_theorems manual_intros \<open>operations that do not flag a socket as closed by the user\<close>
declare manual.keeps_intros [manual_intros]

definition manual_safe :: "'a ws_prog \<Rightarrow> bool" where
  "manual_safe m \<longleftrightarrow>
     (\<forall>ws sent. \<not> m_manual_close ws \<longrightarrow> \<not> m_manual_close (fst (snd (m (ws, sent)))))"

lemma manual_with_socket: "manual_safe m \<Longrightarrow> keeps manual_kept (with_socket a m)"
  unfolding keeps_def manual_kept_def no_manual_def manual_safe_def with_socket_def
  by (auto split: option.splits prod.splits if_splits) (metis fst_conv snd_conv)

lemma manual_safe_ops [simp]:
  "manual_safe (gets f)" "manual_safe ws_on_open" "manual_safe ws_on_close"
  "manual_safe (ws_emit c)" "manual_safe (and_then ws_on_close (\<lambda>_. gets g))"
  by (auto simp: manual_safe_def ws_ops prog_defs)

lemmas manual_sockets [manual_intros] = manual_safe_ops[THEN manual_with_socket]

lemma manual_prims [manual_intros]:
  "keeps manual_kept (okbot_log level msg)" "keeps manual_kept (set_hThread b)"
  "keeps manual_kept (set_pWebsocket s)" "keeps manual_kept (trade_set_websocket s)"
  "keeps manual_kept (delete_socket a)" "keeps manual_kept new_socket" "keeps manual_kept (set_pipes p)"
  "keeps manual_kept (modify (\<lambda>w. w\<lparr>signal := Suc (signal w)\<rparr>))"
  by (auto simp: keeps_def okbot_log_def set_hThread_def set_pWebsocket_def trade_set_websocket_def
      delete_socket_def new_socket_def set_pipes_def prog_defs manual_kept_def no_manual_def ws_new_def)

lemma manual_if_socket [manual_intros]:
  "(\<And>a. keeps manual_kept (f a)) \<Longrightarrow> keeps manual_kept (if_socket f)"
  unfolding if_socket_def by (intro manual_intros)

lemma manual_handlers [manual_intros]:
  "keeps manual_kept (handle_open a)" "keeps manual_kept (handle_message a d)"
  "keeps manual_kept session_end"
  unfolding handle_open_def handle_message_def session_end_def cn_callbak_open_def
    cn_callbak_close_def ok_spotcny_btc_kline_1min_def Emit_def
  by (intro manual_intros)+

text \<open>A session begins on a new socket.\<close>

lemma session_begin_new:
  assumes "pWebsocket (api w) = None"
  shows "session_begin w =
     (Inr (), w\<lparr>sockets := (sockets w)(next_socket w \<mapsto>
        ws_new\<lparr>callbak_open := m_callbak_open (api w), callbak_close := m_callbak_close (api w),
          callbak_message := m_callbak_message (api w), m_uri := api_uri (api w)\<rparr>),
      next_socket := Suc (next_socket w), api := (api w)\<lparr>pWebsocket := Some (next_socket w)\<rparr>,
      trade := (trade w)\<lparr>trade_s := Some (next_socket w)\<rparr>\<rparr>)"
  using assms
  by (simp add: session_begin_def if_socket_def prog_defs new_socket_def set_pWebsocket_def
      trade_set_websocket_def with_socket_def ws_update_def)

lemma no_manual_session_begin:
  "pWebsocket (api w) = None \<Longrightarrow> no_manual w \<Longrightarrow> no_manual (snd (session_begin w))"
  by (simp add: session_begin_new no_manual_def ws_new_def)

lemma no_manual_deliver:
  assumes "no_manual w" "e \<noteq> User_Close"
  shows "no_manual (snd (deliver e w))"
proof (cases e)
  case (Message d)
  have "keeps manual_kept (deliver (Message d))"
    unfolding deliver.simps on_endpoint_def by (intro manual_intros)
  from keepsD[OF this, of w] assms(1) Message show ?thesis by (simp add: manual_kept_def)
next
  case Opened
  have "keeps manual_kept (deliver Opened)"
    unfolding deliver.simps on_endpoint_def by (intro manual_intros)
  from keepsD[OF this, of w] assms(1) Opened show ?thesis by (simp add: manual_kept_def)
next
  case Lost
  have "keeps manual_kept (deliver Lost)"
    unfolding deliver.simps by (intro manual_intros)
  from keepsD[OF this, of w] assms(1) Lost show ?thesis by (simp add: manual_kept_def)
next
  case Restarted
  then show ?thesis using assms(1) no_manual_session_begin[of w] by (simp add: prog_defs)
qed (use assms in \<open>simp_all add: prog_defs no_manual_def\<close>)

lemma no_manual_deliver_all:
  "no_manual w \<Longrightarrow> User_Close \<notin> set es \<Longrightarrow> no_manual (snd (deliver_all es w))"
proof (induction es arbitrary: w)
  case (Cons e es)
  then have "no_manual (snd (deliver e w))" by (intro no_manual_deliver) auto
  with Cons show ?case
    by (cases rule: and_then_cases[of "deliver e" w "\<lambda>_. deliver_all es"]) auto
qed (simp add: ret_def)

text \<open>What a session leaves behind.\<close>

lemma session_end_result:
  assumes "pWebsocket (api w) = Some a" "sockets w a = Some ws"
  shows "fst (session_end w) = Inr (m_manual_close ws)"
    "pWebsocket (api (snd (session_end w))) = None"
    "sockets (snd (session_end w)) = (sockets w)(a := None)"
  using assms
  by (simp_all add: session_end_def prog_defs with_socket_def ws_on_close_def ws_update_def
      cn_callbak_close_def delete_socket_def set_pWebsocket_def okbot_log_def)

lemma session_end_not_manual:
  assumes "no_manual w" "session_end w = (Inr manual, w')"
  shows "\<not> manual \<and> pWebsocket (api w') = None \<and> no_manual w'"
proof (cases "pWebsocket (api w)")
  case None
  with assms show ?thesis by (auto simp: session_end_def prog_defs)
next
  case (Some a)
  show ?thesis
  proof (cases "sockets w a")
    case None
    with Some assms(2) show ?thesis by (simp add: session_end_def prog_defs with_socket_def)
  next
    case (Some ws)
    with session_end_result[OF \<open>pWebsocket (api w) = Some a\<close>] assms show ?thesis
      by (auto simp: no_manual_def)
  qed
qed

text \<open>However often the connection is lost, the thread goes on.\<close>

lemma RunThread_goes_on:
  "pWebsocket (api w) = None \<Longrightarrow> no_manual w \<Longrightarrow> \<forall>s \<in> set sessions. User_Close \<notin> set s \<Longrightarrow>
     fst (RunThread i sessions w) \<noteq> Inr r"
proof (induction sessions arbitrary: i w)
  case Nil
  then show ?case by (simp add: and_then_def raise_def split: prod.split sum.split)
next
  case (Cons s sessions)
  obtain w0 where w0: "session_begin w = (Inr (), w0)"
    using session_begin_new[OF Cons.prems(1)] by blast
  have nm: "no_manual w0" using no_manual_session_begin[OF Cons.prems(1,2)] w0 by simp
  obtain r1 w1 where w1: "deliver_all s w0 = (r1, w1)" by fastforce
  have nm1: "no_manual w1" using no_manual_deliver_all[OF nm, of s] Cons.prems(3) w1 by simp
  obtain r2 w2 where w2: "session_end w1 = (r2, w2)" by fastforce
  show ?case
  proof (cases r1)
    case r1: (Inr u)
    show ?thesis
    proof (cases r2)
      case (Inr manual)
      with session_end_not_manual[OF nm1, of manual w2] w2
      have "\<not> manual" "pWebsocket (api w2) = None" "no_manual w2" by auto
      with Cons.IH[of w2] Cons.prems(3) r1 Inr w0 w1 w2 show ?thesis
        by (simp add: and_then_def)
    qed (use r1 w0 w1 w2 in \<open>simp add: and_then_def\<close>)
  qed (use w0 w1 in \<open>simp add: and_then_def\<close>)
qed

lemma deliver_all_append:
  "deliver_all (es @ es') = and_then (deliver_all es) (\<lambda>_. deliver_all es')"
  by (induction es) (simp_all add: and_then_assoc, simp add: fun_eq_iff prog_defs)

lemma Close_open:
  assumes "pWebsocket (api w) = Some a" "sockets w a = Some ws" "endpoint_open ws"
  shows "Close w = (Inr (), w\<lparr>sockets := (sockets w)(a \<mapsto>
     ws\<lparr>is_valid := False, m_manual_close := True, endpoint := Ep_Closed\<rparr>)\<rparr>)"
  using assms by (simp add: Close_def if_socket_def with_socket_def prog_defs ws_doclose_result)

lemma Close_not_open:
  assumes "pWebsocket (api w) = Some a" "sockets w a = Some ws" "\<not> endpoint_open ws"
  shows "fst (Close w) = Inl Net_Exception"
  using assms by (simp add: Close_def if_socket_def with_socket_def prog_defs ws_doclose_result)

text \<open>The thread returns at the first session that the user closes.\<close>

lemma RunThread_returns:
  assumes "session_begin w = (Inr (), w0)" "deliver_all s w0 = (Inr (), w1)"
    and "pWebsocket (api w1) = Some a" "sockets w1 a = Some ws" "endpoint_open ws"
  shows "fst (RunThread i ((s @ [User_Close]) # rest) w) = Inr 0 \<and>
         pWebsocket (api (snd (RunThread i ((s @ [User_Close]) # rest) w))) = None"
proof -
  let ?w2 = "w1\<lparr>sockets := (sockets w1)(a \<mapsto>
     ws\<lparr>is_valid := False, m_manual_close := True, endpoint := Ep_Closed\<rparr>)\<rparr>"
  have "deliver_all (s @ [User_Close]) w0 = (Inr (), ?w2)"
    using assms(2) Close_open[OF assms(3-5)] by (simp add: deliver_all_append prog_defs)
  moreover have "fst (session_end ?w2) = Inr True" "pWebsocket (api (snd (session_end ?w2))) = None"
    using session_end_result[of ?w2 a] assms(3) by simp_all
  ultimately show ?thesis
    using assms(1) by (cases "session_end ?w2") (simp add: and_then_def ret_def)
qed

end
