(* ===== verification/Sample_Runs.thy ===== *)
theory Sample_Runs
  imports Waiting Connection_Thread
begin

section \<open>Small states of the bot\<close>

text \<open>
  Concrete states for evaluating the general statements: a connected bot, one that has not
  started, a reply that confirms an order, and indicators with just enough history.
\<close>

definition sample_socket :: websocket where
  "sample_socket = ws_new\<lparr>endpoint := Ep_Open, callbak_message := True\<rparr>"

definition idle_bot :: world where
  "idle_bot =
     \<lparr>sockets = Map.empty, next_socket = 0, wire = [], api = (api_cn ''key'' ''secret'')\<lparr>hThread := True\<rparr>,
      trade = \<lparr>trade_s = None, m_api_key = ''key'', m_secret_key = ''secret''\<rparr>,
      pipes = pipeline_init, account = account_init, signal = 0, env = [], logs = []\<rparr>"

definition connected_bot :: world where
  "connected_bot = idle_bot\<lparr>sockets := [0 \<mapsto> sample_socket], next_socket := 1,
     api := (api idle_bot)\<lparr>pWebsocket := Some 0\<rparr>, trade := (trade idle_bot)\<lparr>trade_s := Some 0\<rparr>\<rparr>"

definition sample_elem :: json where
  "sample_elem = JObject [(''channel'', JString ''ok_spotcny_trade''),
                          (''data'', JObject [(''result'', JString ''true'')])]"

definition sample_reply :: json where
  "sample_reply = JArray [sample_elem]"

definition sample_strategy :: strategy where
  "sample_strategy = roc_init (replicate PROFIT_LEN dzero) 500 idle_bot"

text \<open>Twelve minutes without a usable price, with the rates and averages they give.\<close>

definition nan_series :: "nat \<Rightarrow> series" where
  "nan_series n = map (\<lambda>i. (12 - int i, NaN)) [0..<n]"

lemma NaN_arith [simp]: "dadd x NaN = NaN" "dadd NaN x = NaN" "ddiv NaN x = NaN" "dmul NaN x = NaN"
  by (cases x; simp)+

lemma nan_series_inv: "ind_inv (nan_series 12, nan_series 7, nan_series 2)"
proof -
  have "time_ordered (nan_series 12)" "time_ordered (nan_series 7)" "time_ordered (nan_series 2)"
    by (simp_all add: time_ordered_def nan_series_def upt_rec)
  moreover have "snd (nan_series 2 ! k) = MAROC (take AVG_NUM (drop k (nan_series 7)))" if "k < 2" for k
    using that less_2_cases[of k]
    by (auto simp: nan_series_def upt_rec MAROC_def AVG_NUM_def)
  ultimately show ?thesis
    by (simp add: ind_inv_def nan_series_def COUNT_def AVG_NUM_def ROC_LEN_def ROC_def dsub_def upt_rec)
qed

text \<open>Three minutes of rates that fell below their average.\<close>

definition falling :: indicators where
  "falling =
     \<lparr>window = tw_new COUNT dzero,
      roc_win = \<lparr>tw_full = False, tw_valid_size = 3, tw_first = False, tw_index = 3,
                 tw_slots = [(1, Finite False 2), (2, Finite False 1), (3, dzero)] @ replicate 717 (0, dzero)\<rparr>,
      maroc_win = \<lparr>tw_full = False, tw_valid_size = 3, tw_first = False, tw_index = 3,
                 tw_slots = [(1, Finite False 1), (2, Finite False 2), (3, dzero)] @ replicate 717 (0, dzero)\<rparr>\<rparr>"

lemma falling_down: "cross_for_down falling = Inr True"
  by (simp add: cross_for_down_def if_three_def last_pairs_def value_at_def tw_get_def falling_def
      ROC_LEN_def tw_get_size_def double_value_def)


text \<open>A window with the first entries filled in time order, and the indicators of \<open>nan_series\<close>.\<close>

definition filled_window :: "nat \<Rightarrow> (int \<times> double) list \<Rightarrow> double time_window" where
  "filled_window N es =
     \<lparr>tw_full = (length es = N), tw_valid_size = length es, tw_first = (es = []),
      tw_index = length es mod N, tw_slots = es @ replicate (N - length es) (0, dzero)\<rparr>"

lemma filled_window_wf:
  "0 < N \<Longrightarrow> N < 2 ^ 62 \<Longrightarrow> length es \<le> N \<Longrightarrow> tw_wf N (filled_window N es)"
  by (auto simp: tw_wf_def filled_window_def)

lemma filled_window_series:
  assumes "0 < N" "length es \<le> N"
  shows "tw_series N (filled_window N es) = rev es"
proof (rule nth_equalityI)
  fix k assume "k < length (tw_series N (filled_window N es))"
  then have k: "k < length es" by (simp add: filled_window_def)
  have "ring_slot N (length es mod N) k = length es - 1 - k"
  proof (cases "length es = N")
    case True
    then show ?thesis using k by (simp add: ring_slot_def)
  next
    case False
    then have less: "length es < N" using assms by simp
    have "length es + N - 1 - k = (length es - 1 - k) + N" using k by arith
    then have "ring_slot N (length es mod N) k = (length es - 1 - k + N) mod N"
      unfolding ring_slot_def mod_less[OF less] by (rule arg_cong)
    moreover have "length es - 1 - k < N" using k less by arith
    ultimately show ?thesis by (simp only: mod_add_self2 mod_less)
  qed
  moreover have "tw_series N (filled_window N es) ! k =
      (es @ replicate (N - length es) (0, dzero)) ! ring_slot N (length es mod N) k"
    unfolding tw_series_def filled_window_def using k by simp
  moreover have "length es - 1 - k < length es" using k by arith
  ultimately have "tw_series N (filled_window N es) ! k = es ! (length es - 1 - k)"
    by (simp only: nth_append if_True)
  then show "tw_series N (filled_window N es) ! k = rev es ! k"
    using k by (simp add: rev_nth)
qed (simp add: filled_window_def)

definition nan_indicators :: indicators where
  "nan_indicators =
     \<lparr>window = filled_window COUNT (rev (nan_series 12)),
      roc_win = filled_window ROC_LEN (rev (nan_series 7)),
      maroc_win = filled_window ROC_LEN (rev (nan_series 2))\<rparr>"

lemma nan_indicators_abs: "abs_ind nan_indicators = (nan_series 12, nan_series 7, nan_series 2)"
  by (simp add: abs_ind_def nan_indicators_def filled_window_series COUNT_def ROC_LEN_def nan_series_def)

lemma nan_indicators_sound: "ind_sound nan_indicators"
proof -
  have "tw_valid_size (maroc_win nan_indicators) = 2"
    by (simp add: nan_indicators_def filled_window_def nan_series_def)
  moreover have "ind_wf nan_indicators"
    by (simp add: ind_wf_def nan_indicators_def filled_window_wf COUNT_def ROC_LEN_def nan_series_def)
  ultimately show ?thesis
    by (simp add: ind_sound_def nan_indicators_abs nan_series_inv ind_ok_def fresh_slot_def)
qed

text \<open>A bot whose order is confirmed by a reply that waits already.\<close>

definition replied_bot :: world where
  "replied_bot = idle_bot\<lparr>pipes := pipeline_push ''ok_spotcny_trade'' sample_reply pipeline_init\<rparr>"

lemma sample_elem_confirms:
  "channel_of sample_elem = Inr ''ok_spotcny_trade''" "result_of sample_elem = Inr ''true''"
proof -
  have "get_node sample_elem (render_path [Member ''data'', Member ''result'']) = Inr (Some (JString ''true''))"
    by (subst get_node_navigate) (simp_all add: plain_name_def sample_elem_def)
  then show "result_of sample_elem = Inr ''true''"
    by (simp add: result_of_def get_value_def)
qed (simp add: channel_of_def find_member_def sample_elem_def)

lemma sample_elem_channel:
  "dispatchable sample_elem" "names_channel sample_elem name \<longleftrightarrow> name = ''ok_spotcny_trade''"
  by (auto simp: sample_elem_def)

lemma replied_bot_buys:
  "buy_at_market (Finite False 100) replied_bot = (Inr 0, snd (buy_at_market (Finite False 100) replied_bot))"
proof -
  have null: "trade_s (trade replied_bot) = None" by (simp add: replied_bot_def idle_bot_def)
  have "timed_events ''ok_spotcny_trade'' (env replied_bot) replied_bot =
      (Inr (Some sample_reply), replied_bot\<lparr>pipes := (snd (get_queue ''ok_spotcny_trade'' (pipes replied_bot)))(''ok_spotcny_trade'' \<mapsto> [])\<rparr>)"
    by (simp add: replied_bot_def idle_bot_def take_item_result)
  then have pop: "fst (pop_timed ''ok_spotcny_trade'' replied_bot) = Inr (Some sample_reply)"
    by (simp add: pop_timed_def and_then_gets)
  then have "fst (CHECK_AND_RETURN replied_bot) = Inr 0"
    by (cases "pop_timed ''ok_spotcny_trade'' replied_bot")
      (simp add: CHECK_AND_RETURN_def and_then_def sample_reply_def sample_elem_confirms lift_result_def ret_def)
  moreover have "buy_at_market (Finite False 100) replied_bot = CHECK_AND_RETURN replied_bot"
    using null by (simp add: buy_at_market_def place_order_def ok_spotcny_trade_def and_then_gets
        try_emit_null and_then_def[of "and_then _ _"] dzero_def double_value_def)
  ultimately show ?thesis by (metis prod.collapse)
qed

lemma connected_bot_sends:
  "wire (snd (try_emit c p m connected_bot)) \<noteq> wire connected_bot"
proof -
  have "trade_s (trade connected_bot) = Some 0" "sockets connected_bot 0 = Some sample_socket"
    "is_valid sample_socket" "endpoint_open sample_socket"
    by (simp_all add: connected_bot_def sample_socket_def ws_new_def)
  then show ?thesis by (simp add: try_emit_open)
qed

end
