(* ===== verification/Str.thy ===== *)
theory Str
  imports Clib
begin

section \<open>str.cpp: hexadecimal digits and URL coding\<close>

text \<open>
  \<open>toHex\<close>, \<open>fromHex\<close>, \<open>URLEncode\<close> and \<open>URLDecode\<close> of \<open>rest_api/net/http/curl/str.cpp\<close>
  (\<open>okcoin_client/string.cpp\<close> has the same four). \<open>BYTE\<close> is an unsigned byte. In
  \<open>URLDecode\<close> the byte at \<open>size()\<close> is the terminating NUL and one past it is undefined.
\<close>

definition byte_of :: "char \<Rightarrow> byte" where
  "byte_of c = of_nat (code_of c)"

definition char_of_byte :: "byte \<Rightarrow> char" where
  "char_of_byte b = char_of (unat b)"

definition toHex :: "byte \<Rightarrow> byte" where
  "toHex x = (if 9 < x then x - 10 + 65 else x + 48)"

definition fromHex :: "byte \<Rightarrow> byte" where
  "fromHex x = (if isdigit (char_of_byte x) then x - 48 else x - 65 + 10)"

definition url_encode_char :: "char \<Rightarrow> string" where
  "url_encode_char c =
     (if isalnum c then [c]
      else [CHR 0x25, char_of_byte (toHex (drop_bit 4 (byte_of c))),
            char_of_byte (toHex (byte_of c mod 16))])"

definition URLEncode :: "string \<Rightarrow> string" where
  "URLEncode sIn = concat (map url_encode_char sIn)"

definition url_decode_byte :: "char \<Rightarrow> char \<Rightarrow> char" where
  "url_decode_byte h l =
     char_of_byte (or (push_bit 4 (fromHex (byte_of h))) (fromHex (byte_of l)))"

fun URLDecode :: "string \<Rightarrow> string result" where
  "URLDecode [] = Inr []"
| "URLDecode (c # r) =
     (if c = CHR 0x25 then
        (case r of
           [] \<Rightarrow> Inl Undefined_Behaviour
         | [h] \<Rightarrow> Inr [url_decode_byte h (CHR 0x00)]
         | h # l # r' \<Rightarrow> bind_result (URLDecode r') (\<lambda>s. Inr (url_decode_byte h l # s)))
      else if c = CHR ''+'' then bind_result (URLDecode r) (\<lambda>s. Inr (CHR '' '' # s))
      else bind_result (URLDecode r) (\<lambda>s. Inr (c # s)))"

lemma char_of_byte_of [simp]: "char_of_byte (byte_of c) = c"
  by (simp add: char_of_byte_def byte_of_def unat_of_nat)

lemma byte_of_char_of_byte [simp]: "byte_of (char_of_byte b) = b"
proof -
  have "unat b < 2 ^ LENGTH(8)" by (rule unsigned_less)
  then show ?thesis by (simp add: char_of_byte_def byte_of_def)
qed

lemma nibble_cases:
  "x < 16 \<Longrightarrow> x \<in> {0, 1, 2, 3, 4, 5, 6, 7, 8, 9, 10, 11, 12, 13, 14, 15 :: byte}"
proof -
  assume "x < 16"
  then have "unat x < 16" by (simp add: word_less_nat_alt)
  then have "unat x \<in> set [0..<16]" by simp
  then have "(of_nat (unat x) :: byte) \<in> of_nat ` set [0..<16]" by (rule imageI)
  then have "x \<in> of_nat ` set [0..<16]" by simp
  then show ?thesis by (simp add: upt_rec_numeral upt_rec)
qed

lemma fromHex_toHex: "x < 16 \<Longrightarrow> fromHex (toHex x) = x"
  by (drule nibble_cases) (auto simp: fromHex_def toHex_def isdigit_def char_of_byte_def)

lemma url_decode_encode_byte:
  "url_decode_byte (char_of_byte (toHex (drop_bit 4 b))) (char_of_byte (toHex (b mod 16))) = char_of_byte b"
proof -
  have hi: "drop_bit 4 b < 16"
  proof -
    have "unat b < 2 ^ LENGTH(8)" by (rule unsigned_less)
    then show ?thesis by (simp add: word_less_nat_alt drop_bit_eq_div unat_div)
  qed
  have lo: "b mod 16 < 16" by (simp add: word_less_nat_alt unat_mod)
  have "or (push_bit 4 (drop_bit 4 b)) (take_bit 4 b) = b"
    by (rule bit_word_eqI) (auto simp: bit_simps)
  moreover have "take_bit 4 b = b mod 16" by (simp add: take_bit_eq_mod)
  ultimately show ?thesis by (simp add: url_decode_byte_def fromHex_toHex hi lo)
qed

lemma isalnum_plain: "isalnum c \<Longrightarrow> c \<noteq> CHR 0x25 \<and> c \<noteq> CHR ''+''"
  by (auto simp: isalnum_def isdigit_def isupper_def islower_def)

lemma URLDecode_encode_char:
  "URLDecode (url_encode_char c @ r) = bind_result (URLDecode r) (\<lambda>s. Inr (c # s))"
  using url_decode_encode_byte[of "byte_of c"] isalnum_plain[of c]
  by (cases "isalnum c") (simp_all add: url_encode_char_def)

lemma URLDecode_URLEncode: "URLDecode (URLEncode s) = Inr s"
  by (induction s) (simp_all add: URLEncode_def URLDecode_encode_char)

text \<open>An encoded string holds only letters, digits and percent signs.\<close>

lemma toHex_isalnum: "x < 16 \<Longrightarrow> isalnum (char_of_byte (toHex x))"
  by (drule nibble_cases) (auto simp: toHex_def isalnum_def isdigit_def isupper_def char_of_byte_def)

lemma URLEncode_chars: "c \<in> set (URLEncode s) \<Longrightarrow> isalnum c \<or> c = CHR 0x25"
proof -
  have hi: "drop_bit 4 b < 16" for b :: byte
  proof -
    have "unat b < 2 ^ LENGTH(8)" by (rule unsigned_less)
    then show ?thesis by (simp add: word_less_nat_alt drop_bit_eq_div unat_div)
  qed
  have lo: "b mod 16 < 16" for b :: byte by (simp add: word_less_nat_alt unat_mod)
  show "c \<in> set (URLEncode s) \<Longrightarrow> isalnum c \<or> c = CHR 0x25"
    by (auto simp: URLEncode_def url_encode_char_def toHex_isalnum[OF hi] toHex_isalnum[OF lo]
        split: if_splits)
qed

end
