(* ===== verification/Queue_Threads.thy ===== *)
theory Queue_Threads
  imports Queues
begin

section \<open>util/queue.h: the methods of the queue between threads, step by step\<close>

text \<open>
  \<open>Queues\<close> takes a method for one step. Here each method is the sequence of its steps: locking the
  mutex, the test, \<open>front\<close>, \<open>pop\<close>, unlocking, waiting on the condition variable and \<open>notify_one\<close>. A thread
  is at a point of one method; what it does next is a \<open>move\<close>, so the threads interleave in any way.
  A wait ends when it is notified, for no reason (a spurious wake-up), or when its time is over; then the
  mutex is locked again and the test repeated, as the standard says of \<open>wait\<close> and \<open>wait_until\<close> with a
  predicate. Two fields record what was pushed and what was handed out, and one that \<open>front\<close> or \<open>pop\<close>
  was called on an empty \<open>std::queue\<close>, which is undefined.
\<close>

datatype pop_kind = Pop_Block | Pop_Nonblock | Pop_Timed | Pop_Late   \<comment> \<open>the last: after its time\<close>

datatype 'a answer = Took 'a | Nothing | Count nat | Done

datatype 'a point =
    Outside
  | Push_Lock 'a | Push_Add 'a | Push_Unlock | Push_Notify
  | Pop_Lock pop_kind | Pop_Test pop_kind | Pop_Waiting pop_kind | Pop_Front | Pop_Pop 'a
  | Size_Lock | Size_Read
  | Leaving "'a answer"

datatype 'a move = Call_Push 'a | Call_Pop pop_kind | Call_Size | Go | Wake nat | Spurious | Time_Out

record 'a queue_threads =
  q_items :: "'a list"
  q_mutex :: "nat option"
  q_at :: "'a point list"
  q_broken :: bool
  q_pushed :: "'a list"
  q_taken :: "'a list"

definition queue_new :: "nat \<Rightarrow> 'a queue_threads" where
  "queue_new n = \<lparr>q_items = [], q_mutex = None, q_at = replicate n Outside, q_broken = False, q_pushed = [], q_taken = []\<rparr>"

definition goto :: "nat \<Rightarrow> 'a point \<Rightarrow> 'a queue_threads \<Rightarrow> 'a queue_threads" where
  "goto i p s = s\<lparr>q_at := (q_at s)[i := p]\<rparr>"

definition lock :: "nat \<Rightarrow> 'a point \<Rightarrow> 'a queue_threads \<Rightarrow> 'a queue_threads option" where
  "lock i p s = (if q_mutex s = None then Some (goto i p (s\<lparr>q_mutex := Some i\<rparr>)) else None)"

definition unlock :: "nat \<Rightarrow> 'a point \<Rightarrow> 'a queue_threads \<Rightarrow> 'a queue_threads" where
  "unlock i p s = goto i p (s\<lparr>q_mutex := None\<rparr>)"

fun waits :: "'a point \<Rightarrow> bool" where
  "waits (Pop_Waiting k) = True"
| "waits p = False"

fun push_move :: "nat \<Rightarrow> 'a move \<Rightarrow> 'a point \<Rightarrow> 'a queue_threads \<Rightarrow> 'a queue_threads option" where
  "push_move i (Call_Push x) Outside s = Some (goto i (Push_Lock x) s)"
| "push_move i Go (Push_Lock x) s = lock i (Push_Add x) s"
| "push_move i Go (Push_Add x) s =
     Some (goto i Push_Unlock (s\<lparr>q_items := q_items s @ [x], q_pushed := q_pushed s @ [x]\<rparr>))"
| "push_move i Go Push_Unlock s = Some (unlock i Push_Notify s)"
| "push_move i Go Push_Notify s = (if list_ex waits (q_at s) then None else Some (goto i (Leaving Done) s))"
| "push_move i (Wake j) Push_Notify s =
     (if j < length (q_at s) \<and> i \<noteq> j
      then case q_at s ! j of
             Pop_Waiting k \<Rightarrow> Some (goto i (Leaving Done) (goto j (Pop_Lock k) s))
           | _ \<Rightarrow> None
      else None)"
| "push_move i mv p s = None"

fun pop_move :: "nat \<Rightarrow> 'a move \<Rightarrow> 'a point \<Rightarrow> 'a queue_threads \<Rightarrow> 'a queue_threads option" where
  "pop_move i (Call_Pop k) Outside s = Some (goto i (Pop_Lock k) s)"
| "pop_move i Go (Pop_Lock k) s = lock i (Pop_Test k) s"
| "pop_move i Go (Pop_Test k) s =
     Some (if q_items s \<noteq> [] then goto i Pop_Front s
           else case k of
                  Pop_Nonblock \<Rightarrow> unlock i (Leaving Nothing) s
                | Pop_Late \<Rightarrow> unlock i (Leaving Nothing) s
                | _ \<Rightarrow> unlock i (Pop_Waiting k) s)"
| "pop_move i Spurious (Pop_Waiting k) s = Some (goto i (Pop_Lock k) s)"
| "pop_move i Time_Out (Pop_Waiting k) s = (if k = Pop_Timed then Some (goto i (Pop_Lock Pop_Late) s) else None)"
| "pop_move i Go Pop_Front s =
     (case q_items s of
        [] \<Rightarrow> Some (s\<lparr>q_broken := True\<rparr>)
      | x # q \<Rightarrow> Some (goto i (Pop_Pop x) s))"
| "pop_move i Go (Pop_Pop x) s =
     (case q_items s of
        [] \<Rightarrow> Some (s\<lparr>q_broken := True\<rparr>)
      | _ # q \<Rightarrow> Some (unlock i (Leaving (Took x)) (s\<lparr>q_items := q, q_taken := q_taken s @ [x]\<rparr>)))"
| "pop_move i mv p s = None"

fun count_move :: "nat \<Rightarrow> 'a move \<Rightarrow> 'a point \<Rightarrow> 'a queue_threads \<Rightarrow> 'a queue_threads option" where
  "count_move i Call_Size Outside s = Some (goto i Size_Lock s)"
| "count_move i Go Size_Lock s = lock i Size_Read s"
| "count_move i Go Size_Read s = Some (unlock i (Leaving (Count (length (q_items s)))) s)"
| "count_move i mv p s = None"

definition queue_move :: "nat \<Rightarrow> 'a move \<Rightarrow> 'a queue_threads \<Rightarrow> 'a queue_threads option" where
  "queue_move i mv s =
     (if i < length (q_at s)
      then let p = q_at s ! i
           in case p of
                Leaving a \<Rightarrow> if mv = Go then Some (goto i Outside s) else None
              | _ \<Rightarrow> (case push_move i mv p s of Some t \<Rightarrow> Some t
                      | None \<Rightarrow> (case pop_move i mv p s of Some t \<Rightarrow> Some t | None \<Rightarrow> count_move i mv p s))
      else None)"

inductive queue_reach :: "nat \<Rightarrow> 'a queue_threads \<Rightarrow> bool" for n where
  start: "queue_reach n (queue_new n)"
| move: "queue_reach n s \<Longrightarrow> queue_move i mv s = Some t \<Longrightarrow> queue_reach n t"

subsection \<open>Counting threads\<close>

definition num :: "('a point \<Rightarrow> bool) \<Rightarrow> 'a queue_threads \<Rightarrow> nat" where
  "num P s = length (filter P (q_at s))"

lemma length_filter_update:
  "i < length xs \<Longrightarrow> length (filter P (xs[i := y])) + (if P (xs ! i) then 1 else 0) = length (filter P xs) + (if P y then 1 else 0)"
proof (induction xs arbitrary: i)
  case (Cons x xs)
  then show ?case by (cases i) auto
qed simp

lemma num_goto:
  "i < length (q_at s) \<Longrightarrow> num P (goto i p s) + (if P (q_at s ! i) then 1 else 0) = num P s + (if P p then 1 else 0)"
  unfolding num_def goto_def by (simp add: length_filter_update)

text \<open>Who holds the mutex, and who is on the way to take an item or to wake another thread.\<close>

fun holds :: "'a point \<Rightarrow> bool" where
  "holds (Push_Add x) = True"
| "holds Push_Unlock = True"
| "holds (Pop_Test k) = True"
| "holds Pop_Front = True"
| "holds (Pop_Pop x) = True"
| "holds Size_Read = True"
| "holds p = False"

fun busy :: "'a point \<Rightarrow> bool" where
  "busy Push_Unlock = True"
| "busy Push_Notify = True"
| "busy (Pop_Lock k) = True"
| "busy (Pop_Test k) = True"
| "busy Pop_Front = True"
| "busy (Pop_Pop x) = True"
| "busy p = False"

subsection \<open>The invariant\<close>

definition mutex_inv :: "'a queue_threads \<Rightarrow> bool" where
  "mutex_inv s \<longleftrightarrow> (\<forall>i < length (q_at s). holds (q_at s ! i) \<longleftrightarrow> q_mutex s = Some i)"

fun front_ok :: "'a list \<Rightarrow> 'a point \<Rightarrow> bool" where
  "front_ok q Pop_Front = (q \<noteq> [])"
| "front_ok q (Pop_Pop x) = (q \<noteq> [] \<and> hd q = x)"
| "front_ok q p = True"

definition threads_inv :: "'a queue_threads \<Rightarrow> bool" where
  "threads_inv s \<longleftrightarrow>
     mutex_inv s \<and> (\<forall>p \<in> set (q_at s). front_ok (q_items s) p) \<and> \<not> q_broken s \<and>
     q_pushed s = q_taken s @ q_items s \<and> (0 < num waits s \<longrightarrow> length (q_items s) \<le> num busy s)"

lemma front_ok_outside: "\<not> holds p \<Longrightarrow> front_ok q p"
  by (cases p) auto

text \<open>A thread that moves from one point to another, with the mutex taken, kept or released, and the
  items changed only by the one that holds it.\<close>

lemma moved_inv:
  assumes s: "threads_inv s" "i < length (q_at s)"
    and m: "holds (q_at s ! i) \<or> q_mutex s = None \<or> \<not> holds p \<and> q_mutex t = q_mutex s \<and> q_items t = q_items s"
    and t: "q_at t = (q_at s)[i := p]" "q_mutex t = (if holds p then Some i else if holds (q_at s ! i) then None else q_mutex s)"
    and f: "front_ok (q_items t) p" "q_items t = q_items s \<or> holds (q_at s ! i)" "\<not> q_broken t"
      "q_pushed t = q_taken t @ q_items t"
    and w: "0 < num waits t \<Longrightarrow> length (q_items t) \<le> num busy t"
  shows "threads_inv t"
proof -
  have h: "holds (q_at s ! j) \<longleftrightarrow> q_mutex s = Some j" if "j < length (q_at s)" for j
    using s that by (simp add: threads_inv_def mutex_inv_def)
  have "mutex_inv t"
    unfolding mutex_inv_def
  proof (intro allI impI)
    fix j assume "j < length (q_at t)"
    then have j: "j < length (q_at s)" by (simp add: t(1))
    show "holds (q_at t ! j) \<longleftrightarrow> q_mutex t = Some j"
      using h[OF j] h[OF s(2)] j m t by (cases "j = i") auto
  qed
  moreover have "front_ok (q_items t) p'" if "p' \<in> set (q_at t)" for p'
  proof -
    from that obtain j where j: "j < length (q_at s)" "p' = q_at t ! j" by (auto simp: t(1) in_set_conv_nth)
    show ?thesis
    proof (cases "j = i \<or> q_items t = q_items s")
      case True
      with j f(1) s(1) s(2) show ?thesis by (cases "j = i") (auto simp: t(1) threads_inv_def)
    next
      case False
      then have "\<not> holds (q_at s ! j)" using h[OF j(1)] h[OF s(2)] f(2) by auto
      with False j show ?thesis by (simp add: t(1) front_ok_outside)
    qed
  qed
  ultimately show ?thesis using f w by (simp add: threads_inv_def)
qed

lemma num_update:
  "q_at t = (q_at s)[i := p] \<Longrightarrow> i < length (q_at s) \<Longrightarrow>
     num P t + (if P (q_at s ! i) then 1 else 0) = num P s + (if P p then 1 else 0)"
  unfolding num_def by (simp add: length_filter_update)

lemma num_pos: "i < length (q_at s) \<Longrightarrow> P (q_at s ! i) \<Longrightarrow> 0 < num P s"
  by (auto simp: num_def filter_empty_conv)

lemmas queue_moves = goto_def lock_def unlock_def

lemma push_move_inv:
  assumes s: "threads_inv s" "i < length (q_at s)" and m: "push_move i mv (q_at s ! i) s = Some t"
  shows "threads_inv t"
proof -
  note inv = moved_inv[OF s]
  have count: "num P t + (if P (q_at s ! i) then 1 else 0) = num P s + (if P p then 1 else 0)"
    if "q_at t = (q_at s)[i := p]" for P p
    using num_update[OF that s(2)] .
  have q: "0 < num waits s \<Longrightarrow> length (q_items s) \<le> num busy s" "\<not> q_broken s" "q_pushed s = q_taken s @ q_items s"
    "holds (q_at s ! i) \<longleftrightarrow> q_mutex s = Some i"
    using s by (simp_all add: threads_inv_def mutex_inv_def)
  from m show ?thesis
  proof (cases "(i, mv, q_at s ! i, s)" rule: push_move.cases)
    case (1 i' x s')
    with m q count[of "Push_Lock x" busy] count[of "Push_Lock x" waits] show ?thesis by (intro inv[of "Push_Lock x"]) (auto simp: queue_moves)
  next
    case (2 i' x s')
    with m q count[of "Push_Add x" busy] count[of "Push_Add x" waits] show ?thesis
      by (intro inv[of "Push_Add x"]) (auto simp: queue_moves split: if_splits)
  next
    case (3 i' x s')
    with m q count[of Push_Unlock busy] count[of Push_Unlock waits] show ?thesis
      by (intro inv[of Push_Unlock]) (auto simp: queue_moves)
  next
    case (4 i' s')
    with m q count[of Push_Notify busy] count[of Push_Notify waits] show ?thesis
      by (intro inv[of Push_Notify]) (auto simp: queue_moves)
  next
    case (5 i' s')
    then have none: "num waits s = 0" "t = goto i (Leaving Done) s"
      using m by (auto simp: num_def filter_empty_conv list_ex_iff split: if_splits)
    with m q 5 count[of "Leaving Done" busy] count[of "Leaving Done" waits] show ?thesis
      by (intro inv[of "Leaving Done"]) (auto simp: queue_moves)
  next
    case (6 i' j s')
    then obtain k where k: "q_at s ! j = Pop_Waiting k" "j < length (q_at s)" "i \<noteq> j"
      "t = goto i (Leaving Done) (goto j (Pop_Lock k) s)" "q_at s ! i = Push_Notify"
      using m by (auto split: if_splits point.splits)
    let ?s = "goto j (Pop_Lock k) s"
    have n: "num waits ?s + 1 = num waits s" "num busy ?s = num busy s + 1"
      using num_goto[OF k(2), of waits "Pop_Lock k"] num_goto[OF k(2), of busy "Pop_Lock k"] k(1) by simp_all
    have mutex: "q_mutex s \<noteq> Some j" using s(1) k(1,2) by (auto simp: threads_inv_def mutex_inv_def)
    have inv': "threads_inv ?s"
      by (rule moved_inv[OF s(1) k(2), of "Pop_Lock k"])
        (use n(1) n(2) q(1-3) k(1) mutex in \<open>simp_all add: goto_def\<close>)
    have i': "i < length (q_at ?s)" "q_at ?s ! i = Push_Notify" using s(2) k(3,5) by (simp_all add: goto_def)
    have n': "num waits t = num waits ?s" "num busy t + 1 = num busy ?s"
      unfolding k(4) using num_goto[OF i'(1), of waits "Leaving Done"] num_goto[OF i'(1), of busy "Leaving Done"] i'(2)
      by simp_all
    have mutex': "q_mutex s \<noteq> Some i" using q(4) k(5) by simp
    have t: "q_at t = (q_at ?s)[i := Leaving Done]" "q_mutex t = q_mutex s" "q_items t = q_items s" "q_broken t = q_broken s"
      "q_pushed t = q_pushed s" "q_taken t = q_taken s" "q_mutex ?s = q_mutex s" "q_items ?s = q_items s"
      by (simp_all add: k(4) goto_def)
    show ?thesis
      by (rule moved_inv[OF inv' i'(1), of "Leaving Done"])
        (use t i'(2) q(1-3) n n' in simp_all)
  qed (use m in simp_all)
qed

lemma pop_move_inv:
  assumes s: "threads_inv s" "i < length (q_at s)" and m: "pop_move i mv (q_at s ! i) s = Some t"
  shows "threads_inv t"
proof -
  note inv = moved_inv[OF s]
  have count: "num P t + (if P (q_at s ! i) then 1 else 0) = num P s + (if P p then 1 else 0)"
    if "q_at t = (q_at s)[i := p]" for P p
    using num_update[OF that s(2)] .
  have q: "0 < num waits s \<Longrightarrow> length (q_items s) \<le> num busy s" "\<not> q_broken s" "q_pushed s = q_taken s @ q_items s"
    "holds (q_at s ! i) \<longleftrightarrow> q_mutex s = Some i" "front_ok (q_items s) (q_at s ! i)"
    using s by (simp_all add: threads_inv_def mutex_inv_def)
  from m show ?thesis
  proof (cases "(i, mv, q_at s ! i, s)" rule: pop_move.cases)
    case (1 i' k s')
    with m q count[of "Pop_Lock k" busy] count[of "Pop_Lock k" waits] show ?thesis
      by (intro inv[of "Pop_Lock k"]) (auto simp: queue_moves)
  next
    case (2 i' k s')
    with m q count[of "Pop_Test k" busy] count[of "Pop_Test k" waits] show ?thesis
      by (intro inv[of "Pop_Test k"]) (auto simp: queue_moves split: if_splits)
  next
    case (3 i' k s')
    show ?thesis
    proof (cases "q_items s = []")
      case True
      then obtain p where "t = unlock i p s" "\<not> holds p" using m 3 by (cases k) auto
      with True q 3 show ?thesis by (intro inv[of p]) (auto simp: queue_moves front_ok_outside)
    next
      case False
      with m q 3 count[of Pop_Front busy] count[of Pop_Front waits] show ?thesis
        by (intro inv[of Pop_Front]) (auto simp: queue_moves)
    qed
  next
    case (4 i' k s')
    with m q count[of "Pop_Lock k" busy] count[of "Pop_Lock k" waits] show ?thesis
      by (intro inv[of "Pop_Lock k"]) (auto simp: queue_moves)
  next
    case (5 i' k s')
    with m q count[of "Pop_Lock Pop_Late" busy] count[of "Pop_Lock Pop_Late" waits] show ?thesis
      by (intro inv[of "Pop_Lock Pop_Late"]) (auto simp: queue_moves split: if_splits)
  next
    case (6 i' s')
    then obtain x r where "q_items s = x # r" using q(5) by (cases "q_items s") auto
    with m q 6 count[of "Pop_Pop x" busy] count[of "Pop_Pop x" waits] show ?thesis
      by (intro inv[of "Pop_Pop x"]) (auto simp: queue_moves)
  next
    case (7 i' x s')
    then obtain r where "q_items s = x # r" using q(5) by (cases "q_items s") auto
    with m q 7 count[of "Leaving (Took x)" busy] count[of "Leaving (Took x)" waits] show ?thesis
      by (intro inv[of "Leaving (Took x)"]) (auto simp: queue_moves)
  qed (use m in simp_all)
qed

lemma count_move_inv:
  assumes s: "threads_inv s" "i < length (q_at s)" and m: "count_move i mv (q_at s ! i) s = Some t"
  shows "threads_inv t"
proof -
  note inv = moved_inv[OF s]
  have count: "num P t + (if P (q_at s ! i) then 1 else 0) = num P s + (if P p then 1 else 0)"
    if "q_at t = (q_at s)[i := p]" for P p
    using num_update[OF that s(2)] .
  have q: "0 < num waits s \<Longrightarrow> length (q_items s) \<le> num busy s" "\<not> q_broken s" "q_pushed s = q_taken s @ q_items s"
    "holds (q_at s ! i) \<longleftrightarrow> q_mutex s = Some i"
    using s by (simp_all add: threads_inv_def mutex_inv_def)
  from m show ?thesis
  proof (cases "(i, mv, q_at s ! i, s)" rule: count_move.cases)
    case (1 i' s')
    with m q count[of Size_Lock busy] count[of Size_Lock waits] show ?thesis
      by (intro inv[of Size_Lock]) (auto simp: queue_moves)
  next
    case (2 i' s')
    with m q count[of Size_Read busy] count[of Size_Read waits] show ?thesis
      by (intro inv[of Size_Read]) (auto simp: queue_moves split: if_splits)
  next
    case (3 i' s')
    let ?p = "Leaving (Count (length (q_items s)))"
    from 3 m q count[of ?p busy] count[of ?p waits] show ?thesis
      by (intro inv[of ?p]) (auto simp: queue_moves)
  qed (use m in simp_all)
qed

lemma queue_move_inv:
  assumes "queue_move i mv s = Some t" "threads_inv s"
  shows "threads_inv t"
proof -
  have i: "i < length (q_at s)" using assms(1) by (auto simp: queue_move_def split: if_splits)
  show ?thesis
  proof (cases "\<exists>a. q_at s ! i = Leaving a")
    case True
    then have t: "t = goto i Outside s" using assms(1) by (auto simp: queue_move_def i split: if_splits)
    have "q_at t = (q_at s)[i := Outside]" by (simp add: t goto_def)
    from num_update[OF this i, of busy] num_update[OF this i, of waits] True
    have n: "num busy t = num busy s" "num waits t = num waits s" by auto
    have "0 < num waits s \<Longrightarrow> length (q_items s) \<le> num busy s" "\<not> q_broken s" "q_pushed s = q_taken s @ q_items s"
      using assms(2) by (simp_all add: threads_inv_def)
    then show ?thesis
      using True n by (intro moved_inv[OF assms(2) i, of Outside]) (auto simp: t goto_def)
  next
    case False
    then have "push_move i mv (q_at s ! i) s = Some t \<or> pop_move i mv (q_at s ! i) s = Some t \<or> count_move i mv (q_at s ! i) s = Some t"
      using assms(1) by (cases "q_at s ! i") (auto simp: queue_move_def i Let_def split: option.splits)
    with push_move_inv[OF assms(2) i] pop_move_inv[OF assms(2) i] count_move_inv[OF assms(2) i] show ?thesis by blast
  qed
qed

lemma threads_inv_new: "threads_inv (queue_new n)"
  by (auto simp: threads_inv_def mutex_inv_def queue_new_def num_def)

lemma queue_reach_inv: "queue_reach n s \<Longrightarrow> threads_inv s"
  by (induction rule: queue_reach.induct) (auto intro: threads_inv_new queue_move_inv)

subsection \<open>What follows\<close>

lemma one_holder:
  assumes "threads_inv s" "i < length (q_at s)" "j < length (q_at s)" "holds (q_at s ! i)" "holds (q_at s ! j)"
  shows "i = j"
  using assms by (simp add: threads_inv_def mutex_inv_def)

text \<open>When all threads wait or are outside, nothing is left in the queue.\<close>

lemma no_lost_wake_up:
  assumes "threads_inv s" "q_at s ! i = Pop_Waiting k" "i < length (q_at s)" "q_items s \<noteq> []"
  shows "\<exists>p \<in> set (q_at s). busy p"
proof -
  have "0 < num waits s" using assms(2,3) by (intro num_pos[of i]) simp_all
  with assms(1,4) have "0 < num busy s" by (cases "q_items s") (auto simp: threads_inv_def)
  then show ?thesis by (auto simp: num_def filter_empty_conv)
qed

text \<open>Seen from outside, each move does nothing to the items, or it is one of the two steps that
  \<open>Queues\<close> takes for a whole method.\<close>

lemma move_is_atomic:
  assumes "queue_move i mv s = Some t" "threads_inv s"
  shows "(q_items t = q_items s \<and> q_taken t = q_taken s \<and> q_pushed t = q_pushed s) \<or>
    (\<exists>x. q_items t = queue_push x (q_items s) \<and> q_pushed t = q_pushed s @ [x] \<and> q_taken t = q_taken s) \<or>
    (\<exists>x. queue_take (q_items s) = Some (x, q_items t) \<and> q_taken t = q_taken s @ [x] \<and> q_pushed t = q_pushed s)"
proof -
  have i: "i < length (q_at s)" using assms(1) by (auto simp: queue_move_def split: if_splits)
  have f: "front_ok (q_items s) (q_at s ! i)" using assms(2) i by (simp add: threads_inv_def)
  consider a where "q_at s ! i = Leaving a" | "push_move i mv (q_at s ! i) s = Some t"
    | "pop_move i mv (q_at s ! i) s = Some t" | "count_move i mv (q_at s ! i) s = Some t"
    using assms(1) by (cases "q_at s ! i") (auto simp: queue_move_def i Let_def split: option.splits)
  then show ?thesis
  proof cases
    case 1
    with assms(1) show ?thesis by (auto simp: queue_move_def i queue_moves split: if_splits)
  next
    case 2
    then show ?thesis
      by (cases "(i, mv, q_at s ! i, s)" rule: push_move.cases)
        (auto simp: queue_moves queue_push_def split: if_splits point.splits)
  next
    case 3
    then show ?thesis
      using f by (cases "(i, mv, q_at s ! i, s)" rule: pop_move.cases)
        (auto simp: queue_moves split: if_splits pop_kind.splits list.splits)
  next
    case 4
    then show ?thesis
      by (cases "(i, mv, q_at s ! i, s)" rule: count_move.cases) (auto simp: queue_moves split: if_splits)
  qed
qed

subsection \<open>Runs\<close>

fun queue_run :: "(nat \<times> 'a move) list \<Rightarrow> 'a queue_threads \<Rightarrow> 'a queue_threads option" where
  "queue_run [] s = Some s"
| "queue_run ((i, mv) # ms) s = (case queue_move i mv s of None \<Rightarrow> None | Some t \<Rightarrow> queue_run ms t)"

lemma queue_reach_run: "queue_run ms s = Some t \<Longrightarrow> queue_reach n s \<Longrightarrow> queue_reach n t"
  by (induction ms s rule: queue_run.induct) (auto split: option.splits intro: queue_reach.move)

text \<open>A consumer waits, a producer pushes and wakes it.\<close>

lemma sample_hand_over:
  "\<exists>s. queue_run [(0, Call_Pop Pop_Block), (0, Go), (0, Go), (1, Call_Push (7::nat)), (1, Go), (1, Go), (1, Go), (1, Wake 0),
      (0, Go), (0, Go), (0, Go), (0, Go)] (queue_new 2) = Some s \<and> q_at s ! 0 = Leaving (Took 7) \<and> q_taken s = [7]"
  by (simp add: queue_new_def queue_move_def queue_moves numeral_2_eq_2)

end
