(* ===== verification/Asset_Freeze.thy ===== *)
theory Asset_Freeze
  imports Pending
begin

section \<open>strategy/asset\_freeze.h: the account-wide stop loss\<close>

text \<open>
  \<open>AssetFreeze\<close> polls the account (\<open>query_asset\<close>) and sells all bitcoin when what is at risk falls
  below a fraction of the configured asset (\<open>global_asset_freeze\<close>). \<open>main\<close> has it commented
  out. Its fields extend the world; \<open>signal\<close> of the world is the counter of this object. A
  round of the loop is \<open>freeze_round\<close>, the sale with its retries \<open>freeze_sell\<close>.
\<close>

record asset_freeze = world +
  standard_asset :: double
  level :: double
  freeze_trading_asset :: double
  freeze_freq :: int
  freeze_inner_sig :: nat
  worked :: bool
  freeze_btc :: double

type_synonym ('z, 'a) freeze = "('z asset_freeze_scheme, 'a) prog"

text \<open>The object as constructed: the four fields without an initialiser have any value.\<close>

definition freeze_init :: "double \<Rightarrow> double \<Rightarrow> double \<Rightarrow> int \<Rightarrow> world \<Rightarrow> asset_freeze" where
  "freeze_init sa l ta f w =
     \<lparr>sockets = sockets w, next_socket = next_socket w, wire = wire w, api = api w, trade = trade w,
      pipes = pipes w, account = account w, signal = 0, env = env w, logs = logs w,
      standard_asset = sa, level = l, freeze_trading_asset = ta, freeze_freq = f,
      freeze_inner_sig = 0, worked = False, freeze_btc = dzero\<rparr>"

definition set_global_security :: "double \<Rightarrow> double \<Rightarrow> ('z, unit) freeze" where
  "set_global_security s l = modify (\<lambda>w. w\<lparr>standard_asset := s, level := l\<rparr>)"

definition set_freq :: "int \<Rightarrow> ('z, unit) freeze" where
  "set_freq f = modify (\<lambda>w. w\<lparr>freeze_freq := f\<rparr>)"

definition is_worked :: "('z, bool) freeze" where
  "is_worked = gets worked"

definition freeze_reset :: "('z, unit) freeze" where
  "freeze_reset = modify (\<lambda>w. w\<lparr>worked := False\<rparr>)"

definition current_btc :: "('z, double) freeze" where
  "current_btc = gets freeze_btc"

definition current_trading_asset :: "('z, double) freeze" where
  "current_trading_asset = gets freeze_trading_asset"

definition freeze_stop :: "('z, unit) freeze" where
  "freeze_stop = modify (\<lambda>w. w\<lparr>signal := Suc (signal w)\<rparr>)"

subsection \<open>query\_asset\<close>

definition freeze_query_round :: "('z, unit) freeze" where
  "freeze_query_round =
     and_then ok_spotcny_userinfo (\<lambda>r.
       if r = 0 then ret ()
       else okbot_log Fatal ''send user info request failed. resend after 400ms'')"

fun freeze_query_asset :: "nat \<Rightarrow> ('z, bool) freeze" where
  "freeze_query_asset 0 = ret False"
| "freeze_query_asset (Suc n) =
     and_then (gets freeze_inner_sig) (\<lambda>sg.
       if sg \<noteq> 1 then and_then freeze_query_round (\<lambda>_. freeze_query_asset n) else ret True)"

subsection \<open>global\_asset\_freeze\<close>

text \<open>One attempt of the sale that the server confirmed.\<close>

definition freeze_done :: "('z, unit) freeze" where
  "freeze_done =
     and_then (set_status out_of_trading) (\<lambda>_.
     and_then (modify (\<lambda>w. w\<lparr>worked := True\<rparr>)) (\<lambda>_.
     and_then (okbot_log Warning ''trigger global asset freeze, sell all bitcoin with total asset {}'') (\<lambda>_.
       close_trade_ugly)))"

function freeze_sell :: "double \<Rightarrow> nat \<Rightarrow> ('z, unit) freeze" where
  "freeze_sell btc_free retry =
     (if retry < 500
      then and_then (sell_at_market btc_free) (\<lambda>r.
             if r = 0 then freeze_done
             else and_then (okbot_log Warning
                    ''sell btc by strategy AssetFreeze failed, after sleep 2ms retry: {} '')
                    (\<lambda>_. freeze_sell btc_free (Suc retry)))
      else ret ())"
  by pat_completeness auto
termination
  by (relation "measure (\<lambda>(b, retry). 500 - retry)") auto

declare freeze_sell.simps [simp del]

definition one_cent :: double where
  "one_cent = round_double False (1 / 100)"

definition freeze_target :: "'z asset_freeze_scheme \<Rightarrow> double" where
  "freeze_target w = dmul (standard_asset w) (dadd (double_of_int 1) (level w))"

text \<open>The branch with the three numbers read.\<close>

definition freeze_on_funds :: "double \<Rightarrow> double \<Rightarrow> double \<Rightarrow> ('z, unit) freeze" where
  "freeze_on_funds btc_free whole cny_free =
     (let res = dsub whole cny_free in
      and_then (modify (\<lambda>w. w\<lparr>freeze_trading_asset := res, freeze_btc := btc_free\<rparr>)) (\<lambda>_.
      and_then (gets freeze_target) (\<lambda>target.
      and_then get_status (\<lambda>st.
        if st = in_trading \<and> dlt res target \<and> dle one_cent btc_free
        then and_then (freeze_sell btc_free 1) (\<lambda>_.
               okbot_log Notice ''trade_asset={} total_asset={} profit={}% quit_asset={}'')
        else ret ()))))"

text \<open>The three reads are short-circuited: the first that fails ends the condition.\<close>

definition freeze_on_node :: "json \<Rightarrow> ('z, unit) freeze" where
  "freeze_on_node node =
     and_then (lift_result (get_value double_value_of node ''info.funds.free.btc'')) (\<lambda>b.
       case b of None \<Rightarrow> okbot_log Fatal ''parse free.btc failed: {}''
       | Some btc_free \<Rightarrow>
     and_then (lift_result (get_value double_value_of node ''info.funds.asset.total'')) (\<lambda>t.
       case t of None \<Rightarrow> okbot_log Fatal ''parse free.btc failed: {}''
       | Some whole \<Rightarrow>
     and_then (lift_result (get_value double_value_of node ''info.funds.free.cny'')) (\<lambda>c.
       case c of None \<Rightarrow> okbot_log Fatal ''parse free.btc failed: {}''
       | Some cny_free \<Rightarrow> freeze_on_funds btc_free whole cny_free)))"

definition freeze_round :: "('z, unit) freeze" where
  "freeze_round =
     and_then (pop_wait ''ok_spotcny_userinfo'') (\<lambda>doc.
     and_then (lift_result (get_data doc ''ok_spotcny_userinfo'')) (\<lambda>data_node.
       case data_node of
         None \<Rightarrow> okbot_log Fatal ''invalid mesg format {}''
       | Some node \<Rightarrow> freeze_on_node node))"

fun global_asset_freeze :: "nat \<Rightarrow> ('z, bool) freeze" where
  "global_asset_freeze 0 = ret False"
| "global_asset_freeze (Suc n) =
     and_then (gets signal) (\<lambda>sg.
       if sg \<noteq> 1 then and_then freeze_round (\<lambda>_. global_asset_freeze n)
       else and_then (modify (\<lambda>w. w\<lparr>freeze_inner_sig := Suc (freeze_inner_sig w)\<rparr>)) (\<lambda>_. ret True))"

end
