(* ===== verification/Freeze_Facts.thy ===== *)
theory Freeze_Facts
  imports Asset_Freeze
begin

section \<open>What the account-wide stop loss promises\<close>

text \<open>
  A round sends orders only in trading, at most 499, all the market sale of the free bitcoin it
  read; the freeze is marked only after a sale that the server confirmed, and then the account
  is out of trading and no request leaves through the socket of \<open>Trade\<close>. The loop ends.
\<close>

lemma freeze_fields:
  assumes "world.more w' = world.more w"
  shows "standard_asset w' = standard_asset w" "level w' = level w"
    "freeze_trading_asset w' = freeze_trading_asset w" "freeze_inner_sig w' = freeze_inner_sig w"
    "worked w' = worked w" "freeze_btc w' = freeze_btc w"
  using assms by (cases w; cases w'; simp)+

lemma evolves_freeze:
  assumes "evolves w w'"
  shows "worked w' = worked w" "account w' = account w" "signal w \<le> signal w'"
    "standard_asset w' = standard_asset w" "level w' = level w"
  using assms freeze_fields[of w' w] by (simp_all add: evolves_def)

subsection \<open>Orders\<close>

lemma order_close [order_intros]: "keeps same_orders close_trade_ugly"
  unfolding close_trade_ugly_def by (intro order_intros)

lemma order_freeze_done [order_intros]: "keeps same_orders freeze_done"
proof -
  have "keeps same_orders (set_status st)" "keeps same_orders (modify (\<lambda>w. w\<lparr>worked := True\<rparr>))" for st
    by (simp_all add: keeps_def set_status_def modify_def same_orders_def orders_def)
  then show ?thesis unfolding freeze_done_def by (intro order_intros)
qed

text \<open>One order per attempt, and attempts are counted up to 499.\<close>

lemma freeze_sell_sends:
  "sends (order_frames ''sell_market'' [] (double_to_string b)) (500 - retry)
     (freeze_sell b retry :: ('z, unit) freeze)"
proof (induction "500 - retry" arbitrary: retry)
  case 0
  then show ?case by (subst freeze_sell.simps) simp
next
  case (Suc n)
  let ?Q = "order_frames ''sell_market'' [] (double_to_string b)"
  have n: "n = 500 - Suc retry" "500 - retry = 1 + n" using Suc.hyps(2) by simp_all
  have "sends ?Q n (freeze_sell b (Suc retry) :: ('z, unit) freeze)" using Suc.hyps(1)[OF n(1)] n(1) by simp
  then have "sends ?Q (1 + n) (and_then (sell_at_market b) (\<lambda>r.
      if r = 0 then freeze_done
      else and_then (okbot_log Warning
             ''sell btc by strategy AssetFreeze failed, after sleep 2ms retry: {} '')
             (\<lambda>_. freeze_sell b (Suc retry))) :: ('z, unit) freeze)"
    by (intro sends_and_then sends_orders sends_if sends_same[OF order_freeze_done]
        sends_second[OF order_prims(1)])
  then show ?case using n(2) by (subst freeze_sell.simps) simp
qed

text \<open>The sale that a document asks for: the three numbers are read, the account is in trading, what is
  at risk is below the target, and there is at least a cent of free bitcoin, all of which is sold.\<close>

definition sale_asked :: "'z asset_freeze_scheme \<Rightarrow> double \<Rightarrow> double \<Rightarrow> double \<Rightarrow> bool" where
  "sale_asked w btc_free whole cny_free \<longleftrightarrow>
     status (account w) = in_trading \<and> dle one_cent btc_free \<and>
     dlt (dsub whole cny_free) (dmul (standard_asset w) (dadd (double_of_int 1) (level w)))"

definition funds_in :: "json \<Rightarrow> double \<Rightarrow> double \<Rightarrow> double \<Rightarrow> bool" where
  "funds_in doc btc_free whole cny_free \<longleftrightarrow>
     (\<exists>node. get_data doc ''ok_spotcny_userinfo'' = Inr (Some node) \<and>
        get_value double_value_of node ''info.funds.free.btc'' = Inr (Some btc_free) \<and>
        get_value double_value_of node ''info.funds.asset.total'' = Inr (Some whole) \<and>
        get_value double_value_of node ''info.funds.free.cny'' = Inr (Some cny_free))"

lemma freeze_on_funds_sells:
  "if sale_asked w b t c
   then sent_by (order_frames ''sell_market'' [] (double_to_string b)) 499 w (snd (freeze_on_funds b t c w))
   else orders (snd (freeze_on_funds b t c w)) = orders w"
proof -
  let ?w = "w\<lparr>freeze_trading_asset := dsub t c, freeze_btc := b\<rparr>"
  have asked: "sale_asked w b t c \<longleftrightarrow> status (account w) = in_trading \<and> dlt (dsub t c) (freeze_target ?w) \<and> dle one_cent b"
    by (auto simp: sale_asked_def freeze_target_def)
  show ?thesis
  proof (cases "sale_asked w b t c")
    case True
    let ?m = "and_then (freeze_sell b 1) (\<lambda>_.
               okbot_log Notice ''trade_asset={} total_asset={} profit={}% quit_asset={}'')"
    have "sends (order_frames ''sell_market'' [] (double_to_string b)) (500 - 1) ?m"
      by (intro sends_first freeze_sell_sends order_prims)
    from sends_sent_by[OF this, of ?w] True asked show ?thesis
      by (simp add: freeze_on_funds_def Let_def and_then_gets and_then_def[of "modify _"] modify_def get_status_def
          account_get_status_def sent_by_def orders_def)
  next
    case False
    then show ?thesis
      using asked by (auto simp: freeze_on_funds_def Let_def prog_defs get_status_def account_get_status_def orders_def)
  qed
qed

lemma freeze_on_node_sells:
  assumes "get_data doc ''ok_spotcny_userinfo'' = Inr (Some node)"
  shows "orders (snd (freeze_on_node node w)) = orders w \<or>
    (\<exists>b t c. funds_in doc b t c \<and> sale_asked w b t c \<and>
       sent_by (order_frames ''sell_market'' [] (double_to_string b)) 499 w (snd (freeze_on_node node w)))"
proof (cases "\<exists>b t c. funds_in doc b t c")
  case True
  then obtain b t c where f: "funds_in doc b t c" by blast
  with assms have "freeze_on_node node w = freeze_on_funds b t c w"
    by (auto simp: funds_in_def freeze_on_node_def prog_defs)
  with freeze_on_funds_sells[of w b t c] f show ?thesis by (metis (full_types))
next
  case False
  have "orders (snd (freeze_on_node node w)) = orders w"
    using False assms
    by (auto simp: funds_in_def freeze_on_node_def prog_defs okbot_log_def orders_def split: sum.split option.split)
  then show ?thesis ..
qed

text \<open>The document that a round takes, and the orders of the round.\<close>

lemma freeze_round_sells:
  "orders (snd (freeze_round w)) = orders w \<or>
   (\<exists>doc w1 b t c. pop_wait ''ok_spotcny_userinfo'' w = (Inr doc, w1) \<and> funds_in doc b t c \<and> sale_asked w b t c \<and>
      sent_by (order_frames ''sell_market'' [] (double_to_string b)) 499 w (snd (freeze_round w)))"
proof -
  obtain r w1 where pop: "pop_wait ''ok_spotcny_userinfo'' w = (r, w1)" by fastforce
  have same: "orders w1 = orders w"
    using order_pops(1)[of "''ok_spotcny_userinfo''"] pop unfolding keeps_def same_orders_def
    by (metis snd_conv)
  have "evolves w w1"
    using evolves_pops(1)[of "''ok_spotcny_userinfo''"] pop unfolding keeps_def by (metis snd_conv)
  then have ask: "sale_asked w1 = sale_asked w" by (simp add: fun_eq_iff sale_asked_def evolves_freeze)
  show ?thesis
  proof (cases "\<exists>doc node. r = Inr doc \<and> get_data doc ''ok_spotcny_userinfo'' = Inr (Some node)")
    case True
    then obtain doc node where d: "r = Inr doc" "get_data doc ''ok_spotcny_userinfo'' = Inr (Some node)" by blast
    then have eq: "freeze_round w = freeze_on_node node w1" using pop by (simp add: freeze_round_def prog_defs)
    show ?thesis
      using freeze_on_node_sells[OF d(2), of w1] pop d(1) same
      unfolding eq ask by (auto intro: sent_by_trans_same)
  next
    case False
    then have "orders (snd (freeze_round w)) = orders w"
      using pop same by (auto simp: freeze_round_def prog_defs okbot_log_def orders_def split: sum.split option.split)
    then show ?thesis ..
  qed
qed

subsection \<open>Marked only when confirmed\<close>

text \<open>The freeze is marked during a sale only if the server confirmed an order.\<close>

lemma freeze_sell_confirmed:
  assumes "worked (snd (freeze_sell b retry w))" "\<not> worked w"
  shows "\<exists>d. confirms ''ok_spotcny_trade'' d \<and> d \<in> avail ''ok_spotcny_trade'' w"
  using assms
proof (induction "500 - retry" arbitrary: retry w)
  case 0
  then have "\<not> retry < 500" by simp
  with "0.prems" show ?case by (subst (asm) freeze_sell.simps) (simp add: ret_def)
next
  case (Suc n)
  obtain r w1 where s: "sell_at_market b w = (r, w1)" by fastforce
  have w1: "\<not> worked w1" "avail ''ok_spotcny_trade'' w1 \<subseteq> avail ''ok_spotcny_trade'' w"
    using keepsD[OF orders_evolve(4), of w b] evolves_freeze(1) keepsD[OF avl.orders_R(4), of w b] s Suc.prems(2)
    by (auto simp: no_new_docs_def)
  consider (failed) e where "r = Inl e" | (sold) "r = Inr 0" | (again) i where "r = Inr i" "i \<noteq> 0"
    by (cases r) auto
  then show ?case
  proof cases
    case failed
    with s w1 Suc.prems show ?thesis
      by (subst (asm) freeze_sell.simps) (simp add: and_then_def ret_def split: if_splits)
  next
    case sold
    with orders_confirmed[of undefined b w w1] s show ?thesis by (auto simp: avail_def)
  next
    case again
    let ?w2 = "w1\<lparr>logs := logs w1 @ [(Warning, ''sell btc by strategy AssetFreeze failed, after sleep 2ms retry: {} '')]\<rparr>"
    have "n = 500 - Suc retry" "retry < 500" using Suc.hyps(2) by simp_all
    moreover have "freeze_sell b retry w = freeze_sell b (Suc retry) ?w2"
      using s again \<open>retry < 500\<close>
      by (subst freeze_sell.simps) (simp add: and_then_def okbot_log_def modify_def)
    ultimately obtain d where "confirms ''ok_spotcny_trade'' d" "d \<in> avail ''ok_spotcny_trade'' ?w2"
      using Suc.hyps(1)[of "Suc retry" ?w2] Suc.prems(1) w1(1) by auto
    with w1(2) show ?thesis by (auto simp: avail_def)
  qed
qed

lemma freeze_on_funds_confirmed:
  assumes "worked (snd (freeze_on_funds b t c w))" "\<not> worked w"
  shows "\<exists>d. confirms ''ok_spotcny_trade'' d \<and> d \<in> avail ''ok_spotcny_trade'' w"
proof -
  let ?w = "w\<lparr>freeze_trading_asset := dsub t c, freeze_btc := b\<rparr>"
  have "worked (snd (freeze_sell b 1 ?w))"
    using assms by (cases "freeze_sell b 1 ?w"; cases "fst (freeze_sell b 1 ?w)")
      (auto simp: freeze_on_funds_def Let_def prog_defs get_status_def okbot_log_def split: if_splits)
  from freeze_sell_confirmed[OF this] assms(2) show ?thesis by (simp add: avail_def)
qed

lemma freeze_on_node_confirmed:
  assumes "worked (snd (freeze_on_node node w))" "\<not> worked w"
  shows "\<exists>d. confirms ''ok_spotcny_trade'' d \<and> d \<in> avail ''ok_spotcny_trade'' w"
  using assms freeze_on_funds_confirmed[of _ _ _ w]
  by (simp add: freeze_on_node_def prog_defs okbot_log_def split: sum.splits option.splits)

lemma freeze_round_confirmed:
  assumes "worked (snd (freeze_round w))" "\<not> worked w"
  shows "\<exists>d. confirms ''ok_spotcny_trade'' d \<and> d \<in> avail ''ok_spotcny_trade'' w"
proof -
  let ?c = "''ok_spotcny_userinfo''"
  obtain r w1 where pop: "pop_wait ?c w = (r, w1)" by fastforce
  have w1: "\<not> worked w1" "avail ''ok_spotcny_trade'' w1 \<subseteq> avail ''ok_spotcny_trade'' w"
    using keepsD[OF evolves_pops(1), of w ?c] evolves_freeze(1) keepsD[OF avl.keeps_pops(1), of w ?c] pop assms(2)
    by (auto simp: no_new_docs_def)
  from assms(1) pop w1(1) obtain node where "worked (snd (freeze_on_node node w1))"
    by (auto simp: freeze_round_def prog_defs okbot_log_def split: sum.splits option.splits)
  from freeze_on_node_confirmed[OF this w1(1)] w1(2) show ?thesis by blast
qed

subsection \<open>A freeze is final\<close>

text \<open>After the sale the socket of \<open>Trade\<close> is null or invalid: no request is sent any more.\<close>

definition trade_mute :: "'z world_scheme \<Rightarrow> bool" where
  "trade_mute w \<longleftrightarrow>
     (\<forall>a. trade_s (trade w) = Some a \<longrightarrow> (\<exists>ws. sockets w a = Some ws \<and> \<not> is_valid ws))"

lemma trade_mute_silent:
  assumes "trade_mute w"
  shows "try_emit c p m w = (Inr 0, w)"
  using assms unfolding trade_mute_def
  by (cases "trade_s (trade w)") (auto simp: try_emit_null try_emit_invalid)

lemma with_socket_doclose:
  "sockets w a = Some ws \<Longrightarrow>
     with_socket a ws_doclose w =
       (if endpoint_open ws then Inr () else Inl Net_Exception,
        w\<lparr>sockets := (sockets w)(a \<mapsto> ws\<lparr>is_valid := False, m_manual_close := True,
             endpoint := (if endpoint_open ws then Ep_Closed else endpoint ws)\<rparr>)\<rparr>)"
  by (simp add: with_socket_def ws_doclose_result)

lemma close_trade_ugly_result:
  assumes "trade_s (trade w) = Some a" "sockets w a = Some ws"
  shows "close_trade_ugly w =
     (if \<not> is_valid ws then (Inr (), w)
      else let w1 = snd (with_socket a ws_doclose w)
           in if endpoint_open ws then (Inr (), w1\<lparr>trade := (trade w1)\<lparr>trade_s := None\<rparr>\<rparr>)
              else (Inl Net_Exception, w1))"
  using assms
  by (simp add: close_trade_ugly_def if_valid_def and_then_def gets_def[of "trade_s \<circ> trade"] ret_def
      with_socket_gets with_socket_doclose trade_set_websocket_def modify_def)

lemma close_trade_ugly_mutes:
  assumes "close_trade_ugly w = (Inr (), w')"
  shows "trade_mute w'"
proof (cases "trade_s (trade w)")
  case None
  then have "w' = w" using assms by (simp add: close_trade_ugly_def if_valid_def prog_defs)
  with None show ?thesis by (simp add: trade_mute_def)
next
  case (Some a)
  show ?thesis
  proof (cases "sockets w a")
    case None
    with Some assms show ?thesis
      by (simp add: close_trade_ugly_def if_valid_def prog_defs with_socket_def)
  next
    case s: (Some ws)
    with Some assms show ?thesis
      by (auto simp: close_trade_ugly_result Let_def trade_mute_def split: if_splits)
  qed
qed

lemma freeze_done_effects:
  assumes "freeze_done w = (Inr (), w')"
  shows "worked w'" "status (account w') = out_of_trading" "trade_mute w'"
proof -
  obtain w1 where c: "close_trade_ugly w1 = (Inr (), w')" and w1: "worked w1" "status (account w1) = out_of_trading"
    using assms by (auto simp: freeze_done_def and_then_def set_status_def modify_def okbot_log_def account_set_status_def)
  show "trade_mute w'" by (rule close_trade_ugly_mutes[OF c])
  have "evolves w1 w'" using keepsD[OF orders_evolve(5), of w1] c by simp
  from evolves_freeze[OF this] w1 show "worked w'" "status (account w') = out_of_trading" by simp_all
qed

text \<open>The socket that was closed ends its session as closed by hand: the connection thread returns
  and is not there to build another socket.\<close>

lemma close_ends_connection:
  assumes "trade_s (trade w) = Some a" "pWebsocket (api w) = Some a" "sockets w a = Some ws"
    "is_valid ws" "endpoint_open ws"
  shows "close_trade_ugly w = (Inr (), snd (close_trade_ugly w))"
    and "\<not> hThread (api (snd (deliver Lost (snd (close_trade_ugly w)))))"
proof -
  let ?ws = "ws\<lparr>is_valid := False, m_manual_close := True, endpoint := Ep_Closed\<rparr>"
  let ?w1 = "w\<lparr>sockets := (sockets w)(a \<mapsto> ?ws), trade := (trade w)\<lparr>trade_s := None\<rparr>\<rparr>"
  have c: "close_trade_ugly w = (Inr (), ?w1)"
    using assms by (simp add: close_trade_ugly_result Let_def with_socket_doclose)
  then show "close_trade_ugly w = (Inr (), snd (close_trade_ugly w))" by simp
  show "\<not> hThread (api (snd (deliver Lost (snd (close_trade_ugly w)))))"
    using assms unfolding c
    by (simp add: session_end_def prog_defs with_socket_def
        ws_on_close_def ws_update_def cn_callbak_close_def delete_socket_def set_pWebsocket_def
        okbot_log_def set_hThread_def)
qed

text \<open>So it stays, whatever happens afterwards: nothing is sent any more, and there is no new session.\<close>

definition cut_off :: "'z world_scheme \<Rightarrow> bool" where
  "cut_off w \<longleftrightarrow> trade_s (trade w) = None \<and>
     (case pWebsocket (api w) of
        None \<Rightarrow> \<not> hThread (api w)
      | Some a \<Rightarrow> \<exists>ws. sockets w a = Some ws \<and> m_manual_close ws \<and> endpoint ws = Ep_Closed)"

lemma cut_off_deliver:
  assumes "cut_off w"
  shows "cut_off (snd (deliver e w)) \<and> wire (snd (deliver e w)) = wire w"
proof (cases "pWebsocket (api w)")
  case None
  then show ?thesis
    using assms
    by (cases e) (simp_all add: cut_off_def on_endpoint_def if_socket_def session_end_def prog_defs Close_def)
next
  case (Some a)
  then obtain ws where ws: "sockets w a = Some ws" "m_manual_close ws" "endpoint ws = Ep_Closed" "trade_s (trade w) = None"
    using assms by (auto simp: cut_off_def)
  show ?thesis
  proof (cases e)
    case Lost
    with Some ws show ?thesis
      by (simp add: cut_off_def session_end_def prog_defs with_socket_def ws_on_close_def ws_update_def cn_callbak_close_def
          delete_socket_def set_pWebsocket_def okbot_log_def set_hThread_def)
  qed (use Some ws in \<open>simp_all add: cut_off_def on_endpoint_def if_socket_def prog_defs Close_def with_socket_def
        ws_doclose_result\<close>)
qed

definition after_events :: "event list \<Rightarrow> 'z world_scheme \<Rightarrow> 'z world_scheme" where
  "after_events es w = fold (\<lambda>e w. snd (deliver e w)) es w"

lemma cut_off_events: "cut_off w \<Longrightarrow> cut_off (after_events es w) \<and> wire (after_events es w) = wire w"
  unfolding after_events_def
proof (induction es arbitrary: w)
  case (Cons e es)
  with Cons.IH[of "snd (deliver e w)"] cut_off_deliver[OF Cons.prems, of e] show ?case by simp
qed simp

lemma cut_off_silent: "cut_off w \<Longrightarrow> try_emit c p m w = (Inr 0, w)"
  by (rule trade_mute_silent) (simp add: cut_off_def trade_mute_def)

lemma freeze_done_cuts_off:
  assumes "freeze_done w = (Inr (), w')" "trade_s (trade w) = Some a" "pWebsocket (api w) = Some a" "sockets w a = Some ws"
    "is_valid ws"
  shows "cut_off w'" "wire w' = wire w"
proof -
  let ?w = "w\<lparr>account := account_set_status out_of_trading (account w), worked := True,
    logs := logs w @ [(Warning, ''trigger global asset freeze, sell all bitcoin with total asset {}'')]\<rparr>"
  have c: "close_trade_ugly ?w = (Inr (), w')"
    using assms(1) by (simp add: freeze_done_def and_then_def set_status_def modify_def okbot_log_def)
  show "cut_off w'" "wire w' = wire w"
    using c assms close_trade_ugly_result[of ?w a ws]
    by (auto simp: Let_def with_socket_doclose cut_off_def split: if_splits)
qed

lemma events_keep_freeze:
  "evolves w (after_events es w)"
  unfolding after_events_def
proof (induction es arbitrary: w)
  case (Cons e es)
  have "evolves w (snd (deliver e w))" by (rule keepsD[OF evolves_deliver])
  with Cons[of "snd (deliver e w)"] show ?case by (auto intro: evo.trans_R)
qed (simp add: evo.refl_R)

subsection \<open>The loop ends\<close>

locale freeze_kept = comm_kept R
  for R :: "'z asset_freeze_scheme \<Rightarrow> 'z asset_freeze_scheme \<Rightarrow> bool"
begin

lemma freeze_done_R: "keeps R freeze_done"
  unfolding freeze_done_def by (intro comm_intros sets_R) simp

lemma freeze_sell_R: "keeps R (freeze_sell b retry)"
proof (induction "500 - retry" arbitrary: retry)
  case 0
  then show ?case by (subst freeze_sell.simps) (simp add: keeps_ret)
next
  case (Suc n)
  have "n = 500 - Suc retry" using Suc.hyps(2) by simp
  from Suc.hyps(1)[OF this] show ?case
    by (subst freeze_sell.simps) (intro comm_intros freeze_done_R)
qed

lemma freeze_on_node_R: "keeps R (freeze_on_node node)"
  unfolding freeze_on_node_def freeze_on_funds_def Let_def
  by (intro comm_intros freeze_sell_R sets_R) simp

end

interpretation fdrain: freeze_kept "drains name" for name ..

lemma freeze_round_pending:
  "freeze_round w = (Inr (), w') \<Longrightarrow> pending ''ok_spotcny_userinfo'' w' < pending ''ok_spotcny_userinfo'' w"
  unfolding freeze_round_def
  by (erule round_pending[rotated]) (intro drain.comm_intros fdrain.freeze_on_node_R)

lemma global_asset_freeze_ends:
  "pending ''ok_spotcny_userinfo'' w < n \<Longrightarrow> fst (global_asset_freeze n w) \<noteq> Inr False"
proof (induction n arbitrary: w)
  case (Suc n)
  show ?case
  proof (cases "signal w = 1")
    case False
    then have eq: "global_asset_freeze (Suc n) w = and_then freeze_round (\<lambda>_. global_asset_freeze n) w"
      by (simp add: prog_defs)
    show ?thesis
    proof (cases rule: and_then_cases[of freeze_round w "\<lambda>_. global_asset_freeze n"])
      case (failed e s')
      then show ?thesis unfolding eq by simp
    next
      case (returned x s')
      then have "pending ''ok_spotcny_userinfo'' s' < n"
        using freeze_round_pending[of w s'] Suc.prems by simp
      with returned Suc.IH show ?thesis unfolding eq by simp
    qed
  qed (simp add: prog_defs)
qed simp

end
