(* ===== verification/Sample_Freeze.thy ===== *)
theory Sample_Freeze
  imports Freeze_Facts Sample_Runs
begin

section \<open>A sample run of the account-wide stop loss\<close>

text \<open>
  An account with one bitcoin whose assets fell from 100 to 50, with the answer to the poll and
  the confirmation of the sale already in their queues: one round sells, and marks the freeze.
\<close>

definition sample_funds :: json where
  "sample_funds = JObject [(''info'', JObject [(''funds'', JObject
     [(''free'', JObject [(''btc'', JDouble (Finite False 1)), (''cny'', JDouble dzero)]),
      (''asset'', JObject [(''total'', JDouble (Finite False 50))])])])]"

definition sample_userinfo :: json where
  "sample_userinfo = JArray [JObject [(''channel'', JString ''ok_spotcny_userinfo''), (''data'', sample_funds)]]"

definition frozen_bot :: asset_freeze where
  "frozen_bot = (freeze_init (Finite False 100) dzero dzero 500 idle_bot)\<lparr>
     pipes := pipeline_push ''ok_spotcny_userinfo'' sample_userinfo
               (pipeline_push ''ok_spotcny_trade'' sample_reply pipeline_init),
     account := account_set_status in_trading account_init\<rparr>"

lemmas double_eval =
  double_of_int_def round_double_def make_double_def round_magnitude_def quantum_def ilog2_def bit_length.simps
  pow2_def round_even_def Let_def max_magnitude_def double_value_def

lemma sample_numbers:
  "dsub (Finite False 50) dzero = Finite False 50" "dle one_cent (Finite False 1)"
  "dmul (Finite False 100) (dadd (double_of_int 1) dzero) = Finite False 100"
  by (simp_all add: dsub_def dzero_def one_cent_def double_eval)

lemma sample_member:
  "plain_name a \<Longrightarrow> backslash \<notin> set a \<Longrightarrow> get_node v (a) = Inr (navigate v [Member a])"
  using get_node_navigate[of "[Member a]" v] by simp

lemma sample_read:
  assumes "plain_name a" "backslash \<notin> set a" "plain_name b" "backslash \<notin> set b"
  shows "get_node sample_funds (''info.funds.'' @ a @ CHR ''.'' # b) =
     Inr (navigate sample_funds [Member ''info'', Member ''funds'', Member a, Member b])"
  using get_node_navigate[of "[Member ''info'', Member ''funds'', Member a, Member b]" sample_funds] assms
  by (simp add: plain_name_def)

lemma sample_reads:
  "get_value double_value_of sample_funds ''info.funds.free.btc'' = Inr (Some (Finite False 1))"
  "get_value double_value_of sample_funds ''info.funds.asset.total'' = Inr (Some (Finite False 50))"
  "get_value double_value_of sample_funds ''info.funds.free.cny'' = Inr (Some dzero)"
  using sample_read[of "''free''" "''btc''"] sample_read[of "''asset''" "''total''"]
    sample_read[of "''free''" "''cny''"]
  by (simp_all add: get_value_def plain_name_def sample_funds_def find_member_def)

lemma sample_data: "get_data sample_userinfo ''ok_spotcny_userinfo'' = Inr (Some sample_funds)"
  by (simp add: sample_userinfo_def get_value_def sample_member plain_name_def find_member_def)

text \<open>A pop that finds its document in the queue.\<close>

lemma pop_ready:
  assumes "channel_items (pipes w) c = d # ds"
  shows "\<exists>p. pop_wait c w = (Inr d, w\<lparr>pipes := p\<rparr>) \<and> pop_timed c w = (Inr (Some d), w\<lparr>pipes := p\<rparr>) \<and>
           (\<forall>c'. c' \<noteq> c \<longrightarrow> channel_items p c' = channel_items (pipes w) c')"
proof -
  have "take_item c w = (Inr (Some d), w\<lparr>pipes := (snd (get_queue c (pipes w)))(c \<mapsto> ds)\<rparr>)"
    using assms by (simp add: take_item_result)
  then show ?thesis
    by (cases "env w") (auto simp: pop_wait_def pop_timed_def prog_defs get_queue_items)
qed

text \<open>The sale.\<close>

lemma replied_sale:
  assumes "channel_items (pipes w) ''ok_spotcny_trade'' = [sample_reply]" "trade_s (trade w) = None"
  shows "\<exists>p. sell_at_market (Finite False 1) w = (Inr 0, w\<lparr>pipes := p\<rparr>)"
proof -
  obtain p where "pop_timed ''ok_spotcny_trade'' w = (Inr (Some sample_reply), w\<lparr>pipes := p\<rparr>)"
    using pop_ready[OF assms(1)] by blast
  then have "sell_at_market (Finite False 1) w = (Inr 0, w\<lparr>pipes := p\<rparr>)"
    using assms(2) try_emit_null[of w]
    by (simp add: sell_at_market_def place_order_def ok_spotcny_trade_def dzero_def double_value_def
        CHECK_AND_RETURN_def prog_defs sample_reply_def sample_elem_confirms)
  then show ?thesis by (rule exI[of _ p])
qed

lemma replied_freeze:
  assumes "channel_items (pipes w) ''ok_spotcny_trade'' = [sample_reply]" "trade_s (trade w) = None"
  shows "worked (snd (freeze_sell (Finite False 1) 1 w))"
proof -
  obtain p where "sell_at_market (Finite False 1) w = (Inr 0, w\<lparr>pipes := p\<rparr>)"
    using replied_sale[OF assms] by blast
  then show ?thesis
    using assms(2)
    by (subst freeze_sell.simps) (simp add: and_then_def freeze_done_def set_status_def okbot_log_def
        modify_def close_trade_ugly_def if_valid_def gets_def ret_def)
qed

lemma worked_logged: "worked (snd (and_then m (\<lambda>_. okbot_log l s) w)) = worked (snd (m w))"
  by (simp add: prog_defs okbot_log_def split: prod.split sum.split)

lemma frozen_bot_marks: "worked (snd (freeze_round frozen_bot))" "\<not> worked frozen_bot"
proof -
  show "\<not> worked frozen_bot" by (simp add: frozen_bot_def freeze_init_def)
  have items: "channel_items (pipes frozen_bot) ''ok_spotcny_userinfo'' = [sample_userinfo]"
    "channel_items (pipes frozen_bot) ''ok_spotcny_trade'' = [sample_reply]"
    and null: "trade_s (trade frozen_bot) = None"
    and st: "status (account frozen_bot) = in_trading" "standard_asset frozen_bot = Finite False 100"
      "level frozen_bot = dzero"
    by (simp_all add: frozen_bot_def freeze_init_def idle_bot_def account_set_status_def)
  obtain p where pop: "pop_wait ''ok_spotcny_userinfo'' frozen_bot = (Inr sample_userinfo, frozen_bot\<lparr>pipes := p\<rparr>)"
    and p: "channel_items p ''ok_spotcny_trade'' = [sample_reply]"
    using pop_ready[OF items(1)] items(2) by auto
  let ?w = "frozen_bot\<lparr>pipes := p, freeze_trading_asset := Finite False 50, freeze_btc := Finite False 1\<rparr>"
  have "worked (snd (freeze_sell (Finite False 1) 1 ?w))"
    using p null by (intro replied_freeze) simp_all
  then show "worked (snd (freeze_round frozen_bot))"
    using st
    by (simp add: freeze_round_def and_then_def[of "pop_wait _"] pop sample_data lift_result_def
        and_then_def[of "lift_result _"] freeze_on_node_def sample_reads freeze_on_funds_def Let_def
        sample_numbers freeze_target_def and_then_gets and_then_def[of "modify _"] modify_def
        get_status_def account_get_status_def double_value_def worked_logged)
qed

text \<open>The same account on an open connection.\<close>

definition open_bot :: asset_freeze where
  "open_bot = frozen_bot\<lparr>sockets := [0 \<mapsto> ws_new\<lparr>endpoint := Ep_Open\<rparr>],
     api := (api idle_bot)\<lparr>pWebsocket := Some 0, hThread := True\<rparr>, trade := (trade idle_bot)\<lparr>trade_s := Some 0\<rparr>\<rparr>"

lemma open_bot_freezes:
  "freeze_done open_bot = (Inr (), snd (freeze_done open_bot))"
  "trade_s (trade open_bot) = Some 0" "pWebsocket (api open_bot) = Some 0"
  "sockets open_bot 0 = Some (ws_new\<lparr>endpoint := Ep_Open\<rparr>)" "is_valid (ws_new\<lparr>endpoint := Ep_Open\<rparr>)"
  by (simp_all add: open_bot_def ws_new_def freeze_done_def and_then_def set_status_def modify_def okbot_log_def
      close_trade_ugly_def if_valid_def gets_def ret_def with_socket_def ws_doclose_result
      trade_set_websocket_def)

end
