(* ===== verification/Okbot_Main.thy ===== *)
theory Okbot_Main
  imports Waiting Connection_Thread
begin

section \<open>okbot.cpp: main\<close>

text \<open>
  \<open>main\<close> builds the API object, starts the connection thread and the strategy, reads numbers from
  the standard input until one of them (or the end of the input) ends the menu, stops the strategy,
  joins its threads, closes the connection and deletes the API object. \<open>okbot_step\<close> interleaves the
  main thread with the three threads of the strategy and the events of the environment; a round is
  one step. The keys are literals of the source that every user edits: they are arguments here.
\<close>

subsection \<open>From the start to the menu\<close>

text \<open>Up to \<open>cnapi->Run()\<close>; \<open>log_ok\<close> is what \<open>log.init\<close> returned.\<close>

definition main_connect :: "bool \<Rightarrow> string \<Rightarrow> string \<Rightarrow> ('z, int) bot" where
  "main_connect log_ok cn_apiKey cn_secretKey =
     (if \<not> log_ok then ret (- 1)
      else
        and_then (okbot_log Notice ''log init success.'') (\<lambda>_.
        and_then (okbot_log Notice ''okbot started.'') (\<lambda>_.
        and_then (modify (\<lambda>w. w\<lparr>api := api_cn cn_apiKey cn_secretKey\<rparr>)) (\<lambda>_.
        and_then (gets (pWebsocket \<circ> api)) (\<lambda>p.
        and_then (modify (\<lambda>w. w\<lparr>trade := \<lparr>trade_s = p, m_api_key = cn_apiKey, m_secret_key = cn_secretKey\<rparr>\<rparr>)) (\<lambda>_.
        and_then (modify (\<lambda>w. w\<lparr>api := SetCallBackMessage True (SetCallBackClose True (SetCallBackOpen True (api w)))\<rparr>)) (\<lambda>_.
        and_then Run (\<lambda>_. ret 0))))))))"

definition play_amount :: double where
  "play_amount = double_of_int 100"

definition main_security :: double where
  "main_security = round_double False (- 6 / 100)"

text \<open>The local \<open>roc_strategy\<close> and its two setters, before \<open>run\<close> starts the threads.\<close>

definition main_strategy :: "double list \<Rightarrow> int \<Rightarrow> world \<Rightarrow> strategy" where
  "main_strategy slots f w =
     snd (and_then (set_interval 500) (\<lambda>_. set_asset_and_security play_amount main_security)
            (roc_init slots f w))"

subsection \<open>The menu\<close>

text \<open>One number: whether the loop is left. \<open>case 3\<close> falls through to \<open>case 0\<close>.\<close>

definition menu_input :: "int \<Rightarrow> ('z, bool) bot" where
  "menu_input i =
     (if i = 3 then and_then remove_ok_spotcny_btc_ticker (\<lambda>_. ret True)
      else ret (i = 0))"

fun menu :: "int list \<Rightarrow> ('z, int list) bot" where
  "menu [] = ret []"
| "menu (i # rest) = and_then (menu_input i) (\<lambda>leave. if leave then ret rest else menu rest)"

subsection \<open>The shutdown\<close>

text \<open>\<open>OKCoinWebSocketApi::Close\<close> with its \<open>hThread.join()\<close>: the closing of the connection reaches
  the thread as \<open>Lost\<close>, and it returns.\<close>

definition close_and_join :: "('z, unit) bot" where
  "close_and_join =
     if_socket (\<lambda>a. and_then (with_socket a ws_doclose) (\<lambda>_. deliver Lost))"

text \<open>The destructor: \<open>Close\<close> again, and then the destructor of the member \<open>hThread\<close>.\<close>

definition delete_api :: "('z, unit) bot" where
  "delete_api =
     and_then close_and_join (\<lambda>_.
     and_then (gets (hThread \<circ> api)) (\<lambda>joinable. if joinable then raise Terminate else ret ()))"

text \<open>\<open>roc_strategy.stop()\<close> and the first line of \<open>join\<close>; then what follows the three joins.\<close>

definition main_stop :: "('z, unit) strat" where
  "main_stop = and_then stop (\<lambda>_. okbot_log Notice ''start join roc strategy.'')"

definition main_close :: "('z, unit) bot" where
  "main_close =
     and_then (okbot_log Notice ''joined roc strategy.'') (\<lambda>_.
     and_then close_and_join (\<lambda>_.
     and_then delete_api (\<lambda>_. okbot_log Notice ''okbot stopped.'')))"

subsection \<open>The program\<close>

datatype main_pc = In_Menu | Joining | Finished

record okbot =
  main_at :: main_pc
  stdin :: "int list"
  trading_thread :: bool
  risk_thread :: bool
  query_thread :: bool
  roc :: strategy

text \<open>The state once the three threads run.\<close>

definition okbot_started :: "strategy \<Rightarrow> int list \<Rightarrow> okbot" where
  "okbot_started w input =
     \<lparr>main_at = In_Menu, stdin = input, trading_thread = True, risk_thread = True,
      query_thread = True, roc = w\<rparr>"

text \<open>The events that come from outside: \<open>stop\<close> and \<open>Close\<close> are called by \<open>main\<close> alone.\<close>

definition outside :: "event \<Rightarrow> bool" where
  "outside e \<longleftrightarrow> e \<noteq> Stop \<and> e \<noteq> User_Close"

inductive okbot_step :: "okbot \<Rightarrow> okbot \<Rightarrow> bool" where
  menu_on:
    "main_at s = In_Menu \<Longrightarrow> stdin s = i # rest \<Longrightarrow> menu_input i (roc s) = (Inr False, w) \<Longrightarrow>
     okbot_step s (s\<lparr>stdin := rest, roc := w\<rparr>)"
| menu_out:
    "main_at s = In_Menu \<Longrightarrow> stdin s = i # rest \<Longrightarrow> menu_input i (roc s) = (Inr True, w) \<Longrightarrow>
     main_stop w = (Inr (), w') \<Longrightarrow>
     okbot_step s (s\<lparr>main_at := Joining, stdin := rest, roc := w'\<rparr>)"
| menu_end:
    "main_at s = In_Menu \<Longrightarrow> stdin s = [] \<Longrightarrow> main_stop (roc s) = (Inr (), w) \<Longrightarrow>
     okbot_step s (s\<lparr>main_at := Joining, roc := w\<rparr>)"
| joined:
    "main_at s = Joining \<Longrightarrow> \<not> trading_thread s \<Longrightarrow> \<not> risk_thread s \<Longrightarrow> \<not> query_thread s \<Longrightarrow>
     main_close (roc s) = (Inr (), w) \<Longrightarrow> okbot_step s (s\<lparr>main_at := Finished, roc := w\<rparr>)"
| trading:
    "trading_thread s \<Longrightarrow> signal (roc s) = 0 \<Longrightarrow> strategy_round (roc s) = (Inr (), w) \<Longrightarrow>
     okbot_step s (s\<lparr>roc := w\<rparr>)"
| trading_ends:
    "trading_thread s \<Longrightarrow> signal (roc s) \<noteq> 0 \<Longrightarrow> sell_on_quit (roc s) = (Inr (), w) \<Longrightarrow>
     okbot_step s (s\<lparr>trading_thread := False, roc := w\<rparr>)"
| risk:
    "risk_thread s \<Longrightarrow> signal (roc s) \<noteq> 1 \<Longrightarrow> risk_round (roc s) = (Inr (), w) \<Longrightarrow>
     okbot_step s (s\<lparr>roc := w\<rparr>)"
| risk_ends:
    "risk_thread s \<Longrightarrow> signal (roc s) = 1 \<Longrightarrow>
     okbot_step s (s\<lparr>risk_thread := False, roc := (roc s)\<lparr>inner_sig := Suc (inner_sig (roc s))\<rparr>\<rparr>)"
| query:
    "query_thread s \<Longrightarrow> inner_sig (roc s) \<noteq> 1 \<Longrightarrow> query_round (roc s) = (Inr (), w) \<Longrightarrow>
     okbot_step s (s\<lparr>roc := w\<rparr>)"
| query_ends:
    "query_thread s \<Longrightarrow> inner_sig (roc s) = 1 \<Longrightarrow> okbot_step s (s\<lparr>query_thread := False\<rparr>)"
| event:
    "main_at s \<noteq> Finished \<Longrightarrow> outside e \<Longrightarrow> deliver e (roc s) = (Inr (), w) \<Longrightarrow> okbot_step s (s\<lparr>roc := w\<rparr>)"

inductive okbot_reachable :: "okbot \<Rightarrow> okbot \<Rightarrow> bool" for s0 where
  start: "okbot_reachable s0 s0"
| step: "okbot_reachable s0 s \<Longrightarrow> okbot_step s s' \<Longrightarrow> okbot_reachable s0 s'"

inductive_cases okbot_stepE: "okbot_step s s'"

subsection \<open>The signal\<close>

text \<open>Without a \<open>Stop\<close> in the environment nothing but \<open>stop\<close> changes the signal.\<close>

definition same_signal :: "'z world_scheme \<Rightarrow> 'z world_scheme \<Rightarrow> bool" where
  "same_signal w w' \<longleftrightarrow> signal w' = signal w"

interpretation ssig: kept same_signal
  by unfold_locales (auto simp: same_signal_def)

lemma same_signal_prims:
  "keeps same_signal (okbot_log level msg)" "keeps same_signal (set_hThread b)"
  "keeps same_signal (set_pWebsocket s)" "keeps same_signal (trade_set_websocket s)"
  "keeps same_signal (delete_socket a)" "keeps same_signal new_socket" "keeps same_signal (set_pipes p)"
  "keeps same_signal (with_socket a m)"
  by (auto simp: keeps_def okbot_log_def set_hThread_def set_pWebsocket_def with_socket_def
      trade_set_websocket_def delete_socket_def new_socket_def set_pipes_def prog_defs same_signal_def
      split: option.split prod.split)

lemma same_signal_if_socket: "(\<And>a. keeps same_signal (f a)) \<Longrightarrow> keeps same_signal (if_socket f)"
  unfolding if_socket_def by (intro ssig.keeps_intros)

lemmas same_signal_intros = ssig.keeps_intros same_signal_prims same_signal_if_socket

lemma same_signal_sessions:
  "keeps same_signal session_begin" "keeps same_signal session_end" "keeps same_signal Close"
  "keeps same_signal (handle_open a)" "keeps same_signal (handle_message a d)" "keeps same_signal (Remove c)"
  unfolding session_begin_def session_end_def Close_def handle_open_def handle_message_def Remove_def
    cn_callbak_open_def cn_callbak_close_def ok_spotcny_btc_kline_1min_def Emit_def
  by (intro same_signal_intros)+

lemma same_signal_deliver: "e \<noteq> Stop \<Longrightarrow> keeps same_signal (deliver e)"
  by (cases e) (simp_all add: on_endpoint_def, (intro same_signal_intros same_signal_sessions)+)

definition unstopped :: "'z world_scheme \<Rightarrow> 'z world_scheme \<Rightarrow> bool" where
  "unstopped w w' \<longleftrightarrow> (Stop \<notin> set (env w) \<longrightarrow> signal w' = signal w \<and> Stop \<notin> set (env w'))"

interpretation uns: strategy_kept unstopped
proof unfold_locales
  fix w :: "'z strategy_scheme" and c e es
  show "unstopped w (snd (take_item c w))"
    by (cases "channel_items (pipes w) c") (simp_all add: unstopped_def take_item_result)
  show "unstopped w (snd (next_event e w))" if "env w = e # es"
  proof -
    have n: "next_event e w = deliver e (w\<lparr>env := es\<rparr>)"
      using that by (simp add: next_event_def prog_defs)
    show ?thesis
      using that keepsD[OF same_signal_deliver[of e], of "w\<lparr>env := es\<rparr>"]
      by (auto simp: unstopped_def n env_deliver same_signal_def)
  qed
qed (auto simp: unstopped_def)

subsection \<open>The invariant of the program\<close>

text \<open>\<open>main\<close> stops the strategy once, the risk control ends it for the polling thread once, the
  threads run until then, and in the end there is no thread left.\<close>

definition okbot_inv :: "okbot \<Rightarrow> bool" where
  "okbot_inv s \<longleftrightarrow>
     strategy_inv (roc s) \<and> Stop \<notin> set (env (roc s)) \<and>
     signal (roc s) = (if main_at s = In_Menu then 0 else 1) \<and>
     inner_sig (roc s) = (if risk_thread s then 0 else 1) \<and>
     (main_at s = In_Menu \<longrightarrow> trading_thread s \<and> risk_thread s) \<and>
     (risk_thread s \<longrightarrow> query_thread s) \<and>
     (main_at s = Finished \<longrightarrow>
        \<not> trading_thread s \<and> \<not> query_thread s \<and> \<not> hThread (api (roc s)))"

text \<open>What a round or an event leaves alone.\<close>

definition round_kept :: "'z strategy_scheme \<Rightarrow> 'z strategy_scheme \<Rightarrow> bool" where
  "round_kept w w' \<longleftrightarrow>
     (strategy_inv w \<and> Stop \<notin> set (env w) \<longrightarrow>
        strategy_inv w' \<and> Stop \<notin> set (env w') \<and> signal w' = signal w \<and> inner_sig w' = inner_sig w)"

lemma round_keptI:
  "keeps inv_kept m \<Longrightarrow> keeps unstopped m \<Longrightarrow> keeps inner_kept m \<Longrightarrow> keeps round_kept m"
  unfolding keeps_def inv_kept_def unstopped_def inner_kept_def round_kept_def by blast

lemma unstopped_signal: "keeps evolves m \<Longrightarrow> keeps same_signal m \<Longrightarrow> keeps unstopped m"
  unfolding keeps_def unstopped_def evolves_def same_signal_def by (meson set_mono_suffix subsetD)

lemma rounds_kept:
  "keeps round_kept strategy_round" "keeps round_kept sell_on_quit" "keeps round_kept risk_round"
  "keeps round_kept query_round"
  by (intro round_keptI inv_intros uns.ops.strategy_round_R uns.ops.sell_on_quit_R uns.ops.risk_round_R
      uns.ops.query_round_R inner_ops.strategy_round_R inner_ops.sell_on_quit_R inner_ops.risk_round_R
      inner_ops.query_round_R)+

lemma events_kept: "e \<noteq> Stop \<Longrightarrow> keeps round_kept (deliver e)"
  by (intro round_keptI inv_intros unstopped_signal evolves_deliver same_signal_deliver
      inner_evolves[OF evolves_deliver])

lemma io_kept:
  "keeps evolves m \<Longrightarrow> keeps same_signal m \<Longrightarrow> keeps round_kept m"
  by (intro round_keptI inv_evolves unstopped_signal inner_evolves)

lemma menu_input_kept: "keeps round_kept (menu_input i)"
  unfolding menu_input_def remove_ok_spotcny_btc_ticker_def
  by (intro io_kept evolves_intros same_signal_intros same_signal_sessions)

lemma close_and_join_kept: "keeps evolves close_and_join" "keeps same_signal close_and_join"
  unfolding close_and_join_def
  by (intro evolves_intros same_signal_intros same_signal_deliver; simp)+

lemma delete_api_kept: "keeps evolves delete_api" "keeps same_signal delete_api"
  unfolding delete_api_def
  by (intro evolves_intros same_signal_intros close_and_join_kept)+

lemma main_close_kept: "keeps round_kept main_close"
  unfolding main_close_def
  by (intro io_kept evolves_intros same_signal_intros close_and_join_kept delete_api_kept)

lemma round_keptD:
  "keeps round_kept m \<Longrightarrow> m w = (r, w') \<Longrightarrow> strategy_inv w \<Longrightarrow> Stop \<notin> set (env w) \<Longrightarrow>
     strategy_inv w' \<and> Stop \<notin> set (env w') \<and> signal w' = signal w \<and> inner_sig w' = inner_sig w"
  unfolding keeps_def round_kept_def by (metis snd_conv)

lemma main_stop_result:
  "main_stop w = (Inr (), w\<lparr>signal := Suc (signal w),
     logs := logs w @ [(Notice, ''start join roc strategy.'')]\<rparr>)"
  by (simp add: main_stop_def stop_def okbot_log_def prog_defs)

lemma delete_api_no_thread: "delete_api w = (Inr (), w') \<Longrightarrow> \<not> hThread (api w')"
  by (auto simp: delete_api_def and_then_Inr gets_def raise_def ret_def split: if_splits)

lemma main_close_no_thread: "main_close w = (Inr (), w') \<Longrightarrow> \<not> hThread (api w')"
  by (auto simp: main_close_def and_then_Inr okbot_log_def modify_def dest!: delete_api_no_thread)

text \<open>A step that only runs an operation on the shared state.\<close>

lemma okbot_inv_run:
  assumes "okbot_inv s" "keeps round_kept m" "m (roc s) = (r, w)" "main_at s \<noteq> Finished"
  shows "okbot_inv (s\<lparr>roc := w\<rparr>)"
  using round_keptD[OF assms(2,3)] assms(1,4) by (simp add: okbot_inv_def)

lemma okbot_inv_alive:
  "okbot_inv s \<Longrightarrow> trading_thread s \<or> risk_thread s \<or> query_thread s \<Longrightarrow> main_at s \<noteq> Finished"
  by (auto simp: okbot_inv_def)

lemma okbot_inv_stop:
  assumes "okbot_inv s" "main_at s = In_Menu" "main_stop (roc s) = (Inr (), w)"
  shows "okbot_inv (s\<lparr>main_at := Joining, roc := w\<rparr>)"
  using assms by (simp add: okbot_inv_def main_stop_result strategy_inv_def position_ok_def) auto

lemma okbot_inv_stdin: "okbot_inv (s\<lparr>stdin := x\<rparr>) = okbot_inv s"
  by (simp add: okbot_inv_def)

lemma okbot_inv_no_trading:
  "okbot_inv s \<Longrightarrow> main_at s \<noteq> In_Menu \<Longrightarrow> okbot_inv (s\<lparr>trading_thread := False\<rparr>)"
  by (simp add: okbot_inv_def)

lemma okbot_inv_no_query:
  "okbot_inv s \<Longrightarrow> \<not> risk_thread s \<Longrightarrow> okbot_inv (s\<lparr>query_thread := False\<rparr>)"
  by (simp add: okbot_inv_def)

lemma okbot_step_inv:
  assumes "okbot_step s s'" "okbot_inv s"
  shows "okbot_inv s'"
  using assms(1)
proof (cases rule: okbot_step.cases)
  case (menu_on i rest w)
  with okbot_inv_run[OF assms(2) menu_input_kept, of i "Inr False" w] show ?thesis
    by (simp add: okbot_inv_def)
next
  case (menu_out i rest w w')
  with okbot_inv_run[OF assms(2) menu_input_kept, of i "Inr True" w] have "okbot_inv (s\<lparr>roc := w\<rparr>)"
    by simp
  from okbot_inv_stop[OF this] menu_out show ?thesis by (simp add: okbot_inv_def)
next
  case (menu_end w)
  with okbot_inv_stop[OF assms(2)] show ?thesis by simp
next
  case (joined w)
  with okbot_inv_run[OF assms(2) main_close_kept, of "Inr ()" w] main_close_no_thread[of "roc s"]
  show ?thesis by (simp add: okbot_inv_def)
next
  case (trading w)
  with okbot_inv_run[OF assms(2) rounds_kept(1)] okbot_inv_alive[OF assms(2)] show ?thesis by blast
next
  case (trading_ends w)
  then have "main_at s \<noteq> In_Menu" using assms(2) by (auto simp: okbot_inv_def)
  with okbot_inv_no_trading[of "s\<lparr>roc := w\<rparr>"] okbot_inv_run[OF assms(2) rounds_kept(2)]
    okbot_inv_alive[OF assms(2)] trading_ends show ?thesis by (simp add: okbot_inv_def)
next
  case (risk w)
  with okbot_inv_run[OF assms(2) rounds_kept(3)] okbot_inv_alive[OF assms(2)] show ?thesis by blast
next
  case risk_ends
  then have "main_at s \<noteq> In_Menu" using assms(2) by (auto simp: okbot_inv_def)
  with risk_ends assms(2) okbot_inv_alive[OF assms(2)] show ?thesis
    by (simp add: okbot_inv_def strategy_inv_def position_ok_def)
next
  case (query w)
  with okbot_inv_run[OF assms(2) rounds_kept(4)] okbot_inv_alive[OF assms(2)] show ?thesis by blast
next
  case query_ends
  then have "\<not> risk_thread s" using assms(2) by (auto simp: okbot_inv_def)
  with okbot_inv_no_query[OF assms(2)] query_ends(1) show ?thesis by simp
next
  case (event e w)
  then have "e \<noteq> Stop" by (simp add: outside_def)
  from okbot_inv_run[OF assms(2) events_kept[OF this]] event show ?thesis by blast
qed

lemma okbot_reachable_inv: "okbot_reachable s0 s \<Longrightarrow> okbot_inv s0 \<Longrightarrow> okbot_inv s"
  by (induction rule: okbot_reachable.induct) (auto dest: okbot_step_inv)

lemma main_strategy_fields:
  "signal (main_strategy slots f w) = signal w" "env (main_strategy slots f w) = env w"
  "inner_sig (main_strategy slots f w) = 0"
  by (simp_all add: main_strategy_def set_interval_def set_asset_and_security_def prog_defs roc_init_def)

lemma main_strategy_inv: "length slots = PROFIT_LEN \<Longrightarrow> strategy_inv (main_strategy slots f w)"
  using roc_init_inv[of slots f w]
  by (simp add: main_strategy_def set_interval_def set_asset_and_security_def prog_defs strategy_inv_def position_ok_def)

lemma okbot_started_inv:
  assumes "length slots = PROFIT_LEN" "signal w = 0" "Stop \<notin> set (env w)"
  shows "okbot_inv (okbot_started (main_strategy slots f w) input)"
  using assms by (simp add: okbot_started_def okbot_inv_def main_strategy_inv main_strategy_fields)

subsection \<open>How the shutdown ends\<close>

lemma close_and_join_null: "pWebsocket (api w) = None \<Longrightarrow> close_and_join w = (Inr (), w)"
  by (simp add: close_and_join_def if_socket_def prog_defs)

text \<open>With an open connection it completes.\<close>

lemma close_and_join_open:
  assumes "pWebsocket (api w) = Some a" "sockets w a = Some ws" "endpoint_open ws"
  shows "\<exists>w'. close_and_join w = (Inr (), w') \<and> pWebsocket (api w') = None \<and> \<not> hThread (api w') \<and>
           sockets w' = (sockets w)(a := None)"
  using assms
  by (simp add: close_and_join_def if_socket_def session_end_def prog_defs with_socket_def ws_doclose_result
      ws_on_close_def ws_update_def cn_callbak_close_def delete_socket_def set_pWebsocket_def set_hThread_def)

lemma main_close_open:
  assumes "pWebsocket (api w) = Some a" "sockets w a = Some ws" "endpoint_open ws"
  shows "\<exists>w'. main_close w = (Inr (), w') \<and> \<not> hThread (api w') \<and> pWebsocket (api w') = None"
proof -
  let ?w = "w\<lparr>logs := logs w @ [(Notice, ''joined roc strategy.'')]\<rparr>"
  obtain w1 where w1: "close_and_join ?w = (Inr (), w1)" "pWebsocket (api w1) = None" "\<not> hThread (api w1)"
    using close_and_join_open[of ?w a ws] assms by auto
  then show ?thesis
    by (simp add: main_close_def delete_api_def prog_defs okbot_log_def close_and_join_null)
qed

text \<open>Between two sessions there is no socket: nothing is closed, nothing is joined, and the
  destructor of the running thread object ends the process.\<close>

lemma main_close_between_sessions:
  assumes "pWebsocket (api w) = None" "hThread (api w)"
  shows "fst (main_close w) = Inl Terminate"
  using assms
  by (simp add: main_close_def delete_api_def prog_defs okbot_log_def close_and_join_null)

lemma main_close_not_open:
  assumes "pWebsocket (api w) = Some a" "sockets w a = Some ws" "\<not> endpoint_open ws"
  shows "fst (main_close w) = Inl Net_Exception"
  using assms
  by (simp add: main_close_def close_and_join_def if_socket_def prog_defs okbot_log_def with_socket_def
      ws_doclose_result)

end
