(* ===== verification/Uris.thy ===== *)
theory Uris
  imports Params Str
begin

section \<open>uri.h and uri.cpp: a request of the REST client\<close>

text \<open>
  \<open>CUriParameter\<close> is the map of the parameters, \<open>Uri\<close> a request with the buffer its answer is
  collected in. A buffer of \<open>malloc\<close> is a list of cells, \<open>None\<close> where nothing was written;
  accesses outside it, and reading a cell before it is written, are \<open>Undefined_Behaviour\<close>.
  \<open>pcurl\<close> points to the transfer that runs (a local object of \<open>Requset\<close>) or is null.
\<close>

datatype CURL_REQUEST_SAVE_TO = CURL_REQUEST_SAVE_TO_MEMROY | CURL_REQUEST_SAVE_TO_FILE

datatype HTTP_PROTOCOL = HTTP_PROTOCOL_HTTP | HTTP_PROTOCOL_HTTPS

datatype HTTP_METHOD = METHOD_GET | METHOD_POST

subsection \<open>class CUriParameter\<close>

type_synonym CUriParameter = str_map

definition cup_Clear :: "CUriParameter \<Rightarrow> CUriParameter" where
  "cup_Clear m_items = []"

definition cup_Add :: "string \<Rightarrow> string \<Rightarrow> CUriParameter \<Rightarrow> CUriParameter" where
  "cup_Add name value m_items = map_put (cstr name) (cstr value) m_items"

definition cup_AddNoEncode :: "string \<Rightarrow> string \<Rightarrow> CUriParameter \<Rightarrow> CUriParameter" where
  "cup_AddNoEncode name value m_items = map_put (cstr name) (cstr value) m_items"

text \<open>The loop of \<open>Set\<close>: the first entry of that name gets the encoded value.\<close>

fun cup_set_loop :: "string \<Rightarrow> string \<Rightarrow> CUriParameter \<Rightarrow> CUriParameter option" where
  "cup_set_loop name value [] = None"
| "cup_set_loop name value ((k, v) # it) =
     (if k = cstr name then Some ((k, URLEncode (cstr value)) # it)
      else map_option ((#) (k, v)) (cup_set_loop name value it))"

definition cup_Set :: "string \<Rightarrow> string \<Rightarrow> CUriParameter \<Rightarrow> CUriParameter" where
  "cup_Set name value m_items =
     (case cup_set_loop name value m_items of Some m \<Rightarrow> m | None \<Rightarrow> cup_Add name value m_items)"

fun cup_ToString :: "CUriParameter \<Rightarrow> string" where
  "cup_ToString [] = []"
| "cup_ToString [(k, v)] = k @ ''='' @ v"
| "cup_ToString ((k, v) # it) = k @ ''='' @ v @ ''&'' @ cup_ToString it"

fun cup_Get :: "string \<Rightarrow> CUriParameter \<Rightarrow> string" where
  "cup_Get name [] = []"
| "cup_Get name ((k, v) # it) = (if k = name then v else cup_Get name it)"

fun cup_GetArray :: "string \<Rightarrow> CUriParameter \<Rightarrow> string list" where
  "cup_GetArray name [] = []"
| "cup_GetArray name ((k, v) # it) =
     (if k = name then v # cup_GetArray name it else cup_GetArray name it)"

subsection \<open>Buffers\<close>

type_synonym buffer = "char option list"

definition buf_malloc :: "int \<Rightarrow> buffer" where
  "buf_malloc n = replicate (nat n) None"

definition buf_realloc :: "int \<Rightarrow> buffer \<Rightarrow> buffer" where
  "buf_realloc n b = take (nat n) b @ replicate (nat n - length b) None"

text \<open>\<open>memcpy(b + off, s, n)\<close>.\<close>

definition buf_write :: "int \<Rightarrow> string \<Rightarrow> buffer \<Rightarrow> buffer result" where
  "buf_write off s b =
     (if off < 0 \<or> int (length b) < off + int (length s) then Inl Undefined_Behaviour
      else Inr (take (nat off) b @ map Some s @ drop (nat off + length s) b))"

text \<open>The C string that begins at the buffer.\<close>

fun buf_cstr :: "buffer \<Rightarrow> string result" where
  "buf_cstr [] = Inl Undefined_Behaviour"
| "buf_cstr (None # b) = Inl Undefined_Behaviour"
| "buf_cstr (Some c # b) =
     (if c = CHR 0x00 then Inr [] else bind_result (buf_cstr b) (\<lambda>s. Inr (c # s)))"

subsection \<open>class Uri\<close>

record Uri =
  saveto :: CURL_REQUEST_SAVE_TO
  isinit :: bool
  uri_type :: int
  protoclstr :: string
  domain :: string
  uri_api :: string
  url :: string
  protocol :: HTTP_PROTOCOL
  uri_method :: HTTP_METHOD
  m_param :: CUriParameter
  m_header :: CUriParameter
  uri_result :: string
  errcode :: int
  pcurl :: bool
  request_size :: int
  request_cursize :: int
  curbuf :: "buffer option"
  curbuf_size :: int

definition CURLE_OK :: int where "CURLE_OK = 0"

definition uri_new :: Uri where
  "uri_new =
     \<lparr>saveto = CURL_REQUEST_SAVE_TO_MEMROY, isinit = False, uri_type = 0, protoclstr = [], domain = [],
      uri_api = [], url = [], protocol = HTTP_PROTOCOL_HTTP, uri_method = METHOD_GET, m_param = [],
      m_header = [], uri_result = [], errcode = CURLE_OK, pcurl = False, request_size = 0,
      request_cursize = 0, curbuf = None, curbuf_size = 0\<rparr>"

definition uri_ClearParam :: "Uri \<Rightarrow> Uri" where
  "uri_ClearParam u = u\<lparr>m_param := cup_Clear (m_param u)\<rparr>"

definition uri_ClearHeader :: "Uri \<Rightarrow> Uri" where
  "uri_ClearHeader u = u\<lparr>m_header := cup_Clear (m_header u)\<rparr>"

definition uri_free_curbuf :: "Uri \<Rightarrow> Uri" where
  "uri_free_curbuf u = (if curbuf u \<noteq> None then u\<lparr>curbuf := None, curbuf_size := 0\<rparr> else u)"

definition uri_Reset :: "Uri \<Rightarrow> Uri" where
  "uri_Reset u =
     uri_free_curbuf ((uri_ClearParam (uri_ClearParam u))
       \<lparr>uri_result := [], errcode := CURLE_OK, request_size := 0, request_cursize := 0\<rparr>)"

text \<open>\<open>delete pcurl\<close> would delete an object that \<open>new\<close> did not make.\<close>

definition uri_FreeBuf :: "Uri \<Rightarrow> Uri result" where
  "uri_FreeBuf u =
     (let u' = uri_free_curbuf u in if pcurl u' then Inl Undefined_Behaviour else Inr u')"

definition uri_clear :: "Uri \<Rightarrow> Uri result" where
  "uri_clear u = uri_FreeBuf (uri_Reset u)"

definition uri_AddParam :: "string \<Rightarrow> string \<Rightarrow> Uri \<Rightarrow> Uri" where
  "uri_AddParam strName strValue u =
     (if strValue \<noteq> [] then u\<lparr>m_param := cup_Add (cstr strName) (cstr strValue) (m_param u)\<rparr> else u)"

definition uri_AddParam_cstr :: "string \<Rightarrow> string \<Rightarrow> Uri \<Rightarrow> Uri" where
  "uri_AddParam_cstr szName szValue u = u\<lparr>m_param := cup_Add szName szValue (m_param u)\<rparr>"

definition uri_GetParamSet :: "Uri \<Rightarrow> string" where
  "uri_GetParamSet u = cup_ToString (m_param u)"

text \<open>\<open>str::GetMD5\<close> hashes what \<open>c_str()\<close> shows.\<close>

definition GetMD5 :: "string \<Rightarrow> string" where
  "GetMD5 strSource = MD5String (cstr strSource)"

definition uri_GetSign :: "string \<Rightarrow> Uri \<Rightarrow> string" where
  "uri_GetSign secret_key u =
     map toupper (GetMD5 (uri_GetParamSet u @ ''&secret_key='' @ secret_key))"

definition uri_AddHeader :: "string \<Rightarrow> string \<Rightarrow> Uri \<Rightarrow> Uri" where
  "uri_AddHeader szName szValue u = u\<lparr>m_header := cup_AddNoEncode szName szValue (m_header u)\<rparr>"

text \<open>\<open>string::find\<close> of one character; \<open>npos\<close> is the largest \<open>size_t\<close>, and so is \<open>-1\<close> in the comparison.\<close>

definition npos :: nat where
  "npos = 2 ^ 64 - 1"

definition str_find :: "char \<Rightarrow> string \<Rightarrow> nat" where
  "str_find c s = (if c \<in> set s then length (takeWhile (\<lambda>x. x \<noteq> c) s) else npos)"

definition uri_AddParamToUrl :: "string \<Rightarrow> Uri \<Rightarrow> string" where
  "uri_AddParamToUrl strUrl u =
     (let paramStr = cup_ToString (m_param u)
      in if 0 < length paramStr
         then (if size_t (- 1) < str_find (CHR ''?'') strUrl
               then strUrl @ ''&'' @ paramStr else strUrl @ ''?'' @ paramStr)
         else strUrl)"

definition uri_GetUrl :: "Uri \<Rightarrow> string \<times> Uri" where
  "uri_GetUrl u =
     (let urlstr = protoclstr u @ domain u @ uri_api u in (urlstr, u\<lparr>url := urlstr\<rparr>))"

definition uri_GetUTF8Result :: "Uri \<Rightarrow> Uri result" where
  "uri_GetUTF8Result u =
     (case curbuf u of
        None \<Rightarrow> Inr u
      | Some b \<Rightarrow> bind_result (buf_cstr b) (\<lambda>s. Inr (u\<lparr>uri_result := s, curbuf := None\<rparr>)))"

subsection \<open>Parameters\<close>

text \<open>The two parameter classes of the repository agree, so the facts about the one hold for the other.\<close>

lemma cup_param:
  "cup_Add = param_Add" "cup_AddNoEncode = param_AddNoEncode" "cup_Clear = param_Clear"
  by (auto simp: fun_eq_iff cup_Add_def param_Add_def cup_AddNoEncode_def param_AddNoEncode_def
      cup_Clear_def param_Clear_def)

lemma cup_ToString_param: "cup_ToString p = param_ToString p"
  by (induction p rule: cup_ToString.induct) auto

lemma cup_Get_param: "cup_Get name p = param_Get name p" "cup_GetArray name p = param_GetArray name p"
  by (induction p) auto

lemma MD5String_cstr: "MD5String (cstr s) = MD5String s"
  by (simp add: MD5String_def MD5String_from_def)

lemma uri_GetSign_param: "uri_GetSign secret u = param_GetSign secret (m_param u)"
  by (simp add: uri_GetSign_def param_GetSign_def GetMD5_def uri_GetParamSet_def cup_ToString_param
      MD5String_cstr)

interpretation cup: param_store "[]" cup_Add "\<lambda>p. p"
  by unfold_locales (simp_all add: cup_Add_def map_sorted_put map_of_map_put)

text \<open>\<open>Set\<close> replaces the value of a name that is there, encoded, and adds one that is not, as it is.\<close>

lemma cup_set_loop_None: "cup_set_loop name val p = None \<longleftrightarrow> cstr name \<notin> fst ` set p"
  by (induction name val p rule: cup_set_loop.induct) auto

lemma cup_set_loop_Some:
  "cup_set_loop name val p = Some p' \<Longrightarrow>
     map fst p' = map fst p \<and> map_of p' = (map_of p)(cstr name \<mapsto> URLEncode (cstr val))"
  by (induction name val p arbitrary: p' rule: cup_set_loop.induct)
    (auto simp: fun_eq_iff split: if_splits)

lemma cup_Set_map_of:
  "map_of (cup_Set name val p) =
     (map_of p)(cstr name \<mapsto> (if cstr name \<in> fst ` set p then URLEncode (cstr val) else cstr val))"
proof (cases "cup_set_loop name val p")
  case None
  then show ?thesis
    using cup_set_loop_None[of name val p] by (simp add: cup_Set_def cup_Add_def map_of_map_put)
next
  case (Some p')
  then have "cstr name \<in> fst ` set p" using cup_set_loop_None[of name val p] by force
  with Some show ?thesis using cup_set_loop_Some[OF Some] by (simp add: cup_Set_def)
qed

lemma cup_Set_sorted: "map_sorted p \<Longrightarrow> map_sorted (cup_Set name val p)"
  using cup_set_loop_Some[of name val p]
  by (cases "cup_set_loop name val p")
    (simp_all add: cup_Set_def cup_Add_def map_sorted_put, simp add: map_sorted_def)

lemma str_find_bound: "length s < 2 ^ 64 \<Longrightarrow> str_find c s \<le> npos"
  using length_takeWhile_le[of "\<lambda>x. x \<noteq> c" s] by (simp add: str_find_def npos_def)

lemma uri_AddParamToUrl_result:
  assumes "length strUrl < 2 ^ 64"
  shows "uri_AddParamToUrl strUrl u =
     (if m_param u = [] then strUrl else strUrl @ ''?'' @ cup_ToString (m_param u))"
proof -
  have "size_t (- 1) = npos" by (simp add: size_t_def npos_def)
  then have "\<not> size_t (- 1) < str_find (CHR ''?'') strUrl"
    using str_find_bound[OF assms, of "CHR ''?''"] by simp
  moreover have "cup_ToString p = [] \<longleftrightarrow> p = []" for p
    by (cases p rule: cup_ToString.cases) auto
  ultimately show ?thesis by (simp add: uri_AddParamToUrl_def Let_def)
qed

subsection \<open>The buffer\<close>

lemma buf_cstr_string: "buf_cstr (map Some s @ Some (CHR 0x00) # b) = Inr (cstr s)"
  by (induction s) (auto simp: cstr_def)

lemma buf_write_at:
  assumes "off = int (length a)" "length b = length s"
  shows "buf_write off s (a @ b @ c) = Inr (a @ map Some s @ c)"
  using assms by (simp add: buf_write_def)

lemma buf_write_outside: "int (length b) < off + int (length s) \<Longrightarrow> buf_write off s b = Inl Undefined_Behaviour"
  by (simp add: buf_write_def)

end
