(* ===== verification/Curl_Protocol.thy ===== *)
theory Curl_Protocol
  imports Uris
begin

section \<open>curlprotocol.h and curlprotocol.cpp: the table of the REST interface\<close>

text \<open>
  \<open>CUrlProtocol\<close> holds a request for every kind of call of the site it was initialised for. The
  \<open>std::map\<close> is only looked up and assigned, so it is a partial function.
\<close>

datatype HTTP_SERVER_TYPE = HTTP_SERVER_TYPE_CN | HTTP_SERVER_TYPE_COM

datatype HTTP_PROTOCL_TYPE =
    HTTP_PROTOCL_TYPE_UNKONWN
  | HTTP_API_TYPE_TICKER
  | HTTP_API_TYPE_DEPTH
  | HTTP_API_TYPE_TRADES
  | HTTP_API_TYPE_KLINE
  | HTTP_API_TYPE_USERINFO
  | HTTP_API_TYPE_TRADE
  | HTTP_API_TYPE_TRADE_HISTORY
  | HTTP_API_TYPE_BATCH_TRADE
  | HTTP_API_TYPE_CANCEL_ORDER
  | HTTP_API_TYPE_ORDER_INFO
  | HTTP_API_TYPE_ORDERS_INFO
  | HTTP_API_TYPE_ORDER_HISTORY
  | HTTP_API_TYPE_WITHDRAW
  | HTTP_API_TYPE_CANCEL_WITHDRAW
  | HTTP_API_TYPE_ORDER_FEE
  | HTTP_API_TYPE_LEND_DEPTH
  | HTTP_API_TYPE_BORROWS_INFO
  | HTTP_API_TYPE_BORROW_MONEY
  | HTTP_API_TYPE_CANCEL_BORROW
  | HTTP_API_TYPE_BORROW_ORDER_INFO
  | HTTP_API_TYPE_REPAYMENT
  | HTTP_API_TYPE_UNREPAYMENTS_INFO
  | HTTP_API_TYPE_ACCOUNT_RECORDS
  | HTTP_API_TYPE_FUTURE_TICKER
  | HTTP_API_TYPE_FUTURE_DEPTH
  | HTTP_API_TYPE_FUTURE_TRADES
  | HTTP_API_TYPE_FUTURE_INDEX
  | HTTP_API_TYPE_EXCHANGE_RATE
  | HTTP_API_TYPE_FUTURE_ESTIMATED_PRICE
  | HTTP_API_TYPE_FUTURE_KLINE
  | HTTP_API_TYPE_FUTURE_HOLD_AMOUNT
  | HTTP_API_TYPE_FUTURE_USERINFO
  | HTTP_API_TYPE_FUTURE_POSITION
  | HTTP_API_TYPE_FUTURE_TRADE
  | HTTP_API_TYPE_FUTURE_TRADES_HISTORY
  | HTTP_API_TYPE_FUTURE_BATCH_TRADE
  | HTTP_API_TYPE_FUTURE_CANCEL
  | HTTP_API_TYPE_FUTURE_ORDER_INFO
  | HTTP_API_TYPE_FUTURE_ORDERS_INFO
  | HTTP_API_TYPE_FUTURE_USERINFO_4FIX
  | HTTP_API_TYPE_FUTURE_POSITION_4FIX
  | HTTP_API_TYPE_FUTURE_EXPLOSIVE

text \<open>The value of an enumerator is its position.\<close>

definition protocl_types :: "HTTP_PROTOCL_TYPE list" where
  "protocl_types =
     [HTTP_PROTOCL_TYPE_UNKONWN, HTTP_API_TYPE_TICKER, HTTP_API_TYPE_DEPTH, 
      HTTP_API_TYPE_TRADES, HTTP_API_TYPE_KLINE, HTTP_API_TYPE_USERINFO, HTTP_API_TYPE_TRADE, 
      HTTP_API_TYPE_TRADE_HISTORY, HTTP_API_TYPE_BATCH_TRADE, HTTP_API_TYPE_CANCEL_ORDER, 
      HTTP_API_TYPE_ORDER_INFO, HTTP_API_TYPE_ORDERS_INFO, HTTP_API_TYPE_ORDER_HISTORY, 
      HTTP_API_TYPE_WITHDRAW, HTTP_API_TYPE_CANCEL_WITHDRAW, HTTP_API_TYPE_ORDER_FEE, 
      HTTP_API_TYPE_LEND_DEPTH, HTTP_API_TYPE_BORROWS_INFO, HTTP_API_TYPE_BORROW_MONEY, 
      HTTP_API_TYPE_CANCEL_BORROW, HTTP_API_TYPE_BORROW_ORDER_INFO, HTTP_API_TYPE_REPAYMENT, 
      HTTP_API_TYPE_UNREPAYMENTS_INFO, HTTP_API_TYPE_ACCOUNT_RECORDS, 
      HTTP_API_TYPE_FUTURE_TICKER, HTTP_API_TYPE_FUTURE_DEPTH, HTTP_API_TYPE_FUTURE_TRADES, 
      HTTP_API_TYPE_FUTURE_INDEX, HTTP_API_TYPE_EXCHANGE_RATE, 
      HTTP_API_TYPE_FUTURE_ESTIMATED_PRICE, HTTP_API_TYPE_FUTURE_KLINE, 
      HTTP_API_TYPE_FUTURE_HOLD_AMOUNT, HTTP_API_TYPE_FUTURE_USERINFO, 
      HTTP_API_TYPE_FUTURE_POSITION, HTTP_API_TYPE_FUTURE_TRADE, 
      HTTP_API_TYPE_FUTURE_TRADES_HISTORY, HTTP_API_TYPE_FUTURE_BATCH_TRADE, 
      HTTP_API_TYPE_FUTURE_CANCEL, HTTP_API_TYPE_FUTURE_ORDER_INFO, 
      HTTP_API_TYPE_FUTURE_ORDERS_INFO, HTTP_API_TYPE_FUTURE_USERINFO_4FIX, 
      HTTP_API_TYPE_FUTURE_POSITION_4FIX, HTTP_API_TYPE_FUTURE_EXPLOSIVE]"

definition type_value :: "HTTP_PROTOCL_TYPE \<Rightarrow> int" where
  "type_value t = int (length (takeWhile (\<lambda>x. x \<noteq> t) protocl_types))"

subsection \<open>The literals\<close>

definition URL_PROTOCOL_HTTPS :: string where "URL_PROTOCOL_HTTPS = ''https://''"
definition URL_PROTOCOL_HTTP :: string where "URL_PROTOCOL_HTTP = ''http://''"
definition URL_MAIN_CN :: string where "URL_MAIN_CN = ''https://www.okcoin.cn''"
definition URL_PROTOCOL_CN :: string where "URL_PROTOCOL_CN = ''https://''"
definition URL_DOMAIN_CN :: string where "URL_DOMAIN_CN = ''www.okcoin.cn''"
definition URL_MAIN_COM :: string where "URL_MAIN_COM = ''https://www.okcoin.com''"
definition URL_PROTOCOL_COM :: string where "URL_PROTOCOL_COM = ''https://''"
definition URL_DOMAIN_COM :: string where "URL_DOMAIN_COM = ''www.okcoin.com''"
definition HTTP_API_ticker :: string where "HTTP_API_ticker = ''/api/v1/ticker.do''"
definition HTTP_API_depth :: string where "HTTP_API_depth = ''/api/v1/depth.do''"
definition HTTP_API_trades :: string where "HTTP_API_trades = ''/api/v1/trades.do''"
definition HTTP_API_kline :: string where "HTTP_API_kline = ''/api/v1/kline.do''"
definition HTTP_API_USERINFO :: string where "HTTP_API_USERINFO = ''/api/v1/userinfo.do''"
definition HTTP_API_TRADE :: string where "HTTP_API_TRADE = ''/api/v1/trade.do''"
definition HTTP_API_TRADE_HISTORY :: string where "HTTP_API_TRADE_HISTORY = ''/api/v1/trade_history.do''"
definition HTTP_API_BATCH_TRADE :: string where "HTTP_API_BATCH_TRADE = ''/api/v1/batch_trade.do''"
definition HTTP_API_CANCEL_ORDER :: string where "HTTP_API_CANCEL_ORDER = ''/api/v1/cancel_order.do''"
definition HTTP_API_ORDER_INFO :: string where "HTTP_API_ORDER_INFO = ''/api/v1/order_info.do''"
definition HTTP_API_ORDERS_INFO :: string where "HTTP_API_ORDERS_INFO = ''/api/v1/orders_info.do''"
definition HTTP_API_ORDER_HISTORY :: string where "HTTP_API_ORDER_HISTORY = ''/api/v1/order_history.do''"
definition HTTP_API_WITHDRAW :: string where "HTTP_API_WITHDRAW = ''/api/v1/withdraw.do''"
definition HTTP_API_CANCEL_WITHDRAW :: string where "HTTP_API_CANCEL_WITHDRAW = ''/api/v1/cancel_withdraw.do''"
definition HTTP_API_ORDER_FEE :: string where "HTTP_API_ORDER_FEE = ''/api/v1/order_fee.do''"
definition HTTP_API_LEND_DEPTH :: string where "HTTP_API_LEND_DEPTH = ''/api/v1/lend_depth.do''"
definition HTTP_API_BORROWS_INFO :: string where "HTTP_API_BORROWS_INFO = ''/api/v1/borrows_info.do''"
definition HTTP_API_BORROW_MONEY :: string where "HTTP_API_BORROW_MONEY = ''/api/v1/borrow_money.do''"
definition HTTP_API_CANCEL_BORROW :: string where "HTTP_API_CANCEL_BORROW = ''/api/v1/cancel_borrow.do''"
definition HTTP_API_BORROW_ORDER_INFO :: string where "HTTP_API_BORROW_ORDER_INFO = ''/api/v1/borrow_order_info.do''"
definition HTTP_API_REPAYMENT :: string where "HTTP_API_REPAYMENT = ''/api/v1/repayment.do''"
definition HTTP_API_UNREPAYMENTS_INFO :: string where "HTTP_API_UNREPAYMENTS_INFO = ''/api/v1/unrepayments_info.do''"
definition HTTP_API_ACCOUNT_RECORDS :: string where "HTTP_API_ACCOUNT_RECORDS = ''/api/v1/account_records.do''"
definition HTTP_API_FUTURE_TICKER :: string where "HTTP_API_FUTURE_TICKER = ''/api/v1/future_ticker.do''"
definition HTTP_API_FUTURE_DEPTH :: string where "HTTP_API_FUTURE_DEPTH = ''/api/v1/future_depth.do''"
definition HTTP_API_FUTURE_TRADES :: string where "HTTP_API_FUTURE_TRADES = ''/api/v1/future_trades.do''"
definition HTTP_API_FUTURE_INDEX :: string where "HTTP_API_FUTURE_INDEX = ''/api/v1/future_index.do''"
definition HTTP_API_EXCHANGE_RATE :: string where "HTTP_API_EXCHANGE_RATE = ''/api/v1/exchange_rate.do''"
definition HTTP_API_FUTURE_ESTIMATED_PRICE :: string where "HTTP_API_FUTURE_ESTIMATED_PRICE = ''/api/v1/future_estimated_price.do''"
definition HTTP_API_FUTURE_KLINE :: string where "HTTP_API_FUTURE_KLINE = ''/api/v1/future_kline.do''"
definition HTTP_API_FUTURE_HOLD_AMOUNT :: string where "HTTP_API_FUTURE_HOLD_AMOUNT = ''/api/v1/future_hold_amount.do''"
definition HTTP_API_FUTURE_USERINFO :: string where "HTTP_API_FUTURE_USERINFO = ''/api/v1/future_userinfo.do''"
definition HTTP_API_FUTURE_POSITION :: string where "HTTP_API_FUTURE_POSITION = ''/api/v1/future_position.do''"
definition HTTP_API_FUTURE_TRADE :: string where "HTTP_API_FUTURE_TRADE = ''/api/v1/future_trade.do''"
definition HTTP_API_FUTURE_TRADES_HISTORY :: string where "HTTP_API_FUTURE_TRADES_HISTORY = ''/api/v1/future_trades_history.do''"
definition HTTP_API_FUTURE_BATCH_TRADE :: string where "HTTP_API_FUTURE_BATCH_TRADE = ''/api/v1/future_batch_trade.do''"
definition HTTP_API_FUTURE_CANCEL :: string where "HTTP_API_FUTURE_CANCEL = ''/api/v1/future_cancel.do''"
definition HTTP_API_FUTURE_ORDER_INFO :: string where "HTTP_API_FUTURE_ORDER_INFO = ''/api/v1/future_order_info.do''"
definition HTTP_API_FUTURE_ORDERS_INFO :: string where "HTTP_API_FUTURE_ORDERS_INFO = ''/api/v1/future_orders_info.do''"
definition HTTP_API_FUTURE_USERINFO_4FIX :: string where "HTTP_API_FUTURE_USERINFO_4FIX = ''/api/v1/future_userinfo_4fix.do''"
definition HTTP_API_FUTURE_POSITION_4FIX :: string where "HTTP_API_FUTURE_POSITION_4FIX = ''/api/v1/future_position_4fix.do''"
definition HTTP_API_FUTURE_EXPLOSIVE :: string where "HTTP_API_FUTURE_EXPLOSIVE = ''/api/v1/future_explosive.do''"

subsection \<open>class CUrlProtocol\<close>

record CUrlProtocol =
  m_urllist :: "HTTP_PROTOCL_TYPE \<rightharpoonup> Uri"
  cp_domain :: string

definition cp_new :: CUrlProtocol where
  "cp_new = \<lparr>m_urllist = Map.empty, cp_domain = URL_DOMAIN_CN\<rparr>"

text \<open>The \<open>Uri\<close> that \<open>AddApi\<close> stores.\<close>

definition api_entry ::
    "string \<Rightarrow> HTTP_PROTOCL_TYPE \<Rightarrow> HTTP_PROTOCOL \<Rightarrow> string \<Rightarrow> HTTP_METHOD \<Rightarrow> Uri" where
  "api_entry site http_protocl_type http_protocol api http_method =
     (let u = uri_new\<lparr>uri_type := type_value http_protocl_type, protocol := http_protocol\<rparr>;
          u = (if http_protocol = HTTP_PROTOCOL_HTTP then u\<lparr>protoclstr := URL_PROTOCOL_HTTP\<rparr>
               else if http_protocol = HTTP_PROTOCOL_HTTPS then u\<lparr>protoclstr := URL_PROTOCOL_HTTPS\<rparr>
               else u)
      in u\<lparr>domain := site, uri_api := uri_api u @ api, uri_method := http_method\<rparr>)"

definition AddApi ::
    "HTTP_PROTOCL_TYPE \<Rightarrow> HTTP_PROTOCOL \<Rightarrow> string \<Rightarrow> HTTP_METHOD \<Rightarrow> CUrlProtocol \<Rightarrow> CUrlProtocol" where
  "AddApi t http_protocol api http_method p =
     p\<lparr>m_urllist := (m_urllist p)(t \<mapsto> api_entry (cp_domain p) t http_protocol api http_method)\<rparr>"

type_synonym api_call = "HTTP_PROTOCL_TYPE \<times> HTTP_PROTOCOL \<times> string \<times> HTTP_METHOD"

text \<open>The calls of \<open>AddApi\<close> in \<open>InitApi\<close>, in their order.\<close>

definition spot_apis :: "api_call list" where
  "spot_apis =
     [(HTTP_API_TYPE_TICKER, HTTP_PROTOCOL_HTTPS, HTTP_API_ticker, METHOD_GET),
      (HTTP_API_TYPE_DEPTH, HTTP_PROTOCOL_HTTPS, HTTP_API_depth, METHOD_GET),
      (HTTP_API_TYPE_TRADES, HTTP_PROTOCOL_HTTPS, HTTP_API_trades, METHOD_GET),
      (HTTP_API_TYPE_KLINE, HTTP_PROTOCOL_HTTPS, HTTP_API_kline, METHOD_GET),
      (HTTP_API_TYPE_USERINFO, HTTP_PROTOCOL_HTTPS, HTTP_API_USERINFO, METHOD_POST),
      (HTTP_API_TYPE_TRADE, HTTP_PROTOCOL_HTTPS, HTTP_API_TRADE, METHOD_POST),
      (HTTP_API_TYPE_TRADE_HISTORY, HTTP_PROTOCOL_HTTPS, HTTP_API_TRADE_HISTORY, METHOD_POST),
      (HTTP_API_TYPE_BATCH_TRADE, HTTP_PROTOCOL_HTTPS, HTTP_API_BATCH_TRADE, METHOD_POST),
      (HTTP_API_TYPE_CANCEL_ORDER, HTTP_PROTOCOL_HTTPS, HTTP_API_CANCEL_ORDER, METHOD_POST),
      (HTTP_API_TYPE_ORDER_INFO, HTTP_PROTOCOL_HTTPS, HTTP_API_ORDER_INFO, METHOD_POST),
      (HTTP_API_TYPE_ORDERS_INFO, HTTP_PROTOCOL_HTTPS, HTTP_API_ORDERS_INFO, METHOD_POST),
      (HTTP_API_TYPE_ORDER_HISTORY, HTTP_PROTOCOL_HTTPS, HTTP_API_ORDER_HISTORY, METHOD_POST),
      (HTTP_API_TYPE_WITHDRAW, HTTP_PROTOCOL_HTTPS, HTTP_API_WITHDRAW, METHOD_POST),
      (HTTP_API_TYPE_CANCEL_WITHDRAW, HTTP_PROTOCOL_HTTPS, HTTP_API_CANCEL_WITHDRAW, METHOD_POST),
      (HTTP_API_TYPE_ORDER_FEE, HTTP_PROTOCOL_HTTPS, HTTP_API_ORDER_FEE, METHOD_POST),
      (HTTP_API_TYPE_LEND_DEPTH, HTTP_PROTOCOL_HTTPS, HTTP_API_LEND_DEPTH, METHOD_POST),
      (HTTP_API_TYPE_BORROWS_INFO, HTTP_PROTOCOL_HTTPS, HTTP_API_BORROWS_INFO, METHOD_POST),
      (HTTP_API_TYPE_BORROW_MONEY, HTTP_PROTOCOL_HTTPS, HTTP_API_BORROW_MONEY, METHOD_POST),
      (HTTP_API_TYPE_CANCEL_BORROW, HTTP_PROTOCOL_HTTPS, HTTP_API_CANCEL_BORROW, METHOD_POST),
      (HTTP_API_TYPE_BORROW_ORDER_INFO, HTTP_PROTOCOL_HTTPS, HTTP_API_BORROW_ORDER_INFO, METHOD_POST),
      (HTTP_API_TYPE_REPAYMENT, HTTP_PROTOCOL_HTTPS, HTTP_API_REPAYMENT, METHOD_POST),
      (HTTP_API_TYPE_UNREPAYMENTS_INFO, HTTP_PROTOCOL_HTTPS, HTTP_API_UNREPAYMENTS_INFO, METHOD_POST),
      (HTTP_API_TYPE_ACCOUNT_RECORDS, HTTP_PROTOCOL_HTTPS, HTTP_API_ACCOUNT_RECORDS, METHOD_POST)]"

definition future_apis :: "api_call list" where
  "future_apis =
     [(HTTP_API_TYPE_FUTURE_TICKER, HTTP_PROTOCOL_HTTPS, HTTP_API_FUTURE_TICKER, METHOD_GET),
      (HTTP_API_TYPE_FUTURE_DEPTH, HTTP_PROTOCOL_HTTPS, HTTP_API_FUTURE_DEPTH, METHOD_GET),
      (HTTP_API_TYPE_FUTURE_TRADES, HTTP_PROTOCOL_HTTPS, HTTP_API_FUTURE_TRADES, METHOD_GET),
      (HTTP_API_TYPE_FUTURE_INDEX, HTTP_PROTOCOL_HTTPS, HTTP_API_FUTURE_INDEX, METHOD_GET),
      (HTTP_API_TYPE_EXCHANGE_RATE, HTTP_PROTOCOL_HTTPS, HTTP_API_EXCHANGE_RATE, METHOD_GET),
      (HTTP_API_TYPE_FUTURE_ESTIMATED_PRICE, HTTP_PROTOCOL_HTTPS, HTTP_API_FUTURE_ESTIMATED_PRICE, METHOD_GET),
      (HTTP_API_TYPE_FUTURE_KLINE, HTTP_PROTOCOL_HTTPS, HTTP_API_FUTURE_KLINE, METHOD_GET),
      (HTTP_API_TYPE_FUTURE_HOLD_AMOUNT, HTTP_PROTOCOL_HTTPS, HTTP_API_FUTURE_HOLD_AMOUNT, METHOD_GET),
      (HTTP_API_TYPE_FUTURE_USERINFO, HTTP_PROTOCOL_HTTPS, HTTP_API_FUTURE_USERINFO, METHOD_POST),
      (HTTP_API_TYPE_FUTURE_POSITION, HTTP_PROTOCOL_HTTPS, HTTP_API_FUTURE_POSITION, METHOD_POST),
      (HTTP_API_TYPE_FUTURE_TRADE, HTTP_PROTOCOL_HTTPS, HTTP_API_FUTURE_TRADE, METHOD_POST),
      (HTTP_API_TYPE_FUTURE_TRADES_HISTORY, HTTP_PROTOCOL_HTTPS, HTTP_API_FUTURE_TRADES_HISTORY, METHOD_POST),
      (HTTP_API_TYPE_FUTURE_BATCH_TRADE, HTTP_PROTOCOL_HTTPS, HTTP_API_FUTURE_BATCH_TRADE, METHOD_POST),
      (HTTP_API_TYPE_FUTURE_CANCEL, HTTP_PROTOCOL_HTTPS, HTTP_API_FUTURE_CANCEL, METHOD_POST),
      (HTTP_API_TYPE_FUTURE_ORDER_INFO, HTTP_PROTOCOL_HTTPS, HTTP_API_FUTURE_ORDER_INFO, METHOD_POST),
      (HTTP_API_TYPE_FUTURE_ORDERS_INFO, HTTP_PROTOCOL_HTTPS, HTTP_API_FUTURE_ORDERS_INFO, METHOD_POST),
      (HTTP_API_TYPE_FUTURE_USERINFO_4FIX, HTTP_PROTOCOL_HTTPS, HTTP_API_FUTURE_USERINFO_4FIX, METHOD_POST),
      (HTTP_API_TYPE_FUTURE_POSITION_4FIX, HTTP_PROTOCOL_HTTPS, HTTP_API_FUTURE_POSITION_4FIX, METHOD_POST),
      (HTTP_API_TYPE_FUTURE_EXPLOSIVE, HTTP_PROTOCOL_HTTPS, HTTP_API_FUTURE_EXPLOSIVE, METHOD_POST)]"

definition add_apis :: "api_call list \<Rightarrow> CUrlProtocol \<Rightarrow> CUrlProtocol" where
  "add_apis calls p = fold (\<lambda>(t, pr, a, m). AddApi t pr a m) calls p"

definition InitApi :: "HTTP_SERVER_TYPE \<Rightarrow> CUrlProtocol \<Rightarrow> CUrlProtocol" where
  "InitApi type p =
     (let p = (if type = HTTP_SERVER_TYPE_CN then p\<lparr>cp_domain := URL_DOMAIN_CN\<rparr> else p);
          p = (if type = HTTP_SERVER_TYPE_COM then p\<lparr>cp_domain := URL_DOMAIN_COM\<rparr> else p);
          p = add_apis spot_apis p
      in if type = HTTP_SERVER_TYPE_COM then add_apis future_apis p else p)"

definition protocol_GetUrl :: "HTTP_PROTOCL_TYPE \<Rightarrow> CUrlProtocol \<Rightarrow> Uri \<Rightarrow> Uri" where
  "protocol_GetUrl http_protocl_type p u =
     (case m_urllist p http_protocl_type of
        None \<Rightarrow> u
      | Some u' \<Rightarrow> (uri_ClearParam u')\<lparr>isinit := True\<rparr>)"

subsection \<open>What the table holds\<close>

lemma AddApi_domain [simp]: "cp_domain (AddApi t pr a m p) = cp_domain p"
  by (simp add: AddApi_def)

lemma add_apis_domain [simp]: "cp_domain (add_apis cs p) = cp_domain p"
  unfolding add_apis_def by (induction cs arbitrary: p) (auto split: prod.split)

lemma add_apis_lookup:
  "m_urllist (add_apis cs p) t =
     (case map_of (rev cs) t of
        None \<Rightarrow> m_urllist p t
      | Some (pr, a, m) \<Rightarrow> Some (api_entry (cp_domain p) t pr a m))"
  unfolding add_apis_def
proof (induction cs arbitrary: p)
  case (Cons c cs)
  obtain t' pr a m where c: "c = (t', pr, a, m)" by (cases c)
  show ?case
    unfolding c using Cons.IH[of "AddApi t' pr a m p"]
    by (auto simp: map_add_def AddApi_def split: option.splits)
qed simp

definition site_domain :: "HTTP_SERVER_TYPE \<Rightarrow> string" where
  "site_domain type = (case type of HTTP_SERVER_TYPE_CN \<Rightarrow> URL_DOMAIN_CN | HTTP_SERVER_TYPE_COM \<Rightarrow> URL_DOMAIN_COM)"

definition site_apis :: "HTTP_SERVER_TYPE \<Rightarrow> api_call list" where
  "site_apis type = (case type of HTTP_SERVER_TYPE_CN \<Rightarrow> spot_apis | HTTP_SERVER_TYPE_COM \<Rightarrow> spot_apis @ future_apis)"

lemma InitApi_add: "InitApi type p = add_apis (site_apis type) (p\<lparr>cp_domain := site_domain type\<rparr>)"
  by (cases type) (simp_all add: InitApi_def site_apis_def site_domain_def Let_def add_apis_def)

lemma apis_distinct: "distinct (map fst (spot_apis @ future_apis))"
  by (simp add: spot_apis_def future_apis_def)

lemma site_apis_distinct: "distinct (map fst (site_apis type))"
  using apis_distinct by (cases type) (simp_all add: site_apis_def)

lemma map_of_rev: "distinct (map fst xs) \<Longrightarrow> map_of (rev xs) = map_of xs"
  by (rule map_of_inject_set[THEN iffD2]) (simp_all add: rev_map[symmetric])

lemma InitApi_lookup:
  "m_urllist (InitApi type cp_new) t =
     map_option (\<lambda>(pr, a, m). api_entry (site_domain type) t pr a m) (map_of (site_apis type) t)"
proof -
  have "map_of (rev (site_apis type)) = map_of (site_apis type)"
    using map_of_rev[OF site_apis_distinct] .
  then show ?thesis
    by (simp add: InitApi_add add_apis_lookup cp_new_def split: option.split prod.split)
qed

text \<open>A call is well typed: HTTPS, and GET for the market data, POST for what needs the keys.\<close>

definition market_data :: "HTTP_PROTOCL_TYPE \<Rightarrow> bool" where
  "market_data t \<longleftrightarrow>
     t \<in> {HTTP_API_TYPE_TICKER, HTTP_API_TYPE_DEPTH, HTTP_API_TYPE_TRADES, HTTP_API_TYPE_KLINE,
           HTTP_API_TYPE_FUTURE_TICKER, HTTP_API_TYPE_FUTURE_DEPTH, HTTP_API_TYPE_FUTURE_TRADES,
           HTTP_API_TYPE_FUTURE_INDEX, HTTP_API_TYPE_EXCHANGE_RATE,
           HTTP_API_TYPE_FUTURE_ESTIMATED_PRICE, HTTP_API_TYPE_FUTURE_KLINE,
           HTTP_API_TYPE_FUTURE_HOLD_AMOUNT}"

definition api_path_ok :: "string \<Rightarrow> bool" where
  "api_path_ok a \<longleftrightarrow> take 8 a = ''/api/v1/'' \<and> drop (length a - 3) a = ''.do'' \<and> CHR ''?'' \<notin> set a"

fun call_ok :: "api_call \<Rightarrow> bool" where
  "call_ok (t, pr, a, m) \<longleftrightarrow>
     pr = HTTP_PROTOCOL_HTTPS \<and> api_path_ok a \<and> m = (if market_data t then METHOD_GET else METHOD_POST)"

lemmas literals =
  HTTP_API_ticker_def HTTP_API_depth_def HTTP_API_trades_def HTTP_API_kline_def 
  HTTP_API_USERINFO_def HTTP_API_TRADE_def HTTP_API_TRADE_HISTORY_def HTTP_API_BATCH_TRADE_def 
  HTTP_API_CANCEL_ORDER_def HTTP_API_ORDER_INFO_def HTTP_API_ORDERS_INFO_def 
  HTTP_API_ORDER_HISTORY_def HTTP_API_WITHDRAW_def HTTP_API_CANCEL_WITHDRAW_def 
  HTTP_API_ORDER_FEE_def HTTP_API_LEND_DEPTH_def HTTP_API_BORROWS_INFO_def 
  HTTP_API_BORROW_MONEY_def HTTP_API_CANCEL_BORROW_def HTTP_API_BORROW_ORDER_INFO_def 
  HTTP_API_REPAYMENT_def HTTP_API_UNREPAYMENTS_INFO_def HTTP_API_ACCOUNT_RECORDS_def 
  HTTP_API_FUTURE_TICKER_def HTTP_API_FUTURE_DEPTH_def HTTP_API_FUTURE_TRADES_def 
  HTTP_API_FUTURE_INDEX_def HTTP_API_EXCHANGE_RATE_def HTTP_API_FUTURE_ESTIMATED_PRICE_def 
  HTTP_API_FUTURE_KLINE_def HTTP_API_FUTURE_HOLD_AMOUNT_def HTTP_API_FUTURE_USERINFO_def 
  HTTP_API_FUTURE_POSITION_def HTTP_API_FUTURE_TRADE_def HTTP_API_FUTURE_TRADES_HISTORY_def 
  HTTP_API_FUTURE_BATCH_TRADE_def HTTP_API_FUTURE_CANCEL_def HTTP_API_FUTURE_ORDER_INFO_def 
  HTTP_API_FUTURE_ORDERS_INFO_def HTTP_API_FUTURE_USERINFO_4FIX_def 
  HTTP_API_FUTURE_POSITION_4FIX_def HTTP_API_FUTURE_EXPLOSIVE_def 

lemma spot_calls_ok: "list_all call_ok spot_apis"
  by (simp add: spot_apis_def literals api_path_ok_def market_data_def)

lemma future_calls_ok: "list_all call_ok future_apis"
  by (simp add: future_apis_def literals api_path_ok_def market_data_def)

lemma site_calls_ok: "(t, pr, a, m) \<in> set (site_apis type) \<Longrightarrow> call_ok (t, pr, a, m)"
  using spot_calls_ok future_calls_ok
  by (cases type) (auto simp: site_apis_def list_all_iff simp del: call_ok.simps)

text \<open>No two calls share a path.\<close>

lemma paths_distinct: "distinct (map (\<lambda>(t, pr, a, m). a) (spot_apis @ future_apis))"
  by (simp add: spot_apis_def future_apis_def literals)

lemma site_paths_distinct: "distinct (map (\<lambda>(t, pr, a, m). a) (site_apis type))"
  using paths_distinct by (cases type) (simp_all add: site_apis_def)

text \<open>What a request taken from the table is.\<close>

lemma protocol_GetUrl_entry:
  assumes "map_of (site_apis type) t = Some (pr, a, m)"
  shows "protocol_GetUrl t (InitApi type cp_new) u =
     uri_new\<lparr>isinit := True, uri_type := type_value t, protocol := HTTP_PROTOCOL_HTTPS,
       protoclstr := URL_PROTOCOL_HTTPS, domain := site_domain type, uri_api := a, uri_method := m\<rparr>"
proof -
  have "pr = HTTP_PROTOCOL_HTTPS"
    using site_calls_ok[of t pr a m type] map_of_SomeD[OF assms] by simp
  then show ?thesis
    using assms by (simp add: protocol_GetUrl_def InitApi_lookup api_entry_def uri_new_def
        uri_ClearParam_def cup_Clear_def)
qed

lemma protocol_GetUrl_unknown: "m_urllist p t = None \<Longrightarrow> protocol_GetUrl t p u = u"
  by (simp add: protocol_GetUrl_def)

end
