(* ===== verification/Curls.thy ===== *)
theory Curls
  imports Uris
begin

section \<open>curl.h and curl.cpp: one transfer\<close>

text \<open>
  \<open>CUrl::requset\<close> sets the options of a libcurl handle, performs the transfer and takes the body
  from the buffer that the write callback filled. libcurl is a parameter: \<open>perform\<close> gives, for
  the options in the order they were set, what it will pass to the callbacks and return.
\<close>

datatype curl_option =
    CURLOPT_URL string
  | CURLOPT_SSL_VERIFYPEER bool
  | CURLOPT_CAINFO string
  | CURLOPT_SSL_VERIFYHOST int
  | CURLOPT_NOSIGNAL int
  | CURLOPT_FORBID_REUSE int
  | CURLOPT_FOLLOWLOCATION int
  | CURLOPT_TIMEOUT int
  | CURLOPT_USERAGENT string
  | CURLOPT_POST int
  | CURLOPT_POSTFIELDS string
  | CURLOPT_HTTPGET bool

text \<open>The buffers of the write callback, the answers of \<open>curl_easy_getinfo\<close> during the transfer
  (\<open>-1\<close> for an unknown length) and the result of \<open>curl_easy_perform\<close>.\<close>

record transfer =
  body_chunks :: "string list"
  response_code :: int
  content_length :: int
  content_type :: "string option"
  perform_code :: int

type_synonym libcurl = "curl_option list \<Rightarrow> transfer option"

definition CURLE_FAILED_INIT :: int where "CURLE_FAILED_INIT = 2"

record CUrl =
  isheadread :: bool
  curl_code :: int
  retcode :: int
  curl_handle :: bool
  dataverify :: bool
  file_size :: int
  curl_request_size :: int
  contenttype_str :: string
  isfirstwirte :: bool

definition CUrl_new :: CUrl where
  "CUrl_new =
     \<lparr>isheadread = False, curl_code = CURLE_OK, retcode = 0, curl_handle = False, dataverify = False,
      file_size = 0, curl_request_size = 0, contenttype_str = [], isfirstwirte = True\<rparr>"

subsection \<open>The callbacks\<close>

definition get_response_code :: "transfer \<Rightarrow> CUrl \<Rightarrow> CUrl" where
  "get_response_code t c = c\<lparr>curl_code := CURLE_OK, retcode := response_code t\<rparr>"

definition get_response_length :: "transfer \<Rightarrow> CUrl \<Rightarrow> CUrl" where
  "get_response_length t c = c\<lparr>curl_code := CURLE_OK, curl_request_size := content_length t\<rparr>"

definition get_response_contenttype :: "transfer \<Rightarrow> CUrl \<Rightarrow> CUrl" where
  "get_response_contenttype t c =
     (case content_type t of
        None \<Rightarrow> c\<lparr>curl_code := CURLE_OK\<rparr>
      | Some s \<Rightarrow> c\<lparr>curl_code := CURLE_OK, contenttype_str := cstr s\<rparr>)"

text \<open>The part of the callback that runs for the first buffer.\<close>

definition first_write :: "transfer \<Rightarrow> CUrl \<times> Uri \<Rightarrow> CUrl \<times> Uri" where
  "first_write t = (\<lambda>(c, u).
     if isfirstwirte c
     then let c = get_response_contenttype t (get_response_length t (get_response_code t c))
          in (c, u\<lparr>request_size := curl_request_size c, request_cursize := 0\<rparr>)
     else (c, u))"

text \<open>\<open>curbuf[request_size] = 0\<close>.\<close>

definition terminate_buf :: "Uri \<Rightarrow> buffer \<Rightarrow> buffer result" where
  "terminate_buf u b = buf_write (request_size u) [CHR 0x00] b"

text \<open>The length is known: the buffer is allocated for it once.\<close>

definition write_known :: "CUrl \<Rightarrow> string \<Rightarrow> Uri \<Rightarrow> Uri result" where
  "write_known c data u =
     (let b = (case curbuf u of None \<Rightarrow> buf_malloc (curl_request_size c + 1) | Some b \<Rightarrow> b);
          count = int (length data)
      in bind_result (buf_write (request_cursize u) data b) (\<lambda>b.
         bind_result (terminate_buf u b) (\<lambda>b.
           Inr (u\<lparr>curbuf := Some b, request_cursize := request_cursize u + count,
                  curbuf_size := curbuf_size u + count\<rparr>))))"

text \<open>The length is not known: the buffer grows with every call.\<close>

definition write_unknown :: "string \<Rightarrow> Uri \<Rightarrow> Uri result" where
  "write_unknown data u =
     (let count = int (length data)
      in case curbuf u of
           None \<Rightarrow>
             bind_result (buf_write 0 data (buf_malloc (count + 1))) (\<lambda>b.
               let u = u\<lparr>request_cursize := count, request_size := count, curbuf_size := count\<rparr>
               in bind_result (terminate_buf u b) (\<lambda>b. Inr (u\<lparr>curbuf := Some b\<rparr>)))
         | Some b \<Rightarrow>
             bind_result (buf_write (request_size u) data (buf_realloc (request_size u + count + 1) b)) (\<lambda>b.
               let u = u\<lparr>request_cursize := request_cursize u + count,
                         request_size := request_size u + count, curbuf_size := curbuf_size u + count\<rparr>
               in bind_result (terminate_buf u b) (\<lambda>b. Inr (u\<lparr>curbuf := Some b\<rparr>))))"

text \<open>The callback; it returns the number of bytes it took. A null \<open>pcurl\<close> is dereferenced.\<close>

definition call_wirte_func :: "transfer \<Rightarrow> string \<Rightarrow> CUrl \<times> Uri \<Rightarrow> (int \<times> CUrl \<times> Uri) result" where
  "call_wirte_func t data s =
     (if \<not> pcurl (snd s) then Inl Undefined_Behaviour
      else case first_write t s of
             (c, u) \<Rightarrow>
               bind_result (if 0 < curl_request_size c then write_known c data u else write_unknown data u) (\<lambda>u.
                 Inr (int (length data), c\<lparr>isfirstwirte := False\<rparr>, u)))"

text \<open>The header callback copies the header and drops it.\<close>

definition header_callback :: "string \<Rightarrow> CUrl \<times> Uri \<Rightarrow> int \<times> CUrl \<times> Uri" where
  "header_callback header s = (int (length header), s)"

fun deliver_body :: "transfer \<Rightarrow> string list \<Rightarrow> CUrl \<times> Uri \<Rightarrow> (CUrl \<times> Uri) result" where
  "deliver_body t [] s = Inr s"
| "deliver_body t (d # ds) s =
     bind_result (call_wirte_func t d s) (\<lambda>(count, s'). deliver_body t ds s')"

subsection \<open>requset\<close>

text \<open>The address: with the parameters for GET.\<close>

definition request_url :: "Uri \<Rightarrow> string" where
  "request_url u =
     (let urlstr = fst (uri_GetUrl u); params = uri_GetParamSet u
      in if uri_method u = METHOD_GET \<and> params \<noteq> [] then urlstr @ ''?'' @ params else urlstr)"

definition request_options :: "Uri \<Rightarrow> curl_option list" where
  "request_options u =
     [CURLOPT_URL (cstr (request_url u))] @
     (if protocol u = HTTP_PROTOCOL_HTTPS
      then [CURLOPT_SSL_VERIFYPEER True, CURLOPT_CAINFO ''./root.pem'', CURLOPT_SSL_VERIFYHOST 2] else []) @
     [CURLOPT_NOSIGNAL 1, CURLOPT_FORBID_REUSE 1, CURLOPT_FOLLOWLOCATION 1, CURLOPT_TIMEOUT 20,
      CURLOPT_USERAGENT ''Mozilla/5.0 (xaioguxian; rv:1.0.0) xaioguxian''] @
     (if uri_method u = METHOD_POST
      then [CURLOPT_POST 1, CURLOPT_POSTFIELDS (cstr (uri_GetParamSet u))] else []) @
     (if uri_method u = METHOD_GET then [CURLOPT_HTTPGET True] else [])"

text \<open>\<open>set_share_handle\<close> is called before there is a handle and has no effect on it.\<close>

definition requset :: "libcurl \<Rightarrow> CUrl \<Rightarrow> Uri \<Rightarrow> (CUrl \<times> Uri) result" where
  "requset perform c u =
     (let u = u\<lparr>pcurl := True\<rparr>; u' = snd (uri_GetUrl u)
      in case perform (request_options u') of
           None \<Rightarrow> Inr (c, u\<lparr>errcode := CURLE_FAILED_INIT\<rparr>)
         | Some t \<Rightarrow>
             bind_result (deliver_body t (body_chunks t) (c\<lparr>curl_handle := True\<rparr>, u')) (\<lambda>(c, u).
             let u = u\<lparr>errcode := perform_code t\<rparr>
             in bind_result (if errcode u = CURLE_OK then uri_GetUTF8Result u else Inr u) (\<lambda>u.
                  Inr (c\<lparr>curl_handle := False\<rparr>, u))))"

text \<open>\<open>Uri::Requset\<close>.\<close>

definition uri_Requset :: "libcurl \<Rightarrow> Uri \<Rightarrow> Uri result" where
  "uri_Requset perform u =
     (if isinit u
      then bind_result (requset perform CUrl_new u) (\<lambda>(c, u). Inr (u\<lparr>pcurl := False\<rparr>))
      else Inr u)"

subsection \<open>What the callback collects\<close>

lemma first_write_later: "\<not> isfirstwirte c \<Longrightarrow> first_write t (c, u) = (c, u)"
  by (simp add: first_write_def)

lemma first_write_first:
  "isfirstwirte c \<Longrightarrow> \<exists>c'. first_write t (c, u) =
     (c', u\<lparr>request_size := content_length t, request_cursize := 0\<rparr>) \<and>
     curl_request_size c' = content_length t \<and> isfirstwirte c'"
  by (cases "content_type t")
    (auto simp: first_write_def Let_def get_response_contenttype_def get_response_length_def get_response_code_def)

text \<open>The buffer for a known length \<open>n\<close> after the bytes \<open>s\<close>.\<close>

definition known_buf :: "nat \<Rightarrow> string \<Rightarrow> buffer" where
  "known_buf n s = map Some s @ replicate (n - length s) None @ [Some (CHR 0x00)]"

lemma write_known_first:
  assumes "curbuf u = None" "request_cursize u = 0" "curl_request_size c = int n" "request_size u = int n"
    and "length data \<le> n"
  shows "write_known c data u =
     Inr (u\<lparr>curbuf := Some (known_buf n data), request_cursize := int (length data),
            curbuf_size := curbuf_size u + int (length data)\<rparr>)"
proof -
  let ?k = "n - length data"
  have m: "buf_malloc (int n + 1) = [] @ replicate (length data) None @ (replicate ?k None @ [None])"
  proof -
    have n: "nat (int n + 1) = length data + (?k + 1)" using assms(5) by simp
    show ?thesis
      unfolding buf_malloc_def n replicate_add by simp
  qed
  have w: "buf_write 0 data (buf_malloc (int n + 1)) = Inr (map Some data @ replicate ?k None @ [None])"
    unfolding m by (subst buf_write_at) simp_all
  have "buf_write (int n) [CHR 0x00] ((map Some data @ replicate ?k None) @ [None] @ []) =
      Inr ((map Some data @ replicate ?k None) @ map Some [CHR 0x00] @ [])"
    by (rule buf_write_at) (use assms(5) in simp_all)
  then show ?thesis
    using assms w by (simp add: write_known_def terminate_buf_def known_buf_def Let_def)
qed

lemma write_known_next:
  assumes "curbuf u = Some (known_buf n s)" "request_cursize u = int (length s)" "request_size u = int n"
    and "length s + length data \<le> n"
  shows "write_known c data u =
     Inr (u\<lparr>curbuf := Some (known_buf n (s @ data)), request_cursize := int (length (s @ data)),
            curbuf_size := curbuf_size u + int (length data)\<rparr>)"
proof -
  let ?k = "n - length s - length data"
  have "n - length s = length data + ?k" using assms(4) by simp
  then have b: "known_buf n s = map Some s @ replicate (length data) None @ (replicate ?k None @ [Some (CHR 0x00)])"
    by (simp add: known_buf_def replicate_add)
  have w: "buf_write (int (length s)) data (known_buf n s) =
      Inr (map Some s @ map Some data @ replicate ?k None @ [Some (CHR 0x00)])"
    unfolding b by (rule buf_write_at) simp_all
  have "buf_write (int n) [CHR 0x00]
        ((map Some s @ map Some data @ replicate ?k None) @ [Some (CHR 0x00)] @ []) =
      Inr ((map Some s @ map Some data @ replicate ?k None) @ map Some [CHR 0x00] @ [])"
    by (rule buf_write_at) (use assms(4) in simp_all)
  then show ?thesis
    using assms w by (simp add: write_known_def terminate_buf_def known_buf_def Let_def)
qed

text \<open>More bytes than announced are written past the end of the buffer.\<close>

lemma write_known_overflow:
  assumes "curbuf u = Some (known_buf n s)" "request_cursize u = int (length s)"
    and "length s \<le> n" "n + 1 < length s + length data"
  shows "write_known c data u = Inl Undefined_Behaviour"
  using assms by (simp add: write_known_def known_buf_def buf_write_outside)

text \<open>The buffer for an unknown length holds what came and the NUL.\<close>

definition grown_buf :: "string \<Rightarrow> buffer" where
  "grown_buf s = map Some s @ [Some (CHR 0x00)]"

lemma write_unknown_first:
  assumes "curbuf u = None"
  shows "write_unknown data u =
     Inr (u\<lparr>curbuf := Some (grown_buf data), request_cursize := int (length data),
            request_size := int (length data), curbuf_size := int (length data)\<rparr>)"
proof -
  have "buf_malloc (int (length data) + 1) = [] @ replicate (length data) None @ [None]"
    by (simp add: buf_malloc_def nat_add_distrib replicate_append_same)
  then have "buf_write 0 data (buf_malloc (int (length data) + 1)) = Inr (map Some data @ [None])"
    using buf_write_at[of 0 "[]" "replicate (length data) None" data "[None]"] by simp
  moreover have "buf_write (int (length data)) [CHR 0x00] (map Some data @ [None] @ []) =
      Inr (map Some data @ map Some [CHR 0x00] @ [])"
    by (rule buf_write_at) simp_all
  ultimately show ?thesis
    using assms by (simp add: write_unknown_def terminate_buf_def grown_buf_def Let_def)
qed

lemma write_unknown_next:
  assumes "curbuf u = Some (grown_buf s)" "request_size u = int (length s)"
  shows "write_unknown data u =
     Inr (u\<lparr>curbuf := Some (grown_buf (s @ data)), request_cursize := request_cursize u + int (length data),
            request_size := int (length (s @ data)), curbuf_size := curbuf_size u + int (length data)\<rparr>)"
proof (cases "data = []")
  case True
  have "buf_realloc (int (length s) + 1) (grown_buf s) = grown_buf s"
    by (simp add: buf_realloc_def grown_buf_def nat_add_distrib)
  moreover have "buf_write (int (length s)) [CHR 0x00] (map Some s @ [Some (CHR 0x00)] @ []) =
      Inr (map Some s @ map Some [CHR 0x00] @ [])"
    by (rule buf_write_at) simp_all
  ultimately show ?thesis
    using True assms by (simp add: write_unknown_def terminate_buf_def grown_buf_def buf_write_def Let_def)
next
  case False
  let ?d = "length data"
  have b: "buf_realloc (int (length s) + int ?d + 1) (grown_buf s) =
      map Some s @ (Some (CHR 0x00) # replicate (?d - 1) None) @ [None]"
  proof -
    have "nat (int (length s) + int ?d + 1) = length s + ?d + 1" by simp
    moreover have "?d = Suc (?d - 1)" using False by (cases data) auto
    then have "replicate ?d (None :: char option) = replicate (?d - 1) None @ [None]"
      by (metis replicate_Suc replicate_append_same)
    ultimately show ?thesis by (simp add: buf_realloc_def grown_buf_def)
  qed
  have w: "buf_write (int (length s)) data
        (map Some s @ (Some (CHR 0x00) # replicate (?d - 1) None) @ [None]) =
      Inr (map Some s @ map Some data @ [None])"
    by (rule buf_write_at) (use False in \<open>cases data; simp\<close>)+
  have "buf_write (int (length s) + int ?d) [CHR 0x00] ((map Some s @ map Some data) @ [None] @ []) =
      Inr ((map Some s @ map Some data) @ map Some [CHR 0x00] @ [])"
    by (rule buf_write_at) simp_all
  then show ?thesis
    using assms w b by (simp add: write_unknown_def terminate_buf_def grown_buf_def Let_def)
qed

text \<open>The whole body, after the first buffer.\<close>

lemma deliver_known:
  assumes "\<not> isfirstwirte c" "0 < n" "curl_request_size c = int n" "pcurl u" "request_size u = int n"
    and "curbuf u = Some (known_buf n s)" "request_cursize u = int (length s)"
    and "length s + length (concat ds) \<le> n"
  shows "\<exists>u'. deliver_body t ds (c, u) = Inr (c, u') \<and> curbuf u' = Some (known_buf n (s @ concat ds)) \<and>
           u' = u\<lparr>curbuf := curbuf u', request_cursize := request_cursize u', curbuf_size := curbuf_size u'\<rparr>"
  using assms
proof (induction ds arbitrary: s u)
  case (Cons d ds)
  let ?u = "u\<lparr>curbuf := Some (known_buf n (s @ d)), request_cursize := int (length (s @ d)),
              curbuf_size := curbuf_size u + int (length d)\<rparr>"
  have "write_known c d u = Inr ?u"
    by (rule write_known_next) (use Cons.prems in simp_all)
  then have step: "call_wirte_func t d (c, u) = Inr (int (length d), c, ?u)"
    using Cons.prems by (simp add: call_wirte_func_def first_write_later)
  obtain u' where "deliver_body t ds (c, ?u) = Inr (c, u')" "curbuf u' = Some (known_buf n ((s @ d) @ concat ds))"
    "u' = ?u\<lparr>curbuf := curbuf u', request_cursize := request_cursize u', curbuf_size := curbuf_size u'\<rparr>"
    using Cons.IH[of ?u "s @ d"] Cons.prems by auto
  with step show ?case by (intro exI[of _ u']) simp
qed simp

lemma deliver_unknown:
  assumes "\<not> isfirstwirte c" "curl_request_size c \<le> 0" "pcurl u" "request_size u = int (length s)"
    and "curbuf u = Some (grown_buf s)"
  shows "\<exists>u'. deliver_body t ds (c, u) = Inr (c, u') \<and> curbuf u' = Some (grown_buf (s @ concat ds)) \<and>
           u' = u\<lparr>curbuf := curbuf u', request_size := request_size u',
                 request_cursize := request_cursize u', curbuf_size := curbuf_size u'\<rparr>"
  using assms
proof (induction ds arbitrary: s u)
  case (Cons d ds)
  let ?u = "u\<lparr>curbuf := Some (grown_buf (s @ d)), request_cursize := request_cursize u + int (length d),
            request_size := int (length (s @ d)), curbuf_size := curbuf_size u + int (length d)\<rparr>"
  have "write_unknown d u = Inr ?u"
    by (rule write_unknown_next) (use Cons.prems in simp_all)
  then have step: "call_wirte_func t d (c, u) = Inr (int (length d), c, ?u)"
    using Cons.prems by (simp add: call_wirte_func_def first_write_later)
  obtain u' where "deliver_body t ds (c, ?u) = Inr (c, u')" "curbuf u' = Some (grown_buf ((s @ d) @ concat ds))"
    "u' = ?u\<lparr>curbuf := curbuf u', request_size := request_size u',
            request_cursize := request_cursize u', curbuf_size := curbuf_size u'\<rparr>"
    using Cons.IH[of ?u "s @ d"] Cons.prems by auto
  with step show ?case by (intro exI[of _ u']) simp
qed simp

text \<open>A transfer that delivers what it announced: the documented behaviour of libcurl for a
  transfer that it reports as complete.\<close>

definition complete :: "transfer \<Rightarrow> bool" where
  "complete t \<longleftrightarrow>
     perform_code t = CURLE_OK \<and>
     (0 < content_length t \<longrightarrow> int (length (concat (body_chunks t))) = content_length t)"

lemma buf_cstr_bufs:
  "buf_cstr (grown_buf s) = Inr (cstr s)" "buf_cstr (known_buf (length s) s) = Inr (cstr s)"
  using buf_cstr_string[of s "[]"] by (simp_all add: grown_buf_def known_buf_def)

lemma deliver_complete:
  assumes "complete t" "isfirstwirte c" "pcurl u" "curbuf u = None" "body_chunks t \<noteq> []"
  shows "\<exists>c' u'. deliver_body t (body_chunks t) (c, u) = Inr (c', u') \<and>
           (\<exists>b. curbuf u' = Some b \<and> buf_cstr b = Inr (cstr (concat (body_chunks t)))) \<and>
           m_param u' = m_param u"
proof -
  obtain d ds where ds: "body_chunks t = d # ds" using assms(5) by (cases "body_chunks t") auto
  obtain c1 where fst1: "first_write t (c, u) =
      (c1, u\<lparr>request_size := content_length t, request_cursize := 0\<rparr>)"
    and c1: "curl_request_size c1 = content_length t"
    using first_write_first[OF assms(2)] by blast
  let ?u1 = "u\<lparr>request_size := content_length t, request_cursize := 0\<rparr>"
  let ?c2 = "c1\<lparr>isfirstwirte := False\<rparr>"
  show ?thesis
  proof (cases "0 < content_length t")
    case True
    let ?n = "length (concat (d # ds))"
    have len: "content_length t = int ?n" using assms(1) True ds unfolding complete_def by simp
    have pos: "0 < ?n" using True len by linarith
    let ?u2 = "?u1\<lparr>curbuf := Some (known_buf ?n d), request_cursize := int (length d),
            curbuf_size := curbuf_size ?u1 + int (length d)\<rparr>"
    have "write_known c1 d ?u1 = Inr ?u2"
      by (rule write_known_first) (use assms(4) c1 len in simp_all)
    then have step: "call_wirte_func t d (c, u) = Inr (int (length d), ?c2, ?u2)"
      using assms(3) fst1 c1 True by (simp add: call_wirte_func_def)
    obtain u' where u': "deliver_body t ds (?c2, ?u2) = Inr (?c2, u')"
      "curbuf u' = Some (known_buf ?n (d @ concat ds))"
      "u' = ?u2\<lparr>curbuf := curbuf u', request_cursize := request_cursize u', curbuf_size := curbuf_size u'\<rparr>"
    proof -
      have "\<exists>u'. deliver_body t ds (?c2, ?u2) = Inr (?c2, u') \<and> curbuf u' = Some (known_buf ?n (d @ concat ds)) \<and>
          u' = ?u2\<lparr>curbuf := curbuf u', request_cursize := request_cursize u', curbuf_size := curbuf_size u'\<rparr>"
        using pos by (intro deliver_known) (use c1 len assms(3) in simp_all)
      with that show thesis by blast
    qed
    have "m_param u' = m_param u" by (subst u'(3)) simp
    with step u'(1,2) buf_cstr_bufs(2)[of "concat (d # ds)"] show ?thesis
      unfolding ds by (intro exI[of _ ?c2] exI[of _ u']) simp
  next
    case False
    let ?u2 = "?u1\<lparr>curbuf := Some (grown_buf d), request_cursize := int (length d),
            request_size := int (length d), curbuf_size := int (length d)\<rparr>"
    have "write_unknown d ?u1 = Inr ?u2"
      by (rule write_unknown_first) (use assms(4) in simp)
    then have step: "call_wirte_func t d (c, u) = Inr (int (length d), ?c2, ?u2)"
      using assms(3) fst1 c1 False by (simp add: call_wirte_func_def)
    obtain u' where u': "deliver_body t ds (?c2, ?u2) = Inr (?c2, u')"
      "curbuf u' = Some (grown_buf (d @ concat ds))"
      "u' = ?u2\<lparr>curbuf := curbuf u', request_size := request_size u',
            request_cursize := request_cursize u', curbuf_size := curbuf_size u'\<rparr>"
      using deliver_unknown[of ?c2 ?u2 d t ds] c1 False assms(3) by auto
    have "m_param u' = m_param u" by (subst u'(3)) simp
    with step u'(1,2) buf_cstr_bufs(1)[of "concat (d # ds)"] show ?thesis
      unfolding ds by (intro exI[of _ ?c2] exI[of _ u']) simp
  qed
qed

subsection \<open>A request\<close>

text \<open>The answer is the body of the transfer, however it was cut; the parameters are as they were.\<close>

lemma uri_Requset_complete:
  assumes "isinit u" "curbuf u = None" "uri_result u = []"
    and "perform (request_options u) = Some t" "complete t"
  shows "\<exists>u'. uri_Requset perform u = Inr u' \<and> uri_result u' = cstr (concat (body_chunks t)) \<and>
           curbuf u' = None \<and> \<not> pcurl u' \<and> errcode u' = CURLE_OK"
proof -
  let ?u = "snd (uri_GetUrl (u\<lparr>pcurl := True\<rparr>))"
  have opts: "request_options ?u = request_options u"
    by (simp add: request_options_def request_url_def uri_GetUrl_def uri_GetParamSet_def Let_def)
  have ok: "perform_code t = CURLE_OK" using assms(5) by (simp add: complete_def)
  have props: "curbuf ?u = None" "pcurl ?u" "uri_result ?u = []"
    using assms(2,3) by (simp_all add: uri_GetUrl_def Let_def)
  show ?thesis
  proof (cases "body_chunks t")
    case Nil
    with assms ok opts props show ?thesis
      by (simp add: uri_Requset_def requset_def Let_def uri_GetUTF8Result_def cstr_def)
  next
    case (Cons d ds)
    then have ne: "body_chunks t \<noteq> []" by simp
    obtain c' u' b where d: "deliver_body t (body_chunks t) (CUrl_new\<lparr>curl_handle := True\<rparr>, ?u) = Inr (c', u')"
      "curbuf u' = Some b" "buf_cstr b = Inr (cstr (concat (body_chunks t)))"
      using deliver_complete[OF assms(5) _ props(2,1) ne, of "CUrl_new\<lparr>curl_handle := True\<rparr>"]
      by (auto simp: CUrl_new_def)
    with assms ok opts show ?thesis
      by (simp add: uri_Requset_def requset_def Let_def uri_GetUTF8Result_def)
  qed
qed

text \<open>A request that is not in the table is not sent.\<close>

lemma uri_Requset_not_init: "\<not> isinit u \<Longrightarrow> uri_Requset perform u = Inr u"
  by (simp add: uri_Requset_def)

text \<open>A transfer that libcurl reports as failed leaves the result as it was.\<close>

lemma call_wirte_func_result:
  assumes "call_wirte_func t d (c, u) = Inr (n, c', u')"
  shows "uri_result u' = uri_result u"
proof -
  have "uri_result (snd (first_write t (c, u))) = uri_result u"
    by (simp add: first_write_def Let_def)
  with assms show ?thesis
    by (auto simp: call_wirte_func_def write_known_def write_unknown_def Let_def bind_result_eq_Inr
        split: prod.splits if_splits option.splits)
qed

lemma deliver_body_result: "deliver_body t ds (c, u) = Inr (c', u') \<Longrightarrow> uri_result u' = uri_result u"
  by (induction ds arbitrary: c u) (auto simp: bind_result_eq_Inr dest!: call_wirte_func_result)

lemma uri_Requset_failed:
  assumes "isinit u" "perform (request_options u) = Some t" "perform_code t \<noteq> CURLE_OK"
    and "uri_Requset perform u = Inr u'"
  shows "errcode u' = perform_code t \<and> \<not> pcurl u' \<and> uri_result u' = uri_result u"
proof -
  let ?u = "snd (uri_GetUrl (u\<lparr>pcurl := True\<rparr>))"
  have "request_options ?u = request_options u" "uri_result ?u = uri_result u"
    by (simp_all add: request_options_def request_url_def uri_GetUrl_def uri_GetParamSet_def Let_def)
  with assms show ?thesis
    by (auto simp: uri_Requset_def requset_def Let_def bind_result_eq_Inr dest!: deliver_body_result)
qed

text \<open>A server that sends more than it announced makes the callback write past its buffer.\<close>

lemma body_overflow:
  assumes "isfirstwirte c" "pcurl u" "curbuf u = None" "content_length t = int n" "0 < n"
    and "n + 1 < length d"
  shows "call_wirte_func t d (c, u) = Inl Undefined_Behaviour"
proof -
  obtain c1 where "first_write t (c, u) =
      (c1, u\<lparr>request_size := content_length t, request_cursize := 0\<rparr>)" "curl_request_size c1 = content_length t"
    using first_write_first[OF assms(1)] by blast
  with assms show ?thesis
    by (simp add: call_wirte_func_def write_known_def buf_malloc_def buf_write_def nat_add_distrib Let_def)
qed

end
