(* ===== verification/Okcoin_Api.thy ===== *)
theory Okcoin_Api
  imports Curl_Protocol Curls
begin

section \<open>okcoinapi.h and okcoinapi.cpp: the calls of the REST interface\<close>

text \<open>
  Every call takes its request from the table, adds its parameters, signs them if it needs the
  keys, and returns the body of the answer. libcurl (\<open>net\<close>) is a parameter.
\<close>

record OKCoinApi =
  urlprotocol :: CUrlProtocol
  rest_api_key :: string
  rest_secret_key :: string

definition rest_SetKey :: "string \<Rightarrow> string \<Rightarrow> OKCoinApi \<Rightarrow> OKCoinApi" where
  "rest_SetKey api_key secret_key a = a\<lparr>rest_api_key := api_key, rest_secret_key := secret_key\<rparr>"

definition rest_new :: OKCoinApi where
  "rest_new = \<lparr>urlprotocol = cp_new, rest_api_key = [], rest_secret_key = []\<rparr>"

definition OKCoinApiCn :: "string \<Rightarrow> string \<Rightarrow> OKCoinApi" where
  "OKCoinApiCn api_key secret_key =
     (let a = rest_SetKey api_key secret_key rest_new
      in a\<lparr>urlprotocol := InitApi HTTP_SERVER_TYPE_CN (urlprotocol a)\<rparr>)"

definition OKCoinApiCom :: "string \<Rightarrow> string \<Rightarrow> OKCoinApi" where
  "OKCoinApiCom api_key secret_key =
     (let a = rest_SetKey api_key secret_key rest_new
      in a\<lparr>urlprotocol := InitApi HTTP_SERVER_TYPE_COM (urlprotocol a)\<rparr>)"

text \<open>\<open>RestClient\<close> of rest\_client.h, with its two literals.\<close>

definition RestClient :: "string \<Rightarrow> string \<Rightarrow> OKCoinApi" where
  "RestClient key secret =
     rest_SetKey key secret
       (rest_new\<lparr>urlprotocol := InitApi HTTP_SERVER_TYPE_CN (urlprotocol rest_new)\<rparr>)"

subsection \<open>What the calls share\<close>

text \<open>\<open>Uri uri; urlprotocol.GetUrl(uri, type);\<close>\<close>

definition api_uri :: "HTTP_PROTOCL_TYPE \<Rightarrow> OKCoinApi \<Rightarrow> Uri" where
  "api_uri t a = protocol_GetUrl t (urlprotocol a) uri_new"

definition add_params :: "(string \<times> string) list \<Rightarrow> Uri \<Rightarrow> Uri" where
  "add_params ps u = fold (\<lambda>(n, v). uri_AddParam n v) ps u"

text \<open>\<open>string sign = uri.GetSign(m_secret_key);\<close> and the two parameters that follow it.\<close>

definition add_signature :: "OKCoinApi \<Rightarrow> Uri \<Rightarrow> Uri" where
  "add_signature a u =
     (let sign = uri_GetSign (rest_secret_key a) u
      in uri_AddParam ''sign'' sign (uri_AddParam ''secret_key'' (rest_secret_key a) u))"

text \<open>\<open>uri.Requset(); return uri.result;\<close> with the destructor of \<open>uri\<close>.\<close>

definition request_result :: "libcurl \<Rightarrow> Uri \<Rightarrow> string result" where
  "request_result net u =
     bind_result (uri_Requset net u) (\<lambda>u'. bind_result (uri_FreeBuf u') (\<lambda>_. Inr (uri_result u')))"

definition market_request :: "HTTP_PROTOCL_TYPE \<Rightarrow> (string \<times> string) list \<Rightarrow> OKCoinApi \<Rightarrow> Uri" where
  "market_request t ps a = add_params ps (api_uri t a)"

definition signed_request :: "HTTP_PROTOCL_TYPE \<Rightarrow> (string \<times> string) list \<Rightarrow> OKCoinApi \<Rightarrow> Uri" where
  "signed_request t ps a =
     add_signature a (add_params ((''api_key'', rest_api_key a) # ps) (api_uri t a))"

subsection \<open>The calls\<close>

text \<open>class OKCoinApi\<close>

definition GetTicker ::
    "libcurl \<Rightarrow> string \<Rightarrow> OKCoinApi \<Rightarrow> string result" where
  "GetTicker net symbol a =
     request_result net (market_request HTTP_API_TYPE_TICKER
         [(''symbol'', symbol)] a)"

definition GetDepth ::
    "libcurl \<Rightarrow> string \<Rightarrow> string \<Rightarrow> string \<Rightarrow> OKCoinApi \<Rightarrow> string result" where
  "GetDepth net symbol size' merge a =
     request_result net (market_request HTTP_API_TYPE_DEPTH
         [(''symbol'', symbol), (''size'', size'), (''merge'', merge)] a)"

definition GetTrades ::
    "libcurl \<Rightarrow> string \<Rightarrow> string \<Rightarrow> OKCoinApi \<Rightarrow> string result" where
  "GetTrades net symbol since a =
     request_result net (market_request HTTP_API_TYPE_TRADES
         [(''symbol'', symbol), (''since'', since)] a)"

definition GetKline ::
    "libcurl \<Rightarrow> string \<Rightarrow> string \<Rightarrow> string \<Rightarrow> string \<Rightarrow> OKCoinApi \<Rightarrow> string result" where
  "GetKline net symbol type size' since a =
     request_result net (market_request HTTP_API_TYPE_KLINE
         [(''symbol'', symbol), (''type'', type), (''size'', size'),
          (''since'', since)] a)"

definition DoUserinfo ::
    "libcurl \<Rightarrow> OKCoinApi \<Rightarrow> string result" where
  "DoUserinfo net a =
     request_result net (signed_request HTTP_API_TYPE_USERINFO
         [] a)"

definition DoTrade ::
    "libcurl \<Rightarrow> string \<Rightarrow> string \<Rightarrow> string \<Rightarrow> string \<Rightarrow> OKCoinApi \<Rightarrow> string result" where
  "DoTrade net symbol type price amount a =
     request_result net (signed_request HTTP_API_TYPE_TRADE
         [(''symbol'', symbol), (''type'', type), (''price'', price),
          (''amount'', amount)] a)"

definition DoTrade_History ::
    "libcurl \<Rightarrow> string \<Rightarrow> string \<Rightarrow> OKCoinApi \<Rightarrow> string result" where
  "DoTrade_History net symbol since a =
     request_result net (signed_request HTTP_API_TYPE_TRADE_HISTORY
         [(''symbol'', symbol), (''since'', since)] a)"

definition DoBatch_Trade ::
    "libcurl \<Rightarrow> string \<Rightarrow> string \<Rightarrow> string \<Rightarrow> OKCoinApi \<Rightarrow> string result" where
  "DoBatch_Trade net symbol type orders_data a =
     request_result net (signed_request HTTP_API_TYPE_BATCH_TRADE
         [(''symbol'', symbol), (''type'', type), (''orders_data'', orders_data)] a)"

definition DoCancel_Order ::
    "libcurl \<Rightarrow> string \<Rightarrow> string \<Rightarrow> OKCoinApi \<Rightarrow> string result" where
  "DoCancel_Order net symbol order_id a =
     request_result net (signed_request HTTP_API_TYPE_CANCEL_ORDER
         [(''symbol'', symbol), (''order_id'', order_id)] a)"

definition DoOrder_Info ::
    "libcurl \<Rightarrow> string \<Rightarrow> string \<Rightarrow> OKCoinApi \<Rightarrow> string result" where
  "DoOrder_Info net symbol order_id a =
     request_result net (signed_request HTTP_API_TYPE_ORDER_INFO
         [(''symbol'', symbol), (''order_id'', order_id)] a)"

definition DoOrders_Info ::
    "libcurl \<Rightarrow> string \<Rightarrow> string \<Rightarrow> string \<Rightarrow> OKCoinApi \<Rightarrow> string result" where
  "DoOrders_Info net type symbol order_id a =
     request_result net (signed_request HTTP_API_TYPE_ORDERS_INFO
         [(''type'', type), (''symbol'', symbol), (''order_id'', order_id)] a)"

definition DoOrder_History ::
    "libcurl \<Rightarrow> string \<Rightarrow> string \<Rightarrow> string \<Rightarrow> string \<Rightarrow> OKCoinApi \<Rightarrow> string result" where
  "DoOrder_History net symbol status current_page page_length a =
     request_result net (signed_request HTTP_API_TYPE_ORDER_HISTORY
         [(''symbol'', symbol), (''status'', status),
          (''current_page'', current_page), (''page_length'', page_length)] a)"

definition DoWithdraw ::
    "libcurl \<Rightarrow> string \<Rightarrow> string \<Rightarrow> string \<Rightarrow> string \<Rightarrow> string \<Rightarrow> OKCoinApi \<Rightarrow> string result" where
  "DoWithdraw net symbol chargefee trade_pwd withdraw_address withdraw_amount a =
     request_result net (signed_request HTTP_API_TYPE_WITHDRAW
         [(''symbol'', symbol), (''chargefee'', chargefee),
          (''trade_pwd'', trade_pwd), (''withdraw_address'', withdraw_address),
          (''withdraw_amount'', withdraw_amount)] a)"

definition DoCancel_Withdraw ::
    "libcurl \<Rightarrow> string \<Rightarrow> string \<Rightarrow> OKCoinApi \<Rightarrow> string result" where
  "DoCancel_Withdraw net symbol withdraw_id a =
     request_result net (signed_request HTTP_API_TYPE_CANCEL_WITHDRAW
         [(''symbol'', symbol), (''withdraw_id'', withdraw_id)] a)"

definition DoOrder_Fee ::
    "libcurl \<Rightarrow> string \<Rightarrow> string \<Rightarrow> OKCoinApi \<Rightarrow> string result" where
  "DoOrder_Fee net symbol order_id a =
     request_result net (signed_request HTTP_API_TYPE_ORDER_FEE
         [(''symbol'', symbol), (''order_id'', order_id)] a)"

definition DoLend_Depth ::
    "libcurl \<Rightarrow> string \<Rightarrow> OKCoinApi \<Rightarrow> string result" where
  "DoLend_Depth net symbol a =
     request_result net (signed_request HTTP_API_TYPE_LEND_DEPTH
         [(''symbol'', symbol)] a)"

definition DoBorrows_Info ::
    "libcurl \<Rightarrow> string \<Rightarrow> OKCoinApi \<Rightarrow> string result" where
  "DoBorrows_Info net symbol a =
     request_result net (signed_request HTTP_API_TYPE_BORROWS_INFO
         [(''symbol'', symbol)] a)"

definition DoBorrow_Money ::
    "libcurl \<Rightarrow> string \<Rightarrow> string \<Rightarrow> string \<Rightarrow> string \<Rightarrow> OKCoinApi \<Rightarrow> string result" where
  "DoBorrow_Money net symbol days amount rate a =
     request_result net (signed_request HTTP_API_TYPE_BORROW_MONEY
         [(''symbol'', symbol), (''days'', days), (''amount'', amount),
          (''rate'', rate)] a)"

definition DoCancel_Borrow ::
    "libcurl \<Rightarrow> string \<Rightarrow> string \<Rightarrow> OKCoinApi \<Rightarrow> string result" where
  "DoCancel_Borrow net symbol borrow_id a =
     request_result net (signed_request HTTP_API_TYPE_CANCEL_BORROW
         [(''symbol'', symbol), (''borrow_id'', borrow_id)] a)"

definition DoBorrow_Order_info ::
    "libcurl \<Rightarrow> string \<Rightarrow> OKCoinApi \<Rightarrow> string result" where
  "DoBorrow_Order_info net borrow_id a =
     request_result net (signed_request HTTP_API_TYPE_BORROW_ORDER_INFO
         [(''borrow_id'', borrow_id)] a)"

definition DoRepayment ::
    "libcurl \<Rightarrow> string \<Rightarrow> OKCoinApi \<Rightarrow> string result" where
  "DoRepayment net borrow_id a =
     request_result net (signed_request HTTP_API_TYPE_REPAYMENT
         [(''borrow_id'', borrow_id)] a)"

definition DoUnrepayments_Info ::
    "libcurl \<Rightarrow> string \<Rightarrow> string \<Rightarrow> string \<Rightarrow> OKCoinApi \<Rightarrow> string result" where
  "DoUnrepayments_Info net symbol current_page page_length a =
     request_result net (signed_request HTTP_API_TYPE_UNREPAYMENTS_INFO
         [(''symbol'', symbol), (''current_page'', current_page),
          (''page_length'', page_length)] a)"

definition DoAccount_Records ::
    "libcurl \<Rightarrow> string \<Rightarrow> string \<Rightarrow> string \<Rightarrow> string \<Rightarrow> OKCoinApi \<Rightarrow> string result" where
  "DoAccount_Records net symbol type current_page page_length a =
     request_result net (signed_request HTTP_API_TYPE_ACCOUNT_RECORDS
         [(''symbol'', symbol), (''type'', type), (''current_page'', current_page),
          (''page_length'', page_length)] a)"

text \<open>class OKCoinApiCom\<close>

definition DoFuture_Ticker ::
    "libcurl \<Rightarrow> string \<Rightarrow> string \<Rightarrow> OKCoinApi \<Rightarrow> string result" where
  "DoFuture_Ticker net symbol contract_type a =
     request_result net (market_request HTTP_API_TYPE_FUTURE_TICKER
         [(''symbol'', symbol), (''contract_type'', contract_type)] a)"

definition DoFuture_Depth ::
    "libcurl \<Rightarrow> string \<Rightarrow> string \<Rightarrow> string \<Rightarrow> string \<Rightarrow> OKCoinApi \<Rightarrow> string result" where
  "DoFuture_Depth net symbol contract_type size' merge a =
     request_result net (market_request HTTP_API_TYPE_FUTURE_DEPTH
         [(''symbol'', symbol), (''contract_type'', contract_type),
          (''size'', size'), (''merge'', merge)] a)"

definition DoFuture_Trades ::
    "libcurl \<Rightarrow> string \<Rightarrow> string \<Rightarrow> OKCoinApi \<Rightarrow> string result" where
  "DoFuture_Trades net symbol contract_type a =
     request_result net (market_request HTTP_API_TYPE_FUTURE_TRADES
         [(''symbol'', symbol), (''contract_type'', contract_type)] a)"

definition DoFuture_Index ::
    "libcurl \<Rightarrow> string \<Rightarrow> OKCoinApi \<Rightarrow> string result" where
  "DoFuture_Index net symbol a =
     request_result net (market_request HTTP_API_TYPE_FUTURE_INDEX
         [(''symbol'', symbol)] a)"

definition DoExchange_Rate ::
    "libcurl \<Rightarrow> OKCoinApi \<Rightarrow> string result" where
  "DoExchange_Rate net a =
     request_result net (market_request HTTP_API_TYPE_EXCHANGE_RATE
         [] a)"

definition DoFuture_Estimated_Price ::
    "libcurl \<Rightarrow> string \<Rightarrow> OKCoinApi \<Rightarrow> string result" where
  "DoFuture_Estimated_Price net symbol a =
     request_result net (market_request HTTP_API_TYPE_FUTURE_ESTIMATED_PRICE
         [(''symbol'', symbol)] a)"

definition DoFuture_Kline ::
    "libcurl \<Rightarrow> string \<Rightarrow> string \<Rightarrow> string \<Rightarrow> string \<Rightarrow> string \<Rightarrow> OKCoinApi \<Rightarrow> string result" where
  "DoFuture_Kline net symbol type contract_type size' since a =
     request_result net (market_request HTTP_API_TYPE_FUTURE_KLINE
         [(''symbol'', symbol), (''type'', type), (''contract_type'', contract_type),
          (''size'', size'), (''since'', since)] a)"

definition DoFuture_Hold_amount ::
    "libcurl \<Rightarrow> string \<Rightarrow> string \<Rightarrow> OKCoinApi \<Rightarrow> string result" where
  "DoFuture_Hold_amount net symbol contract_type a =
     request_result net (market_request HTTP_API_TYPE_FUTURE_HOLD_AMOUNT
         [(''symbol'', symbol), (''contract_type'', contract_type)] a)"

definition DoFuture_Userinfo ::
    "libcurl \<Rightarrow> OKCoinApi \<Rightarrow> string result" where
  "DoFuture_Userinfo net a =
     request_result net (signed_request HTTP_API_TYPE_FUTURE_USERINFO
         [] a)"

definition DoFuture_Position ::
    "libcurl \<Rightarrow> string \<Rightarrow> string \<Rightarrow> OKCoinApi \<Rightarrow> string result" where
  "DoFuture_Position net symbol contract_type a =
     request_result net (signed_request HTTP_API_TYPE_FUTURE_POSITION
         [(''symbol'', symbol), (''contract_type'', contract_type)] a)"

definition DoFuture_Trade ::
    "libcurl \<Rightarrow> string \<Rightarrow> string \<Rightarrow> string \<Rightarrow> string \<Rightarrow> string \<Rightarrow> string \<Rightarrow> string \<Rightarrow> OKCoinApi \<Rightarrow> string result" where
  "DoFuture_Trade net symbol contract_type price amount type match_price lever_rate a =
     request_result net (signed_request HTTP_API_TYPE_FUTURE_TRADE
         [(''symbol'', symbol), (''contract_type'', contract_type),
          (''price'', price), (''amount'', amount), (''type'', type),
          (''match_price'', match_price), (''lever_rate'', lever_rate)] a)"

definition DoFuture_Trades_history ::
    "libcurl \<Rightarrow> string \<Rightarrow> string \<Rightarrow> string \<Rightarrow> OKCoinApi \<Rightarrow> string result" where
  "DoFuture_Trades_history net symbol date since a =
     request_result net (signed_request HTTP_API_TYPE_FUTURE_TRADES_HISTORY
         [(''symbol'', symbol), (''date'', date), (''since'', since)] a)"

definition DoFuture_Batch_trade ::
    "libcurl \<Rightarrow> string \<Rightarrow> string \<Rightarrow> string \<Rightarrow> string \<Rightarrow> OKCoinApi \<Rightarrow> string result" where
  "DoFuture_Batch_trade net symbol contract_type orders_data lever_rate a =
     request_result net (signed_request HTTP_API_TYPE_FUTURE_BATCH_TRADE
         [(''symbol'', symbol), (''contract_type'', contract_type),
          (''orders_data'', orders_data), (''lever_rate'', lever_rate)] a)"

definition DoFuture_Cancel ::
    "libcurl \<Rightarrow> string \<Rightarrow> string \<Rightarrow> string \<Rightarrow> OKCoinApi \<Rightarrow> string result" where
  "DoFuture_Cancel net symbol order_id contract_type a =
     request_result net (signed_request HTTP_API_TYPE_FUTURE_CANCEL
         [(''symbol'', symbol), (''order_id'', order_id),
          (''contract_type'', contract_type)] a)"

definition DoFuture_Order_info ::
    "libcurl \<Rightarrow> string \<Rightarrow> string \<Rightarrow> string \<Rightarrow> string \<Rightarrow> string \<Rightarrow> string \<Rightarrow> OKCoinApi \<Rightarrow> string result" where
  "DoFuture_Order_info net symbol contract_type status order_id current_page page_length a =
     request_result net (signed_request HTTP_API_TYPE_FUTURE_ORDER_INFO
         [(''symbol'', symbol), (''contract_type'', contract_type),
          (''status'', status), (''order_id'', order_id),
          (''current_page'', current_page), (''page_length'', page_length)] a)"

definition DoFuture_Orders_info ::
    "libcurl \<Rightarrow> string \<Rightarrow> string \<Rightarrow> string \<Rightarrow> OKCoinApi \<Rightarrow> string result" where
  "DoFuture_Orders_info net symbol contract_type order_id a =
     request_result net (signed_request HTTP_API_TYPE_FUTURE_ORDERS_INFO
         [(''symbol'', symbol), (''contract_type'', contract_type),
          (''order_id'', order_id)] a)"

definition DoFuture_Userinfo_4fix ::
    "libcurl \<Rightarrow> OKCoinApi \<Rightarrow> string result" where
  "DoFuture_Userinfo_4fix net a =
     request_result net (signed_request HTTP_API_TYPE_FUTURE_USERINFO_4FIX
         [] a)"

definition DoFuture_Position_4fix ::
    "libcurl \<Rightarrow> string \<Rightarrow> string \<Rightarrow> string \<Rightarrow> OKCoinApi \<Rightarrow> string result" where
  "DoFuture_Position_4fix net symbol contract_type type a =
     request_result net (signed_request HTTP_API_TYPE_FUTURE_POSITION_4FIX
         [(''symbol'', symbol), (''contract_type'', contract_type), (''type'', type)] a)"

definition DoFuture_Explosive ::
    "libcurl \<Rightarrow> string \<Rightarrow> string \<Rightarrow> string \<Rightarrow> string \<Rightarrow> string \<Rightarrow> OKCoinApi \<Rightarrow> string result" where
  "DoFuture_Explosive net symbol contract_type status current_page page_length a =
     request_result net (signed_request HTTP_API_TYPE_FUTURE_EXPLOSIVE
         [(''symbol'', symbol), (''contract_type'', contract_type),
          (''status'', status), (''current_page'', current_page),
          (''page_length'', page_length)] a)"

subsection \<open>The parameters of a request\<close>

lemma uri_AddParam_map_of:
  "map_of (m_param (uri_AddParam n v u)) =
     (if v = [] then map_of (m_param u) else (map_of (m_param u))(cstr n \<mapsto> cstr v))"
  by (simp add: uri_AddParam_def cup_Add_def map_of_map_put)

lemma uri_AddParam_sorted: "map_sorted (m_param u) \<Longrightarrow> map_sorted (m_param (uri_AddParam n v u))"
  by (simp add: uri_AddParam_def cup_Add_def map_sorted_put)

lemma add_params_sorted: "map_sorted (m_param u) \<Longrightarrow> map_sorted (m_param (add_params ps u))"
  unfolding add_params_def by (induction ps arbitrary: u) (auto simp: uri_AddParam_sorted)

text \<open>Adding parameters changes nothing else of a request.\<close>

lemma uri_AddParam_more: "uri_AddParam n v u = u\<lparr>m_param := m_param (uri_AddParam n v u)\<rparr>"
  by (simp add: uri_AddParam_def)

lemma add_params_more: "add_params ps u = u\<lparr>m_param := m_param (add_params ps u)\<rparr>"
  unfolding add_params_def
proof (induction ps arbitrary: u)
  case (Cons p ps)
  obtain n v where p: "p = (n, v)" by (cases p)
  show ?case
    using Cons.IH[of "uri_AddParam n v u"] uri_AddParam_more[of n v u]
    by (simp add: p) (metis Uri.update_convs(10) Uri.surjective)
qed simp

lemma add_params_lookup:
  assumes "k \<notin> cstr ` fst ` set ps"
  shows "map_of (m_param (add_params ps u)) k = map_of (m_param u) k"
  using assms unfolding add_params_def
  by (induction ps arbitrary: u) (auto simp: uri_AddParam_map_of)


end
