(* ===== verification/Rest_Facts.thy ===== *)
theory Rest_Facts
  imports Okcoin_Api
begin

section \<open>What the REST calls promise\<close>

text \<open>
  For every call of the table: the address and the options of its request, the parameters and
  their signature, and what the call returns for a complete, a failed and an unknown transfer.
\<close>

subsection \<open>Requests from the table\<close>

lemma rest_site:
  "urlprotocol (OKCoinApiCn k s) = InitApi HTTP_SERVER_TYPE_CN cp_new"
  "urlprotocol (OKCoinApiCom k s) = InitApi HTTP_SERVER_TYPE_COM cp_new"
  "urlprotocol (RestClient k s) = InitApi HTTP_SERVER_TYPE_CN cp_new"
  by (simp_all add: OKCoinApiCn_def OKCoinApiCom_def RestClient_def rest_SetKey_def rest_new_def Let_def)

lemma rest_keys:
  "rest_api_key (OKCoinApiCn k s) = k" "rest_secret_key (OKCoinApiCn k s) = s"
  "rest_api_key (OKCoinApiCom k s) = k" "rest_secret_key (OKCoinApiCom k s) = s"
  "rest_api_key (RestClient k s) = k" "rest_secret_key (RestClient k s) = s"
  by (simp_all add: OKCoinApiCn_def OKCoinApiCom_def RestClient_def rest_SetKey_def rest_new_def Let_def)

text \<open>The object belongs to a site, and the call is in the table of that site.\<close>

definition listed :: "HTTP_SERVER_TYPE \<Rightarrow> OKCoinApi \<Rightarrow> HTTP_PROTOCL_TYPE \<Rightarrow> string \<Rightarrow> HTTP_METHOD \<Rightarrow> bool" where
  "listed site a t path m \<longleftrightarrow>
     urlprotocol a = InitApi site cp_new \<and> map_of (site_apis site) t = Some (HTTP_PROTOCOL_HTTPS, path, m)"

lemma api_uri_listed:
  "listed site a t path m \<Longrightarrow>
     api_uri t a = uri_new\<lparr>isinit := True, uri_type := type_value t, protocol := HTTP_PROTOCOL_HTTPS,
       protoclstr := URL_PROTOCOL_HTTPS, domain := site_domain site, uri_api := path, uri_method := m\<rparr>"
  by (simp add: listed_def api_uri_def protocol_GetUrl_entry)

lemma api_uri_unlisted: "m_urllist (urlprotocol a) t = None \<Longrightarrow> api_uri t a = uri_new"
  by (simp add: api_uri_def protocol_GetUrl_unknown)

text \<open>The fields of a request that its parameters do not touch.\<close>

lemma add_signature_more: "add_signature a u = u\<lparr>m_param := m_param (add_signature a u)\<rparr>"
proof -
  have "\<exists>p. uri_AddParam n v u = u\<lparr>m_param := p\<rparr>" for n v u
    using uri_AddParam_more by blast
  then obtain p where p: "uri_AddParam ''secret_key'' (rest_secret_key a) u = u\<lparr>m_param := p\<rparr>" by blast
  show ?thesis by (simp add: add_signature_def Let_def p uri_AddParam_def)
qed

lemma request_fields:
  "\<exists>p. market_request t ps a = (api_uri t a)\<lparr>m_param := p\<rparr>"
  "\<exists>p. signed_request t ps a = (api_uri t a)\<lparr>m_param := p\<rparr>"
proof -
  show "\<exists>p. market_request t ps a = (api_uri t a)\<lparr>m_param := p\<rparr>"
    unfolding market_request_def using add_params_more by blast
  obtain p where p: "add_params ((''api_key'', rest_api_key a) # ps) (api_uri t a) = (api_uri t a)\<lparr>m_param := p\<rparr>"
    using add_params_more by blast
  obtain q where "add_signature a ((api_uri t a)\<lparr>m_param := p\<rparr>) = (api_uri t a)\<lparr>m_param := p\<rparr>\<lparr>m_param := q\<rparr>"
    using add_signature_more by blast
  then show "\<exists>p. signed_request t ps a = (api_uri t a)\<lparr>m_param := p\<rparr>"
    unfolding signed_request_def p by auto
qed

subsection \<open>What a call returns\<close>

lemma request_result_complete:
  assumes "isinit u" "curbuf u = None" "uri_result u = []" "net (request_options u) = Some t" "complete t"
  shows "request_result net u = Inr (cstr (concat (body_chunks t)))"
proof -
  obtain u' where "uri_Requset net u = Inr u'" "uri_result u' = cstr (concat (body_chunks t))"
    "curbuf u' = None" "\<not> pcurl u'"
    using uri_Requset_complete[where perform = net, OF assms] by blast
  then show ?thesis
    by (simp add: request_result_def uri_FreeBuf_def uri_free_curbuf_def)
qed

lemma request_result_failed:
  assumes "isinit u" "uri_result u = []" "net (request_options u) = Some t" "perform_code t \<noteq> CURLE_OK"
    and "request_result net u = Inr s"
  shows "s = []"
  using assms uri_Requset_failed[where perform = net, OF assms(1,3,4)]
  by (auto simp: request_result_def bind_result_eq_Inr)

lemma request_result_no_handle:
  assumes "uri_result u = []" "curbuf u = None" "\<not> pcurl u" "net (request_options u) = None"
  shows "request_result net u = Inr []"
proof -
  have "request_options (snd (uri_GetUrl (u\<lparr>pcurl := True\<rparr>))) = request_options u"
    by (simp add: request_options_def request_url_def uri_GetUrl_def uri_GetParamSet_def Let_def)
  with assms show ?thesis
    by (simp add: request_result_def uri_Requset_def requset_def Let_def uri_FreeBuf_def uri_free_curbuf_def)
qed

lemma call_complete:
  assumes "listed site a ty path m" "net (request_options u) = Some t" "complete t"
    and "u = market_request ty ps a \<or> u = signed_request ty ps a"
  shows "request_result net u = Inr (cstr (concat (body_chunks t)))"
proof -
  obtain p where "u = (api_uri ty a)\<lparr>m_param := p\<rparr>"
    using assms(4) request_fields[of ty ps a] by blast
  then show ?thesis
    using assms(2,3) api_uri_listed[OF assms(1)]
    by (intro request_result_complete) (simp_all add: uri_new_def)
qed

text \<open>A call that the site does not have returns at once, without a transfer.\<close>

lemma call_unlisted:
  assumes "m_urllist (urlprotocol a) ty = None" "u = market_request ty ps a \<or> u = signed_request ty ps a"
  shows "request_result net u = Inr []"
proof -
  obtain p where "u = uri_new\<lparr>m_param := p\<rparr>"
    using assms(2) request_fields[of ty ps a] api_uri_unlisted[OF assms(1)] by auto
  then show ?thesis
    by (simp add: request_result_def uri_Requset_not_init uri_FreeBuf_def uri_free_curbuf_def uri_new_def)
qed

subsection \<open>What is sent\<close>

definition https_options :: "string \<Rightarrow> curl_option list" where
  "https_options address =
     [CURLOPT_URL address, CURLOPT_SSL_VERIFYPEER True, CURLOPT_CAINFO ''./root.pem'',
      CURLOPT_SSL_VERIFYHOST 2, CURLOPT_NOSIGNAL 1, CURLOPT_FORBID_REUSE 1, CURLOPT_FOLLOWLOCATION 1,
      CURLOPT_TIMEOUT 20, CURLOPT_USERAGENT ''Mozilla/5.0 (xaioguxian; rv:1.0.0) xaioguxian'']"

lemma signed_options:
  assumes "listed site a t path METHOD_POST"
  shows "request_options (signed_request t ps a) =
     https_options (cstr (''https://'' @ site_domain site @ path)) @
     [CURLOPT_POST 1, CURLOPT_POSTFIELDS (cstr (cup_ToString (m_param (signed_request t ps a))))]"
proof -
  obtain p where "signed_request t ps a = (api_uri t a)\<lparr>m_param := p\<rparr>" using request_fields by blast
  then show ?thesis
    using api_uri_listed[OF assms]
    by (simp add: request_options_def request_url_def uri_GetUrl_def uri_GetParamSet_def Let_def
        https_options_def URL_PROTOCOL_HTTPS_def)
qed

lemma market_options:
  assumes "listed site a t path METHOD_GET"
  shows "request_options (market_request t ps a) =
     https_options (cstr (''https://'' @ site_domain site @ path @
       (let q = cup_ToString (m_param (market_request t ps a)) in if q = [] then [] else ''?'' @ q))) @
     [CURLOPT_HTTPGET True]"
proof -
  obtain p where "market_request t ps a = (api_uri t a)\<lparr>m_param := p\<rparr>" using request_fields by blast
  then show ?thesis
    using api_uri_listed[OF assms]
    by (simp add: request_options_def request_url_def uri_GetUrl_def uri_GetParamSet_def Let_def
        https_options_def URL_PROTOCOL_HTTPS_def)
qed

subsection \<open>The signature\<close>

lemma listed_no_params: "listed site a t path m \<Longrightarrow> m_param (api_uri t a) = []"
  by (simp add: api_uri_listed uri_new_def)

text \<open>The parameters that are signed, and what is added to them.\<close>

definition signed_params :: "HTTP_PROTOCL_TYPE \<Rightarrow> (string \<times> string) list \<Rightarrow> OKCoinApi \<Rightarrow> CUriParameter" where
  "signed_params t ps a = m_param (add_params ((''api_key'', rest_api_key a) # ps) (api_uri t a))"

lemma uri_GetSign_not_Nil [simp]: "uri_GetSign s u \<noteq> []"
  by (simp add: uri_GetSign_param)

lemma signed_request_params:
  "map_of (m_param (signed_request t ps a)) =
     (if rest_secret_key a = [] then map_of (signed_params t ps a)
      else (map_of (signed_params t ps a))(''secret_key'' \<mapsto> cstr (rest_secret_key a)))
     (''sign'' \<mapsto> map toupper (GetMD5 (cup_ToString (signed_params t ps a) @ ''&secret_key='' @ rest_secret_key a)))"
proof -
  have nul: "no_nul (uri_GetSign s u)" for s u by (simp add: uri_GetSign_param)
  have sign: "map toupper (GetMD5 (cup_ToString (signed_params t ps a) @ ''&secret_key='' @ s)) =
      uri_GetSign s (add_params ((''api_key'', rest_api_key a) # ps) (api_uri t a))" for s
    by (simp only: uri_GetSign_def uri_GetParamSet_def signed_params_def)
  show ?thesis
    unfolding sign
    by (simp add: signed_request_def add_signature_def Let_def uri_AddParam_map_of signed_params_def nul)
qed

text \<open>The signature is the MD5 of RFC 1321, in upper case.\<close>

lemma GetMD5_rfc:
  "length s < 2 ^ 31 \<Longrightarrow> GetMD5 s = md5_PrintMD5 (rfc_md5 (bytes_of (cstr s)))"
  unfolding GetMD5_def MD5String_cstr by (simp add: MD5String_def MD5String_from_rfc)

text \<open>A signed request carries the secret key itself.\<close>

lemma signed_request_secret:
  assumes "rest_secret_key a \<noteq> []"
  shows "cup_Get ''secret_key'' (m_param (signed_request t ps a)) = cstr (rest_secret_key a)"
  using assms by (simp add: cup_Get_param param_Get_map_of signed_request_params)

text \<open>The order call of the Chinese site, and an answer of two bytes.\<close>

lemma listed_trade:
  "listed HTTP_SERVER_TYPE_CN (OKCoinApiCn k s) HTTP_API_TYPE_TRADE ''/api/v1/trade.do'' METHOD_POST"
  by (simp add: listed_def rest_site site_apis_def spot_apis_def HTTP_API_TRADE_def)

lemma trade_address:
  "cstr (''https://'' @ site_domain HTTP_SERVER_TYPE_CN @ ''/api/v1/trade.do'') =
     ''https://www.okcoin.cn/api/v1/trade.do''"
  by (simp add: site_domain_def URL_DOMAIN_CN_def cstr_def)

definition sample_transfer :: transfer where
  "sample_transfer =
     \<lparr>body_chunks = [''{'', ''}''], response_code = 200, content_length = 2, content_type = None,
      perform_code = CURLE_OK\<rparr>"

lemma sample_transfer_complete: "complete sample_transfer"
  by (simp add: complete_def sample_transfer_def)

subsection \<open>The table against the names of the calls\<close>

text \<open>The name of an enumerator without \<open>HTTP_API_TYPE_\<close>, and what the header says of the call: its
  path is the name in small letters; futures are traded on the site .com only.\<close>

fun call_name :: "HTTP_PROTOCL_TYPE \<Rightarrow> string" where
  "call_name HTTP_API_TYPE_TICKER = ''TICKER''"
| "call_name HTTP_API_TYPE_DEPTH = ''DEPTH''"
| "call_name HTTP_API_TYPE_TRADES = ''TRADES''"
| "call_name HTTP_API_TYPE_KLINE = ''KLINE''"
| "call_name HTTP_API_TYPE_USERINFO = ''USERINFO''"
| "call_name HTTP_API_TYPE_TRADE = ''TRADE''"
| "call_name HTTP_API_TYPE_TRADE_HISTORY = ''TRADE_HISTORY''"
| "call_name HTTP_API_TYPE_BATCH_TRADE = ''BATCH_TRADE''"
| "call_name HTTP_API_TYPE_CANCEL_ORDER = ''CANCEL_ORDER''"
| "call_name HTTP_API_TYPE_ORDER_INFO = ''ORDER_INFO''"
| "call_name HTTP_API_TYPE_ORDERS_INFO = ''ORDERS_INFO''"
| "call_name HTTP_API_TYPE_ORDER_HISTORY = ''ORDER_HISTORY''"
| "call_name HTTP_API_TYPE_WITHDRAW = ''WITHDRAW''"
| "call_name HTTP_API_TYPE_CANCEL_WITHDRAW = ''CANCEL_WITHDRAW''"
| "call_name HTTP_API_TYPE_ORDER_FEE = ''ORDER_FEE''"
| "call_name HTTP_API_TYPE_LEND_DEPTH = ''LEND_DEPTH''"
| "call_name HTTP_API_TYPE_BORROWS_INFO = ''BORROWS_INFO''"
| "call_name HTTP_API_TYPE_BORROW_MONEY = ''BORROW_MONEY''"
| "call_name HTTP_API_TYPE_CANCEL_BORROW = ''CANCEL_BORROW''"
| "call_name HTTP_API_TYPE_BORROW_ORDER_INFO = ''BORROW_ORDER_INFO''"
| "call_name HTTP_API_TYPE_REPAYMENT = ''REPAYMENT''"
| "call_name HTTP_API_TYPE_UNREPAYMENTS_INFO = ''UNREPAYMENTS_INFO''"
| "call_name HTTP_API_TYPE_ACCOUNT_RECORDS = ''ACCOUNT_RECORDS''"
| "call_name HTTP_API_TYPE_FUTURE_TICKER = ''FUTURE_TICKER''"
| "call_name HTTP_API_TYPE_FUTURE_DEPTH = ''FUTURE_DEPTH''"
| "call_name HTTP_API_TYPE_FUTURE_TRADES = ''FUTURE_TRADES''"
| "call_name HTTP_API_TYPE_FUTURE_INDEX = ''FUTURE_INDEX''"
| "call_name HTTP_API_TYPE_EXCHANGE_RATE = ''EXCHANGE_RATE''"
| "call_name HTTP_API_TYPE_FUTURE_ESTIMATED_PRICE = ''FUTURE_ESTIMATED_PRICE''"
| "call_name HTTP_API_TYPE_FUTURE_KLINE = ''FUTURE_KLINE''"
| "call_name HTTP_API_TYPE_FUTURE_HOLD_AMOUNT = ''FUTURE_HOLD_AMOUNT''"
| "call_name HTTP_API_TYPE_FUTURE_USERINFO = ''FUTURE_USERINFO''"
| "call_name HTTP_API_TYPE_FUTURE_POSITION = ''FUTURE_POSITION''"
| "call_name HTTP_API_TYPE_FUTURE_TRADE = ''FUTURE_TRADE''"
| "call_name HTTP_API_TYPE_FUTURE_TRADES_HISTORY = ''FUTURE_TRADES_HISTORY''"
| "call_name HTTP_API_TYPE_FUTURE_BATCH_TRADE = ''FUTURE_BATCH_TRADE''"
| "call_name HTTP_API_TYPE_FUTURE_CANCEL = ''FUTURE_CANCEL''"
| "call_name HTTP_API_TYPE_FUTURE_ORDER_INFO = ''FUTURE_ORDER_INFO''"
| "call_name HTTP_API_TYPE_FUTURE_ORDERS_INFO = ''FUTURE_ORDERS_INFO''"
| "call_name HTTP_API_TYPE_FUTURE_USERINFO_4FIX = ''FUTURE_USERINFO_4FIX''"
| "call_name HTTP_API_TYPE_FUTURE_POSITION_4FIX = ''FUTURE_POSITION_4FIX''"
| "call_name HTTP_API_TYPE_FUTURE_EXPLOSIVE = ''FUTURE_EXPLOSIVE''"
| "call_name HTTP_PROTOCL_TYPE_UNKONWN = []"

definition call_path :: "HTTP_PROTOCL_TYPE \<Rightarrow> string" where
  "call_path t = ''/api/v1/'' @ map tolower (call_name t) @ ''.do''"

definition future_call :: "HTTP_PROTOCL_TYPE \<Rightarrow> bool" where
  "future_call t \<longleftrightarrow> take 7 (call_name t) = ''FUTURE_'' \<or> t = HTTP_API_TYPE_EXCHANGE_RATE"

definition site_has :: "HTTP_SERVER_TYPE \<Rightarrow> HTTP_PROTOCL_TYPE \<Rightarrow> bool" where
  "site_has site t \<longleftrightarrow> t \<noteq> HTTP_PROTOCL_TYPE_UNKONWN \<and> (future_call t \<longrightarrow> site = HTTP_SERVER_TYPE_COM)"

lemma tolower_letters:
  "tolower CHR ''A'' = CHR ''a''" "tolower CHR ''B'' = CHR ''b''" "tolower CHR ''C'' = CHR ''c''"
  "tolower CHR ''D'' = CHR ''d''" "tolower CHR ''E'' = CHR ''e''" "tolower CHR ''F'' = CHR ''f''"
  "tolower CHR ''G'' = CHR ''g''" "tolower CHR ''H'' = CHR ''h''" "tolower CHR ''I'' = CHR ''i''"
  "tolower CHR ''J'' = CHR ''j''" "tolower CHR ''K'' = CHR ''k''" "tolower CHR ''L'' = CHR ''l''"
  "tolower CHR ''M'' = CHR ''m''" "tolower CHR ''N'' = CHR ''n''" "tolower CHR ''O'' = CHR ''o''"
  "tolower CHR ''P'' = CHR ''p''" "tolower CHR ''Q'' = CHR ''q''" "tolower CHR ''R'' = CHR ''r''"
  "tolower CHR ''S'' = CHR ''s''" "tolower CHR ''T'' = CHR ''t''" "tolower CHR ''U'' = CHR ''u''"
  "tolower CHR ''V'' = CHR ''v''" "tolower CHR ''W'' = CHR ''w''" "tolower CHR ''X'' = CHR ''x''"
  "tolower CHR ''Y'' = CHR ''y''" "tolower CHR ''Z'' = CHR ''z''" "tolower CHR ''_'' = CHR ''_''"
  "tolower CHR ''4'' = CHR ''4''"
  by code_simp+

lemma site_table:
  "map_of (site_apis site) t =
     (if site_has site t
      then Some (HTTP_PROTOCOL_HTTPS, call_path t, if market_data t then METHOD_GET else METHOD_POST) else None)"
proof -
  have "map_of spot_apis t = (if t \<noteq> HTTP_PROTOCL_TYPE_UNKONWN \<and> \<not> future_call t
      then Some (HTTP_PROTOCOL_HTTPS, call_path t, if market_data t then METHOD_GET else METHOD_POST) else None)"
    by (cases t) (simp_all add: spot_apis_def future_call_def call_path_def market_data_def literals tolower_letters)
  moreover have "map_of future_apis t = (if future_call t
      then Some (HTTP_PROTOCOL_HTTPS, call_path t, if market_data t then METHOD_GET else METHOD_POST) else None)"
    by (cases t) (simp_all add: future_apis_def future_call_def call_path_def market_data_def literals tolower_letters)
  moreover have "\<not> future_call HTTP_PROTOCL_TYPE_UNKONWN" by (simp add: future_call_def)
  ultimately show ?thesis
    by (cases site) (auto simp: site_apis_def site_has_def map_add_def)
qed

lemma InitApi_table:
  "m_urllist (InitApi site cp_new) t =
     (if site_has site t
      then Some (uri_new\<lparr>uri_type := type_value t, protocol := HTTP_PROTOCOL_HTTPS, protoclstr := ''https://'',
        domain := (case site of HTTP_SERVER_TYPE_CN \<Rightarrow> ''www.okcoin.cn'' | HTTP_SERVER_TYPE_COM \<Rightarrow> ''www.okcoin.com''),
        uri_api := call_path t, uri_method := (if market_data t then METHOD_GET else METHOD_POST)\<rparr>)
      else None)"
  by (simp add: InitApi_lookup site_table api_entry_def uri_new_def Let_def site_domain_def URL_PROTOCOL_HTTPS_def
      URL_DOMAIN_CN_def URL_DOMAIN_COM_def split: HTTP_SERVER_TYPE.split)

subsection \<open>The fields of an order\<close>

definition post_fields :: "string \<Rightarrow> string \<Rightarrow> string \<Rightarrow> string \<Rightarrow> string \<Rightarrow> string" where
  "post_fields key symbol type price amount =
     ''amount='' @ amount @ ''&api_key='' @ key @ ''&price='' @ price @ ''&symbol='' @ symbol @ ''&type='' @ type"

definition post_body :: "string \<Rightarrow> string \<Rightarrow> string \<Rightarrow> string \<Rightarrow> string \<Rightarrow> string \<Rightarrow> string" where
  "post_body key secret symbol type price amount =
     ''amount='' @ amount @ ''&api_key='' @ key @ ''&price='' @ price @ ''&secret_key='' @ secret @
     ''&sign='' @ map toupper (md5_PrintMD5 (rfc_md5 (bytes_of (post_fields key symbol type price amount @ ''&secret_key='' @ secret)))) @
     ''&symbol='' @ symbol @ ''&type='' @ type"

lemma order_posted:
  assumes "list_all (\<lambda>s. no_nul s \<and> s \<noteq> []) [key, secret, symbol, type, price, amount]"
    and "length key + length secret + length symbol + length type + length price + length amount < 2 ^ 30"
    and "listed site a HTTP_API_TYPE_TRADE path m" "rest_api_key a = key" "rest_secret_key a = secret"
  shows "cup_ToString (m_param (signed_request HTTP_API_TYPE_TRADE
      [(''symbol'', symbol), (''type'', type), (''price'', price), (''amount'', amount)] a)) =
    post_body key secret symbol type price amount \<and> no_nul (post_body key secret symbol type price amount)"
proof -
  let ?u = "add_params [(''api_key'', key), (''symbol'', symbol), (''type'', type), (''price'', price), (''amount'', amount)]
      (api_uri HTTP_API_TYPE_TRADE a)"
  have nn: "no_nul key" "no_nul secret" "no_nul symbol" "no_nul type" "no_nul price" "no_nul amount"
    "key \<noteq> []" "secret \<noteq> []" "symbol \<noteq> []" "type \<noteq> []" "price \<noteq> []" "amount \<noteq> []"
    using assms(1) by simp_all
  have p: "m_param ?u = [(''amount'', amount), (''api_key'', key), (''price'', price), (''symbol'', symbol), (''type'', type)]"
    using nn listed_no_params[OF assms(3)] by (simp add: add_params_def uri_AddParam_def cup_Add_def)
  have s: "cup_ToString (m_param ?u) = post_fields key symbol type price amount"
    unfolding p by (simp add: post_fields_def)
  let ?src = "post_fields key symbol type price amount @ ''&secret_key='' @ secret"
  have n: "no_nul ?src" "length ?src < 2 ^ 31" using nn assms(2) by (simp_all add: post_fields_def)
  have sign: "uri_GetSign secret ?u = map toupper (md5_PrintMD5 (rfc_md5 (bytes_of ?src)))"
    unfolding uri_GetSign_def uri_GetParamSet_def s using GetMD5_rfc[OF n(2)] n(1) by simp
  have sn: "no_nul (map toupper (md5_PrintMD5 (rfc_md5 (bytes_of ?src))))" "map toupper (md5_PrintMD5 (rfc_md5 (bytes_of ?src))) \<noteq> []"
    unfolding sign[symmetric] by (simp_all add: uri_GetSign_param)
  show ?thesis
    using nn sn unfolding signed_request_def assms(4) add_signature_def assms(5) Let_def sign
    by (simp add: uri_AddParam_def cup_Add_def p post_body_def)
qed

end
