(* ===== verification/Timers.thy ===== *)
theory Timers
  imports Doubles
begin

section \<open>util/Timer.h, util/time\_util.h, util/numeric\_util.h\<close>

text \<open>
  \<open>Timer\<close> measures in a unit of \<open>unit_ns\<close> nanoseconds against a clock that the model passes in.
  \<open>time2str\<close> prints the local time of a time stamp in milliseconds; the time zone (\<open>localtime\<close>)
  is a parameter. \<open>double2str\<close> prints into a buffer of 32 bytes.
\<close>

record timer =
  timer_start :: int
  timer_count :: int
  timer_flag :: int
  timer_isSet :: bool

text \<open>\<open>start\_\<close> is not initialised.\<close>

definition timer_new :: "int \<Rightarrow> timer" where
  "timer_new s = \<lparr>timer_start = s, timer_count = 0, timer_flag = 0, timer_isSet = False\<rparr>"

definition timer_Set :: "int \<Rightarrow> timer \<Rightarrow> timer" where
  "timer_Set now tm = tm\<lparr>timer_start := now, timer_isSet := True\<rparr>"

text \<open>\<open>duration_cast\<close> cuts towards zero.\<close>

definition duration_cast :: "int \<Rightarrow> int \<Rightarrow> int" where
  "duration_cast unit_ns d = (if d < 0 then - ((- d) div unit_ns) else d div unit_ns)"

definition timer_Check :: "int \<Rightarrow> int \<Rightarrow> timer \<Rightarrow> int \<times> timer" where
  "timer_Check unit_ns now tm =
     (if \<not> timer_isSet tm then (- 1, tm)
      else let c = duration_cast unit_ns (now - timer_start tm)
           in (c, tm\<lparr>timer_flag := 1, timer_count := c\<rparr>))"

definition timer_Get :: "int \<Rightarrow> int \<Rightarrow> timer \<Rightarrow> int \<times> timer" where
  "timer_Get unit_ns now tm =
     (if \<not> timer_isSet tm then (- 1, tm)
      else if timer_flag tm = 0 then timer_Check unit_ns now tm
      else (timer_count tm, tm))"

definition timer_Clear :: "timer \<Rightarrow> timer" where
  "timer_Clear tm = tm\<lparr>timer_count := 0, timer_flag := 0, timer_isSet := False\<rparr>"

text \<open>The first reading after \<open>Set\<close> on a cleared timer is the time since then, and \<open>Get\<close> repeats it.\<close>

lemma timer_Get_first:
  assumes "0 < unit_ns" "s \<le> now"
  shows "timer_Get unit_ns now (timer_Set s (timer_Clear tm)) =
     ((now - s) div unit_ns, (timer_Set s (timer_Clear tm))\<lparr>timer_flag := 1, timer_count := (now - s) div unit_ns\<rparr>)"
  using assms by (simp add: timer_Get_def timer_Check_def timer_Set_def timer_Clear_def duration_cast_def Let_def)

lemma timer_Get_repeats:
  "timer_isSet tm \<Longrightarrow> timer_flag tm \<noteq> 0 \<Longrightarrow> timer_Get unit_ns now tm = (timer_count tm, tm)"
  by (simp add: timer_Get_def)

text \<open>\<open>Set\<close> does not clear the flag: without \<open>Clear\<close> (or \<open>Check\<close>) the old count is read again.\<close>

lemma timer_Set_stale:
  assumes "timer_isSet tm"
  shows "fst (timer_Get unit_ns later (timer_Set s (snd (timer_Check unit_ns now tm)))) =
     fst (timer_Check unit_ns now tm)"
  using assms by (simp add: timer_Get_def timer_Check_def timer_Set_def Let_def)

subsection \<open>Printing\<close>

definition clock_text :: "nat \<times> nat \<times> nat \<Rightarrow> string" where
  "clock_text hms =
     (case hms of (h, m, s) \<Rightarrow>
        pad_left 2 (nat_to_string h) @ '':'' @ pad_left 2 (nat_to_string m) @ '':'' @ pad_left 2 (nat_to_string s))"

text \<open>Division of C++: towards zero.\<close>

definition time2str_ms :: "(int \<Rightarrow> nat \<times> nat \<times> nat) \<Rightarrow> int \<Rightarrow> string" where
  "time2str_ms localtime time_val = clock_text (localtime (duration_cast 1000 time_val))"

definition time2str_text :: "(int \<Rightarrow> nat \<times> nat \<times> nat) \<Rightarrow> string \<Rightarrow> string" where
  "time2str_text localtime time_str =
     (case stoll time_str of Inl e \<Rightarrow> [] | Inr time_val \<Rightarrow> time2str_ms localtime time_val)"

text \<open>A negative precision counts as none given, which is 6; \<open>snprintf\<close> keeps 31 characters.\<close>

definition double2str :: "double \<Rightarrow> int \<Rightarrow> string" where
  "double2str a precision = take 31 (format_fixed (if precision < 0 then 6 else nat precision) a)"

lemma double2str_length: "length (double2str a precision) \<le> 31"
  by (simp add: double2str_def)

lemma time2str_text_garbage: "stoll s = Inl e \<Longrightarrow> time2str_text lt s = []"
  by (simp add: time2str_text_def)

end
