(* ===== verification/Market_Dumps.thy ===== *)
theory Market_Dumps
  imports Prelude Json Timers
begin

section \<open>util/calc\_util.h: dumps of market data\<close>

text \<open>
  Each function walks a message and writes a line per record to a dump. A line is the list of
  its fields, tab-separated in the file; a number stays a number (the default format of a stream
  is not modelled). The state holds what was dumped and what was logged.
\<close>

datatype field = Text string | Real double

record dumped =
  dump_lines :: "(string \<times> field list) list"
  fatal_logs :: "string list"

type_synonym 'a dumper = "(dumped, 'a) prog"

definition DUMP_DATA :: "string \<Rightarrow> field list \<Rightarrow> unit dumper" where
  "DUMP_DATA name line = modify (\<lambda>s. s\<lparr>dump_lines := dump_lines s @ [(name, line)]\<rparr>)"

definition dump_fatal :: "string \<Rightarrow> unit dumper" where
  "dump_fatal msg = modify (\<lambda>s. s\<lparr>fatal_logs := fatal_logs s @ [msg]\<rparr>)"

fun for_each :: "('a \<Rightarrow> ('s, unit) prog) \<Rightarrow> 'a list \<Rightarrow> ('s, unit) prog" where
  "for_each f [] = ret ()"
| "for_each f (x # xs) = and_then (f x) (\<lambda>_. for_each f xs)"

fun map_result :: "('a \<Rightarrow> 'b result) \<Rightarrow> 'a list \<Rightarrow> 'b list result" where
  "map_result f [] = Inr []"
| "map_result f (x # xs) = bind_result (f x) (\<lambda>y. bind_result (map_result f xs) (\<lambda>ys. Inr (y # ys)))"

text \<open>The condition the three functions share.\<close>

definition has_channel_data :: "string \<Rightarrow> json \<Rightarrow> bool result" where
  "has_channel_data channel target_node =
     bind_result (has_member target_node ''channel'') (\<lambda>h.
       if \<not> h then Inr False
       else bind_result (channel_of target_node) (\<lambda>name.
              if name \<noteq> channel then Inr False else has_member target_node ''data''))"

definition on_channel_data :: "string \<Rightarrow> (json \<Rightarrow> unit dumper) \<Rightarrow> json \<Rightarrow> unit dumper" where
  "on_channel_data channel f target_node =
     and_then (lift_result (has_channel_data channel target_node)) (\<lambda>b.
       if b then and_then (lift_result (member_at target_node ''data'')) f else ret ())"

fun over_array :: "(json \<Rightarrow> unit dumper) \<Rightarrow> json \<Rightarrow> unit dumper" where
  "over_array f (JArray es) = for_each f es"
| "over_array f _ = ret ()"

subsection \<open>The three dumps\<close>

fun trades_row :: "json \<Rightarrow> unit dumper" where
  "trades_row (JArray cells) =
     and_then (lift_result (map_result get_string cells)) (\<lambda>ss. DUMP_DATA ''trades_data'' (map Text ss))"
| "trades_row _ = ret ()"

definition dump_trades_data :: "json \<Rightarrow> unit dumper" where
  "dump_trades_data node =
     over_array (on_channel_data ''ok_sub_spotcny_btc_trades'' (over_array trades_row)) node"

text \<open>One row of bids or asks: a wrong length is logged, and the row is read all the same.\<close>

definition depth_row :: "string \<Rightarrow> string \<Rightarrow> string \<Rightarrow> json \<Rightarrow> unit dumper" where
  "depth_row complaint time_str side row =
     and_then (lift_result (array_elems row)) (\<lambda>cells.
     and_then (if length cells \<noteq> 2 then dump_fatal complaint else ret ()) (\<lambda>_.
     and_then (lift_result (bind_result (elem_at row 0) get_double)) (\<lambda>price.
     and_then (lift_result (bind_result (elem_at row 1) get_double)) (\<lambda>amount.
       DUMP_DATA ''depth_20'' [Real price, Real amount, Text time_str, Text side]))))"

definition depth_side :: "string \<Rightarrow> string \<Rightarrow> string \<Rightarrow> string \<Rightarrow> json \<Rightarrow> unit dumper" where
  "depth_side name complaint time_str side data =
     and_then (lift_result (has_member data name)) (\<lambda>h.
       if h
       then and_then (lift_result (bind_result (member_at data name) array_elems)) (\<lambda>rows.
              for_each (depth_row complaint time_str side) rows)
       else ret ())"

definition depth_data :: "(int \<Rightarrow> nat \<times> nat \<times> nat) \<Rightarrow> json \<Rightarrow> unit dumper" where
  "depth_data localtime data =
     and_then (lift_result (has_member data ''timestamp'')) (\<lambda>h.
     and_then (if h then lift_result (bind_result (member_at data ''timestamp'') get_string) else ret [])
       (\<lambda>ts. let time_str = (if h then time2str_text localtime ts else []) in
     and_then (depth_side ''bids'' ''invalid format of depth_20 bids data'' time_str ''bid'' data) (\<lambda>_.
       depth_side ''asks'' ''invalid format of depth_20 asks data'' time_str ''ask'' data)))"

definition dump_depth_20_data :: "(int \<Rightarrow> nat \<times> nat \<times> nat) \<Rightarrow> json \<Rightarrow> unit dumper" where
  "dump_depth_20_data localtime node =
     over_array (on_channel_data ''ok_sub_spotcny_btc_depth_20'' (depth_data localtime)) node"

definition ticker_field :: "json \<Rightarrow> string \<Rightarrow> string result" where
  "ticker_field data name = bind_result (member_at data name) get_string"

definition ticker_data :: "(int \<Rightarrow> nat \<times> nat \<times> nat) \<Rightarrow> json \<Rightarrow> unit dumper" where
  "ticker_data localtime data =
     and_then (lift_result (map_result (ticker_field data)
                 [''last'', ''buy'', ''sell'', ''timestamp'', ''vol''])) (\<lambda>fs.
       DUMP_DATA ''ticker'' (map Text (fs[3 := time2str_text localtime (fs ! 3)])))"

definition dump_ticker :: "(int \<Rightarrow> nat \<times> nat \<times> nat) \<Rightarrow> json \<Rightarrow> unit dumper" where
  "dump_ticker localtime node =
     over_array (on_channel_data ''ok_sub_spotcny_btc_ticker'' (ticker_data localtime)) node"

subsection \<open>A line per row\<close>

lemma for_each_modify:
  assumes "\<And>x s. x \<in> set xs \<Longrightarrow> f x s = (Inr (), s\<lparr>dump_lines := dump_lines s @ [g x]\<rparr>)"
  shows "for_each f xs s = (Inr (), s\<lparr>dump_lines := dump_lines s @ map g xs\<rparr>)"
  using assms by (induction xs arbitrary: s) (simp_all add: prog_defs)

lemma for_each_map: "for_each f (map g xs) = for_each (\<lambda>x. f (g x)) xs"
  by (induction xs) simp_all

text \<open>A row of two numbers.\<close>

definition level_row :: "double \<times> double \<Rightarrow> json" where
  "level_row l = JArray [JDouble (fst l), JDouble (snd l)]"

lemma depth_row_level:
  "depth_row c t sd (level_row l) s =
     (Inr (), s\<lparr>dump_lines := dump_lines s @ [(''depth_20'', [Real (fst l), Real (snd l), Text t, Text sd])]\<rparr>)"
  by (simp add: depth_row_def level_row_def prog_defs elem_at_def DUMP_DATA_def)

lemma depth_rows_levels:
  "for_each (depth_row c t sd) (map level_row ls) s =
     (Inr (), s\<lparr>dump_lines := dump_lines s @
        map (\<lambda>l. (''depth_20'', [Real (fst l), Real (snd l), Text t, Text sd])) ls\<rparr>)"
  unfolding for_each_map by (rule for_each_modify) (simp add: depth_row_level)

text \<open>A row with fewer than two entries: the complaint is logged, then the process aborts.\<close>

lemma depth_row_short:
  assumes "length cells < 2" "list_all (\<lambda>v. \<exists>d. get_double v = Inr d) cells"
  shows "depth_row c t sd (JArray cells) s = (Inl Assert_Failure, s\<lparr>fatal_logs := fatal_logs s @ [c]\<rparr>)"
  using assms
  by (cases cells) (auto simp: depth_row_def prog_defs elem_at_def dump_fatal_def)

end
