(* ===== verification/Email_Client.thy ===== *)
theory Email_Client
  imports Prelude
begin

section \<open>util/email\_client.h: sending a mail\<close>

text \<open>
  \<open>SMTPClient\<close> resolves the server, connects, and writes a fixed script without reading replies.
  \<open>boost::asio\<close> is outside the repository: \<open>resolve\<close> and \<open>connect\<close> are the errors it reports to
  the handlers (\<open>None\<close>: none), and \<open>encode\<close> is the base64 iterator of boost. \<open>mHasError\<close> is not
  initialised: \<open>None\<close> is an indeterminate value.
\<close>

record SMTPClient =
  mServer :: string
  mPort :: nat
  mUserName :: string
  mPassword :: string
  mFrom :: string
  mTo :: string
  mSubject :: string
  mMessage :: string
  mHasError :: "bool option"
  mErrorMsg :: string
  mSent :: string

type_synonym 'a smtp = "(SMTPClient, 'a) prog"

definition smtp_new :: "string \<Rightarrow> nat \<Rightarrow> string \<Rightarrow> string \<Rightarrow> SMTPClient" where
  "smtp_new pServer pPort pUser pPassword =
     \<lparr>mServer = pServer, mPort = pPort, mUserName = pUser, mPassword = pPassword, mFrom = [], mTo = [],
      mSubject = [], mMessage = [], mHasError = None, mErrorMsg = [], mSent = []\<rparr>"

abbreviation crlf :: string where
  "crlf \<equiv> [CHR 0x0D, CHR 0x0A]"

definition writeLine :: "string \<Rightarrow> unit smtp" where
  "writeLine pData = modify (\<lambda>c. c\<lparr>mSent := mSent c @ pData @ crlf\<rparr>)"

fun writeLines :: "string list \<Rightarrow> unit smtp" where
  "writeLines [] = ret ()"
| "writeLines (l # ls) = and_then (writeLine l) (\<lambda>_. writeLines ls)"

text \<open>The script of \<open>handleConnect\<close>.\<close>

definition smtp_script :: "(string \<Rightarrow> string) \<Rightarrow> SMTPClient \<Rightarrow> string list" where
  "smtp_script encode c =
     [''EHLO '' @ mServer c, ''AUTH LOGIN'', encode (mUserName c), encode (mPassword c),
      ''MAIL FROM:<'' @ mFrom c @ ''>'', ''RCPT TO:<'' @ mTo c @ ''>'', ''DATA'',
      ''SUBJECT:'' @ mSubject c, ''From:'' @ mFrom c, ''To:'' @ mTo c, [], mMessage c, ''.'' @ crlf]"

definition smtp_error :: "string \<Rightarrow> unit smtp" where
  "smtp_error message = modify (\<lambda>c. c\<lparr>mHasError := Some True, mErrorMsg := message\<rparr>)"

definition handleConnect :: "(string \<Rightarrow> string) \<Rightarrow> string option \<Rightarrow> unit smtp" where
  "handleConnect encode err =
     (case err of
        None \<Rightarrow> and_then (gets (smtp_script encode)) writeLines
      | Some message \<Rightarrow> smtp_error message)"

definition handleResolve :: "(string \<Rightarrow> string) \<Rightarrow> string option \<Rightarrow> string option \<Rightarrow> unit smtp" where
  "handleResolve encode resolve connect =
     (case resolve of
        None \<Rightarrow> handleConnect encode connect
      | Some message \<Rightarrow> smtp_error message)"

text \<open>In the first \<open>Send\<close> of a client \<open>mIOService.run()\<close> runs the handlers; reading an indeterminate result is undefined.\<close>

definition hasErr :: "bool smtp" where
  "hasErr = and_then (gets mHasError) (\<lambda>e. case e of None \<Rightarrow> raise Undefined_Behaviour | Some b \<Rightarrow> ret b)"

definition getErr :: "string smtp" where
  "getErr = gets mErrorMsg"

definition smtp_Send ::
    "(string \<Rightarrow> string) \<Rightarrow> string option \<Rightarrow> string option \<Rightarrow>
     string \<Rightarrow> string \<Rightarrow> string \<Rightarrow> string \<Rightarrow> bool smtp" where
  "smtp_Send encode resolve connect pFrom pTo pSubject pMessage =
     and_then (modify (\<lambda>c. c\<lparr>mFrom := pFrom, mTo := pTo, mSubject := pSubject, mMessage := pMessage\<rparr>)) (\<lambda>_.
     and_then (handleResolve encode resolve connect) (\<lambda>_. hasErr))"

subsection \<open>Facts\<close>

lemma writeLines_sent:
  "writeLines ls c = (Inr (), c\<lparr>mSent := mSent c @ concat (map (\<lambda>l. l @ crlf) ls)\<rparr>)"
  by (induction ls arbitrary: c) (simp_all add: prog_defs writeLine_def)

text \<open>A failed resolution or connection is reported, and nothing is written.\<close>

lemma smtp_Send_error:
  assumes "resolve = Some message \<or> resolve = None \<and> connect = Some message"
  shows "\<exists>c'. smtp_Send encode resolve connect f t sj m c = (Inr True, c') \<and>
           mErrorMsg c' = message \<and> mSent c' = mSent c"
  using assms
  by (auto simp: smtp_Send_def handleResolve_def handleConnect_def smtp_error_def hasErr_def prog_defs)

text \<open>When all goes well the mail is written, and the result is whatever the flag held.\<close>

lemma smtp_Send_ok:
  assumes "mHasError c = None"
  shows "fst (smtp_Send encode None None f t sj m c) = Inl Undefined_Behaviour \<and>
         mSent (snd (smtp_Send encode None None f t sj m c)) =
           mSent c @ concat (map (\<lambda>l. l @ crlf) (smtp_script encode
             (c\<lparr>mFrom := f, mTo := t, mSubject := sj, mMessage := m\<rparr>)))"
  using assms
  by (simp add: smtp_Send_def handleResolve_def handleConnect_def hasErr_def prog_defs writeLines_sent)

end
