(* ===== verification/Http_Parser.thy ===== *)
theory Http_Parser
  imports Clib
begin

section \<open>websocketpp/http: headers and the reply of the server\<close>

text \<open>
  The part of the HTTP parser that a client uses: the table of token characters
  (http/constants.hpp), linear white space and the header list (http/parser.hpp,
  http/impl/parser.hpp), the request line and headers it writes (http/impl/request.hpp) and the
  reply it reads (http/impl/response.hpp). An operation returns, throws an
  \<open>http::exception\<close>, or fails in a way that the callers do not catch.
\<close>

datatype http_error = Http_Exception string nat | Cpp_Failure failure

type_synonym 'a http = "http_error + 'a"

fun bind_http :: "'a http \<Rightarrow> ('a \<Rightarrow> 'b http) \<Rightarrow> 'b http" where
  "bind_http (Inl e) f = Inl e"
| "bind_http (Inr x) f = f x"

lemma bind_http_eq_Inr: "bind_http r f = Inr y \<longleftrightarrow> (\<exists>x. r = Inr x \<and> f x = Inr y)"
  by (cases r) auto

lemma bind_http_cong [fundef_cong]:
  "r = r' \<Longrightarrow> (\<And>x. r' = Inr x \<Longrightarrow> f x = g x) \<Longrightarrow> bind_http r f = bind_http r' g"
  by (cases r') auto

definition bad_request :: nat where "bad_request = 400"
definition switching_protocols :: int where "switching_protocols = 101"
definition request_header_fields_too_large :: nat where "request_header_fields_too_large = 431"

subsection \<open>Characters\<close>

definition header_token :: "nat list" where
  "header_token =
     [0,0,0,0,0,0,0,0,0,0,0,0,0,0,0,0,
      0,0,0,0,0,0,0,0,0,0,0,0,0,0,0,0,
      0,1,0,1,1,1,1,1,0,0,1,1,0,1,1,0,
      1,1,1,1,1,1,1,1,1,1,0,0,0,0,0,0,
      0,1,1,1,1,1,1,1,1,1,1,1,1,1,1,1,
      1,1,1,1,1,1,1,1,1,1,1,0,0,0,1,1,
      1,1,1,1,1,1,1,1,1,1,1,1,1,1,1,1,
      1,1,1,1,1,1,1,1,1,1,1,0,1,0,1,0] @ replicate 128 0"

definition is_token_char :: "char \<Rightarrow> bool" where
  "is_token_char c \<longleftrightarrow> header_token ! code_of c = 1"

definition is_not_token_char :: "char \<Rightarrow> bool" where
  "is_not_token_char c \<longleftrightarrow> header_token ! code_of c = 0"

definition is_whitespace_char :: "char \<Rightarrow> bool" where
  "is_whitespace_char c \<longleftrightarrow> code_of c = 9 \<or> code_of c = 32"

definition is_not_whitespace_char :: "char \<Rightarrow> bool" where
  "is_not_whitespace_char c \<longleftrightarrow> code_of c \<noteq> 9 \<and> code_of c \<noteq> 32"

abbreviation CR :: char where "CR \<equiv> CHR 0x0D"
abbreviation LF :: char where "LF \<equiv> CHR 0x0A"

definition header_delimiter :: string where
  "header_delimiter = [CR, LF]"

definition max_header_size :: nat where
  "max_header_size = 16000"

subsection \<open>Tokens and white space\<close>

definition extract_token :: "string \<Rightarrow> string \<times> string" where
  "extract_token cs = (takeWhile (\<lambda>c. \<not> is_not_token_char c) cs, dropWhile (\<lambda>c. \<not> is_not_token_char c) cs)"

definition skip_whitespace :: "string \<Rightarrow> string" where
  "skip_whitespace = dropWhile (\<lambda>c. \<not> is_not_whitespace_char c)"

fun extract_lws :: "string \<Rightarrow> string" where
  "extract_lws (a # b # c # cs) =
     (if a = CR \<and> b = LF \<and> is_whitespace_char c then skip_whitespace cs else skip_whitespace (a # b # c # cs))"
| "extract_lws cs = skip_whitespace cs"

lemma skip_whitespace_suffix: "\<exists>ws. cs = ws @ skip_whitespace cs"
  unfolding skip_whitespace_def by (metis takeWhile_dropWhile_id)

lemma extract_lws_suffix: "\<exists>ws. cs = ws @ extract_lws cs"
proof (cases cs rule: extract_lws.cases)
  case (1 a b c ds)
  obtain ws where "ds = ws @ skip_whitespace ds" using skip_whitespace_suffix by blast
  then have "a # b # c # ds = (a # b # c # ws) @ skip_whitespace ds" by simp
  with 1 skip_whitespace_suffix[of cs] show ?thesis by (auto intro: exI[of _ "a # b # c # ws"])
qed (use skip_whitespace_suffix in \<open>auto simp: skip_whitespace_def\<close>)

lemma extract_lws_length: "length (extract_lws cs) \<le> length cs"
  using extract_lws_suffix[of cs] by (metis length_append le_add2)

lemma extract_lws_shorter: "extract_lws cs \<noteq> cs \<Longrightarrow> length (extract_lws cs) < length cs"
  using extract_lws_suffix[of cs] by (metis append_Nil length_append less_add_same_cancel2 length_greater_0_conv)

function extract_all_lws :: "string \<Rightarrow> string" where
  "extract_all_lws cs =
     (let new = extract_lws cs in if new \<noteq> [] \<and> cs \<noteq> new then extract_all_lws new else new)"
  by pat_completeness auto
termination
  by (relation "measure length") (auto intro: extract_lws_shorter)

declare extract_all_lws.simps [simp del]

text \<open>Both ends are searched, on their own: they may cross, and then the string is built from an
  invalid range.\<close>

definition strip_lws :: "string \<Rightarrow> string http" where
  "strip_lws input =
     (let rest = extract_all_lws input; start = length input - length rest
      in if rest = [] then Inr []
         else let stop = length (extract_all_lws (rev input))
              in if start \<le> stop then Inr (take (stop - start) (drop start input))
                 else Inl (Cpp_Failure Undefined_Behaviour))"

subsection \<open>Headers\<close>

text \<open>\<open>std::map\<close> ordered by \<open>utility::ci_less\<close>: a list in this order.\<close>

fun ci_less :: "string \<Rightarrow> string \<Rightarrow> bool" where
  "ci_less _ [] = False"
| "ci_less [] (_ # _) = True"
| "ci_less (x # xs) (y # ys) =
     (if code_of (tolower x) < code_of (tolower y) then True
      else if code_of (tolower y) < code_of (tolower x) then False
      else ci_less xs ys)"

type_synonym header_list = "(string \<times> string) list"

fun header_find :: "string \<Rightarrow> header_list \<Rightarrow> string option" where
  "header_find key [] = None"
| "header_find key ((k, v) # hs) =
     (if ci_less k key then header_find key hs else if ci_less key k then None else Some v)"

fun header_set :: "string \<Rightarrow> string \<Rightarrow> header_list \<Rightarrow> header_list" where
  "header_set key val [] = [(key, val)]"
| "header_set key val ((k, v) # hs) =
     (if ci_less k key then (k, v) # header_set key val hs
      else if ci_less key k then (key, val) # (k, v) # hs
      else (k, val) # hs)"

fun header_erase :: "string \<Rightarrow> header_list \<Rightarrow> header_list" where
  "header_erase key [] = []"
| "header_erase key ((k, v) # hs) =
     (if ci_less k key then (k, v) # header_erase key hs else if ci_less key k then (k, v) # hs else hs)"

record parser =
  m_version :: string
  m_headers :: header_list
  m_header_bytes :: nat
  m_body :: string

definition set_version :: "string \<Rightarrow> 'a parser_scheme \<Rightarrow> 'a parser_scheme" where
  "set_version version p = p\<lparr>m_version := version\<rparr>"

definition get_header :: "string \<Rightarrow> 'a parser_scheme \<Rightarrow> string" where
  "get_header key p = (case header_find key (m_headers p) of None \<Rightarrow> [] | Some v \<Rightarrow> v)"

definition replace_header :: "string \<Rightarrow> string \<Rightarrow> 'a parser_scheme \<Rightarrow> 'a parser_scheme" where
  "replace_header key val p = p\<lparr>m_headers := header_set key val (m_headers p)\<rparr>"

definition append_header :: "string \<Rightarrow> string \<Rightarrow> 'a parser_scheme \<Rightarrow> 'a parser_scheme http" where
  "append_header key val p =
     (if list_ex is_not_token_char key then Inl (Http_Exception ''Invalid header name'' bad_request)
      else Inr (replace_header key (if get_header key p = [] then val else get_header key p @ '', '' @ val) p))"

definition remove_header :: "string \<Rightarrow> 'a parser_scheme \<Rightarrow> 'a parser_scheme" where
  "remove_header key p = p\<lparr>m_headers := header_erase key (m_headers p)\<rparr>"

definition process_header :: "string \<Rightarrow> 'a parser_scheme \<Rightarrow> 'a parser_scheme http" where
  "process_header line p =
     (let key = takeWhile (\<lambda>c. c \<noteq> CHR '':'') line; rest = dropWhile (\<lambda>c. c \<noteq> CHR '':'') line
      in if rest = [] then Inl (Http_Exception ''Invalid header line'' bad_request)
         else bind_http (strip_lws (tl rest)) (\<lambda>val. bind_http (strip_lws key) (\<lambda>key. append_header key val p)))"

definition raw_headers :: "'a parser_scheme \<Rightarrow> string" where
  "raw_headers p = concat (map (\<lambda>(k, v). k @ '': '' @ v @ header_delimiter) (m_headers p))"

subsection \<open>Requests\<close>

record request = parser +
  m_method :: string
  m_uri_text :: string

definition request_new :: request where
  "request_new =
     \<lparr>m_version = [], m_headers = [], m_header_bytes = 0, m_body = [], m_method = [], m_uri_text = []\<rparr>"

definition set_method :: "string \<Rightarrow> request \<Rightarrow> request http" where
  "set_method method r =
     (if list_ex is_not_token_char method then Inl (Http_Exception ''Invalid method token.'' bad_request)
      else Inr (r\<lparr>m_method := method\<rparr>))"

definition set_uri :: "string \<Rightarrow> request \<Rightarrow> request" where
  "set_uri u r = r\<lparr>m_uri_text := u\<rparr>"

definition request_raw :: "request \<Rightarrow> string" where
  "request_raw r =
     m_method r @ '' '' @ m_uri_text r @ '' '' @ m_version r @ header_delimiter @
     raw_headers r @ header_delimiter @ m_body r"

subsection \<open>Responses\<close>

datatype response_state = RESPONSE_LINE | HEADERS | BODY | DONE

record response = parser +
  m_read :: nat
  m_line_buf :: string
  m_status_code :: int
  m_status_msg :: string
  rs_state :: response_state

definition response_new :: response where
  "response_new =
     \<lparr>m_version = [], m_headers = [], m_header_bytes = 0, m_body = [], m_read = 0, m_line_buf = [],
      m_status_code = 0, m_status_msg = [], rs_state = RESPONSE_LINE\<rparr>"

definition response_set_status :: "int \<Rightarrow> string \<Rightarrow> response \<Rightarrow> response" where
  "response_set_status code msg r = r\<lparr>m_status_code := code, m_status_msg := msg\<rparr>"

definition response_raw :: "response \<Rightarrow> string" where
  "response_raw r =
     m_version r @ '' '' @ int_to_string (m_status_code r) @ '' '' @ m_status_msg r @ header_delimiter @
     raw_headers r @ header_delimiter @ m_body r"

definition headers_ready :: "response \<Rightarrow> bool" where
  "headers_ready r \<longleftrightarrow> rs_state r = BODY \<or> rs_state r = DONE"

text \<open>\<open>std::istringstream(s) >> n\<close> for an \<open>int\<close> and for a \<open>size_t\<close>: blanks, a sign, digits. A minus
  before a number that fits in a \<open>size_t\<close> negates it there.\<close>

definition read_int :: "string \<Rightarrow> int option" where
  "read_int s = (case strtol10 s of Some v \<Rightarrow> if int32_range v then Some v else None | None \<Rightarrow> None)"

definition read_size :: "string \<Rightarrow> nat option" where
  "read_size s = (case strtol10 s of Some v \<Rightarrow> if \<bar>v\<bar> < 2 ^ 64 then Some (size_t v) else None | None \<Rightarrow> None)"

definition split_blank :: "string \<Rightarrow> (string \<times> string) option" where
  "split_blank s =
     (case dropWhile (\<lambda>c. c \<noteq> CHR '' '') s of [] \<Rightarrow> None | _ # r \<Rightarrow> Some (takeWhile (\<lambda>c. c \<noteq> CHR '' '') s, r))"

definition process_status_line :: "string \<Rightarrow> response \<Rightarrow> response http" where
  "process_status_line line r =
     (case split_blank line of
        None \<Rightarrow> Inl (Http_Exception ''Invalid response line'' bad_request)
      | Some (version, rest) \<Rightarrow>
          (case split_blank rest of
             None \<Rightarrow> Inl (Http_Exception ''Invalid request line'' bad_request)
           | Some (code, msg) \<Rightarrow>
               (case read_int code of
                  None \<Rightarrow> Inl (Http_Exception ''Unable to parse response code'' bad_request)
                | Some code \<Rightarrow> Inr (response_set_status code msg (set_version version r)))))"

definition process_body :: "string \<Rightarrow> response \<Rightarrow> nat \<times> response" where
  "process_body buf r =
     (if m_read r = 0 then (0, r\<lparr>rs_state := DONE\<rparr>)
      else let to_read = (if m_read r \<le> length buf then m_read r else length buf);
               r = (if m_read r \<le> length buf then r\<lparr>rs_state := DONE\<rparr> else r)
           in (to_read, r\<lparr>m_body := m_body r @ take to_read buf, m_read := m_read r - to_read\<rparr>))"

text \<open>\<open>std::search\<close> for the delimiter: what is before it, and the rest from it.\<close>

fun split_line :: "string \<Rightarrow> string \<times> string" where
  "split_line (a # b # cs) =
     (if a = CR \<and> b = LF then ([], a # b # cs) else (case split_line (b # cs) of (l, r) \<Rightarrow> (a # l, r)))"
| "split_line cs = (cs, [])"

lemma split_line_append: "split_line cs = (l, r) \<Longrightarrow> cs = l @ r"
  by (induction cs arbitrary: l r rule: split_line.induct) (auto split: if_splits prod.splits)

lemma split_line_found: "split_line cs = (l, r) \<Longrightarrow> r \<noteq> [] \<Longrightarrow> \<exists>t. r = header_delimiter @ t"
  by (induction cs arbitrary: l r rule: split_line.induct)
    (auto simp: header_delimiter_def split: if_splits prod.splits)

text \<open>The end of the headers: \<open>after\<close> starts at the delimiter of the blank line.\<close>

definition blank_line :: "string \<Rightarrow> string \<Rightarrow> response \<Rightarrow> (nat \<times> response) http" where
  "blank_line buf after r =
     (if rs_state r = RESPONSE_LINE then Inl (Http_Exception ''Incomplete Request'' bad_request)
      else let len = get_header ''Content-Length'' r
           in case (if len = [] then Some 0 else read_size len) of
                None \<Rightarrow> Inl (Http_Exception ''Unable to parse Content-Length header'' bad_request)
              | Some n \<Rightarrow>
                  let r = r\<lparr>m_read := n, rs_state := BODY\<rparr>;
                      k = length buf + 2 - length after;
                      (more, r) = (if k < length buf then process_body (drop k buf) r else (0, r))
                  in Inr (k + more, r\<lparr>m_line_buf := []\<rparr>))"

definition process_line :: "string \<Rightarrow> response \<Rightarrow> response http" where
  "process_line line r =
     (if rs_state r = RESPONSE_LINE
      then bind_http (process_status_line line r) (\<lambda>r. Inr (r\<lparr>rs_state := HEADERS\<rparr>))
      else process_header line r)"

function response_lines :: "string \<Rightarrow> string \<Rightarrow> response \<Rightarrow> (nat \<times> response) http" where
  "response_lines buf cs r =
     (let (line, after) = split_line cs;
          r = r\<lparr>m_header_bytes := m_header_bytes r + length line + 3\<rparr>
      in if max_header_size < m_header_bytes r
         then Inl (Http_Exception ''Maximum header size exceeded.'' request_header_fields_too_large)
         else if after = []
         then Inr (length buf, r\<lparr>m_line_buf := line, m_read := size_t (int (m_read r) + int (length buf)),
                                 m_header_bytes := m_header_bytes r - length line\<rparr>)
         else if line = [] then blank_line buf after r
         else bind_http (process_line line r) (response_lines buf (drop 2 after)))"
  by pat_completeness auto
termination
proof (relation "measure (\<lambda>(_, cs, _). length cs)", goal_cases)
  case (2 buf cs r p line after)
  then have "cs = line @ after" "after \<noteq> []" using split_line_append[of cs line after] by auto
  then show ?case by (cases after) auto
qed simp

declare response_lines.simps [simp del]

definition response_consume :: "string \<Rightarrow> response \<Rightarrow> (nat \<times> response) http" where
  "response_consume buf r =
     (if rs_state r = DONE then Inr (0, r)
      else if rs_state r = BODY then Inr (process_body buf r)
      else response_lines buf (m_line_buf r @ buf) r)"

end
