(* ===== verification/Http_Facts.thy ===== *)
theory Http_Facts
  imports Http_Parser "HOL-Library.List_Lexorder"
begin

section \<open>Facts about the HTTP parser\<close>

text \<open>
  The token table is the one of RFC 7230; the header list is a finite map on names up to
  case; white space that surrounds a value is removed; and the reply of the server is parsed in the
  same way however the network cuts it, as long as the limit on the size of the headers is not met.
\<close>

subsection \<open>The token table\<close>

definition token_code :: "int \<Rightarrow> bool" where
  "token_code n \<longleftrightarrow>
     48 \<le> n \<and> n \<le> 57 \<or> 65 \<le> n \<and> n \<le> 90 \<or> 97 \<le> n \<and> n \<le> 122 \<or>
     n \<in> {33, 35, 36, 37, 38, 39, 42, 43, 45, 46, 94, 95, 96, 124, 126}"

lemma token_table: "header_token = map (\<lambda>n. if token_code n then 1 else 0) [0..255]"
  by code_simp

lemma header_token_nth: "header_token ! code_of c = (if token_code (int (code_of c)) then 1 else 0)"
proof -
  have "code_of c < 256" by simp
  then have "int (code_of c) \<le> 255" by linarith
  then show ?thesis by (simp add: token_table nth_upto del: upto_rec_numeral)
qed

lemma is_token_char_iff: "is_token_char c \<longleftrightarrow> token_code (int (code_of c))"
  by (simp add: is_token_char_def header_token_nth)

lemma is_not_token_char_iff [simp]: "is_not_token_char c \<longleftrightarrow> \<not> is_token_char c"
  by (simp add: is_token_char_def is_not_token_char_def header_token_nth)

lemma token_no_separator: "is_token_char c \<Longrightarrow> c \<noteq> CHR '':'' \<and> c \<noteq> CR \<and> c \<noteq> LF \<and> \<not> is_whitespace_char c"
  by (auto simp: is_token_char_iff token_code_def is_whitespace_char_def)

lemma not_whitespace [simp]: "is_not_whitespace_char c \<longleftrightarrow> \<not> is_whitespace_char c"
  by (simp add: is_not_whitespace_char_def is_whitespace_char_def)

subsection \<open>Header lists\<close>

definition header_name :: "string \<Rightarrow> nat list" where
  "header_name k = map (\<lambda>c. code_of (tolower c)) k"

lemma ci_less_iff: "ci_less x y \<longleftrightarrow> header_name x < header_name y"
  by (induction x y rule: ci_less.induct) (auto simp: header_name_def)

definition header_order :: "header_list \<Rightarrow> bool" where
  "header_order hs \<longleftrightarrow> sorted_wrt (<) (map (header_name \<circ> fst) hs)"

lemma header_set_names: "set (map (header_name \<circ> fst) (header_set k v hs)) = insert (header_name k) (set (map (header_name \<circ> fst) hs))"
  by (induction k v hs rule: header_set.induct) (auto simp: ci_less_iff)

lemma header_order_set [simp]: "header_order hs \<Longrightarrow> header_order (header_set k v hs)"
proof (induction k v hs rule: header_set.induct)
  case (2 key val k v hs)
  then show ?case
    using header_set_names[of key val hs]
    by (auto simp: header_order_def ci_less_iff simp del: header_set.simps(1))
qed (simp add: header_order_def)

lemma header_find_set:
  "header_order hs \<Longrightarrow>
     header_find key (header_set k v hs) = (if header_name key = header_name k then Some v else header_find key hs)"
proof (induction k v hs rule: header_set.induct)
  case (2 key' val k v hs)
  then show ?case by (auto simp: header_order_def ci_less_iff)
qed (auto simp: ci_less_iff)

lemma header_find_above:
  "header_order ((k, v) # hs) \<Longrightarrow> header_name key \<le> header_name k \<Longrightarrow> header_find key hs = None"
proof (cases hs)
  case (Cons h hs')
  assume "header_order ((k, v) # hs)" "header_name key \<le> header_name k"
  with Cons have "header_name key < header_name (fst h)" by (auto simp: header_order_def)
  with Cons show ?thesis by (cases h) (auto simp: ci_less_iff)
qed simp

lemma header_find_erase:
  "header_order hs \<Longrightarrow>
     header_find key (header_erase k hs) = (if header_name key = header_name k then None else header_find key hs)"
proof (induction k hs rule: header_erase.induct)
  case (2 key' k v hs)
  have "header_name key = header_name key' \<Longrightarrow> \<not> ci_less k key' \<Longrightarrow> header_find key hs = None"
    "header_name key < header_name k \<Longrightarrow> header_find key hs = None"
    using header_find_above[OF 2(2), of key] by (auto simp: ci_less_iff)
  moreover have "header_order hs" using 2(2) by (simp add: header_order_def)
  ultimately show ?case using 2(1) by (auto simp: ci_less_iff)
qed simp

subsection \<open>White space around a value\<close>

text \<open>A value that a peer sends as it is: on one line, with no white space around it.\<close>

definition trimmed :: "string \<Rightarrow> bool" where
  "trimmed v \<longleftrightarrow> CR \<notin> set v \<and> (v \<noteq> [] \<longrightarrow> \<not> is_whitespace_char (hd v) \<and> \<not> is_whitespace_char (last v))"

lemma skip_whitespace_Cons: "skip_whitespace (c # cs) = (if is_whitespace_char c then skip_whitespace cs else c # cs)"
  by (simp add: skip_whitespace_def)

lemma extract_lws_no_CR: "CR \<notin> set cs \<Longrightarrow> extract_lws cs = skip_whitespace cs"
  by (cases cs rule: extract_lws.cases) auto

lemma extract_all_lws_trimmed:
  assumes "CR \<notin> set v" "v \<noteq> [] \<Longrightarrow> \<not> is_whitespace_char (hd v)"
  shows "extract_all_lws v = v" and "extract_all_lws (CHR '' '' # v) = v"
proof -
  have v: "extract_lws v = v"
    using assms by (cases v) (simp_all add: extract_lws_no_CR skip_whitespace_Cons skip_whitespace_def)
  then show all: "extract_all_lws v = v" by (subst extract_all_lws.simps) simp
  have "is_whitespace_char (CHR '' '')" by (simp add: is_whitespace_char_def)
  with assms(1) v have "extract_lws (CHR '' '' # v) = v"
    by (simp add: extract_lws_no_CR skip_whitespace_Cons)
  with all show "extract_all_lws (CHR '' '' # v) = v"
    by (subst extract_all_lws.simps) simp
qed

lemma strip_lws_trimmed:
  assumes "trimmed v"
  shows "strip_lws v = Inr v" and "strip_lws (CHR '' '' # v) = Inr v"
proof -
  have v: "CR \<notin> set v" "v \<noteq> [] \<Longrightarrow> \<not> is_whitespace_char (hd v)" using assms by (auto simp: trimmed_def)
  have r: "CR \<notin> set (rev v @ w)" if "CR \<notin> set w" for w using v(1) that by auto
  have h: "rev v @ w \<noteq> [] \<Longrightarrow> \<not> is_whitespace_char (hd (rev v @ w))" if "v \<noteq> []" for w
    using assms that by (auto simp: trimmed_def hd_append hd_rev)
  show "strip_lws v = Inr v"
    using extract_all_lws_trimmed(1)[OF v] extract_all_lws_trimmed(1)[of "rev v"] r[of "[]"] h[of "[]"]
    by (cases "v = []") (auto simp: strip_lws_def Let_def)
  show "strip_lws (CHR '' '' # v) = Inr v"
    using extract_all_lws_trimmed(2)[OF v] extract_all_lws_trimmed(1)[of "rev v @ '' ''"] r[of "'' ''"] h[of "'' ''"]
    by (cases "v = []") (auto simp: strip_lws_def Let_def)
qed

subsection \<open>The reply, however it is cut\<close>

lemma split_line_more: "split_line cs = (l, r) \<Longrightarrow> r \<noteq> [] \<Longrightarrow> split_line (cs @ b) = (l, r @ b)"
  by (induction cs arbitrary: l r rule: split_line.induct) (auto split: if_splits prod.splits)

lemma split_line_length: "length (snd (split_line cs)) \<le> length cs"
  using split_line_append[of cs "fst (split_line cs)" "snd (split_line cs)"]
  by (metis length_append le_add2 prod.collapse)

lemma split_line_partial: "snd (split_line p) = [] \<Longrightarrow> length (snd (split_line (p @ b))) \<le> length b + 1"
proof (induction p rule: split_line.induct, goal_cases)
  case (3 c)
  show ?case
  proof (cases b)
    case (Cons d ds)
    with split_line_length[of b] show ?thesis by (auto split: prod.splits)
  qed simp
qed (use split_line_length[of b] in \<open>auto split: if_splits prod.splits\<close>)

definition counters :: "nat \<Rightarrow> nat \<Rightarrow> string \<Rightarrow> response \<Rightarrow> response" where
  "counters h x y r = r\<lparr>m_header_bytes := h, m_read := x, m_line_buf := y\<rparr>"

lemma process_line_counters:
  "process_line line (counters h x y r) = bind_http (process_line line r) (\<lambda>r. Inr (counters h x y r))"
proof -
  have header: "process_header line (counters h x y r) = bind_http (process_header line r) (\<lambda>r. Inr (counters h x y r))"
    by (cases "strip_lws (tl (dropWhile (\<lambda>c. c \<noteq> CHR '':'') line))";
        cases "strip_lws (takeWhile (\<lambda>c. c \<noteq> CHR '':'') line)")
      (auto simp: process_header_def append_header_def replace_header_def get_header_def counters_def Let_def)
  then show ?thesis
    by (auto simp: process_line_def process_status_line_def response_set_status_def set_version_def counters_def
        split: option.split prod.split)
qed

lemma counters_fields [simp]:
  "rs_state (counters h x y r) = rs_state r" "m_headers (counters h x y r) = m_headers r"
  "m_header_bytes (counters h x y r) = h" "m_read (counters h x y r) = x" "m_line_buf (counters h x y r) = y"
  "counters h x y (counters h' x' y' r) = counters h x y r"
  "counters (m_header_bytes r) (m_read r) (m_line_buf r) r = r"
  by (simp_all add: counters_def)

lemma process_line_keeps:
  assumes "process_line line r = Inr r'"
  shows "m_header_bytes r' = m_header_bytes r" "m_read r' = m_read r" "m_line_buf r' = m_line_buf r"
    "\<not> headers_ready r \<Longrightarrow> \<not> headers_ready r'"
proof -
  have "process_line line r = bind_http (process_line line r) (\<lambda>r'. Inr (counters (m_header_bytes r) (m_read r) (m_line_buf r) r'))"
    using process_line_counters[of line "m_header_bytes r" "m_read r" "m_line_buf r" r] by simp
  with assms have r': "r' = counters (m_header_bytes r) (m_read r) (m_line_buf r) r'" by simp
  then show "m_header_bytes r' = m_header_bytes r" "m_read r' = m_read r" "m_line_buf r' = m_line_buf r"
    by (metis counters_fields(3), metis counters_fields(4), metis counters_fields(5))
  show "\<not> headers_ready r \<Longrightarrow> \<not> headers_ready r'"
    using assms by (auto simp: process_line_def process_header_def append_header_def replace_header_def Let_def
        headers_ready_def bind_http_eq_Inr split: if_splits)
qed

text \<open>A buffer that holds more in front of the same line end gives the same reply, later.\<close>

lemma blank_line_counters:
  assumes "blank_line b after r = Inr (k, r2)" "length after \<le> length b + 2"
  shows "blank_line (a @ b) after (counters h x y r) = Inr (length a + k, counters h (m_read r2) [] r2)"
    and "m_header_bytes r2 = m_header_bytes r" "m_line_buf r2 = []" "headers_ready r2"
  using assms
  by (auto simp: blank_line_def counters_def get_header_def process_body_def headers_ready_def Let_def
      split: if_splits option.splits prod.splits)

lemma response_lines_partial:
  assumes "split_line cs = (line, after)" "after = []"
  shows "response_lines buf cs r =
    (if max_header_size < m_header_bytes r + length line + 3
     then Inl (Http_Exception ''Maximum header size exceeded.'' request_header_fields_too_large)
     else Inr (length buf, counters (m_header_bytes r + 3) (size_t (int (m_read r) + int (length buf))) line r))"
  using assms by (subst response_lines.simps) (simp add: Let_def counters_def)

lemma response_lines_counters:
  assumes "response_lines b cs r = Inr (k, r2)" "length (snd (split_line cs)) \<le> length b + 2"
    "h \<le> m_header_bytes r" "\<not> headers_ready r"
  shows "\<exists>h' x'. response_lines (a @ b) cs (counters h x y r) = Inr (length a + k, counters h' x' (m_line_buf r2) r2) \<and>
           h' \<le> m_header_bytes r2 \<and> (headers_ready r2 \<longrightarrow> x' = m_read r2)"
  using assms
proof (induction b cs r arbitrary: h x y rule: response_lines.induct)
  case (1 b cs r)
  obtain line after where cs: "split_line cs = (line, after)" by fastforce
  let ?r = "r\<lparr>m_header_bytes := m_header_bytes r + length line + 3\<rparr>"
  let ?c = "counters h x y r\<lparr>m_header_bytes := h + length line + 3\<rparr>"
  have c: "?c = counters (h + length line + 3) x y ?r" by (simp add: counters_def)
  have size: "\<not> max_header_size < m_header_bytes ?r"
    using "1.prems"(1) cs by (subst (asm) response_lines.simps) (auto simp: Let_def split: if_splits)
  show ?case
  proof (cases "after = []")
    case True
    have r2: "k = length b" "r2 = counters (m_header_bytes r + 3) (size_t (int (m_read r) + int (length b))) line r"
      using "1.prems"(1) response_lines_partial[OF cs True, of b r] size by auto
    let ?x = "size_t (int x + int (length (a @ b)))"
    have "response_lines (a @ b) cs (counters h x y r) = Inr (length (a @ b), counters (h + 3) ?x line r)"
      using response_lines_partial[OF cs True, of "a @ b" "counters h x y r"] size "1.prems"(3) by simp
    with r2 "1.prems"(3,4) show ?thesis
      by (intro exI[of _ "h + 3"] exI[of _ ?x]) (simp add: headers_ready_def)
  next
    case False
    show ?thesis
    proof (cases "line = []")
      case True
      have blank: "blank_line b after ?r = Inr (k, r2)"
        using "1.prems"(1) cs False True size by (subst (asm) response_lines.simps) (auto simp: Let_def)
      have after: "length after \<le> length b + 2" using "1.prems"(2) cs by simp
      have "response_lines (a @ b) cs (counters h x y r) = Inr (length a + k, counters (h + 3) (m_read r2) (m_line_buf r2) r2)"
        using blank_line_counters(1)[OF blank after, of a "h + 3" x y] blank_line_counters(3)[OF blank after]
          "1.prems"(3) cs False True size c
        by (subst response_lines.simps) (simp add: Let_def)
      with blank_line_counters(2)[OF blank after] "1.prems"(3) True show ?thesis
        by (intro exI[of _ "h + 3"] exI[of _ "m_read r2"]) simp
    next
      case nonempty: False
      obtain r1 where r1: "process_line line ?r = Inr r1" and rest: "response_lines b (drop 2 after) r1 = Inr (k, r2)"
        using "1.prems"(1) cs False nonempty size
        by (subst (asm) response_lines.simps) (auto simp: Let_def bind_http_eq_Inr)
      have short: "length (snd (split_line (drop 2 after))) \<le> length b + 2"
        using split_line_length[of "drop 2 after"] "1.prems"(2) cs by simp
      have ready: "\<not> headers_ready r1"
        using process_line_keeps(4)[OF r1] "1.prems"(4) by (simp add: headers_ready_def)
      have h: "h + length line + 3 \<le> m_header_bytes r1"
        using process_line_keeps(1)[OF r1] "1.prems"(3) by simp
      have IH: "\<exists>h' x'. response_lines (a @ b) (drop 2 after) (counters (h + length line + 3) x y r1) =
          Inr (length a + k, counters h' x' (m_line_buf r2) r2) \<and>
          h' \<le> m_header_bytes r2 \<and> (headers_ready r2 \<longrightarrow> x' = m_read r2)"
        using "1.IH"[OF refl cs[symmetric] refl size False nonempty r1 rest short h ready] .
      with cs False nonempty size "1.prems"(3) show ?thesis
        by (subst response_lines.simps) (auto simp: Let_def c process_line_counters r1)
    qed
  qed
qed

lemma response_lines_further:
  assumes "response_lines a cs r = Inr (k, r1)" "\<not> headers_ready r1" "\<not> headers_ready r"
  shows "k = length a \<and> snd (split_line (m_line_buf r1)) = [] \<and> 3 \<le> m_header_bytes r1 \<and> \<not> headers_ready r1 \<and>
     response_lines (a @ b) (cs @ b) r =
       response_lines (a @ b) (m_line_buf r1 @ b) (counters (m_header_bytes r1 - 3) (m_read r) (m_line_buf r) r1)"
  using assms
proof (induction a cs r rule: response_lines.induct)
  case (1 a cs r)
  obtain line after where cs: "split_line cs = (line, after)" by fastforce
  let ?r = "r\<lparr>m_header_bytes := m_header_bytes r + length line + 3\<rparr>"
  have size: "\<not> max_header_size < m_header_bytes ?r"
    using "1.prems"(1) cs by (subst (asm) response_lines.simps) (auto simp: Let_def split: if_splits)
  show ?case
  proof (cases "after = []")
    case True
    with split_line_append[OF cs] have "line = cs" by simp
    have r1: "k = length a" "r1 = counters (m_header_bytes r + 3) (size_t (int (m_read r) + int (length a))) cs r"
      using "1.prems"(1) response_lines_partial[OF cs True, of a r] size \<open>line = cs\<close> by auto
    with "1.prems"(2) cs True show ?thesis by simp
  next
    case False
    show ?thesis
    proof (cases "line = []")
      case True
      have "blank_line a after ?r = Inr (k, r1)"
        using "1.prems"(1) cs False True size by (subst (asm) response_lines.simps) (auto simp: Let_def)
      then have "headers_ready r1"
        by (auto simp: blank_line_def process_body_def headers_ready_def Let_def split: if_splits option.splits prod.splits)
      with "1.prems"(2) show ?thesis by simp
    next
      case nonempty: False
      obtain r0 where r0: "process_line line ?r = Inr r0" and rest: "response_lines a (drop 2 after) r0 = Inr (k, r1)"
        using "1.prems"(1) cs False nonempty size
        by (subst (asm) response_lines.simps) (auto simp: Let_def bind_http_eq_Inr)
      have ready: "\<not> headers_ready r0"
        using process_line_keeps(4)[OF r0] "1.prems"(3) by (simp add: headers_ready_def)
      have two: "drop 2 (after @ b) = drop 2 after @ b"
        using split_line_found[OF cs False] by (auto simp: header_delimiter_def)
      have IH: "k = length a \<and> snd (split_line (m_line_buf r1)) = [] \<and> 3 \<le> m_header_bytes r1 \<and> \<not> headers_ready r1 \<and>
          response_lines (a @ b) (drop 2 after @ b) r0 =
            response_lines (a @ b) (m_line_buf r1 @ b) (counters (m_header_bytes r1 - 3) (m_read r0) (m_line_buf r0) r1)"
        using "1.IH"[OF refl cs[symmetric] refl size False nonempty r0 rest "1.prems"(2) ready] .
      have "response_lines (a @ b) (cs @ b) r = response_lines (a @ b) (drop 2 after @ b) r0"
        using split_line_more[OF cs False, of b] False nonempty size r0 two
        by (subst response_lines.simps) (simp add: Let_def)
      with IH process_line_keeps[OF r0] show ?thesis by simp
    qed
  qed
qed

theorem response_consume_further:
  assumes "response_consume a r = Inr (k1, r1)" "\<not> headers_ready r" "\<not> headers_ready r1"
    "response_consume b r1 = Inr (k2, r2)"
  shows "k1 = length a \<and> (\<exists>h x. response_consume (a @ b) r = Inr (length a + k2, counters h x (m_line_buf r2) r2) \<and>
     h \<le> m_header_bytes r2 \<and> (headers_ready r2 \<longrightarrow> x = m_read r2))"
proof -
  have one: "response_lines a (m_line_buf r @ a) r = Inr (k1, r1)" and
    two: "response_lines b (m_line_buf r1 @ b) r1 = Inr (k2, r2)"
    using assms by (auto simp: response_consume_def headers_ready_def)
  note further = response_lines_further[OF one assms(3,2), of b]
  have "length (snd (split_line (m_line_buf r1 @ b))) \<le> length b + 2"
    using split_line_partial[of "m_line_buf r1" b] further by simp
  from response_lines_counters[OF two this _ assms(3), of "m_header_bytes r1 - 3" a] further assms(2)
  show ?thesis by (auto simp: response_consume_def headers_ready_def)
qed

end
