(* ===== verification/Http_Reply.thy ===== *)
theory Http_Reply
  imports Http_Facts
begin

section \<open>Replies that are parsed\<close>

text \<open>
  What \<open>response::raw\<close> prints is parsed back, whatever follows it; a reply in which every carriage return
  ends a line never leaves the parser in an undefined way; and two defects of the parser.
\<close>

subsection \<open>Lines\<close>

lemma split_line_clean: "CR \<notin> set l \<Longrightarrow> split_line (l @ header_delimiter @ t) = (l, header_delimiter @ t)"
proof (induction l)
  case (Cons c l)
  then have "split_line (l @ header_delimiter @ t) = (l, header_delimiter @ t)" by simp
  with Cons.prems show ?case by (cases l) (auto simp: header_delimiter_def)
qed (simp add: header_delimiter_def)

lemma response_lines_line:
  assumes "CR \<notin> set l" "l \<noteq> []" "m_header_bytes r + length l + 3 \<le> max_header_size"
  shows "response_lines buf (l @ header_delimiter @ t) r =
    bind_http (process_line l (r\<lparr>m_header_bytes := m_header_bytes r + length l + 3\<rparr>)) (response_lines buf t)"
  using assms
  by (subst response_lines.simps, subst split_line_clean) (simp_all add: Let_def header_delimiter_def)

lemma response_lines_blank:
  assumes "m_header_bytes r + 3 \<le> max_header_size"
  shows "response_lines buf (header_delimiter @ t) r =
    blank_line buf (header_delimiter @ t) (r\<lparr>m_header_bytes := m_header_bytes r + 3\<rparr>)"
  using assms split_line_clean[of "[]" t]
  by (subst response_lines.simps) (simp add: Let_def header_delimiter_def)

subsection \<open>Headers\<close>

definition header_line :: "string \<times> string \<Rightarrow> string" where
  "header_line h = fst h @ '': '' @ snd h"

definition clean_header :: "string \<times> string \<Rightarrow> bool" where
  "clean_header h \<longleftrightarrow> fst h \<noteq> [] \<and> list_all is_token_char (fst h) \<and> trimmed (snd h)"

lemma header_set_end:
  "header_order (hs @ [(k, v)]) \<Longrightarrow> header_set k v hs = hs @ [(k, v)] \<and> header_find k hs = None"
proof (induction hs)
  case (Cons h hs)
  then show ?case by (cases h) (auto simp: header_order_def ci_less_iff)
qed simp

lemma token_trimmed: "list_all is_token_char k \<Longrightarrow> trimmed k"
  using token_no_separator by (auto simp: trimmed_def list_all_iff)

lemma process_header_clean:
  assumes "clean_header (k, v)" "header_order (m_headers p @ [(k, v)])"
  shows "process_header (header_line (k, v)) p = Inr (p\<lparr>m_headers := m_headers p @ [(k, v)]\<rparr>)"
proof -
  have k: "list_all is_token_char k" "trimmed k" and v: "trimmed v"
    using assms(1) token_trimmed by (auto simp: clean_header_def)
  have colon: "CHR '':'' \<notin> set k" using k(1) token_no_separator by (auto simp: list_all_iff)
  then have "takeWhile (\<lambda>c. c \<noteq> CHR '':'') (header_line (k, v)) = k"
    "dropWhile (\<lambda>c. c \<noteq> CHR '':'') (header_line (k, v)) = CHR '':'' # CHR '' '' # v"
    by (auto simp: header_line_def takeWhile_append dropWhile_append takeWhile_eq_all_conv)
  moreover have "\<not> list_ex is_not_token_char k" using k(1) by (auto simp: list_ex_iff list_all_iff)
  ultimately show ?thesis
    using strip_lws_trimmed(1)[OF k(2)] strip_lws_trimmed(2)[OF v] header_set_end[OF assms(2)]
    by (simp add: process_header_def append_header_def replace_header_def get_header_def Let_def)
qed

definition header_cost :: "header_list \<Rightarrow> nat" where
  "header_cost hs = sum_list (map (\<lambda>h. length (header_line h) + 3) hs)"

lemma header_lines_length:
  "length (concat (map (\<lambda>h. header_line h @ header_delimiter) hs)) + length hs = header_cost hs"
  by (induction hs) (simp_all add: header_cost_def header_delimiter_def)

lemma response_lines_headers:
  assumes "list_all clean_header hs" "header_order (m_headers r @ hs)" "rs_state r = HEADERS"
    "m_header_bytes r + header_cost hs \<le> max_header_size"
  shows "response_lines buf (concat (map (\<lambda>h. header_line h @ header_delimiter) hs) @ t) r =
    response_lines buf t (r\<lparr>m_headers := m_headers r @ hs, m_header_bytes := m_header_bytes r + header_cost hs\<rparr>)"
  using assms
proof (induction hs arbitrary: r)
  case (Cons h hs)
  obtain k v where h: "h = (k, v)" by (cases h)
  let ?r = "r\<lparr>m_header_bytes := m_header_bytes r + length (header_line h) + 3\<rparr>"
  have line: "CR \<notin> set (header_line h)" "header_line h \<noteq> []"
    using Cons.prems(1) token_no_separator by (auto simp: h header_line_def clean_header_def trimmed_def list_all_iff)
  have "header_order (m_headers r @ [(k, v)])"
    using Cons.prems(2) by (auto simp: h header_order_def sorted_wrt_append)
  then have "process_line (header_line h) ?r = Inr (?r\<lparr>m_headers := m_headers r @ [h]\<rparr>)"
    using process_header_clean[of k v ?r] Cons.prems(1,3) by (simp add: h process_line_def)
  then show ?case
    using response_lines_line[OF line, of r buf "concat (map (\<lambda>h. header_line h @ header_delimiter) hs) @ t"]
      Cons.IH[of "?r\<lparr>m_headers := m_headers r @ [h]\<rparr>"] Cons.prems
    by (simp add: header_cost_def add.assoc)
qed (simp add: header_cost_def)

lemma raw_headers_lines: "raw_headers p = concat (map (\<lambda>h. header_line h @ header_delimiter) (m_headers p))"
  by (simp add: raw_headers_def header_line_def split_def)

subsection \<open>Round trip\<close>

definition clean_reply :: "response \<Rightarrow> bool" where
  "clean_reply r \<longleftrightarrow>
     CR \<notin> set (m_version r) \<and> CHR '' '' \<notin> set (m_version r) \<and> CR \<notin> set (m_status_msg r) \<and> int32_range (m_status_code r) \<and>
     list_all clean_header (m_headers r) \<and> header_order (m_headers r) \<and>
     header_find ''Content-Length'' (m_headers r) = None \<and> m_body r = [] \<and>
     length (response_raw r) + length (m_headers r) + 2 \<le> max_header_size"

lemma split_blank_found: "CHR '' '' \<notin> set a \<Longrightarrow> split_blank (a @ '' '' @ b) = Some (a, b)"
  by (induction a) (auto simp: split_blank_def split: list.split)

lemma int_to_string_chars: "c \<in> set (int_to_string i) \<Longrightarrow> c \<noteq> CR \<and> c \<noteq> CHR '' ''"
  using nat_to_string_digits by (fastforce simp: int_to_string_def isdigit_def split: if_splits)

theorem response_consume_raw:
  assumes "clean_reply r"
  shows "\<exists>r'. response_consume (response_raw r @ rest) response_new = Inr (length (response_raw r), r') \<and>
    headers_ready r' \<and> m_version r' = m_version r \<and> m_status_code r' = m_status_code r \<and>
    m_status_msg r' = m_status_msg r \<and> m_headers r' = m_headers r \<and> m_body r' = [] \<and>
    m_header_bytes r' = length (response_raw r) + length (m_headers r) + 2"
proof -
  note c = assms[unfolded clean_reply_def]
  let ?code = "int_to_string (m_status_code r)"
  let ?line = "m_version r @ '' '' @ ?code @ '' '' @ m_status_msg r"
  let ?heads = "concat (map (\<lambda>h. header_line h @ header_delimiter) (m_headers r))"
  let ?buf = "response_raw r @ rest"
  have raw: "?buf = ?line @ header_delimiter @ ?heads @ header_delimiter @ rest"
    using c by (simp add: response_raw_def raw_headers_lines)
  have line: "CR \<notin> set ?line" "?line \<noteq> []" using c int_to_string_chars by auto
  have size: "length (response_raw r) = length ?line + 2 + length ?heads + 2"
    using c by (simp add: response_raw_def raw_headers_lines header_delimiter_def)
  have heads: "length ?heads + length (m_headers r) = header_cost (m_headers r)"
    by (rule header_lines_length)
  let ?r1 = "response_new\<lparr>m_header_bytes := length ?line + 3\<rparr>"
  let ?r2 = "?r1\<lparr>m_version := m_version r, m_status_code := m_status_code r, m_status_msg := m_status_msg r, rs_state := HEADERS\<rparr>"
  have code: "split_blank ?line = Some (m_version r, ?code @ '' '' @ m_status_msg r)"
    "split_blank (?code @ '' '' @ m_status_msg r) = Some (?code, m_status_msg r)"
    using c int_to_string_chars[of "CHR '' ''" "m_status_code r"] by (metis split_blank_found)+
  have "process_line ?line ?r1 = Inr ?r2"
    using code c by (simp add: process_line_def process_status_line_def read_int_def response_set_status_def set_version_def response_new_def)
  moreover have "response_consume ?buf response_new = response_lines ?buf ?buf response_new"
    by (simp add: response_consume_def response_new_def)
  ultimately have "response_consume ?buf response_new = response_lines ?buf (?heads @ header_delimiter @ rest) ?r2"
    using response_lines_line[OF line, of response_new ?buf "?heads @ header_delimiter @ rest"] c size heads
    by (simp add: raw response_new_def)
  also have "\<dots> = response_lines ?buf (header_delimiter @ rest)
      (?r2\<lparr>m_headers := m_headers r, m_header_bytes := length ?line + 3 + header_cost (m_headers r)\<rparr>)"
    using response_lines_headers[of "m_headers r" ?r2 ?buf "header_delimiter @ rest"] c size heads
    by (simp add: response_new_def)
  also have "\<dots> = blank_line ?buf (header_delimiter @ rest)
      (?r2\<lparr>m_headers := m_headers r, m_header_bytes := length ?line + 3 + header_cost (m_headers r) + 3\<rparr>)"
    by (subst response_lines_blank) (use c size heads in simp_all)
  finally show ?thesis
    using c heads by (auto simp: blank_line_def get_header_def header_delimiter_def Let_def process_body_def
        headers_ready_def response_new_def size[unfolded header_delimiter_def])
qed

subsection \<open>A reply in pieces\<close>

lemma blank_line_keeps:
  assumes "blank_line buf after r = Inr (k, r2)"
  shows "m_header_bytes r2 = m_header_bytes r" "m_headers r2 = m_headers r"
    "header_find ''Content-Length'' (m_headers r) = None \<Longrightarrow> k = length buf + 2 - length after"
  using assms
  by (auto simp: blank_line_def process_body_def get_header_def Let_def split: if_splits option.splits prod.splits)

lemma response_lines_bytes:
  "response_lines buf cs r = Inr (k, r2) \<Longrightarrow> headers_ready r2 \<Longrightarrow> \<not> headers_ready r \<Longrightarrow>
     m_header_bytes r + length (fst (split_line cs)) + 3 \<le> m_header_bytes r2"
proof (induction buf cs r rule: response_lines.induct)
  case (1 buf cs r)
  obtain line after where cs: "split_line cs = (line, after)" by fastforce
  let ?r = "r\<lparr>m_header_bytes := m_header_bytes r + length line + 3\<rparr>"
  have size: "\<not> max_header_size < m_header_bytes ?r"
    using "1.prems"(1) cs by (subst (asm) response_lines.simps) (auto simp: Let_def split: if_splits)
  have after: "after \<noteq> []"
  proof
    assume "after = []"
    from response_lines_partial[OF cs this, of buf r] "1.prems" size show False
      by (auto simp: headers_ready_def)
  qed
  show ?case
  proof (cases "line = []")
    case True
    then have "blank_line buf after ?r = Inr (k, r2)"
      using "1.prems"(1) cs after size by (subst (asm) response_lines.simps) (auto simp: Let_def)
    then have "m_header_bytes r2 = m_header_bytes ?r" by (rule blank_line_keeps)
    with cs show ?thesis by simp
  next
    case False
    obtain r1 where r1: "process_line line ?r = Inr r1" and rest: "response_lines buf (drop 2 after) r1 = Inr (k, r2)"
      using "1.prems"(1) cs after False size
      by (subst (asm) response_lines.simps) (auto simp: Let_def bind_http_eq_Inr)
    have "\<not> headers_ready r1"
      using process_line_keeps(4)[OF r1] "1.prems"(3) by (simp add: headers_ready_def)
    from "1.IH"[OF refl cs[symmetric] refl size after False r1 rest "1.prems"(2) this] process_line_keeps(1)[OF r1] cs
    show ?thesis by simp
  qed
qed

text \<open>The headers are read to their end from a smaller buffer, with more header bytes counted.\<close>

lemma response_lines_fewer:
  assumes "response_lines (a @ b) cs r = Inr (k, r2)" "headers_ready r2" "header_find ''Content-Length'' (m_headers r2) = None"
    "length a < k" "\<not> headers_ready r" "m_header_bytes r \<le> h" "m_header_bytes r2 + h \<le> max_header_size + m_header_bytes r"
    "length (snd (split_line cs)) \<le> length b + 2"
  shows "response_lines b cs (counters h x y r) =
      Inr (k - length a, counters (m_header_bytes r2 + h - m_header_bytes r) (m_read r2) (m_line_buf r2) r2) \<and>
    m_header_bytes r \<le> m_header_bytes r2"
  using assms
proof (induction "a @ b" cs r arbitrary: h x y rule: response_lines.induct)
  case (1 cs r)
  obtain line after where cs: "split_line cs = (line, after)" by fastforce
  let ?r = "r\<lparr>m_header_bytes := m_header_bytes r + length line + 3\<rparr>"
  have c: "counters h x y r\<lparr>m_header_bytes := h + length line + 3\<rparr> = counters (h + length line + 3) x y ?r"
    by (simp add: counters_def)
  have size: "\<not> max_header_size < m_header_bytes ?r"
    using "1.prems"(1) cs by (subst (asm) response_lines.simps) (auto simp: Let_def split: if_splits)
  have after: "after \<noteq> []"
  proof
    assume "after = []"
    from response_lines_partial[OF cs this, of "a @ b" r] "1.prems"(1,2,5) size show False
      by (auto simp: headers_ready_def)
  qed
  show ?case
  proof (cases "line = []")
    case True
    have blank: "blank_line (a @ b) after ?r = Inr (k, r2)"
      using "1.prems"(1) cs after True size by (subst (asm) response_lines.simps) (auto simp: Let_def)
    then have hb: "m_header_bytes r2 = m_header_bytes r + 3" "m_headers r2 = m_headers r"
      using True blank_line_keeps[of "a @ b" after ?r k r2] by simp_all
    have len: "length after \<le> length b + 2" using "1.prems"(8) cs by simp
    have "\<not> max_header_size < h + 3" using "1.prems"(7) hb by simp
    moreover have "blank_line b after (counters (h + 3) x y ?r) = Inr (k - length a, counters (h + 3) (m_read r2) (m_line_buf r2) r2)"
      using blank hb "1.prems"(3) len True
      by (auto simp: blank_line_def get_header_def process_body_def counters_def Let_def split: if_splits)
    ultimately show ?thesis
      using cs after True hb c by (subst response_lines.simps) (simp add: Let_def add.commute)
  next
    case False
    obtain r1 where r1: "process_line line ?r = Inr r1" and rest: "response_lines (a @ b) (drop 2 after) r1 = Inr (k, r2)"
      using "1.prems"(1) cs after False size
      by (subst (asm) response_lines.simps) (auto simp: Let_def bind_http_eq_Inr)
    have short: "length (snd (split_line (drop 2 after))) \<le> length b + 2"
      using split_line_length[of "drop 2 after"] "1.prems"(8) cs by simp
    have ready: "\<not> headers_ready r1"
      using process_line_keeps(4)[OF r1] "1.prems"(5) by (simp add: headers_ready_def)
    have hb: "m_header_bytes r1 = m_header_bytes r + length line + 3" using process_line_keeps(1)[OF r1] by simp
    have IH: "response_lines b (drop 2 after) (counters (h + length line + 3) x y r1) =
          Inr (k - length a, counters (m_header_bytes r2 + (h + length line + 3) - m_header_bytes r1) (m_read r2) (m_line_buf r2) r2) \<and>
        m_header_bytes r1 \<le> m_header_bytes r2"
      using "1.hyps"[OF refl cs[symmetric] refl size after False r1 rest "1.prems"(2,3,4) ready _ _ short,
          of "h + length line + 3"] "1.prems"(6,7) hb by (simp add: algebra_simps)
    then have "\<not> max_header_size < h + length line + 3" using "1.prems"(7) hb by simp
    with IH cs after False hb show ?thesis
      by (subst response_lines.simps) (simp add: Let_def c process_line_counters r1)
  qed
qed

text \<open>A piece that ends before the headers do is kept, and the rest completes them.\<close>

lemma response_lines_piece:
  assumes "response_lines (a @ b) (cs @ b) r = Inr (k, r2)" "headers_ready r2" "header_find ''Content-Length'' (m_headers r2) = None"
    "length a < k" "\<not> headers_ready r" "m_header_bytes r2 + 3 \<le> max_header_size"
  shows "\<exists>r1. response_lines a cs r = Inr (length a, r1) \<and> \<not> headers_ready r1 \<and>
    response_lines b (m_line_buf r1 @ b) r1 = Inr (k - length a, r2\<lparr>m_header_bytes := m_header_bytes r2 + 3\<rparr>)"
  using assms
proof (induction a cs r rule: response_lines.induct)
  case (1 a cs r)
  obtain line after where cs: "split_line cs = (line, after)" by fastforce
  let ?r = "r\<lparr>m_header_bytes := m_header_bytes r + length line + 3\<rparr>"
  show ?case
  proof (cases "after = []")
    case True
    with split_line_append[OF cs] have line: "line = cs" by simp
    let ?x = "size_t (int (m_read r) + int (length a))"
    let ?r1 = "counters (m_header_bytes r + 3) ?x cs r"
    have short: "length (snd (split_line (cs @ b))) \<le> length b + 2"
      using split_line_partial[of cs b] cs True by simp
    from response_lines_fewer[OF "1.prems"(1-5) _ _ this, of "m_header_bytes r + 3" ?x cs] "1.prems"(6)
    have rest: "response_lines b (cs @ b) ?r1 = Inr (k - length a, counters (m_header_bytes r2 + 3) (m_read r2) (m_line_buf r2) r2)"
      by simp
    have "m_header_bytes r + length cs + 3 \<le> max_header_size"
    proof -
      obtain l2 a2 where l2: "split_line (cs @ b) = (l2, a2)" by fastforce
      have "length cs + length b = length l2 + length a2"
        using split_line_append[OF l2] by (metis length_append)
      then have "length cs \<le> length l2 + 1" using split_line_partial[of cs b] cs True l2 by simp
      moreover have "m_header_bytes r + length l2 + 3 \<le> m_header_bytes r2"
        using response_lines_bytes[OF "1.prems"(1,2,5)] l2 by simp
      ultimately show ?thesis using "1.prems"(6) by simp
    qed
    then have "response_lines a cs r = Inr (length a, ?r1)"
      using response_lines_partial[OF cs True, of a r] line by simp
    with rest "1.prems"(5) show ?thesis
      by (intro exI[of _ ?r1]) (simp add: headers_ready_def counters_def)
  next
    case False
    have more: "split_line (cs @ b) = (line, after @ b)" using split_line_more[OF cs False] .
    have size: "\<not> max_header_size < m_header_bytes ?r"
      using "1.prems"(1) more by (subst (asm) response_lines.simps) (auto simp: Let_def split: if_splits)
    obtain t where t: "after = header_delimiter @ t" using split_line_found[OF cs False] by blast
    show ?thesis
    proof (cases "line = []")
      case True
      have blank: "blank_line (a @ b) (after @ b) ?r = Inr (k, r2)"
        using "1.prems"(1) more False True size by (subst (asm) response_lines.simps) (auto simp: Let_def)
      have "k \<le> length a"
        using blank_line_keeps(2,3)[OF blank] "1.prems"(3) t by (simp add: header_delimiter_def)
      with "1.prems"(4) show ?thesis by simp
    next
      case nonempty: False
      have two: "drop 2 (after @ b) = drop 2 after @ b" using t by (simp add: header_delimiter_def)
      obtain r0 where r0: "process_line line ?r = Inr r0" and rest: "response_lines (a @ b) (drop 2 after @ b) r0 = Inr (k, r2)"
        using "1.prems"(1) more False nonempty size two
        by (subst (asm) response_lines.simps) (auto simp: Let_def bind_http_eq_Inr)
      have ready: "\<not> headers_ready r0"
        using process_line_keeps(4)[OF r0] "1.prems"(5) by (simp add: headers_ready_def)
      have "\<exists>r1. response_lines a (drop 2 after) r0 = Inr (length a, r1) \<and> \<not> headers_ready r1 \<and>
          response_lines b (m_line_buf r1 @ b) r1 = Inr (k - length a, r2\<lparr>m_header_bytes := m_header_bytes r2 + 3\<rparr>)"
        using "1.IH"[OF refl cs[symmetric] refl size False nonempty r0 rest "1.prems"(2-4) ready "1.prems"(6)] .
      with cs False nonempty size r0 show ?thesis by (subst response_lines.simps) (simp add: Let_def)
    qed
  qed
qed

theorem response_consume_piece:
  assumes "response_consume (a @ b) r = Inr (k, r2)" "headers_ready r2" "header_find ''Content-Length'' (m_headers r2) = None"
    "length a < k" "\<not> headers_ready r" "m_header_bytes r2 + 3 \<le> max_header_size"
  shows "\<exists>r1. response_consume a r = Inr (length a, r1) \<and> \<not> headers_ready r1 \<and>
    response_consume b r1 = Inr (k - length a, r2\<lparr>m_header_bytes := m_header_bytes r2 + 3\<rparr>)"
  using response_lines_piece[of a b "m_line_buf r @ a" r k r2] assms
  by (auto simp: response_consume_def headers_ready_def)

subsection \<open>Replies that are never undefined\<close>

text \<open>Where every carriage return is followed by a line feed, no line holds one.\<close>

fun crs_end_lines :: "string \<Rightarrow> bool" where
  "crs_end_lines (a # b # cs) \<longleftrightarrow> (a = CR \<longrightarrow> b = LF) \<and> crs_end_lines (b # cs)"
| "crs_end_lines cs \<longleftrightarrow> True"

lemma crs_line:
  "crs_end_lines cs \<Longrightarrow> split_line cs = (l, r) \<Longrightarrow> r \<noteq> [] \<Longrightarrow> CR \<notin> set l \<and> crs_end_lines (drop 2 r)"
proof (induction cs arbitrary: l r rule: split_line.induct)
  case (1 a b cs)
  show ?case
  proof (cases "a = CR \<and> b = LF")
    case True
    with 1 show ?thesis by (cases cs) auto
  next
    case False
    with 1 show ?thesis by (auto split: prod.splits)
  qed
qed auto

lemma extract_all_lws_no_CR:
  "CR \<notin> set cs \<Longrightarrow> extract_all_lws cs = skip_whitespace cs"
proof (induction cs rule: extract_all_lws.induct)
  case (1 cs)
  have idem: "skip_whitespace (skip_whitespace cs) = skip_whitespace cs"
    by (simp add: skip_whitespace_def)
  have "CR \<notin> set (skip_whitespace cs)"
    using 1(2) set_dropWhileD by (fastforce simp: skip_whitespace_def)
  with 1 idem extract_lws_no_CR[OF 1(2)] show ?case
    by (subst extract_all_lws.simps) (auto simp: Let_def)
qed

lemma strip_lws_defined:
  assumes "CR \<notin> set v"
  shows "\<exists>w. strip_lws v = Inr w"
proof (cases "skip_whitespace v = []")
  case False
  let ?ws = "takeWhile (\<lambda>c. \<not> is_not_whitespace_char c) v"
  have v: "v = ?ws @ skip_whitespace v" by (simp add: skip_whitespace_def)
  obtain c cs where c: "skip_whitespace v = c # cs" using False by (meson list.exhaust)
  then have nw: "\<not> is_whitespace_char c"
    by (metis (no_types, lifting) hd_dropWhile list.sel(1) list.distinct(1) not_whitespace skip_whitespace_def)
  have "length ?ws \<le> length (skip_whitespace (rev v))"
  proof -
    have "skip_whitespace (rev v) = skip_whitespace (rev cs @ [c]) @ rev ?ws"
      using c nw by (subst v) (simp add: skip_whitespace_def dropWhile_append)
    then show ?thesis by simp
  qed
  moreover have "length v - length (skip_whitespace v) = length ?ws"
    by (metis v add_diff_cancel_right' length_append)
  ultimately show ?thesis
    using assms by (simp add: strip_lws_def extract_all_lws_no_CR Let_def)
qed (use assms in \<open>simp add: strip_lws_def extract_all_lws_no_CR Let_def\<close>)

lemma process_header_defined:
  assumes "CR \<notin> set line"
  shows "process_header line p \<noteq> Inl (Cpp_Failure f)"
proof -
  have "CR \<notin> set (tl (dropWhile (\<lambda>c. c \<noteq> CHR '':'') line))" "CR \<notin> set (takeWhile (\<lambda>c. c \<noteq> CHR '':'') line)"
    using assms by (metis list.set_sel(2) set_dropWhileD tl_Nil, metis set_takeWhileD)
  from this[THEN strip_lws_defined] show ?thesis
    by (auto simp: process_header_def append_header_def Let_def split: if_splits)
qed

lemma response_lines_defined:
  "crs_end_lines cs \<Longrightarrow> response_lines buf cs r \<noteq> Inl (Cpp_Failure f)"
proof (induction buf cs r rule: response_lines.induct)
  case (1 buf cs r)
  obtain line after where cs: "split_line cs = (line, after)" by fastforce
  let ?r = "r\<lparr>m_header_bytes := m_header_bytes r + length line + 3\<rparr>"
  have blank: "blank_line buf after ?r \<noteq> Inl (Cpp_Failure f)"
    by (auto simp: blank_line_def Let_def split: option.split prod.split)
  have line: "process_line line ?r \<noteq> Inl (Cpp_Failure f)" if "after \<noteq> []"
  proof -
    have "process_header line ?r \<noteq> Inl (Cpp_Failure f)"
      using crs_line[OF "1.prems" cs that] by (intro process_header_defined) simp
    then show ?thesis by (auto simp: process_line_def process_status_line_def split: option.split prod.split)
  qed
  show ?case
  proof (cases "max_header_size < m_header_bytes ?r \<or> after = [] \<or> line = []")
    case True
    with cs blank show ?thesis by (subst response_lines.simps) (auto simp: Let_def)
  next
    case False
    have IH: "response_lines buf (drop 2 after) r1 \<noteq> Inl (Cpp_Failure f)" if "process_line line ?r = Inr r1" for r1
      using "1.IH"[OF refl cs[symmetric] refl _ _ _ that] crs_line[OF "1.prems" cs] False by auto
    with False cs line show ?thesis
      by (subst response_lines.simps) (cases "process_line line ?r", auto simp: Let_def)
  qed
qed

subsection \<open>Two defects\<close>

text \<open>A value that ends in a line feed and a carriage return: both ends are stripped past each other.\<close>

lemma strip_lws_crosses: "strip_lws ('' '' @ [LF, CR]) = Inl (Cpp_Failure Undefined_Behaviour)"
  by code_simp

lemma reply_crashes_client:
  "response_consume (''HTTP/1.1 101 OK'' @ [CR, LF] @ ''Server: '' @ [LF, CR, CR, LF]) response_new =
     Inl (Cpp_Failure Undefined_Behaviour)"
  by code_simp

text \<open>The count of header bytes keeps three for every piece that does not end a line: what
  is accepted in one piece is refused in small ones.\<close>

fun consume_bytes :: "string \<Rightarrow> response \<Rightarrow> response http" where
  "consume_bytes [] r = Inr r"
| "consume_bytes (c # cs) r = bind_http (response_consume [c] r) (\<lambda>(k, r). consume_bytes cs r)"

lemma split_line_no_CR: "CR \<notin> set cs \<Longrightarrow> split_line cs = (cs, [])"
  by (induction cs rule: split_line.induct) auto

lemma consume_bytes_count:
  assumes "CR \<notin> set (p @ cs)"
  shows "\<exists>x'. consume_bytes cs (counters h x p response_new) =
    (if cs = [] \<or> h + length p + 4 * length cs \<le> max_header_size
     then Inr (counters (h + 3 * length cs) x' (p @ cs) response_new)
     else Inl (Http_Exception ''Maximum header size exceeded.'' request_header_fields_too_large))"
  using assms
proof (induction cs arbitrary: h x p)
  case (Cons c cs)
  let ?x = "size_t (int x + 1)"
  have "split_line (p @ [c]) = (p @ [c], [])" using Cons.prems by (intro split_line_no_CR) auto
  from response_lines_partial[OF this refl, of "[c]" "counters h x p response_new"]
  have one: "response_consume [c] (counters h x p response_new) =
      (if max_header_size < h + length p + 4
       then Inl (Http_Exception ''Maximum header size exceeded.'' request_header_fields_too_large)
       else Inr (1, counters (h + 3) ?x (p @ [c]) response_new))"
    by (simp add: response_consume_def) (simp add: response_new_def)
  have "CR \<notin> set ((p @ [c]) @ cs)" using Cons.prems by simp
  from Cons.IH[OF this, of "h + 3" ?x] obtain x' where
    "consume_bytes cs (counters (h + 3) ?x (p @ [c]) response_new) =
      (if cs = [] \<or> h + 3 + length (p @ [c]) + 4 * length cs \<le> max_header_size
       then Inr (counters (h + 3 + 3 * length cs) x' ((p @ [c]) @ cs) response_new)
       else Inl (Http_Exception ''Maximum header size exceeded.'' request_header_fields_too_large))" by blast
  with one show ?case by (intro exI[of _ x']) (auto simp: algebra_simps)
qed (auto intro: exI[of _ x])

theorem header_limit_depends_on_cut:
  assumes "CR \<notin> set cs" "cs \<noteq> []"
  shows "(\<exists>r. consume_bytes cs response_new = Inr r) \<longleftrightarrow> 4 * length cs \<le> max_header_size"
    and "(\<exists>r. response_consume cs response_new = Inr r) \<longleftrightarrow> length cs + 3 \<le> max_header_size"
proof -
  have new: "counters 0 0 [] response_new = response_new" by (simp add: counters_def response_new_def)
  show "(\<exists>r. consume_bytes cs response_new = Inr r) \<longleftrightarrow> 4 * length cs \<le> max_header_size"
    using consume_bytes_count[of "[]" cs 0 0] assms by (auto simp: new split: if_splits)
  show "(\<exists>r. response_consume cs response_new = Inr r) \<longleftrightarrow> length cs + 3 \<le> max_header_size"
    using response_lines_partial[OF split_line_no_CR[OF assms(1)] refl, of cs response_new]
    by (auto simp: response_consume_def response_new_def)
qed

end
