(* ===== verification/Ws_Frame.thy ===== *)
theory Ws_Frame
  imports Prelude
begin

unbundle bit_operations_syntax

section \<open>websocketpp/frame.hpp: frames of the WebSocket protocol\<close>

text \<open>
  The two bytes of the basic header, the twelve of the extended one, and the masking of payloads,
  by bytes and by machine words. The machine is little-endian with 64-bit words: the memory of a
  word is the list of its bytes, the lowest first, and a union of a word and its bytes is read
  through \<open>le_bytes\<close> and \<open>le_word\<close>.
\<close>

subsection \<open>Words in memory\<close>

definition le_byte :: "'a::len word \<Rightarrow> nat \<Rightarrow> byte" where
  "le_byte w k = ucast (drop_bit (8 * k) w)"

definition le_bytes :: "nat \<Rightarrow> 'a::len word \<Rightarrow> byte list" where
  "le_bytes n w = map (le_byte w) [0..<n]"

fun le_word :: "byte list \<Rightarrow> 'a::len word" where
  "le_word [] = 0"
| "le_word (b # bs) = ucast b OR push_bit 8 (le_word bs)"

lemma bit_le_byte: "bit (le_byte w k) i \<longleftrightarrow> i < 8 \<and> bit w (8 * k + i)"
  by (auto simp: le_byte_def bit_ucast_iff bit_drop_bit_eq ac_simps)

lemma bit_le_word:
  "bit (le_word bs :: 'a::len word) n \<longleftrightarrow>
     n < LENGTH('a) \<and> n div 8 < length bs \<and> bit (bs ! (n div 8)) (n mod 8)"
proof (induction bs arbitrary: n)
  case (Cons b bs)
  have low: "bit b n \<Longrightarrow> n < 8" for n
    using bit_imp_le_length[of b n] by simp
  show ?case
  proof (cases "n < 8")
    case True
    then show ?thesis by (auto simp: bit_or_iff bit_push_bit_iff bit_ucast_iff)
  next
    case False
    then have "n = n - 8 + 8" "n div 8 = Suc ((n - 8) div 8)" "n mod 8 = (n - 8) mod 8"
      by (simp_all add: le_div_geq le_mod_geq)
    then show ?thesis
      using False Cons.IH[of "n - 8"] low[of n]
      by (auto simp: bit_or_iff bit_push_bit_iff bit_ucast_iff)
  qed
qed simp

lemma length_le_bytes [simp]: "length (le_bytes n w) = n"
  by (simp add: le_bytes_def)

lemma nth_le_bytes [simp]: "k < n \<Longrightarrow> le_bytes n w ! k = le_byte w k"
  by (simp add: le_bytes_def)

lemma le_word_le_bytes: "LENGTH('a) \<le> 8 * n \<Longrightarrow> le_word (le_bytes n w) = (w :: 'a::len word)"
proof (rule bit_eqI)
  fix i assume "LENGTH('a) \<le> 8 * n" "possible_bit TYPE('a word) i"
  then have "i < LENGTH('a)" "i div 8 < n" by auto
  then show "bit (le_word (le_bytes n w) :: 'a word) i = bit w i"
    by (simp add: bit_le_word bit_le_byte)
qed

lemma le_bytes_le_word:
  assumes "length bs = n" "8 * n \<le> LENGTH('a)"
  shows "le_bytes n (le_word bs :: 'a::len word) = bs"
proof (rule nth_equalityI)
  fix k assume "k < length (le_bytes n (le_word bs :: 'a word))"
  then have k: "k < n" by simp
  have "le_byte (le_word bs :: 'a word) k = bs ! k"
  proof (rule bit_eqI)
    fix i assume "possible_bit TYPE(8 word) i"
    then have "i < 8" by simp
    with k assms have "8 * k + i < LENGTH('a)" by linarith
    with \<open>i < 8\<close> k assms(1) show "bit (le_byte (le_word bs :: 'a word) k) i = bit (bs ! k) i"
      by (simp add: bit_le_byte bit_le_word)
  qed
  with k show "le_bytes n (le_word bs :: 'a word) ! k = bs ! k" by simp
qed (simp add: assms(1))

text \<open>Network byte order: the code swaps the bytes pairwise, which reverses them.\<close>

definition htonll :: "64 word \<Rightarrow> 64 word" where
  "htonll src = le_word (rev (le_bytes 8 src))"

definition ntohll :: "64 word \<Rightarrow> 64 word" where
  "ntohll src = htonll src"

subsection \<open>Opcodes and limits\<close>

datatype opcode =
    CONTINUATION | TEXT | BINARY | RSV3 | RSV4 | RSV5 | RSV6 | RSV7
  | CLOSE | PING | PONG | CONTROL_RSVB | CONTROL_RSVC | CONTROL_RSVD | CONTROL_RSVE | CONTROL_RSVF

definition opcodes :: "opcode list" where
  "opcodes =
     [CONTINUATION, TEXT, BINARY, RSV3, RSV4, RSV5, RSV6, RSV7,
      CLOSE, PING, PONG, CONTROL_RSVB, CONTROL_RSVC, CONTROL_RSVD, CONTROL_RSVE, CONTROL_RSVF]"

primrec opcode_value :: "opcode \<Rightarrow> byte" where
  "opcode_value CONTINUATION = 0x0"
| "opcode_value TEXT = 0x1"
| "opcode_value BINARY = 0x2"
| "opcode_value RSV3 = 0x3"
| "opcode_value RSV4 = 0x4"
| "opcode_value RSV5 = 0x5"
| "opcode_value RSV6 = 0x6"
| "opcode_value RSV7 = 0x7"
| "opcode_value CLOSE = 0x8"
| "opcode_value PING = 0x9"
| "opcode_value PONG = 0xA"
| "opcode_value CONTROL_RSVB = 0xB"
| "opcode_value CONTROL_RSVC = 0xC"
| "opcode_value CONTROL_RSVD = 0xD"
| "opcode_value CONTROL_RSVE = 0xE"
| "opcode_value CONTROL_RSVF = 0xF"

definition op_reserved :: "opcode \<Rightarrow> bool" where
  "op_reserved v \<longleftrightarrow>
     (opcode_value RSV3 \<le> opcode_value v \<and> opcode_value v \<le> opcode_value RSV7) \<or>
     (opcode_value CONTROL_RSVB \<le> opcode_value v \<and> opcode_value v \<le> opcode_value CONTROL_RSVF)"

definition op_invalid :: "opcode \<Rightarrow> bool" where
  "op_invalid v \<longleftrightarrow> 0xF < opcode_value v"

definition is_control :: "opcode \<Rightarrow> bool" where
  "is_control v \<longleftrightarrow> 0x8 \<le> opcode_value v"

definition BASIC_HEADER_LENGTH :: nat where "BASIC_HEADER_LENGTH = 2"
definition MAX_HEADER_LENGTH :: nat where "MAX_HEADER_LENGTH = 14"
definition MAX_EXTENDED_HEADER_LENGTH :: nat where "MAX_EXTENDED_HEADER_LENGTH = 12"
definition payload_size_basic :: nat where "payload_size_basic = 125"
definition payload_size_extended :: nat where "payload_size_extended = 0xFFFF"
definition payload_size_jumbo :: nat where "payload_size_jumbo = 0x7FFFFFFFFFFFFFFF"
definition BHB0_OPCODE :: byte where "BHB0_OPCODE = 0x0F"
definition BHB0_RSV3 :: byte where "BHB0_RSV3 = 0x10"
definition BHB0_RSV2 :: byte where "BHB0_RSV2 = 0x20"
definition BHB0_RSV1 :: byte where "BHB0_RSV1 = 0x40"
definition BHB0_FIN :: byte where "BHB0_FIN = 0x80"
definition BHB1_PAYLOAD :: byte where "BHB1_PAYLOAD = 0x7F"
definition BHB1_MASK :: byte where "BHB1_MASK = 0x80"
definition payload_size_code_16bit :: byte where "payload_size_code_16bit = 0x7E"
definition payload_size_code_64bit :: byte where "payload_size_code_64bit = 0x7F"

lemmas frame_constants =
  BASIC_HEADER_LENGTH_def MAX_HEADER_LENGTH_def MAX_EXTENDED_HEADER_LENGTH_def payload_size_basic_def
  payload_size_extended_def payload_size_jumbo_def BHB0_OPCODE_def BHB0_RSV3_def BHB0_RSV2_def
  BHB0_RSV1_def BHB0_FIN_def BHB1_PAYLOAD_def BHB1_MASK_def payload_size_code_16bit_def
  payload_size_code_64bit_def

subsection \<open>Headers\<close>

record basic_header =
  b0 :: byte
  b1 :: byte

text \<open>The three constructors. \<open>static_cast<uint8_t>(size)\<close> of a small size is the size.\<close>

definition basic_header_new :: basic_header where
  "basic_header_new = \<lparr>b0 = 0x00, b1 = 0x00\<rparr>"

definition basic_header_bytes :: "byte \<Rightarrow> byte \<Rightarrow> basic_header" where
  "basic_header_bytes p0 p1 = \<lparr>b0 = p0, b1 = p1\<rparr>"

definition basic_value :: "64 word \<Rightarrow> byte" where
  "basic_value sz =
     (if unat sz \<le> payload_size_basic then ucast sz
      else if unat sz \<le> payload_size_extended then payload_size_code_16bit
      else payload_size_code_64bit)"

definition basic_header_for ::
    "opcode \<Rightarrow> 64 word \<Rightarrow> bool \<Rightarrow> bool \<Rightarrow> bool \<Rightarrow> bool \<Rightarrow> bool \<Rightarrow> basic_header" where
  "basic_header_for op sz fin masked rsv1 rsv2 rsv3 =
     (let v = 0x00;
          v = (if fin then v OR BHB0_FIN else v);
          v = (if rsv1 then v OR BHB0_RSV1 else v);
          v = (if rsv2 then v OR BHB0_RSV2 else v);
          v = (if rsv3 then v OR BHB0_RSV3 else v);
          v = v OR (opcode_value op AND BHB0_OPCODE);
          u = (if masked then 0x00 OR BHB1_MASK else 0x00)
      in \<lparr>b0 = v, b1 = u OR basic_value sz\<rparr>)"

type_synonym extended_header = "byte list"

definition extended_header_new :: extended_header where
  "extended_header_new = replicate MAX_EXTENDED_HEADER_LENGTH 0x00"

text \<open>The number of bytes copied, and the array after the copy.\<close>

definition copy_payload :: "64 word \<Rightarrow> extended_header \<Rightarrow> nat \<times> extended_header" where
  "copy_payload payload_size bytes =
     (let payload_offset =
            (if unat payload_size \<le> payload_size_basic then 8
             else if unat payload_size \<le> payload_size_extended then 6 else 0)
      in (8 - payload_offset,
          memcpy_at bytes 0 (drop payload_offset (le_bytes 8 (htonll payload_size)))))"

definition extended_header_size :: "64 word \<Rightarrow> extended_header" where
  "extended_header_size payload_size = snd (copy_payload payload_size extended_header_new)"

definition extended_header_key :: "64 word \<Rightarrow> 32 word \<Rightarrow> extended_header" where
  "extended_header_key payload_size masking_key =
     (case copy_payload payload_size extended_header_new of
        (offset, bytes) \<Rightarrow> memcpy_at bytes offset (le_bytes 4 masking_key))"

subsection \<open>Reading and writing headers\<close>

definition get_fin :: "basic_header \<Rightarrow> bool" where
  "get_fin h \<longleftrightarrow> b0 h AND BHB0_FIN = BHB0_FIN"

definition set_fin :: "bool \<Rightarrow> basic_header \<Rightarrow> basic_header" where
  "set_fin val h = h\<lparr>b0 := if val then b0 h OR BHB0_FIN else b0 h AND NOT BHB0_FIN\<rparr>"

definition get_rsv1 :: "basic_header \<Rightarrow> bool" where
  "get_rsv1 h \<longleftrightarrow> b0 h AND BHB0_RSV1 = BHB0_RSV1"

definition set_rsv1 :: "bool \<Rightarrow> basic_header \<Rightarrow> basic_header" where
  "set_rsv1 val h = h\<lparr>b0 := if val then b0 h OR BHB0_RSV1 else b0 h AND NOT BHB0_RSV1\<rparr>"

definition get_rsv2 :: "basic_header \<Rightarrow> bool" where
  "get_rsv2 h \<longleftrightarrow> b0 h AND BHB0_RSV2 = BHB0_RSV2"

definition set_rsv2 :: "bool \<Rightarrow> basic_header \<Rightarrow> basic_header" where
  "set_rsv2 val h = h\<lparr>b0 := if val then b0 h OR BHB0_RSV2 else b0 h AND NOT BHB0_RSV2\<rparr>"

definition get_rsv3 :: "basic_header \<Rightarrow> bool" where
  "get_rsv3 h \<longleftrightarrow> b0 h AND BHB0_RSV3 = BHB0_RSV3"

definition set_rsv3 :: "bool \<Rightarrow> basic_header \<Rightarrow> basic_header" where
  "set_rsv3 val h = h\<lparr>b0 := if val then b0 h OR BHB0_RSV3 else b0 h AND NOT BHB0_RSV3\<rparr>"

definition get_opcode :: "basic_header \<Rightarrow> opcode" where
  "get_opcode h = opcodes ! unat (b0 h AND BHB0_OPCODE)"

definition get_masked :: "basic_header \<Rightarrow> bool" where
  "get_masked h \<longleftrightarrow> b1 h AND BHB1_MASK = BHB1_MASK"

definition set_masked :: "bool \<Rightarrow> basic_header \<Rightarrow> basic_header" where
  "set_masked val h = h\<lparr>b1 := if val then b1 h OR BHB1_MASK else b1 h AND NOT BHB1_MASK\<rparr>"

definition get_basic_size :: "basic_header \<Rightarrow> byte" where
  "get_basic_size h = b1 h AND BHB1_PAYLOAD"

definition get_masking_key_offset :: "basic_header \<Rightarrow> nat" where
  "get_masking_key_offset h =
     (if get_basic_size h = payload_size_code_16bit then 2
      else if get_basic_size h = payload_size_code_64bit then 8 else 0)"

definition get_header_len :: "basic_header \<Rightarrow> nat" where
  "get_header_len h =
     (let sz = BASIC_HEADER_LENGTH + get_masking_key_offset h
      in if get_masked h then sz + 4 else sz)"

definition prepare_header :: "basic_header \<Rightarrow> extended_header \<Rightarrow> byte list" where
  "prepare_header h e = [b0 h, b1 h] @ take (get_header_len h - BASIC_HEADER_LENGTH) e"

definition get_masking_key :: "basic_header \<Rightarrow> extended_header \<Rightarrow> 32 word" where
  "get_masking_key h e =
     (if \<not> get_masked h then 0 else le_word (take 4 (drop (get_masking_key_offset h) e)))"

text \<open>\<open>ntohs\<close> swaps the two bytes.\<close>

definition get_extended_size :: "extended_header \<Rightarrow> 16 word" where
  "get_extended_size e = le_word (rev (take 2 e))"

definition get_jumbo_size :: "extended_header \<Rightarrow> 64 word" where
  "get_jumbo_size e = ntohll (le_word (take 8 e))"

definition get_payload_size :: "basic_header \<Rightarrow> extended_header \<Rightarrow> 64 word" where
  "get_payload_size h e =
     (let val = get_basic_size h
      in if unat val \<le> payload_size_basic then ucast val
         else if val = payload_size_code_16bit then ucast (get_extended_size e)
         else get_jumbo_size e)"

subsection \<open>Masking\<close>

definition prepare_masking_key :: "32 word \<Rightarrow> 64 word" where
  "prepare_masking_key key =
     (let low_bits = ucast key; high_bits = ucast key
      in push_bit 32 high_bits OR low_bits)"

text \<open>A shift by the width of the word, for the offset 0, is undefined.\<close>

definition circshift_prepared_key :: "64 word \<Rightarrow> nat \<Rightarrow> 64 word result" where
  "circshift_prepared_key prepared_key offset =
     (if 64 \<le> (8 - offset) * 8 then Inl Undefined_Behaviour
      else let temp = push_bit ((8 - offset) * 8) prepared_key
           in Inr (drop_bit (offset * 8) prepared_key OR temp))"

fun byte_mask_loop :: "byte list \<Rightarrow> byte list \<Rightarrow> nat \<Rightarrow> byte list" where
  "byte_mask_loop [] c key_index = []"
| "byte_mask_loop (x # xs) c key_index =
     (x XOR c ! key_index) # byte_mask_loop xs c (Suc key_index mod 4)"

definition byte_mask :: "byte list \<Rightarrow> 32 word \<Rightarrow> nat \<Rightarrow> byte list" where
  "byte_mask input key key_offset = byte_mask_loop input (le_bytes 4 key) (key_offset mod 4)"

text \<open>The words of the input, each masked.\<close>

definition mask_words :: "byte list \<Rightarrow> nat \<Rightarrow> 64 word \<Rightarrow> byte list" where
  "mask_words input n prepared_key =
     concat (map (\<lambda>i. le_bytes 8 (le_word (take 8 (drop (8 * i) input)) XOR prepared_key)) [0..<n])"

definition word_mask_exact :: "byte list \<Rightarrow> 32 word \<Rightarrow> byte list" where
  "word_mask_exact input key =
     (let prepared_key = prepare_masking_key key; n = length input div 8
      in mask_words input n prepared_key @
         map (\<lambda>i. input ! i XOR le_bytes 4 key ! (i mod 4)) [n * 8..<length input])"

definition word_mask_circ :: "byte list \<Rightarrow> 64 word \<Rightarrow> (byte list \<times> 64 word) result" where
  "word_mask_circ input prepared_key =
     (let n = length input div 8; l = length input - n * 8; start = length input - l;
          output = mask_words input n prepared_key @
            map (\<lambda>i. input ! (start + i) XOR le_bytes 8 prepared_key ! i) [0..<l]
      in bind_result (circshift_prepared_key prepared_key l) (\<lambda>key. Inr (output, key)))"

definition byte_mask_circ :: "byte list \<Rightarrow> 64 word \<Rightarrow> (byte list \<times> 64 word) result" where
  "byte_mask_circ input prepared_key =
     (let key = ucast prepared_key :: 32 word;
          output = map (\<lambda>i. input ! i XOR le_bytes 4 key ! (i mod 4)) [0..<length input]
      in bind_result (circshift_prepared_key prepared_key (length input mod 4)) (\<lambda>key. Inr (output, key)))"

end
