(* ===== verification/Ws_Frame_Facts.thy ===== *)
theory Ws_Frame_Facts
  imports Ws_Frame
begin

unbundle bit_operations_syntax

section \<open>What frames promise\<close>

text \<open>
  A header that was built is read back, field by field, and its encoding has the announced length;
  masking by words is masking by bytes, byte \<open>i\<close> with byte \<open>i mod 4\<close> of the key (RFC 6455, 5.3), it
  is its own inverse, and the streaming variant continues where it stopped.
\<close>

subsection \<open>Fields of the basic header\<close>

lemma and_single_bit: "x AND 2 ^ n = 2 ^ n \<longleftrightarrow> bit x n" if "n < LENGTH('a)" for x :: "'a::len word"
proof
  assume "x AND 2 ^ n = 2 ^ n"
  then have "bit (x AND 2 ^ n) n = bit (2 ^ n :: 'a word) n" by simp
  then show "bit x n" using that by (simp add: bit_and_iff bit_exp_iff)
next
  assume "bit x n"
  then show "x AND 2 ^ n = 2 ^ n"
    by (intro bit_eqI) (auto simp only: bit_and_iff bit_exp_iff)
qed

lemma small_word: "unat w < 2 ^ n \<Longrightarrow> take_bit n w = w"
  by (simp add: word_unat_eq_iff unsigned_take_bit_eq take_bit_nat_eq_self)

lemma header_flags:
  "get_fin h \<longleftrightarrow> bit (b0 h) 7" "get_rsv1 h \<longleftrightarrow> bit (b0 h) 6" "get_rsv2 h \<longleftrightarrow> bit (b0 h) 5"
  "get_rsv3 h \<longleftrightarrow> bit (b0 h) 4" "get_masked h \<longleftrightarrow> bit (b1 h) 7"
  using and_single_bit[of 7 "b0 h"] and_single_bit[of 6 "b0 h"] and_single_bit[of 5 "b0 h"]
    and_single_bit[of 4 "b0 h"] and_single_bit[of 7 "b1 h"]
  by (simp_all add: get_fin_def get_rsv1_def get_rsv2_def get_rsv3_def get_masked_def frame_constants)

lemma opcode_value_less: "opcode_value op < 16"
  by (cases op) simp_all

lemma opcode_value_low: "opcode_value op AND 0x0F = opcode_value op"
  by (cases op) simp_all

lemma opcodes_value: "opcodes ! unat (opcode_value op) = op"
  by (cases op) (simp_all add: opcodes_def)

lemma opcode_value_bits [simp]:
  "\<not> bit (opcode_value op) 4" "\<not> bit (opcode_value op) 5"
  "\<not> bit (opcode_value op) 6" "\<not> bit (opcode_value op) 7"
  by (cases op; simp)+

lemma header_for_flags:
  "get_fin (basic_header_for op sz fin msk r1 r2 r3) = fin"
  "get_rsv1 (basic_header_for op sz fin msk r1 r2 r3) = r1"
  "get_rsv2 (basic_header_for op sz fin msk r1 r2 r3) = r2"
  "get_rsv3 (basic_header_for op sz fin msk r1 r2 r3) = r3"
  by (simp_all add: header_flags basic_header_for_def Let_def frame_constants bit_or_iff opcode_value_low)

lemma header_for_opcode: "get_opcode (basic_header_for op sz fin msk r1 r2 r3) = op"
proof -
  have "b0 (basic_header_for op sz fin msk r1 r2 r3) AND BHB0_OPCODE = opcode_value op"
    by (simp add: basic_header_for_def Let_def frame_constants opcode_value_low bit.conj_disj_distrib2)
  then show ?thesis by (simp add: get_opcode_def opcodes_value)
qed

lemma basic_value_less: "unat (basic_value sz) < 128"
proof (cases "unat sz \<le> 125")
  case True
  then have "unat (ucast sz :: byte) = unat sz" by (simp add: unsigned_ucast_eq take_bit_nat_eq_self)
  with True show ?thesis by (simp add: basic_value_def frame_constants)
qed (simp add: basic_value_def frame_constants)


lemma basic_value_low: "take_bit 7 (basic_value sz) = basic_value sz"
  using basic_value_less[of sz] by (intro small_word) simp

lemma header_for_masked: "get_masked (basic_header_for op sz fin msk r1 r2 r3) = msk"
proof -
  have "\<not> bit (basic_value sz) 7"
    using basic_value_low[of sz] bit_take_bit_iff[of 7 "basic_value sz" 7] by simp
  then show ?thesis
    by (simp add: header_flags basic_header_for_def Let_def frame_constants bit_or_iff)
qed

lemma header_for_basic_size: "get_basic_size (basic_header_for op sz fin msk r1 r2 r3) = basic_value sz"
proof -
  have "basic_value sz AND 0x7F = basic_value sz"
    using basic_value_low[of sz] by (simp add: take_bit_eq_mask mask_eq_exp_minus_1)
  then show ?thesis
    by (simp add: get_basic_size_def basic_header_for_def Let_def frame_constants bit.conj_disj_distrib2)
qed

lemmas header_for = header_for_flags header_for_opcode header_for_masked header_for_basic_size

subsection \<open>The extended header\<close>

lemma basic_value_codes:
  "basic_value sz = payload_size_code_16bit \<longleftrightarrow> payload_size_basic < unat sz \<and> unat sz \<le> payload_size_extended"
  "basic_value sz = payload_size_code_64bit \<longleftrightarrow> payload_size_extended < unat sz"
  "unat (basic_value sz) \<le> payload_size_basic \<longleftrightarrow> unat sz \<le> payload_size_basic"
  "unat sz \<le> payload_size_basic \<Longrightarrow> unat (basic_value sz) = unat sz"
proof -
  have small: "unat (ucast sz :: byte) = unat sz" if "unat sz \<le> 125"
    using that by (simp add: unsigned_ucast_eq take_bit_nat_eq_self)
  then show "unat sz \<le> payload_size_basic \<Longrightarrow> unat (basic_value sz) = unat sz"
    by (simp add: basic_value_def frame_constants)
  have ne: "ucast sz \<noteq> (126 :: byte)" "ucast sz \<noteq> (127 :: byte)" if "unat sz \<le> 125"
    using small[OF that] that by auto
  show "basic_value sz = payload_size_code_16bit \<longleftrightarrow> payload_size_basic < unat sz \<and> unat sz \<le> payload_size_extended"
    "basic_value sz = payload_size_code_64bit \<longleftrightarrow> payload_size_extended < unat sz"
    "unat (basic_value sz) \<le> payload_size_basic \<longleftrightarrow> unat sz \<le> payload_size_basic"
    using small ne by (auto simp: basic_value_def frame_constants)
qed

text \<open>The bytes of the length that are on the wire, the highest first.\<close>

definition size_bytes :: "64 word \<Rightarrow> byte list" where
  "size_bytes sz =
     (if unat sz \<le> payload_size_basic then []
      else if unat sz \<le> payload_size_extended then rev (le_bytes 2 sz) else rev (le_bytes 8 sz))"

lemma htonll_bytes: "le_bytes 8 (htonll sz) = rev (le_bytes 8 sz)"
  unfolding htonll_def by (rule le_bytes_le_word) simp_all

lemma copy_payload_bytes:
  "copy_payload sz bytes = (length (size_bytes sz), memcpy_at bytes 0 (size_bytes sz))"
proof -
  have "drop 6 (rev (le_bytes 8 sz)) = rev (le_bytes 2 sz)"
    by (simp add: le_bytes_def upt_rec)
  then show ?thesis
    by (simp add: copy_payload_def size_bytes_def Let_def htonll_bytes frame_constants)
qed

lemma size_bytes_length:
  "length (size_bytes sz) = get_masking_key_offset (basic_header_for op sz fin msk r1 r2 r3)"
  by (simp add: size_bytes_def get_masking_key_offset_def header_for basic_value_codes)
    (simp add: frame_constants)

lemma size_bytes_max: "length (size_bytes sz) \<le> 8"
  by (simp add: size_bytes_def)

lemma extended_headers:
  "extended_header_size sz = size_bytes sz @ replicate (12 - length (size_bytes sz)) 0"
  "extended_header_key sz key = size_bytes sz @ le_bytes 4 key @ replicate (8 - length (size_bytes sz)) 0"
  using size_bytes_max[of sz]
  by (simp_all add: extended_header_size_def extended_header_key_def copy_payload_bytes
      extended_header_new_def frame_constants memcpy_at_def)

text \<open>What follows the first two bytes on the wire.\<close>

definition wire_ext :: "64 word \<Rightarrow> 32 word option \<Rightarrow> byte list" where
  "wire_ext sz key = size_bytes sz @ (case key of None \<Rightarrow> [] | Some k \<Rightarrow> le_bytes 4 k)"

definition ext_for :: "64 word \<Rightarrow> 32 word option \<Rightarrow> extended_header" where
  "ext_for sz key = (case key of None \<Rightarrow> extended_header_size sz | Some k \<Rightarrow> extended_header_key sz k)"

lemma ext_for_wire: "ext_for sz key = memcpy_at extended_header_new 0 (wire_ext sz key)"
  using size_bytes_max[of sz]
  by (simp add: ext_for_def wire_ext_def extended_headers memcpy_at_def extended_header_new_def
      frame_constants split: option.split)

lemma wire_ext_length:
  "length (wire_ext sz key) = get_header_len (basic_header_for op sz fin (key \<noteq> None) r1 r2 r3) - BASIC_HEADER_LENGTH"
  "length (wire_ext sz key) \<le> MAX_EXTENDED_HEADER_LENGTH"
  using size_bytes_length[of sz op fin "key \<noteq> None" r1 r2 r3] size_bytes_max[of sz]
  by (auto simp: wire_ext_def get_header_len_def Let_def header_for frame_constants split: option.split)

lemma prepare_header_wire:
  assumes "h = basic_header_for op sz fin (key \<noteq> None) r1 r2 r3"
  shows "prepare_header h (ext_for sz key) = [b0 h, b1 h] @ wire_ext sz key"
proof -
  have "take (length (wire_ext sz key)) (ext_for sz key) = wire_ext sz key"
    unfolding ext_for_wire by (simp add: memcpy_at_def)
  then show ?thesis
    unfolding prepare_header_def using wire_ext_length(1)[of sz key op fin r1 r2 r3] assms by simp
qed

lemma ext_for_length: "length (ext_for sz key) = MAX_EXTENDED_HEADER_LENGTH"
  unfolding ext_for_wire using wire_ext_length(2)[of sz key]
  by (simp add: extended_header_new_def)

lemma ucast_small: "unat sz < 2 ^ LENGTH('b) \<Longrightarrow> unat (ucast sz :: 'b::len word) = unat sz"
  by (simp add: unsigned_ucast_eq take_bit_nat_eq_self)

lemma le_word_le_bytes_ucast:
  "LENGTH('b) = 8 * n \<Longrightarrow> n \<le> 8 \<Longrightarrow> le_word (le_bytes n (sz :: 64 word)) = (ucast sz :: 'b::len word)"
proof (rule bit_eqI)
  fix i assume "LENGTH('b) = 8 * n" "n \<le> 8" "possible_bit TYPE('b word) i"
  then have "i < LENGTH('b)" "i div 8 < n" by auto
  then show "bit (le_word (le_bytes n sz) :: 'b word) i = bit (ucast sz :: 'b word) i"
    by (simp add: bit_le_word bit_le_byte bit_ucast_iff)
qed

lemma payload_size_read:
  assumes "h = basic_header_for op sz fin (key \<noteq> None) r1 r2 r3"
  shows "get_payload_size h (ext_for sz key) = sz"
proof -
  have wire: "take n (ext_for sz key) = take n (size_bytes sz)" if "n \<le> length (size_bytes sz)" for n
    using that size_bytes_max[of sz] unfolding ext_for_wire
    by (simp add: memcpy_at_def wire_ext_def extended_header_new_def frame_constants split: option.split)
  have basic: "ucast (basic_value sz) = sz" if "unat sz \<le> payload_size_basic"
  proof -
    have "unat (basic_value sz) = unat sz" by (rule basic_value_codes(4)[OF that])
    moreover have "unat sz < 2 ^ LENGTH(64)" using that by (simp add: frame_constants)
    ultimately show ?thesis by (simp only: word_unat_eq_iff ucast_small)
  qed
  have ext: "ucast (get_extended_size (ext_for sz key)) = sz"
    if "payload_size_basic < unat sz" "unat sz \<le> payload_size_extended"
  proof -
    have "size_bytes sz = rev (le_bytes 2 sz)" using that by (simp add: size_bytes_def)
    then have "get_extended_size (ext_for sz key) = le_word (le_bytes 2 sz)"
      by (simp add: get_extended_size_def wire)
    also have "\<dots> = (ucast sz :: 16 word)" by (rule le_word_le_bytes_ucast) simp_all
    finally show ?thesis using that by (simp add: word_unat_eq_iff ucast_small frame_constants)
  qed
  have jumbo: "get_jumbo_size (ext_for sz key) = sz" if "payload_size_extended < unat sz"
  proof -
    have "size_bytes sz = rev (le_bytes 8 sz)" using that by (simp add: size_bytes_def frame_constants)
    then have "get_jumbo_size (ext_for sz key) = htonll (le_word (rev (le_bytes 8 sz)))"
      by (simp add: get_jumbo_size_def ntohll_def wire)
    then show ?thesis
      unfolding htonll_def by (simp add: le_bytes_le_word le_word_le_bytes)
  qed
  show ?thesis
    using basic ext jumbo basic_value_codes[of sz]
    by (simp add: get_payload_size_def Let_def assms header_for)
qed

lemma masking_key_read:
  assumes "h = basic_header_for op sz fin (key \<noteq> None) r1 r2 r3"
  shows "get_masking_key h (ext_for sz key) = (case key of None \<Rightarrow> 0 | Some k \<Rightarrow> k)"
proof (cases key)
  case (Some k)
  have "get_masking_key_offset h = length (size_bytes sz)"
    using size_bytes_length[of sz op fin "key \<noteq> None"] assms by simp
  then show ?thesis
    using Some assms by (simp add: get_masking_key_def header_for ext_for_def extended_headers le_word_le_bytes)
qed (simp add: get_masking_key_def assms header_for)

subsection \<open>Masking\<close>

lemma byte_mask_loop_nth:
  "key_index < 4 \<Longrightarrow> i < length xs \<Longrightarrow>
     byte_mask_loop xs c key_index ! i = xs ! i XOR c ! ((key_index + i) mod 4)"
proof (induction xs c key_index arbitrary: i rule: byte_mask_loop.induct)
  case (2 x xs c key_index)
  then show ?case
    by (cases i) (simp_all add: mod_simps)
qed simp

lemma byte_mask_loop_length [simp]: "length (byte_mask_loop xs c k) = length xs"
  by (induction xs c k rule: byte_mask_loop.induct) simp_all

lemma byte_mask_length [simp]: "length (byte_mask xs key off) = length xs"
  by (simp add: byte_mask_def)

lemma byte_mask_nth:
  "i < length xs \<Longrightarrow> byte_mask xs key off ! i = xs ! i XOR le_byte key ((off + i) mod 4)"
  by (simp add: byte_mask_def byte_mask_loop_nth mod_simps)

lemma byte_mask_append:
  "byte_mask (xs @ ys) key off = byte_mask xs key off @ byte_mask ys key (off + length xs)"
  by (rule nth_equalityI) (auto simp: byte_mask_nth nth_append ac_simps)

lemma byte_mask_twice: "byte_mask (byte_mask xs key off) key off = xs"
  by (rule nth_equalityI) (simp_all add: byte_mask_nth xor.assoc)

text \<open>A prepared key holds the key twice, from the offset on.\<close>

definition prepared_at :: "64 word \<Rightarrow> 32 word \<Rightarrow> nat \<Rightarrow> bool" where
  "prepared_at p key off \<longleftrightarrow> (\<forall>i < 8. le_byte p i = le_byte key ((off + i) mod 4))"

lemma prepare_masking_key_at: "prepared_at (prepare_masking_key key) key 0"
proof -
  have "le_byte (prepare_masking_key key) i = le_byte key (i mod 4)" if "i < 8" for i
  proof (rule bit_eqI)
    fix n assume "possible_bit TYPE(8 word) n"
    then have n: "n < 8" by simp
    have "bit (prepare_masking_key key) (8 * i + n) = bit key (8 * (i mod 4) + n)"
    proof (cases "i < 4")
      case True
      with n have "8 * i + n < 32" by linarith
      with True show ?thesis
        by (auto simp: prepare_masking_key_def Let_def bit_or_iff bit_push_bit_iff bit_ucast_iff)
    next
      case False
      with that have "i mod 4 = i - 4" by (simp add: le_mod_geq)
      moreover have "\<not> bit key (8 * i + n)" using False bit_imp_le_length[of key "8 * i + n"] by auto
      ultimately show ?thesis using False that n
        by (auto simp: prepare_masking_key_def Let_def bit_or_iff bit_push_bit_iff bit_ucast_iff algebra_simps)
    qed
    with n show "bit (le_byte (prepare_masking_key key) i) n = bit (le_byte key (i mod 4)) n"
      by (simp add: bit_le_byte)
  qed
  then show ?thesis by (simp add: prepared_at_def)
qed

lemma le_byte_xor: "le_byte (v XOR w) k = le_byte v k XOR le_byte w k"
  by (rule bit_eqI) (simp add: bit_le_byte bit_xor_iff)

lemma le_byte_le_word: "k < length bs \<Longrightarrow> length bs = 8 \<Longrightarrow> le_byte (le_word bs :: 64 word) k = bs ! k"
  using le_bytes_le_word[of bs 8, where 'a = 64] nth_le_bytes[of k 8 "le_word bs :: 64 word"] by simp

lemma mask_word:
  assumes "length xs = 8" "prepared_at p key off"
  shows "le_bytes 8 (le_word xs XOR p) = byte_mask xs key off"
  using assms
  by (intro nth_equalityI) (simp_all add: le_byte_xor le_byte_le_word byte_mask_nth prepared_at_def)

lemma prepared_at_shift: "prepared_at p key off \<Longrightarrow> prepared_at p key (off + 8 * n)"
proof -
  have "(off + 8 * n + i) mod 4 = (off + i) mod 4" for i
    using mod_mult_self2[of "off + i" 4 "2 * n"] by (simp add: ac_simps)
  then show "prepared_at p key off \<Longrightarrow> prepared_at p key (off + 8 * n)"
    by (simp add: prepared_at_def)
qed

lemma mask_words_mask:
  assumes "8 * n \<le> length xs" "prepared_at p key off"
  shows "mask_words xs n p = byte_mask (take (8 * n) xs) key off"
  using assms(1)
proof (induction n)
  case (Suc n)
  have "take (8 * Suc n) xs = take (8 * n) xs @ take 8 (drop (8 * n) xs)"
    by (simp add: take_add[symmetric] add.commute)
  moreover have "length (take 8 (drop (8 * n) xs)) = 8" using Suc.prems by simp
  moreover have "prepared_at p key (off + 8 * n)" by (rule prepared_at_shift[OF assms(2)])
  ultimately show ?case
    using Suc by (simp add: mask_words_def byte_mask_append mask_word)
qed (simp add: mask_words_def byte_mask_def)

text \<open>A whole message is masked as by bytes.\<close>

lemma word_mask_exact_byte_mask: "word_mask_exact xs key = byte_mask xs key 0"
proof -
  let ?n = "length xs div 8"
  have "8 * ?n \<le> length xs" by simp
  note words = mask_words_mask[OF this prepare_masking_key_at]
  have tail: "map (\<lambda>i. xs ! i XOR le_bytes 4 key ! (i mod 4)) [?n * 8..<length xs] =
      byte_mask (drop (8 * ?n) xs) key (8 * ?n)"
    by (rule nth_equalityI) (simp_all add: byte_mask_nth ac_simps)
  have "byte_mask (take (8 * ?n) xs @ drop (8 * ?n) xs) key 0 =
      byte_mask (take (8 * ?n) xs) key 0 @ byte_mask (drop (8 * ?n) xs) key (8 * ?n)"
    unfolding byte_mask_append by simp
  then show ?thesis
    unfolding word_mask_exact_def Let_def words tail by simp
qed

text \<open>A part of a message, when its length is not a multiple of eight.\<close>

lemma le_byte_circshift:
  assumes "0 < l" "l < 8" "circshift_prepared_key p l = Inr p'" "i < 8"
  shows "le_byte p' i = le_byte p ((l + i) mod 8)"
proof (rule bit_eqI)
  fix n assume "possible_bit TYPE(8 word) n"
  then have n: "n < 8" by simp
  have p': "p' = drop_bit (l * 8) p OR push_bit ((8 - l) * 8) p"
    using assms(1,2,3) by (simp add: circshift_prepared_key_def Let_def split: if_splits)
  have high: "\<not> bit p k" if "64 \<le> k" for k using that bit_imp_le_length[of p k] by auto
  show "bit (le_byte p' i) n = bit (le_byte p ((l + i) mod 8)) n"
  proof (cases "l + i < 8")
    case True
    then have "8 * i + n < (8 - l) * 8" using n by linarith
    with True n assms(4) show ?thesis
      by (simp add: p' bit_le_byte bit_or_iff bit_drop_bit_eq bit_push_bit_iff algebra_simps)
  next
    case False
    then have m: "(l + i) mod 8 = l + i - 8" using assms(2,4) by (simp add: le_mod_geq)
    have "(8 - l) * 8 \<le> 8 * i + n" "8 * i + n - (8 - l) * 8 = 8 * (l + i - 8) + n"
      using False assms(2) by linarith+
    moreover have "\<not> bit p (l * 8 + (8 * i + n))" using False by (intro high) simp
    ultimately show ?thesis using n assms(4)
      by (simp add: p' m bit_le_byte bit_or_iff bit_drop_bit_eq bit_push_bit_iff)
  qed
qed

lemma circshift_defined: "circshift_prepared_key p l = Inl e \<longleftrightarrow> l = 0 \<and> e = Undefined_Behaviour"
  by (auto simp: circshift_prepared_key_def Let_def)

lemma prepared_at_circshift:
  assumes "prepared_at p key off" "0 < l" "l < 8" "circshift_prepared_key p l = Inr p'"
  shows "prepared_at p' key (off + l)"
proof -
  have "le_byte p' i = le_byte key ((off + l + i) mod 4)" if i: "i < 8" for i
  proof -
    have "le_byte p' i = le_byte p ((l + i) mod 8)" by (rule le_byte_circshift[OF assms(2-4) i])
    also have "\<dots> = le_byte key ((off + (l + i) mod 8) mod 4)" using assms(1) by (simp add: prepared_at_def)
    also have "(off + (l + i) mod 8) mod 4 = (off + l + i) mod 4"
      by (simp add: mod_add_right_eq[of off "(l + i) mod 8" 4, symmetric] mod_mod_cancel mod_add_right_eq add.assoc)
    finally show ?thesis .
  qed
  then show ?thesis by (simp add: prepared_at_def)
qed

lemma word_mask_circ_byte_mask:
  assumes "prepared_at p key off"
  shows "if length xs mod 8 = 0 then word_mask_circ xs p = Inl Undefined_Behaviour
         else \<exists>p'. word_mask_circ xs p = Inr (byte_mask xs key off, p') \<and> prepared_at p' key (off + length xs)"
proof -
  let ?n = "length xs div 8" and ?l = "length xs mod 8"
  have l: "length xs - ?n * 8 = ?l" "length xs - ?l = 8 * ?n" "?l < 8"
    by (simp_all add: minus_div_mult_eq_mod minus_mod_eq_mult_div)
  have words: "mask_words xs ?n p = byte_mask (take (8 * ?n) xs) key off"
    by (rule mask_words_mask[OF _ assms]) simp
  have p8: "prepared_at p key (off + 8 * ?n)" by (rule prepared_at_shift[OF assms])
  have tail: "map (\<lambda>i. xs ! (8 * ?n + i) XOR le_bytes 8 p ! i) [0..<?l] =
      byte_mask (drop (8 * ?n) xs) key (off + 8 * ?n)"
    using l p8 by (intro nth_equalityI) (auto simp: byte_mask_nth prepared_at_def minus_mult_div_eq_mod)
  have out: "byte_mask (take (8 * ?n) xs) key off @ byte_mask (drop (8 * ?n) xs) key (off + 8 * ?n) =
      byte_mask xs key off"
    using byte_mask_append[of "take (8 * ?n) xs" "drop (8 * ?n) xs" key off] by simp
  have eq: "word_mask_circ xs p =
      bind_result (circshift_prepared_key p ?l) (\<lambda>key'. Inr (byte_mask xs key off, key'))"
    unfolding word_mask_circ_def Let_def l words tail out ..
  show ?thesis
  proof (cases "?l = 0")
    case False
    then obtain p' where p': "circshift_prepared_key p ?l = Inr p'"
      using circshift_defined[of p ?l] by (cases "circshift_prepared_key p ?l") auto
    have "prepared_at p' key (off + 8 * ?n + ?l)"
      using False by (intro prepared_at_circshift[OF p8 _ l(3) p']) simp
    with False p' show ?thesis by (simp add: eq ac_simps)
  qed (simp add: eq circshift_prepared_key_def)
qed

lemma mask_words_length: "length (mask_words xs n p) = 8 * n"
  by (induction n) (simp_all add: mask_words_def)

lemma word_mask_circ_length: "word_mask_circ xs p = Inr (ys, p') \<Longrightarrow> length ys = length xs"
  by (auto simp: word_mask_circ_def Let_def bind_result_eq_Inr mask_words_length)

end
