(* ===== verification/Utf8_Validator.thy ===== *)
theory Utf8_Validator
  imports Prelude
begin

unbundle bit_operations_syntax

section \<open>websocketpp/utf8\_validator.hpp: validation of UTF-8\<close>

text \<open>
  The decoder of B. Hoehrmann: a table gives each byte a class and each pair of state and class
  the next state. The states are the numbers 0 (accept) to 8, so a state is a natural number. The
  validator accepts exactly the well-formed byte sequences of the Unicode standard (table 3-7).
\<close>

definition utf8_accept :: nat where "utf8_accept = 0"
definition utf8_reject :: nat where "utf8_reject = 1"

definition utf8d :: "nat list" where
  "utf8d =
     [0,0,0,0,0,0,0,0,0,0,0,0,0,0,0,0,0,0,0,0,0,0,0,0,0,0,0,0,0,0,0,0,
      0,0,0,0,0,0,0,0,0,0,0,0,0,0,0,0,0,0,0,0,0,0,0,0,0,0,0,0,0,0,0,0,
      0,0,0,0,0,0,0,0,0,0,0,0,0,0,0,0,0,0,0,0,0,0,0,0,0,0,0,0,0,0,0,0,
      0,0,0,0,0,0,0,0,0,0,0,0,0,0,0,0,0,0,0,0,0,0,0,0,0,0,0,0,0,0,0,0,
      1,1,1,1,1,1,1,1,1,1,1,1,1,1,1,1,9,9,9,9,9,9,9,9,9,9,9,9,9,9,9,9,
      7,7,7,7,7,7,7,7,7,7,7,7,7,7,7,7,7,7,7,7,7,7,7,7,7,7,7,7,7,7,7,7,
      8,8,2,2,2,2,2,2,2,2,2,2,2,2,2,2,2,2,2,2,2,2,2,2,2,2,2,2,2,2,2,2,
      0xa,0x3,0x3,0x3,0x3,0x3,0x3,0x3,0x3,0x3,0x3,0x3,0x3,0x4,0x3,0x3,
      0xb,0x6,0x6,0x6,0x5,0x8,0x8,0x8,0x8,0x8,0x8,0x8,0x8,0x8,0x8,0x8,
      0x0,0x1,0x2,0x3,0x5,0x8,0x7,0x1,0x1,0x1,0x4,0x6,0x1,0x1,0x1,0x1,
      1,1,1,1,1,1,1,1,1,1,1,1,1,1,1,1,1,0,1,1,1,1,1,0,1,0,1,1,1,1,1,1,
      1,2,1,1,1,1,1,2,1,2,1,1,1,1,1,1,1,1,1,1,1,1,1,2,1,1,1,1,1,1,1,1,
      1,2,1,1,1,1,1,1,1,2,1,1,1,1,1,1,1,1,1,1,1,1,1,3,1,3,1,1,1,1,1,1,
      1,3,1,1,1,1,1,3,1,3,1,1,1,1,1,1,1,3,1,1,1,1,1,1,1,1,1,1,1,1,1,1]"

definition utf8_decode :: "nat \<Rightarrow> 32 word \<Rightarrow> byte \<Rightarrow> nat \<times> 32 word" where
  "utf8_decode st codep b =
     (let type = utf8d ! unat b
      in (utf8d ! (256 + st * 16 + type),
          if st \<noteq> utf8_accept then (ucast b AND 0x3F) OR push_bit 6 codep
          else drop_bit type 0xFF AND ucast b))"

record validator =
  m_state :: nat
  m_codepoint :: "32 word"

definition validator_new :: validator where
  "validator_new = \<lparr>m_state = utf8_accept, m_codepoint = 0\<rparr>"

definition validator_step :: "byte \<Rightarrow> validator \<Rightarrow> validator" where
  "validator_step b v =
     (let (st, codep) = utf8_decode (m_state v) (m_codepoint v) b in \<lparr>m_state = st, m_codepoint = codep\<rparr>)"

definition validator_consume :: "byte \<Rightarrow> validator \<Rightarrow> bool \<times> validator" where
  "validator_consume b v = (let v' = validator_step b v in (m_state v' \<noteq> utf8_reject, v'))"

fun validator_decode :: "byte list \<Rightarrow> validator \<Rightarrow> bool \<times> validator" where
  "validator_decode [] v = (True, v)"
| "validator_decode (b # bs) v =
     (let v' = validator_step b v
      in if m_state v' = utf8_reject then (False, v') else validator_decode bs v')"

definition validator_complete :: "validator \<Rightarrow> bool" where
  "validator_complete v \<longleftrightarrow> m_state v = utf8_accept"

definition validator_reset :: "validator \<Rightarrow> validator" where
  "validator_reset v = v\<lparr>m_state := utf8_accept, m_codepoint := 0\<rparr>"

definition utf8_validate :: "byte list \<Rightarrow> bool" where
  "utf8_validate s =
     (let (ok, v) = validator_decode s validator_new in if \<not> ok then False else validator_complete v)"

subsection \<open>The table\<close>

definition utf8_next :: "nat \<Rightarrow> nat \<Rightarrow> nat" where
  "utf8_next st b = utf8d ! (256 + st * 16 + utf8d ! b)"

definition cont :: "nat \<Rightarrow> bool" where
  "cont b \<longleftrightarrow> 0x80 \<le> b \<and> b \<le> 0xBF"

text \<open>The state after a byte, by ranges of the byte.\<close>

definition utf8_after :: "nat \<Rightarrow> nat \<Rightarrow> nat" where
  "utf8_after st b =
     (if st = 0 then
        if b \<le> 0x7F then 0 else if b < 0xC2 then 1 else if b \<le> 0xDF then 2
        else if b = 0xE0 then 4 else if b = 0xED then 5 else if b \<le> 0xEF then 3
        else if b = 0xF0 then 6 else if b \<le> 0xF3 then 7 else if b = 0xF4 then 8 else 1
      else if st = 2 then (if cont b then 0 else 1)
      else if st = 3 then (if cont b then 2 else 1)
      else if st = 4 then (if 0xA0 \<le> b \<and> b \<le> 0xBF then 2 else 1)
      else if st = 5 then (if 0x80 \<le> b \<and> b \<le> 0x9F then 2 else 1)
      else if st = 6 then (if 0x90 \<le> b \<and> b \<le> 0xBF then 3 else 1)
      else if st = 7 then (if cont b then 3 else 1)
      else if st = 8 then (if 0x80 \<le> b \<and> b \<le> 0x8F then 3 else 1) else 1)"

text \<open>The classes, with the bound of each range.\<close>

definition utf8_ranges :: "(nat \<times> nat) list" where
  "utf8_ranges =
     [(0x80, 0), (0x90, 1), (0xA0, 9), (0xC0, 7), (0xC2, 8), (0xE0, 2), (0xE1, 10), (0xED, 3), (0xEE, 4),
      (0xF0, 3), (0xF1, 11), (0xF4, 6), (0xF5, 5), (0x100, 8)]"

fun range_class :: "(nat \<times> nat) list \<Rightarrow> nat \<Rightarrow> nat" where
  "range_class [] b = 0"
| "range_class ((e, c) # r) b = (if b < e then c else range_class r b)"

fun in_runs :: "nat \<Rightarrow> (nat \<times> nat) list \<Rightarrow> nat list \<Rightarrow> bool" where
  "in_runs s [] xs = True"
| "in_runs s ((e, c) # r) xs = (take (e - s) xs = replicate (e - s) c \<and> in_runs e r (drop (e - s) xs))"

lemma in_runs_nth:
  "in_runs s r xs \<Longrightarrow> sorted (s # map fst r) \<Longrightarrow> r \<noteq> [] \<Longrightarrow> b < fst (last r) - s \<Longrightarrow> b < length xs \<Longrightarrow>
     xs ! b = range_class r (s + b)"
proof (induction s r xs arbitrary: b rule: in_runs.induct)
  case (2 s e c r xs)
  show ?case
  proof (cases "b < e - s")
    case True
    then have "xs ! b = take (e - s) xs ! b" by simp
    also have "\<dots> = c" using 2(2) True by simp
    finally have "xs ! b = c" .
    moreover have "s + b < e" using True by linarith
    ultimately show ?thesis by simp
  next
    case False
    with "2.prems" have "r \<noteq> []" by auto
    with 2 False have "drop (e - s) xs ! (b - (e - s)) = range_class r (e + (b - (e - s)))"
      by (intro "2.IH") auto
    moreover have "\<not> s + b < e" using False by linarith
    ultimately show ?thesis using False "2.prems" by (simp add: add.commute)
  qed
qed simp

lemma utf8d_runs: "in_runs 0 utf8_ranges utf8d"
  unfolding utf8d_def utf8_ranges_def by code_simp

lemma utf8d_class: "b < 256 \<Longrightarrow> utf8d ! b = range_class utf8_ranges b"
  using in_runs_nth[OF utf8d_runs, of b] by (simp add: utf8_ranges_def utf8d_def)

definition utf8_rows :: "nat list list" where
  "utf8_rows =
     [[0, 1, 2, 3, 5, 8, 7, 1, 1, 1, 4, 6],
      [1, 1, 1, 1, 1, 1, 1, 1, 1, 1, 1, 1],
      [1, 0, 1, 1, 1, 1, 1, 0, 1, 0, 1, 1],
      [1, 2, 1, 1, 1, 1, 1, 2, 1, 2, 1, 1],
      [1, 1, 1, 1, 1, 1, 1, 2, 1, 1, 1, 1],
      [1, 2, 1, 1, 1, 1, 1, 1, 1, 2, 1, 1],
      [1, 1, 1, 1, 1, 1, 1, 3, 1, 3, 1, 1],
      [1, 3, 1, 1, 1, 1, 1, 3, 1, 3, 1, 1],
      [1, 3, 1, 1, 1, 1, 1, 1, 1, 1, 1, 1]]"

lemma utf8d_rows: "map (\<lambda>st. take 12 (drop (256 + st * 16) utf8d)) [0..<9] = utf8_rows"
  unfolding utf8d_def utf8_rows_def by code_simp

lemma utf8d_row:
  assumes "st < 9" "c < 12"
  shows "utf8d ! (256 + st * 16 + c) = utf8_rows ! st ! c"
proof -
  have "length utf8d = 400" by (simp add: utf8d_def)
  with assms show ?thesis by (simp flip: utf8d_rows)
qed

lemma utf8_next_after:
  assumes "st < 9" "b < 256"
  shows "utf8_next st b = utf8_after st b"
proof -
  have "b \<le> 0x7F \<or> 0x80 \<le> b \<and> b \<le> 0x8F \<or> 0x90 \<le> b \<and> b \<le> 0x9F \<or> 0xA0 \<le> b \<and> b \<le> 0xBF \<or>
      0xC0 \<le> b \<and> b \<le> 0xC1 \<or> 0xC2 \<le> b \<and> b \<le> 0xDF \<or> b = 0xE0 \<or> 0xE1 \<le> b \<and> b \<le> 0xEC \<or> b = 0xED \<or>
      0xEE \<le> b \<and> b \<le> 0xEF \<or> b = 0xF0 \<or> 0xF1 \<le> b \<and> b \<le> 0xF3 \<or> b = 0xF4 \<or> 0xF5 \<le> b"
    by linarith
  moreover have "st \<in> {0, 1, 2, 3, 4, 5, 6, 7, 8}" using assms(1) by auto
  moreover have "range_class utf8_ranges b < 12" by (simp add: utf8_ranges_def)
  then have "utf8_next st b = utf8_rows ! st ! range_class utf8_ranges b"
    using assms by (simp add: utf8_next_def utf8d_class utf8d_row)
  ultimately show ?thesis
    using assms(2)
    by (elim disjE insertE emptyE) (simp_all add: utf8_after_def utf8_ranges_def utf8_rows_def cont_def)
qed

subsection \<open>The validator accepts what is well formed\<close>

text \<open>Table 3-7 of the Unicode standard, as a recogniser.\<close>

definition second_ok :: "nat \<Rightarrow> nat \<Rightarrow> bool" where
  "second_ok a b =
     (if a = 0xE0 then 0xA0 \<le> b \<and> b \<le> 0xBF else if a = 0xED then 0x80 \<le> b \<and> b \<le> 0x9F
      else if a = 0xF0 then 0x90 \<le> b \<and> b \<le> 0xBF else if a = 0xF4 then 0x80 \<le> b \<and> b \<le> 0x8F
      else cont b)"

fun utf8_wf :: "nat list \<Rightarrow> bool" where
  "utf8_wf [] = True"
| "utf8_wf (a # s) =
     (if a \<le> 0x7F then utf8_wf s
      else if 0xC2 \<le> a \<and> a \<le> 0xDF then
        (case s of b # s \<Rightarrow> cont b \<and> utf8_wf s | _ \<Rightarrow> False)
      else if 0xE0 \<le> a \<and> a \<le> 0xEF then
        (case s of b # c # s \<Rightarrow> second_ok a b \<and> cont c \<and> utf8_wf s | _ \<Rightarrow> False)
      else if 0xF0 \<le> a \<and> a \<le> 0xF4 then
        (case s of b # c # d # s \<Rightarrow> second_ok a b \<and> cont c \<and> cont d \<and> utf8_wf s | _ \<Rightarrow> False)
      else False)"

text \<open>The automaton on its own.\<close>

fun utf8_accepts :: "nat \<Rightarrow> nat list \<Rightarrow> bool" where
  "utf8_accepts st [] = (st = 0)"
| "utf8_accepts st (b # s) = (utf8_after st b \<noteq> 1 \<and> utf8_accepts (utf8_after st b) s)"

lemma utf8_accepts_wf: "utf8_accepts 0 s = utf8_wf s"
proof (induction s rule: utf8_wf.induct)
  case (2 a s)
  have tail: "utf8_accepts 2 s = (case s of b # s \<Rightarrow> cont b \<and> utf8_accepts 0 s | _ \<Rightarrow> False)" for s
    by (cases s) (simp_all add: utf8_after_def)
  have tail2: "utf8_accepts 3 s = (case s of c # d # s \<Rightarrow> cont c \<and> cont d \<and> utf8_accepts 0 s | _ \<Rightarrow> False)" for s
    by (cases s) (simp_all add: utf8_after_def tail split: list.split)
  consider "a \<le> 0x7F" | "0x80 \<le> a" "a < 0xC2" | "0xC2 \<le> a" "a \<le> 0xDF" | "0xE0 \<le> a" "a \<le> 0xEF"
    | "0xF0 \<le> a" "a \<le> 0xF4" | "0xF4 < a" by linarith
  then show ?case
  proof cases
    case 1
    then show ?thesis using 2(1) by (simp add: utf8_after_def)
  next
    case 3
    then have "utf8_after 0 a = 2" by (simp add: utf8_after_def)
    then show ?thesis using 3 2(2) by (simp add: tail split: list.split)
  next
    case 4
    then have "utf8_after 0 a = (if a = 0xE0 then 4 else if a = 0xED then 5 else 3)"
      by (simp add: utf8_after_def)
    then show ?thesis using 4 2(3) by (cases s) (auto simp: utf8_after_def second_ok_def tail split: list.split)
  next
    case 5
    then have "utf8_after 0 a = (if a = 0xF0 then 6 else if a = 0xF4 then 8 else 7)"
      by (simp add: utf8_after_def)
    then show ?thesis using 5 2(4) by (cases s) (auto simp: utf8_after_def second_ok_def tail2 split: list.split)
  qed (simp_all add: utf8_after_def)
qed simp

lemma utf8_after_less: "utf8_after st b < 9"
  by (simp add: utf8_after_def)

lemma validator_step_state: "m_state (validator_step b v) = utf8_next (m_state v) (unat b)"
  by (simp add: validator_step_def utf8_decode_def utf8_next_def Let_def)

lemma validator_decode_accepts:
  "m_state v < 9 \<Longrightarrow>
     (fst (validator_decode s v) \<and> validator_complete (snd (validator_decode s v))) =
     utf8_accepts (m_state v) (map unat s)"
proof (induction s arbitrary: v)
  case (Cons b s)
  have "m_state (validator_step b v) = utf8_after (m_state v) (unat b)"
    using Cons.prems utf8_next_after unsigned_less[of b] by (simp add: validator_step_state)
  with Cons.IH[of "validator_step b v"] utf8_after_less show ?case
    by (simp add: Let_def utf8_reject_def)
qed (simp add: validator_complete_def utf8_accept_def)

lemma utf8_validate_wf: "utf8_validate s = utf8_wf (map unat s)"
  using validator_decode_accepts[of validator_new s] utf8_accepts_wf[of "map unat s"]
  by (auto simp: utf8_validate_def validator_new_def utf8_accept_def split: prod.split)

text \<open>The validator may be fed in pieces.\<close>

lemma validator_decode_append:
  "validator_decode (s @ t) v =
     (let (ok, v') = validator_decode s v in if ok then validator_decode t v' else (False, v'))"
  by (induction s arbitrary: v) (simp_all add: Let_def)

end
