(* ===== verification/Ws_Errors.thy ===== *)
theory Ws_Errors
  imports Prelude
begin

section \<open>websocketpp: error codes\<close>

text \<open>
  The categories of errors that a connection meets: of the processor (processors/base.hpp), of
  the library (error.hpp), of the transport (transport/base/connection.hpp) and of its socket
  (transport/asio/security/base.hpp), each with its message. An error code of another category comes from below the library: its message is not
  ours, and is carried along.
\<close>

datatype ws_error =
    General_Error | Bad_Request | Protocol_Violation | Message_Too_Big | Invalid_Payload
  | Invalid_Arguments | Invalid_Opcode | Control_Too_Big | Invalid_Rsv_Bit | Fragmented_Control
  | Invalid_Continuation | Masking_Required | Masking_Forbidden | Non_Minimal_Encoding | Requires_64bit
  | Invalid_Utf8 | Not_Implemented | Invalid_Http_Method | Invalid_Http_Version | Invalid_Http_Status
  | Missing_Required_Header | Sha1_Library | No_Protocol_Support | Reserved_Close_Code
  | Invalid_Close_Code | Reason_Requires_Code | Subprotocol_Parse_Error | Extension_Parse_Error
  | Extensions_Disabled | Short_Key3

primrec processor_message :: "ws_error \<Rightarrow> string" where
  "processor_message General_Error = ''Generic processor error''"
| "processor_message Bad_Request = ''invalid user input''"
| "processor_message Protocol_Violation = ''Generic protocol violation''"
| "processor_message Message_Too_Big = ''A message was too large''"
| "processor_message Invalid_Payload = ''A payload contained invalid data''"
| "processor_message Invalid_Arguments = ''invalid function arguments''"
| "processor_message Invalid_Opcode = ''invalid opcode''"
| "processor_message Control_Too_Big = ''Control messages are limited to fewer than 125 characters''"
| "processor_message Invalid_Rsv_Bit = ''Invalid use of reserved bits''"
| "processor_message Fragmented_Control = ''Control messages cannot be fragmented''"
| "processor_message Invalid_Continuation = ''Invalid message continuation''"
| "processor_message Masking_Required = ''Clients may not send unmasked frames''"
| "processor_message Masking_Forbidden = ''Servers may not send masked frames''"
| "processor_message Non_Minimal_Encoding = ''Payload length was not minimally encoded''"
| "processor_message Requires_64bit = ''64 bit frames are not supported on 32 bit systems''"
| "processor_message Invalid_Utf8 = ''Invalid UTF8 encoding''"
| "processor_message Not_Implemented = ''Operation required not implemented functionality''"
| "processor_message Invalid_Http_Method = ''Invalid HTTP method.''"
| "processor_message Invalid_Http_Version = ''Invalid HTTP version.''"
| "processor_message Invalid_Http_Status = ''Invalid HTTP status.''"
| "processor_message Missing_Required_Header = ''A required HTTP header is missing''"
| "processor_message Sha1_Library = ''SHA-1 library error''"
| "processor_message No_Protocol_Support =
     ''The WebSocket protocol version in use does not support this feature''"
| "processor_message Reserved_Close_Code = ''Reserved close code used''"
| "processor_message Invalid_Close_Code = ''Invalid close code used''"
| "processor_message Reason_Requires_Code = ''Using a close reason requires a valid close code''"
| "processor_message Subprotocol_Parse_Error = ''Error parsing subprotocol header''"
| "processor_message Extension_Parse_Error = ''Error parsing extension header''"
| "processor_message Extensions_Disabled = ''Extensions are disabled''"
| "processor_message Short_Key3 = ''Short Hybi00 Key 3 read''"

datatype lib_error =
    Lib_General | Send_Queue_Full | Payload_Violation | Endpoint_Not_Secure | Endpoint_Unavailable
  | Invalid_Uri | No_Outgoing_Buffers | No_Incoming_Buffers | Invalid_State | Bad_Close_Code
  | Lib_Reserved_Close_Code | Lib_Invalid_Close_Code | Lib_Invalid_Utf8 | Invalid_Subprotocol
  | Bad_Connection | Lib_Test | Con_Creation_Failed | Unrequested_Subprotocol | Client_Only | Server_Only
  | Http_Connection_Ended | Open_Handshake_Timeout | Close_Handshake_Timeout | Invalid_Port
  | Async_Accept_Not_Listening | Operation_Canceled | Rejected | Upgrade_Required | Invalid_Version
  | Unsupported_Version | Http_Parse_Error

primrec lib_message :: "lib_error \<Rightarrow> string" where
  "lib_message Lib_General = ''Generic error''"
| "lib_message Send_Queue_Full = ''send queue full''"
| "lib_message Payload_Violation = ''payload violation''"
| "lib_message Endpoint_Not_Secure = ''endpoint not secure''"
| "lib_message Endpoint_Unavailable = ''endpoint not available''"
| "lib_message Invalid_Uri = ''invalid uri''"
| "lib_message No_Outgoing_Buffers = ''no outgoing message buffers''"
| "lib_message No_Incoming_Buffers = ''no incoming message buffers''"
| "lib_message Invalid_State = ''invalid state''"
| "lib_message Bad_Close_Code = ''Unable to extract close code''"
| "lib_message Lib_Invalid_Close_Code = ''Extracted close code is in an invalid range''"
| "lib_message Lib_Reserved_Close_Code = ''Extracted close code is in a reserved range''"
| "lib_message Lib_Invalid_Utf8 = ''Invalid UTF-8''"
| "lib_message Invalid_Subprotocol = ''Invalid subprotocol''"
| "lib_message Bad_Connection = ''Bad Connection''"
| "lib_message Lib_Test = ''Test Error''"
| "lib_message Con_Creation_Failed = ''Connection creation attempt failed''"
| "lib_message Unrequested_Subprotocol = ''Selected subprotocol was not requested by the client''"
| "lib_message Client_Only = ''Feature not available on server endpoints''"
| "lib_message Server_Only = ''Feature not available on client endpoints''"
| "lib_message Http_Connection_Ended = ''HTTP connection ended''"
| "lib_message Open_Handshake_Timeout = ''The opening handshake timed out''"
| "lib_message Close_Handshake_Timeout = ''The closing handshake timed out''"
| "lib_message Invalid_Port = ''Invalid URI port''"
| "lib_message Async_Accept_Not_Listening = ''Async Accept not listening''"
| "lib_message Operation_Canceled = ''Operation canceled''"
| "lib_message Rejected = ''Connection rejected''"
| "lib_message Upgrade_Required = ''Upgrade required''"
| "lib_message Invalid_Version = ''Invalid version''"
| "lib_message Unsupported_Version = ''Unsupported version''"
| "lib_message Http_Parse_Error = ''HTTP parse error''"

datatype transport_error =
    Tr_General | Pass_Through | Invalid_Num_Bytes | Double_Read | Operation_Aborted
  | Operation_Not_Supported | Tr_Eof | Tls_Short_Read | Tr_Timeout | Action_After_Shutdown | Tls_Error

primrec transport_message :: "transport_error \<Rightarrow> string" where
  "transport_message Tr_General = ''Generic transport policy error''"
| "transport_message Pass_Through = ''Underlying Transport Error''"
| "transport_message Invalid_Num_Bytes =
     ''async_read_at_least call requested more bytes than buffer can store''"
| "transport_message Double_Read = ''Unknown''"
| "transport_message Operation_Aborted = ''The operation was aborted''"
| "transport_message Operation_Not_Supported = ''The operation is not supported by this transport''"
| "transport_message Tr_Eof = ''End of File''"
| "transport_message Tls_Short_Read = ''TLS Short Read''"
| "transport_message Tr_Timeout = ''Timer Expired''"
| "transport_message Action_After_Shutdown = ''A transport action was requested after shutdown''"
| "transport_message Tls_Error = ''Generic TLS related error''"

datatype socket_error =
    Sock_Security | Sock_Socket | Sock_Invalid_State | Sock_Invalid_Tls_Context | Sock_Tls_Handshake_Timeout
  | Sock_Pass_Through | Sock_Missing_Tls_Init_Handler | Sock_Tls_Handshake_Failed | Sock_Tls_Failed_Sni_Hostname

primrec socket_message :: "socket_error \<Rightarrow> string" where
  "socket_message Sock_Security = ''Security policy error''"
| "socket_message Sock_Socket = ''Socket component error''"
| "socket_message Sock_Invalid_State = ''Invalid state''"
| "socket_message Sock_Invalid_Tls_Context = ''Invalid or empty TLS context supplied''"
| "socket_message Sock_Tls_Handshake_Timeout = ''TLS handshake timed out''"
| "socket_message Sock_Pass_Through = ''Pass through from socket policy''"
| "socket_message Sock_Missing_Tls_Init_Handler = ''Required tls_init handler not present.''"
| "socket_message Sock_Tls_Handshake_Failed = ''TLS handshake failed''"
| "socket_message Sock_Tls_Failed_Sni_Hostname = ''Failed to set TLS SNI hostname''"

datatype error_code =
    Processor_Error ws_error | Library_Error lib_error | Transport_Error transport_error
  | Socket_Error socket_error | Other_Error int string

primrec error_message :: "error_code \<Rightarrow> string" where
  "error_message (Processor_Error e) = processor_message e"
| "error_message (Library_Error e) = lib_message e"
| "error_message (Transport_Error e) = transport_message e"
| "error_message (Socket_Error e) = socket_message e"
| "error_message (Other_Error n s) = s"

end
