(* ===== verification/Ws_Close.thy ===== *)
theory Ws_Close
  imports Ws_Frame Utf8_Validator Ws_Errors
begin

section \<open>websocketpp/close.hpp: close codes\<close>

text \<open>
  A close code is a 16-bit number; in a close frame it stands first, in network byte order, before
  the reason.
\<close>

type_synonym close_code = "16 word"

definition close_normal :: close_code where "close_normal = 1000"
definition close_going_away :: close_code where "close_going_away = 1001"
definition close_protocol_error :: close_code where "close_protocol_error = 1002"
definition close_unsupported_data :: close_code where "close_unsupported_data = 1003"
definition close_no_status :: close_code where "close_no_status = 1005"
definition close_abnormal_close :: close_code where "close_abnormal_close = 1006"
definition close_invalid_payload :: close_code where "close_invalid_payload = 1007"
definition close_policy_violation :: close_code where "close_policy_violation = 1008"
definition close_message_too_big :: close_code where "close_message_too_big = 1009"
definition close_extension_required :: close_code where "close_extension_required = 1010"
definition close_internal_endpoint_error :: close_code where "close_internal_endpoint_error = 1011"
definition close_tls_handshake :: close_code where "close_tls_handshake = 1015"
definition close_subprotocol_error :: close_code where "close_subprotocol_error = 3000"
definition close_invalid_subprotocol_data :: close_code where "close_invalid_subprotocol_data = 3001"
definition close_rsv_start :: close_code where "close_rsv_start = 1016"
definition close_rsv_end :: close_code where "close_rsv_end = 2999"
definition close_invalid_low :: close_code where "close_invalid_low = 999"
definition close_invalid_high :: close_code where "close_invalid_high = 5000"

lemmas close_codes =
  close_normal_def close_going_away_def close_protocol_error_def close_unsupported_data_def
  close_no_status_def close_abnormal_close_def close_invalid_payload_def close_policy_violation_def
  close_message_too_big_def close_extension_required_def close_internal_endpoint_error_def
  close_tls_handshake_def close_subprotocol_error_def close_invalid_subprotocol_data_def
  close_rsv_start_def close_rsv_end_def close_invalid_low_def close_invalid_high_def

definition close_reserved :: "close_code \<Rightarrow> bool" where
  "close_reserved code \<longleftrightarrow>
     (close_rsv_start \<le> code \<and> code \<le> close_rsv_end) \<or> code = 1004 \<or> code = 1014"

definition close_invalid :: "close_code \<Rightarrow> bool" where
  "close_invalid code \<longleftrightarrow>
     code \<le> close_invalid_low \<or> close_invalid_high \<le> code \<or> code = close_no_status \<or>
     code = close_abnormal_close \<or> code = close_tls_handshake"

definition close_terminal :: "close_code \<Rightarrow> bool" where
  "close_terminal code \<longleftrightarrow>
     code = close_protocol_error \<or> code = close_invalid_payload \<or> code = close_policy_violation \<or>
     code = close_message_too_big \<or> code = close_internal_endpoint_error"

definition close_get_string :: "close_code \<Rightarrow> string" where
  "close_get_string code =
     (if code = close_normal then ''Normal close''
      else if code = close_going_away then ''Going away''
      else if code = close_protocol_error then ''Protocol error''
      else if code = close_unsupported_data then ''Unsupported data''
      else if code = close_no_status then ''No status set''
      else if code = close_abnormal_close then ''Abnormal close''
      else if code = close_invalid_payload then ''Invalid payload''
      else if code = close_policy_violation then ''Policy violoation''
      else if code = close_message_too_big then ''Message too big''
      else if code = close_extension_required then ''Extension required''
      else if code = close_internal_endpoint_error then ''Internal endpoint error''
      else if code = close_tls_handshake then ''TLS handshake failure''
      else if code = close_subprotocol_error then ''Generic subprotocol error''
      else if code = close_invalid_subprotocol_data then ''Invalid subprotocol data''
      else ''Unknown'')"

text \<open>The code, and the error; a code that is invalid and reserved is reported as reserved.\<close>

fun extract_code :: "byte list \<Rightarrow> close_code \<times> lib_error option" where
  "extract_code [] = (close_no_status, None)"
| "extract_code [x] = (close_protocol_error, Some Bad_Close_Code)"
| "extract_code (x # y # payload) =
     (let code = le_word (rev [x, y]);
          ec = (if close_invalid code then Some Lib_Invalid_Close_Code else None);
          ec = (if close_reserved code then Some Lib_Reserved_Close_Code else ec)
      in (code, ec))"

definition extract_reason :: "byte list \<Rightarrow> byte list \<times> lib_error option" where
  "extract_reason payload =
     (let reason = (if 2 < length payload then drop 2 payload else [])
      in (reason, if \<not> utf8_validate reason then Some Lib_Invalid_Utf8 else None))"

text \<open>The payload of a close frame, as \<open>prepare_close\<close> builds it.\<close>

definition close_payload :: "close_code \<Rightarrow> byte list \<Rightarrow> byte list" where
  "close_payload code reason =
     (if code \<noteq> close_no_status then rev (le_bytes 2 code) @ reason else [])"

lemma extract_close_payload:
  assumes "\<not> close_reserved code" "\<not> close_invalid code"
  shows "extract_code (close_payload code reason) = (code, None)"
    and "fst (extract_reason (close_payload code reason)) = reason"
proof -
  have ns: "code \<noteq> close_no_status" using assms(2) by (auto simp: close_invalid_def)
  have two: "rev (le_bytes 2 code) = [le_byte code 1, le_byte code 0]"
    by (simp add: le_bytes_def upt_rec)
  have "le_word [le_byte code 0, le_byte code 1] = code"
    using le_word_le_bytes[of 2 code] two by (simp flip: two add: rev_swap[symmetric])
  with assms ns two show "extract_code (close_payload code reason) = (code, None)"
    by (simp add: close_payload_def Let_def del: le_word.simps)
  show "fst (extract_reason (close_payload code reason)) = reason"
    using ns two by (simp add: close_payload_def extract_reason_def Let_def)
qed

end
