(* ===== verification/Hybi13.thy ===== *)
theory Hybi13
  imports Ws_Frame_Facts Ws_Close
begin

section \<open>websocketpp/processors/hybi13.hpp: reading and writing frames\<close>

text \<open>
  The processor of RFC 6455, as the client is configured: without compression
  (\<open>permessage_deflate::disabled\<close>), with messages that the manager allocates one by one
  (\<open>message_buffer/alloc.hpp\<close>). A message pointer is \<open>None\<close> when null, and \<open>m_current_msg\<close> says which
  of the two messages it points to. An error code is \<open>None\<close> for success. The payload is a list of
  bytes; \<open>reserve\<close> has no effect on it. The random numbers for the masking keys are arguments.
\<close>

subsection \<open>Messages\<close>

record message =
  m_header :: "byte list"
  m_extension_data :: "byte list"
  m_payload :: "byte list"
  m_opcode :: opcode
  m_prepared :: bool
  m_fin :: bool
  m_terminal :: bool
  m_compressed :: bool

definition message_new :: "opcode \<Rightarrow> message" where
  "message_new op =
     \<lparr>m_header = [], m_extension_data = [], m_payload = [], m_opcode = op, m_prepared = False,
      m_fin = True, m_terminal = False, m_compressed = False\<rparr>"

definition set_payload :: "byte list \<Rightarrow> message \<Rightarrow> message" where
  "set_payload payload m = m\<lparr>m_payload := payload\<rparr>"

definition append_payload :: "byte list \<Rightarrow> message \<Rightarrow> message" where
  "append_payload payload m = m\<lparr>m_payload := m_payload m @ payload\<rparr>"

text \<open>\<open>con_msg_manager::get_message\<close>.\<close>

definition manager_get_message :: "opcode \<Rightarrow> nat \<Rightarrow> message option" where
  "manager_get_message op sz = Some (message_new op)"

subsection \<open>The state of the processor\<close>

datatype frame_state = HEADER_BASIC | HEADER_EXTENDED | EXTENSION | APPLICATION | READY | FATAL_ERROR

record msg_metadata =
  msg_ptr :: "message option"
  prepared_key :: "64 word"
  msg_validator :: validator

definition msg_metadata_new :: "message option \<Rightarrow> 32 word \<Rightarrow> msg_metadata" where
  "msg_metadata_new m key =
     \<lparr>msg_ptr = m, prepared_key = prepare_masking_key key, msg_validator = validator_new\<rparr>"

datatype which_msg = Data_Msg | Control_Msg

record hybi13 =
  m_server :: bool
  m_max_message_size :: nat
  m_basic_header :: basic_header
  m_bytes_needed :: nat
  m_cursor :: nat
  m_data_msg :: msg_metadata
  m_control_msg :: msg_metadata
  m_current_msg :: "which_msg option"
  m_extended_header :: extended_header
  hm_state :: frame_state

definition reset_headers :: "hybi13 \<Rightarrow> hybi13" where
  "reset_headers s = s\<lparr>hm_state := HEADER_BASIC, m_bytes_needed := BASIC_HEADER_LENGTH,
     m_basic_header := basic_header_new, m_extended_header := extended_header_new\<rparr>"

text \<open>The constructor; what it does not initialise has any value.\<close>

definition hybi13_new :: "bool \<Rightarrow> nat \<Rightarrow> nat \<Rightarrow> 64 word \<Rightarrow> 64 word \<Rightarrow> hybi13" where
  "hybi13_new p_is_server max_size cursor k k' = reset_headers
     \<lparr>m_server = p_is_server, m_max_message_size = max_size, m_basic_header = basic_header_new,
      m_bytes_needed = 0, m_cursor = cursor,
      m_data_msg = \<lparr>msg_ptr = None, prepared_key = k, msg_validator = validator_new\<rparr>,
      m_control_msg = \<lparr>msg_ptr = None, prepared_key = k', msg_validator = validator_new\<rparr>,
      m_current_msg = None, m_extended_header = extended_header_new, hm_state = HEADER_BASIC\<rparr>"

definition current_msg :: "hybi13 \<Rightarrow> msg_metadata option" where
  "current_msg s = (case m_current_msg s of
     None \<Rightarrow> None | Some Data_Msg \<Rightarrow> Some (m_data_msg s) | Some Control_Msg \<Rightarrow> Some (m_control_msg s))"

definition set_current_msg :: "msg_metadata \<Rightarrow> hybi13 \<Rightarrow> hybi13" where
  "set_current_msg m s = (case m_current_msg s of
     None \<Rightarrow> s | Some Data_Msg \<Rightarrow> s\<lparr>m_data_msg := m\<rparr> | Some Control_Msg \<Rightarrow> s\<lparr>m_control_msg := m\<rparr>)"

subsection \<open>Validation of headers\<close>

definition validate_incoming_basic_header :: "basic_header \<Rightarrow> bool \<Rightarrow> bool \<Rightarrow> ws_error option" where
  "validate_incoming_basic_header h is_server new_msg =
     (let op = get_opcode h
      in if is_control op \<and> payload_size_basic < unat (get_basic_size h) then Some Control_Too_Big
         else if get_rsv1 h then Some Invalid_Rsv_Bit
         else if get_rsv2 h \<or> get_rsv3 h then Some Invalid_Rsv_Bit
         else if op_reserved op then Some Invalid_Opcode
         else if op_invalid op then Some Invalid_Opcode
         else if is_control op \<and> \<not> get_fin h then Some Fragmented_Control
         else if new_msg \<and> op = CONTINUATION then Some Invalid_Continuation
         else if \<not> new_msg \<and> \<not> is_control op \<and> op \<noteq> CONTINUATION then Some Invalid_Continuation
         else if is_server \<and> \<not> get_masked h then Some Masking_Required
         else if \<not> is_server \<and> get_masked h then Some Masking_Forbidden
         else None)"

definition validate_incoming_extended_header :: "basic_header \<Rightarrow> extended_header \<Rightarrow> ws_error option" where
  "validate_incoming_extended_header h e =
     (let basic_size = get_basic_size h; payload_size = unat (get_payload_size h e)
      in if basic_size = payload_size_code_16bit \<and> payload_size \<le> payload_size_basic
         then Some Non_Minimal_Encoding
         else if basic_size = payload_size_code_64bit \<and> payload_size \<le> payload_size_extended
         then Some Non_Minimal_Encoding
         else None)"

subsection \<open>Reading\<close>

fun copy_basic_header_bytes :: "byte list \<Rightarrow> hybi13 \<Rightarrow> nat \<times> hybi13" where
  "copy_basic_header_bytes [] s = (0, s)"
| "copy_basic_header_bytes [x] s =
     (if m_bytes_needed s = 0 then (0, s)
      else if m_bytes_needed s = 2
      then (1, s\<lparr>m_basic_header := (m_basic_header s)\<lparr>b0 := x\<rparr>, m_bytes_needed := m_bytes_needed s - 1\<rparr>)
      else (1, s\<lparr>m_basic_header := (m_basic_header s)\<lparr>b1 := x\<rparr>, m_bytes_needed := m_bytes_needed s - 1\<rparr>))"
| "copy_basic_header_bytes (x # y # buf) s =
     (if m_bytes_needed s = 0 then (0, s)
      else if m_bytes_needed s = 2
      then (2, s\<lparr>m_basic_header := (m_basic_header s)\<lparr>b0 := x, b1 := y\<rparr>, m_bytes_needed := m_bytes_needed s - 2\<rparr>)
      else (1, s\<lparr>m_basic_header := (m_basic_header s)\<lparr>b1 := x\<rparr>, m_bytes_needed := m_bytes_needed s - 1\<rparr>))"

definition copy_extended_header_bytes :: "byte list \<Rightarrow> hybi13 \<Rightarrow> nat \<times> hybi13" where
  "copy_extended_header_bytes buf s =
     (let bytes_to_read = min (m_bytes_needed s) (length buf)
      in (bytes_to_read,
          s\<lparr>m_extended_header := memcpy_at (m_extended_header s) (m_cursor s) (take bytes_to_read buf),
            m_cursor := m_cursor s + bytes_to_read,
            m_bytes_needed := m_bytes_needed s - bytes_to_read\<rparr>))"

text \<open>The number of bytes processed (all, or zero with an error), and the state. A null pointer is
  dereferenced if no message is set up.\<close>

definition process_payload_bytes :: "byte list \<Rightarrow> hybi13 \<Rightarrow> (nat \<times> ws_error option \<times> hybi13) result" where
  "process_payload_bytes buf s =
     (case current_msg s of
        None \<Rightarrow> Inl Undefined_Behaviour
      | Some md \<Rightarrow>
          bind_result (if get_masked (m_basic_header s) then word_mask_circ buf (prepared_key md)
                       else Inr (buf, prepared_key md)) (\<lambda>(buf, key).
          case msg_ptr md of
            None \<Rightarrow> Inl Undefined_Behaviour
          | Some m \<Rightarrow>
              let md = md\<lparr>prepared_key := key, msg_ptr := Some (append_payload buf m)\<rparr>;
                  (ok, v) = (if m_opcode m = TEXT then validator_decode buf (msg_validator md)
                             else (True, msg_validator md));
                  s = set_current_msg (md\<lparr>msg_validator := v\<rparr>) s
              in if ok then Inr (length buf, None, s\<lparr>m_bytes_needed := m_bytes_needed s - length buf\<rparr>)
                 else Inr (0, Some Invalid_Utf8, s)))"

text \<open>The branches of the loop of \<open>consume\<close>: what they take from the rest of the buffer, the error
  that ends the loop, and the new state.\<close>

definition consume_basic :: "byte list \<Rightarrow> hybi13 \<Rightarrow> nat \<times> ws_error option \<times> hybi13" where
  "consume_basic rest s =
     (let (k, s) = copy_basic_header_bytes rest s
      in if 0 < m_bytes_needed s then (k, None, s)
         else case validate_incoming_basic_header (m_basic_header s) (m_server s) (msg_ptr (m_data_msg s) = None) of
                Some ec \<Rightarrow> (k, Some ec, s)
              | None \<Rightarrow> (k, None, s\<lparr>hm_state := HEADER_EXTENDED, m_cursor := 0,
                    m_bytes_needed := get_header_len (m_basic_header s) - BASIC_HEADER_LENGTH\<rparr>))"

text \<open>The set-up of the message at the end of the header. The sum of sizes is a \<open>size_t\<close>.\<close>

definition start_payload :: "hybi13 \<Rightarrow> ws_error option \<times> hybi13" where
  "start_payload s =
     (let op = get_opcode (m_basic_header s);
          key = get_masking_key (m_basic_header s) (m_extended_header s)
      in if is_control op
         then (None, s\<lparr>m_control_msg := msg_metadata_new (manager_get_message op (m_bytes_needed s)) key,
                       m_current_msg := Some Control_Msg\<rparr>)
         else case msg_ptr (m_data_msg s) of
                None \<Rightarrow>
                  if m_max_message_size s < m_bytes_needed s then (Some Message_Too_Big, s)
                  else (None, s\<lparr>m_data_msg := msg_metadata_new (manager_get_message op (m_bytes_needed s)) key,
                                m_current_msg := Some Data_Msg\<rparr>)
              | Some m \<Rightarrow>
                  if m_max_message_size s < size_t (int (length (m_payload m)) + int (m_bytes_needed s))
                  then (Some Message_Too_Big, s)
                  else (None, s\<lparr>m_data_msg := (m_data_msg s)\<lparr>prepared_key := prepare_masking_key key\<rparr>,
                                m_current_msg := Some Data_Msg\<rparr>))"

definition consume_extended :: "byte list \<Rightarrow> hybi13 \<Rightarrow> nat \<times> ws_error option \<times> hybi13" where
  "consume_extended rest s =
     (let (k, s) = copy_extended_header_bytes rest s
      in if 0 < m_bytes_needed s then (k, None, s)
         else case validate_incoming_extended_header (m_basic_header s) (m_extended_header s) of
                Some ec \<Rightarrow> (k, Some ec, s)
              | None \<Rightarrow>
                  (k, start_payload (s\<lparr>hm_state := APPLICATION,
                     m_bytes_needed := unat (get_payload_size (m_basic_header s) (m_extended_header s))\<rparr>)))"

text \<open>The end of a frame.\<close>

definition finish_frame :: "hybi13 \<Rightarrow> (ws_error option \<times> hybi13) result" where
  "finish_frame s =
     (if get_fin (m_basic_header s)
      then if get_opcode (m_basic_header s) = TEXT
           then case current_msg s of
                  None \<Rightarrow> Inl Undefined_Behaviour
                | Some md \<Rightarrow>
                    if \<not> validator_complete (msg_validator md) then Inr (Some Invalid_Utf8, s)
                    else Inr (None, s\<lparr>hm_state := READY\<rparr>)
           else Inr (None, s\<lparr>hm_state := READY\<rparr>)
      else Inr (None, reset_headers s))"

text \<open>What follows a piece of payload.\<close>

fun after_payload :: "nat \<times> ws_error option \<times> hybi13 \<Rightarrow> (nat \<times> ws_error option \<times> hybi13) result" where
  "after_payload (k, Some e, s) = Inr (k, Some e, s)"
| "after_payload (k, None, s) =
     (if 0 < m_bytes_needed s then Inr (k, None, s)
      else bind_result (finish_frame s) (\<lambda>(ec, s). Inr (k, ec, s)))"

definition consume_application :: "byte list \<Rightarrow> hybi13 \<Rightarrow> (nat \<times> ws_error option \<times> hybi13) result" where
  "consume_application rest s =
     (let bytes_to_process = min (m_bytes_needed s) (length rest)
      in bind_result (if 0 < bytes_to_process then process_payload_bytes (take bytes_to_process rest) s
                      else Inr (0, None, s)) after_payload)"

definition consume_step :: "byte list \<Rightarrow> hybi13 \<Rightarrow> (nat \<times> ws_error option \<times> hybi13) result" where
  "consume_step rest s =
     (case hm_state s of
        HEADER_BASIC \<Rightarrow> Inr (consume_basic rest s)
      | HEADER_EXTENDED \<Rightarrow> Inr (consume_extended rest s)
      | EXTENSION \<Rightarrow> Inr (0, None, s\<lparr>hm_state := APPLICATION\<rparr>)
      | APPLICATION \<Rightarrow> consume_application rest s
      | _ \<Rightarrow> Inr (0, Some General_Error, s))"

definition consume_goes_on :: "byte list \<Rightarrow> hybi13 \<Rightarrow> bool" where
  "consume_goes_on rest s \<longleftrightarrow>
     hm_state s \<noteq> READY \<and> hm_state s \<noteq> FATAL_ERROR \<and> (rest \<noteq> [] \<or> m_bytes_needed s = 0)"

text \<open>Every turn of the loop takes bytes or comes closer to the next field.\<close>

definition rank :: "hybi13 \<Rightarrow> nat" where
  "rank s = (case hm_state s of
     HEADER_BASIC \<Rightarrow> if 0 < m_bytes_needed s then 0 else 3
   | HEADER_EXTENDED \<Rightarrow> 2 | EXTENSION \<Rightarrow> 2 | APPLICATION \<Rightarrow> 1 | _ \<Rightarrow> 0)"

lemma rank_le: "rank s \<le> 3"
  by (simp add: rank_def split: frame_state.split)

lemma copy_basic_length: "copy_basic_header_bytes rest s = (k, s') \<Longrightarrow> k \<le> length rest \<and> hm_state s' = hm_state s"
  by (cases "(rest, s)" rule: copy_basic_header_bytes.cases) (auto split: if_splits)

lemma copy_basic_takes:
  "copy_basic_header_bytes rest s = (k, s') \<Longrightarrow> rest \<noteq> [] \<Longrightarrow> 0 < m_bytes_needed s \<Longrightarrow> 0 < k"
  by (cases "(rest, s)" rule: copy_basic_header_bytes.cases) (auto split: if_splits)

lemma copy_basic_done:
  "copy_basic_header_bytes rest s = (k, s') \<Longrightarrow> m_bytes_needed s = 0 \<Longrightarrow> k = 0 \<and> s' = s"
  by (cases "(rest, s)" rule: copy_basic_header_bytes.cases) (auto split: if_splits)

lemma start_payload_state: "start_payload s = (ec, s') \<Longrightarrow> hm_state s' = hm_state s"
  by (auto simp: start_payload_def Let_def split: if_splits option.splits)

lemma set_current_msg_fields [simp]:
  "hm_state (set_current_msg m s) = hm_state s" "m_bytes_needed (set_current_msg m s) = m_bytes_needed s"
  "m_basic_header (set_current_msg m s) = m_basic_header s" "m_server (set_current_msg m s) = m_server s"
  "m_extended_header (set_current_msg m s) = m_extended_header s" "m_cursor (set_current_msg m s) = m_cursor s"
  "m_current_msg (set_current_msg m s) = m_current_msg s"
  "m_max_message_size (set_current_msg m s) = m_max_message_size s"
  by (simp_all add: set_current_msg_def split: option.split which_msg.split)

lemma process_payload_result:
  assumes "process_payload_bytes buf s = Inr (k, ec, s')"
  shows "hm_state s' = hm_state s \<and> (ec = None \<longrightarrow> k = length buf \<and> m_bytes_needed s' = m_bytes_needed s - length buf)"
proof -
  obtain md where md: "current_msg s = Some md"
    using assms by (cases "current_msg s") (auto simp: process_payload_bytes_def)
  obtain buf' key where b: "(if get_masked (m_basic_header s) then word_mask_circ buf (prepared_key md)
      else Inr (buf, prepared_key md)) = Inr (buf', key)"
    using assms md by (auto simp: process_payload_bytes_def bind_result_eq_Inr split del: if_split)
  obtain m where m: "msg_ptr md = Some m"
    using assms md b by (cases "msg_ptr md") (auto simp: process_payload_bytes_def)
  have len: "length buf' = length buf"
    using b word_mask_circ_length by (auto split: if_splits)
  show ?thesis
    using assms by (auto simp: process_payload_bytes_def md b m Let_def len split: prod.splits if_splits)
qed

lemma consume_application_result:
  assumes "consume_application rest s = Inr (k, None, s')" "hm_state s = APPLICATION"
  shows "k = min (m_bytes_needed s) (length rest) \<and>
         (if length rest < m_bytes_needed s then hm_state s' = APPLICATION
          else hm_state s' = READY \<or> hm_state s' = HEADER_BASIC \<and> m_bytes_needed s' = 2)"
proof -
  let ?n = "min (m_bytes_needed s) (length rest)"
  obtain k1 ec1 s1 where one: "(if 0 < ?n then process_payload_bytes (take ?n rest) s else Inr (0, None, s)) =
      Inr (k1, ec1, s1)"
    and after: "after_payload (k1, ec1, s1) = Inr (k, None, s')"
    using assms(1) by (auto simp: consume_application_def Let_def bind_result_eq_Inr split del: if_split)
  have none: "ec1 = None" using after by (cases ec1) auto
  have s1: "k1 = ?n" "m_bytes_needed s1 = m_bytes_needed s - ?n" "hm_state s1 = APPLICATION"
    using one none process_payload_result[of "take ?n rest" s k1 ec1 s1] assms(2)
    by (auto split: if_splits)
  have app: "(if 0 < m_bytes_needed s1 then Inr (k1, None, s1)
      else bind_result (finish_frame s1) (\<lambda>(ec, s). Inr (k1, ec, s))) = Inr (k, None, s')"
    using after none by simp
  show ?thesis
  proof (cases "length rest < m_bytes_needed s")
    case True
    with app s1 show ?thesis by simp
  next
    case False
    with app s1 show ?thesis
      by (auto simp: finish_frame_def bind_result_eq_Inr reset_headers_def frame_constants
          split: if_splits option.splits)
  qed
qed

lemma consume_step_progress:
  assumes "consume_goes_on rest s" "consume_step rest s = Inr (k, None, s')"
  shows "k \<le> length rest \<and> 6 * (length rest - k) + rank s' < 6 * length rest + rank s"
proof (cases "hm_state s")
  case HEADER_BASIC
  obtain s1 where c: "copy_basic_header_bytes rest s = (k, s1)"
    and s': "s' = s1 \<and> 0 < m_bytes_needed s1 \<or> hm_state s' = HEADER_EXTENDED \<and> m_bytes_needed s1 = 0"
    using assms(2) HEADER_BASIC
    by (cases "copy_basic_header_bytes rest s")
      (auto simp: consume_step_def consume_basic_def Let_def split: if_splits option.splits)
  show ?thesis
  proof (cases "m_bytes_needed s = 0")
    case True
    with copy_basic_done[OF c] s' HEADER_BASIC show ?thesis by (auto simp: rank_def)
  next
    case False
    then have "0 < k" using copy_basic_takes[OF c] assms(1) by (simp add: consume_goes_on_def)
    with copy_basic_length[OF c] rank_le[of s'] show ?thesis by linarith
  qed
next
  case HEADER_EXTENDED
  then have k: "k = min (m_bytes_needed s) (length rest)"
    and s': "k < m_bytes_needed s \<or> hm_state s' = APPLICATION"
    using assms(2)
    by (auto simp: consume_step_def consume_extended_def copy_extended_header_bytes_def Let_def
        split: if_splits option.splits dest!: start_payload_state)
  show ?thesis
  proof (cases "0 < k")
    case True
    with k rank_le[of s'] show ?thesis by linarith
  next
    case False
    then have "m_bytes_needed s = 0" using k assms(1) by (auto simp: consume_goes_on_def min_def split: if_splits)
    with s' False HEADER_EXTENDED show ?thesis by (simp add: rank_def)
  qed
next
  case EXTENSION
  with assms(2) show ?thesis by (auto simp: consume_step_def rank_def)
next
  case APPLICATION
  then have k: "k = min (m_bytes_needed s) (length rest)"
    and s': "if length rest < m_bytes_needed s then hm_state s' = APPLICATION
      else hm_state s' = READY \<or> hm_state s' = HEADER_BASIC \<and> m_bytes_needed s' = 2"
    using assms(2) consume_application_result[of rest s k s'] by (simp_all add: consume_step_def)
  show ?thesis
  proof (cases "0 < k")
    case True
    with k rank_le[of s'] show ?thesis by linarith
  next
    case False
    then have "m_bytes_needed s = 0" using k assms(1) by (auto simp: consume_goes_on_def min_def split: if_splits)
    with s' False APPLICATION show ?thesis by (auto simp: rank_def)
  qed
qed (use assms in \<open>auto simp: consume_goes_on_def\<close>)

function consume :: "byte list \<Rightarrow> hybi13 \<Rightarrow> (nat \<times> ws_error option \<times> hybi13) result" where
  "consume rest s =
     (if \<not> consume_goes_on rest s then Inr (0, None, s)
      else bind_result (consume_step rest s) (\<lambda>(k, ec, s').
             case ec of Some e \<Rightarrow> Inr (k, Some e, s')
             | None \<Rightarrow>
                 bind_result (consume (drop k rest) s') (\<lambda>(p, ec, s''). Inr (k + p, ec, s''))))"
  by pat_completeness auto
termination
proof (relation "measure (\<lambda>(rest, s). 6 * length rest + rank s)")
  fix rest s x k y ec s'
  assume "\<not> \<not> consume_goes_on rest s" "consume_step rest s = Inr x" "(k, y) = x" "(ec, s') = y" "ec = None"
  then show "((drop k rest, s'), rest, s) \<in> measure (\<lambda>(rest, s). 6 * length rest + rank s)"
    using consume_step_progress[of rest s k s'] by auto
qed simp

declare consume.simps [simp del]

definition hybi_ready :: "hybi13 \<Rightarrow> bool" where
  "hybi_ready s \<longleftrightarrow> hm_state s = READY"

definition hybi_get_error :: "hybi13 \<Rightarrow> bool" where
  "hybi_get_error s \<longleftrightarrow> hm_state s = FATAL_ERROR"

text \<open>\<open>get_message\<close>: the message that is ready; its pointer is reset.\<close>

definition hybi_get_message :: "hybi13 \<Rightarrow> (message option \<times> hybi13) result" where
  "hybi_get_message s =
     (if \<not> hybi_ready s then Inr (None, s)
      else case current_msg s of
             None \<Rightarrow> Inl Undefined_Behaviour
           | Some md \<Rightarrow>
               (case msg_ptr md of
                  None \<Rightarrow> Inl Undefined_Behaviour
                | Some msg \<Rightarrow>
                    let s = set_current_msg (md\<lparr>msg_ptr := None\<rparr>) s;
                        s = (if is_control (m_opcode msg)
                             then s\<lparr>m_control_msg := (m_control_msg s)\<lparr>msg_ptr := None\<rparr>\<rparr>
                             else s\<lparr>m_data_msg := (m_data_msg s)\<lparr>msg_ptr := None\<rparr>\<rparr>)
                    in Inr (Some msg, reset_headers s)))"

subsection \<open>Writing\<close>

definition masked_copy :: "byte list \<Rightarrow> 32 word \<Rightarrow> byte list" where
  "masked_copy i key = word_mask_exact i key"

text \<open>The header and the payload of a frame with the payload \<open>i\<close>; \<open>rng\<close> is the random number.\<close>

definition prepare_data_frame ::
    "bool \<Rightarrow> 32 word \<Rightarrow> message option \<Rightarrow> message option \<Rightarrow> ws_error option \<times> message option" where
  "prepare_data_frame server rng in_msg out_msg =
     (case (in_msg, out_msg) of
        (Some inm, Some out) \<Rightarrow>
          let op = m_opcode inm; i = m_payload inm
          in if is_control op then (Some Invalid_Opcode, Some out)
             else if op = TEXT \<and> \<not> utf8_validate i then (Some Invalid_Payload, Some out)
             else let msk = \<not> server; compressed = False;
                      h = basic_header_for op (of_nat (length i)) (m_fin inm) msk compressed False False;
                      out = (if msk
                        then out\<lparr>m_header := prepare_header h (extended_header_key (of_nat (length i)) rng),
                                 m_payload := masked_copy i rng\<rparr>
                        else out\<lparr>m_header := prepare_header h (extended_header_size (of_nat (length i))),
                                 m_payload := i\<rparr>)
                  in (None, Some (out\<lparr>m_prepared := True, m_opcode := op\<rparr>))
      | _ \<Rightarrow> (Some Invalid_Arguments, out_msg))"

definition prepare_control ::
    "bool \<Rightarrow> 32 word \<Rightarrow> opcode \<Rightarrow> byte list \<Rightarrow> message option \<Rightarrow> ws_error option \<times> message option" where
  "prepare_control server rng op payload out_msg =
     (case out_msg of
        None \<Rightarrow> (Some Invalid_Arguments, None)
      | Some out \<Rightarrow>
          if \<not> is_control op then (Some Invalid_Opcode, Some out)
          else if payload_size_basic < length payload then (Some Control_Too_Big, Some out)
          else let msk = \<not> server;
                   h = basic_header_for op (of_nat (length payload)) True msk False False False;
                   out = (if msk
                     then out\<lparr>m_header := prepare_header h (extended_header_key (of_nat (length payload)) rng),
                              m_payload := masked_copy payload rng\<rparr>
                     else out\<lparr>m_header := prepare_header h (extended_header_size (of_nat (length payload))),
                              m_payload := payload\<rparr>)
               in (None, Some (out\<lparr>m_opcode := op, m_prepared := True\<rparr>)))"

definition prepare_ping :: "bool \<Rightarrow> 32 word \<Rightarrow> byte list \<Rightarrow> message option \<Rightarrow> ws_error option \<times> message option" where
  "prepare_ping server rng payload out = prepare_control server rng PING payload out"

definition prepare_pong :: "bool \<Rightarrow> 32 word \<Rightarrow> byte list \<Rightarrow> message option \<Rightarrow> ws_error option \<times> message option" where
  "prepare_pong server rng payload out = prepare_control server rng PONG payload out"

definition prepare_close ::
    "bool \<Rightarrow> 32 word \<Rightarrow> close_code \<Rightarrow> byte list \<Rightarrow> message option \<Rightarrow> ws_error option \<times> message option" where
  "prepare_close server rng code reason out =
     (if close_reserved code then (Some Reserved_Close_Code, out)
      else if close_invalid code \<and> code \<noteq> close_no_status then (Some Invalid_Close_Code, out)
      else if code = close_no_status \<and> 0 < length reason then (Some Reason_Requires_Code, out)
      else if payload_size_basic - 2 < length reason then (Some Control_Too_Big, out)
      else prepare_control server rng CLOSE (close_payload code reason) out)"

end
