(* ===== verification/Hybi13_Facts.thy ===== *)
theory Hybi13_Facts
  imports Hybi13
begin

section \<open>What the processor promises\<close>

text \<open>
  A basic header is accepted exactly when RFC 6455 allows it. The state stays well formed: the
  extended header is never written past its end and no null message is dereferenced. A client
  reads the same messages however the bytes are cut into reads, and reads back what a server
  prepared.
\<close>

subsection \<open>Headers\<close>

lemma op_reserved_iff:
  "op_reserved op \<longleftrightarrow> op \<in> {RSV3, RSV4, RSV5, RSV6, RSV7, CONTROL_RSVB, CONTROL_RSVC, CONTROL_RSVD, CONTROL_RSVE, CONTROL_RSVF}"
  by (cases op) (simp_all add: op_reserved_def word_le_nat_alt)
lemma is_control_iff: "is_control op \<longleftrightarrow> op \<notin> {CONTINUATION, TEXT, BINARY, RSV3, RSV4, RSV5, RSV6, RSV7}"
  by (cases op) (simp_all add: is_control_def word_le_nat_alt)
lemma op_invalid_iff: "op_invalid op = False"
  by (cases op) (simp_all add: op_invalid_def word_less_nat_alt)

lemma basic_header_accepted:
  "validate_incoming_basic_header h is_server new_msg = None \<longleftrightarrow>
     \<not> get_rsv1 h \<and> \<not> get_rsv2 h \<and> \<not> get_rsv3 h \<and> get_masked h = is_server \<and>
     (if get_opcode h \<in> {CLOSE, PING, PONG}
      then get_fin h \<and> unat (get_basic_size h) \<le> payload_size_basic
      else if new_msg then get_opcode h \<in> {TEXT, BINARY} else get_opcode h = CONTINUATION)"
  by (cases "get_opcode h") (simp_all add: validate_incoming_basic_header_def Let_def op_reserved_iff is_control_iff op_invalid_iff)
subsection \<open>The invariant\<close>

text \<open>A message is being written while its payload is read.\<close>

definition has_message :: "hybi13 \<Rightarrow> bool" where
  "has_message s \<longleftrightarrow> (\<exists>md. current_msg s = Some md \<and> msg_ptr md \<noteq> None)"

definition hybi_inv :: "hybi13 \<Rightarrow> bool" where
  "hybi_inv s \<longleftrightarrow>
     length (m_extended_header s) = MAX_EXTENDED_HEADER_LENGTH \<and>
     (case hm_state s of
        HEADER_BASIC \<Rightarrow> m_bytes_needed s \<in> {1, 2}
      | HEADER_EXTENDED \<Rightarrow>
          m_cursor s + m_bytes_needed s \<le> MAX_EXTENDED_HEADER_LENGTH \<and> get_masked (m_basic_header s) = m_server s
      | APPLICATION \<Rightarrow> has_message s \<and> get_masked (m_basic_header s) = m_server s
      | READY \<Rightarrow> has_message s
      | _ \<Rightarrow> False)"

lemma hybi_inv_new: "hybi_inv (hybi13_new srv mx cur k k')"
  by (simp add: hybi_inv_def hybi13_new_def reset_headers_def extended_header_new_def frame_constants)

lemma hybi_inv_reset: "hybi_inv (reset_headers s)"
  by (simp add: hybi_inv_def reset_headers_def extended_header_new_def frame_constants)

lemma header_len_le: "get_header_len h - BASIC_HEADER_LENGTH \<le> MAX_EXTENDED_HEADER_LENGTH"
  by (simp add: get_header_len_def get_masking_key_offset_def Let_def frame_constants)

lemma consume_basic_inv:
  assumes "consume_basic rest s = (k, None, s')" "hybi_inv s" "hm_state s = HEADER_BASIC" "rest \<noteq> []"
  shows "hybi_inv s'"
proof -
  obtain s1 where c: "copy_basic_header_bytes rest s = (k, s1)"
    using assms(1) by (cases "copy_basic_header_bytes rest s")
      (auto simp: consume_basic_def Let_def split: if_splits option.splits)
  have n: "m_bytes_needed s \<in> {1, 2}" "length (m_extended_header s) = MAX_EXTENDED_HEADER_LENGTH"
    using assms(2,3) by (simp_all add: hybi_inv_def)
  have s1: "hm_state s1 = HEADER_BASIC" "m_extended_header s1 = m_extended_header s" "m_bytes_needed s1 \<in> {0, 1}"
    using c n assms(3,4) by (cases "(rest, s)" rule: copy_basic_header_bytes.cases; auto split: if_splits)+
  show ?thesis
  proof (cases "m_bytes_needed s1 = 0")
    case True
    then have "validate_incoming_basic_header (m_basic_header s1) (m_server s1) (msg_ptr (m_data_msg s1) = None) = None"
      and s': "s' = s1\<lparr>hm_state := HEADER_EXTENDED, m_cursor := 0,
        m_bytes_needed := get_header_len (m_basic_header s1) - BASIC_HEADER_LENGTH\<rparr>"
      using assms(1) c by (auto simp: consume_basic_def split: option.splits)
    then have "get_masked (m_basic_header s1) = m_server s1" by (simp add: basic_header_accepted)
    with s' s1 n header_len_le show ?thesis by (simp add: hybi_inv_def)
  next
    case False
    with assms(1) c have "s' = s1" by (simp add: consume_basic_def)
    with s1 n False show ?thesis by (simp add: hybi_inv_def)
  qed
qed

lemma start_payload_inv:
  assumes "start_payload s = (None, s')"
  shows "has_message s' \<and> hm_state s' = hm_state s \<and> m_basic_header s' = m_basic_header s \<and>
         m_extended_header s' = m_extended_header s \<and> m_server s' = m_server s \<and> m_bytes_needed s' = m_bytes_needed s"
  using assms
  by (auto simp: start_payload_def Let_def has_message_def current_msg_def msg_metadata_new_def
      manager_get_message_def split: if_splits option.splits)

lemma consume_extended_inv:
  assumes "consume_extended rest s = (k, None, s')" "hybi_inv s" "hm_state s = HEADER_EXTENDED"
  shows "hybi_inv s'"
proof -
  let ?n = "min (m_bytes_needed s) (length rest)"
  let ?s1 = "s\<lparr>m_extended_header := memcpy_at (m_extended_header s) (m_cursor s) (take ?n rest),
      m_cursor := m_cursor s + ?n, m_bytes_needed := m_bytes_needed s - ?n\<rparr>"
  have inv: "m_cursor s + m_bytes_needed s \<le> MAX_EXTENDED_HEADER_LENGTH"
    "length (m_extended_header s) = MAX_EXTENDED_HEADER_LENGTH" "get_masked (m_basic_header s) = m_server s"
    using assms(2,3) by (simp_all add: hybi_inv_def)
  then have len: "length (m_extended_header ?s1) = MAX_EXTENDED_HEADER_LENGTH" by simp
  show ?thesis
  proof (cases "0 < m_bytes_needed ?s1")
    case True
    then have "s' = ?s1" using assms(1)
      by (auto simp: consume_extended_def copy_extended_header_bytes_def Let_def split: if_splits)
    with len inv assms(3) show ?thesis by (simp add: hybi_inv_def)
  next
    case False
    then have "start_payload (?s1\<lparr>hm_state := APPLICATION,
        m_bytes_needed := unat (get_payload_size (m_basic_header ?s1) (m_extended_header ?s1))\<rparr>) = (None, s')"
      using assms(1)
      by (auto simp: consume_extended_def copy_extended_header_bytes_def Let_def split: if_splits option.splits)
    from start_payload_inv[OF this] len inv show ?thesis by (simp add: hybi_inv_def)
  qed
qed

subsection \<open>Payload\<close>

text \<open>Writing a piece of the payload into the current message.\<close>

definition write_payload :: "byte list \<Rightarrow> msg_metadata \<Rightarrow> message \<Rightarrow> validator \<Rightarrow> hybi13 \<Rightarrow> hybi13" where
  "write_payload buf md m v s =
     set_current_msg (md\<lparr>msg_ptr := Some (append_payload buf m), msg_validator := v\<rparr>) s"

definition text_check :: "byte list \<Rightarrow> message \<Rightarrow> validator \<Rightarrow> bool \<times> validator" where
  "text_check buf m v = (if m_opcode m = TEXT then validator_decode buf v else (True, v))"

text \<open>Without masking.\<close>

lemma process_unmasked:
  assumes "\<not> get_masked (m_basic_header s)" "current_msg s = Some md" "msg_ptr md = Some m"
  shows "process_payload_bytes buf s =
     (let (ok, v) = text_check buf m (msg_validator md); s' = write_payload buf md m v s
      in if ok then Inr (length buf, None, s'\<lparr>m_bytes_needed := m_bytes_needed s - length buf\<rparr>)
         else Inr (0, Some Invalid_Utf8, s'))"
  using assms
  by (simp add: process_payload_bytes_def text_check_def write_payload_def Let_def split: prod.split)

lemma current_set [simp]: "current_msg s \<noteq> None \<Longrightarrow> current_msg (set_current_msg md s) = Some md"
  by (simp add: current_msg_def set_current_msg_def split: option.splits which_msg.splits)

lemma current_needed [simp]: "current_msg (s\<lparr>m_bytes_needed := n\<rparr>) = current_msg s"
  by (simp add: current_msg_def split: option.split which_msg.split)

lemma set_current_twice:
  "set_current_msg md' (set_current_msg md s) = set_current_msg md' s"
  "set_current_msg md' (s\<lparr>m_bytes_needed := n\<rparr>) = (set_current_msg md' s)\<lparr>m_bytes_needed := n\<rparr>"
  by (simp_all add: set_current_msg_def split: option.splits which_msg.splits)

lemma text_check_append:
  "text_check (xs @ ys) m v = (let (ok, v') = text_check xs m v in if ok then text_check ys m v' else (False, v'))"
  by (cases "m_opcode m = TEXT") (simp_all add: text_check_def validator_decode_append split: prod.split)

lemma text_check_append_payload: "text_check buf (append_payload xs m) v = text_check buf m v"
  by (simp add: text_check_def append_payload_def)

lemma write_payload_twice:
  "write_payload ys (md\<lparr>msg_ptr := Some (append_payload xs m), msg_validator := v\<rparr>) (append_payload xs m) v'
     ((write_payload xs md m v s)\<lparr>m_bytes_needed := n\<rparr>) = (write_payload (xs @ ys) md m v' s)\<lparr>m_bytes_needed := n\<rparr>"
  by (simp add: write_payload_def set_current_twice append_payload_def)

text \<open>In two pieces as in one, up to what is left behind by an error.\<close>

fun same_outcome :: "(nat \<times> ws_error option \<times> hybi13) result \<Rightarrow> (nat \<times> ws_error option \<times> hybi13) result \<Rightarrow> bool" where
  "same_outcome (Inl e) (Inl e') = (e = e')"
| "same_outcome (Inr (p, None, s)) (Inr (p', None, s')) = (p = p' \<and> s = s')"
| "same_outcome (Inr (p, Some e, s)) (Inr (p', Some e', s')) = (e = e')"
| "same_outcome _ _ = False"

lemma same_outcome_refl [simp]: "same_outcome r r"
  by (cases "(r, r)" rule: same_outcome.cases) auto

definition further :: "nat \<Rightarrow> (nat \<times> ws_error option \<times> hybi13) result \<Rightarrow> (nat \<times> ws_error option \<times> hybi13) result" where
  "further k r = bind_result r (\<lambda>(p, ec, s). Inr (k + p, ec, s))"

lemma further_simps [simp]:
  "further k (Inl e) = Inl e" "further k (Inr (p, ec, s)) = Inr (k + p, ec, s)"
  by (simp_all add: further_def)

lemma process_compose:
  assumes "\<not> get_masked (m_basic_header s)" "has_message s" "process_payload_bytes xs s = Inr (k, None, s1)"
  shows "same_outcome (process_payload_bytes (xs @ ys) s) (further k (process_payload_bytes ys s1))"
proof -
  obtain md m where md: "current_msg s = Some md" "msg_ptr md = Some m"
    using assms(2) by (auto simp: has_message_def)
  obtain v where v: "text_check xs m (msg_validator md) = (True, v)" and k: "k = length xs"
    and s1: "s1 = (write_payload xs md m v s)\<lparr>m_bytes_needed := m_bytes_needed s - length xs\<rparr>"
    using assms(3) unfolding process_unmasked[OF assms(1) md] Let_def
    by (auto split: prod.splits if_splits)
  let ?md = "md\<lparr>msg_ptr := Some (append_payload xs m), msg_validator := v\<rparr>"
  have md1: "current_msg s1 = Some ?md" "msg_ptr ?md = Some (append_payload xs m)"
    "\<not> get_masked (m_basic_header s1)"
    and n1: "m_bytes_needed s1 = m_bytes_needed s - length xs"
    using assms(1) md(1) by (simp_all add: s1 write_payload_def)
  have p1: "process_payload_bytes ys s1 =
      (let (ok, v') = text_check ys m v; s' = (write_payload (xs @ ys) md m v' s)\<lparr>m_bytes_needed := m_bytes_needed s - length xs\<rparr>
       in if ok then Inr (length ys, None, s'\<lparr>m_bytes_needed := m_bytes_needed s - length xs - length ys\<rparr>)
          else Inr (0, Some Invalid_Utf8, s'))"
    unfolding process_unmasked[OF md1(3,1,2)] n1
    by (simp add: s1 write_payload_twice text_check_append_payload Let_def)
  show ?thesis
    unfolding p1 process_unmasked[OF assms(1) md] text_check_append v
    by (auto simp: k Let_def split: prod.split)
qed

subsection \<open>One turn of the loop\<close>

lemma memcpy_at_append:
  "index \<le> length buf \<Longrightarrow>
     memcpy_at (memcpy_at buf index xs) (index + length xs) ys = memcpy_at buf index (xs @ ys)"
  by (simp add: memcpy_at_def add.commute add.left_commute)

text \<open>A turn that was complete is the same with more bytes; one that was not is continued.\<close>

definition continued :: "byte list \<Rightarrow> byte list \<Rightarrow> nat \<Rightarrow> hybi13 \<Rightarrow> hybi13 \<Rightarrow> bool" where
  "continued xs ys k s s1 \<longleftrightarrow>
     consume_step (xs @ ys) s = Inr (k, None, s1) \<or>
     (k = length xs \<and> 0 < m_bytes_needed s1 \<and> hm_state s1 = hm_state s \<and>
      same_outcome (consume_step (xs @ ys) s) (further k (consume_step ys s1)))"

lemma basic_continued:
  assumes "consume_basic xs s = (k, None, s1)" "hm_state s = HEADER_BASIC" "m_bytes_needed s \<in> {1, 2}"
    and "xs \<noteq> []" "ys \<noteq> []"
  shows "continued xs ys k s s1"
proof (cases "m_bytes_needed s = 2 \<and> length xs = 1")
  case True
  then obtain x where xs: "xs = [x]" by (cases xs) auto
  obtain y ys' where ys: "ys = y # ys'" using assms(5) by (cases ys) auto
  have s1: "k = 1" "s1 = s\<lparr>m_basic_header := (m_basic_header s)\<lparr>b0 := x\<rparr>, m_bytes_needed := 1\<rparr>"
    using assms(1) True by (auto simp: xs consume_basic_def split: if_splits option.splits)
  have "copy_basic_header_bytes ys s1 =
      (1, s\<lparr>m_basic_header := (m_basic_header s)\<lparr>b0 := x, b1 := y\<rparr>, m_bytes_needed := 0\<rparr>)"
    by (cases ys') (simp_all add: ys s1)
  moreover have "copy_basic_header_bytes (xs @ ys) s =
      (2, s\<lparr>m_basic_header := (m_basic_header s)\<lparr>b0 := x, b1 := y\<rparr>, m_bytes_needed := 0\<rparr>)"
    using True by (simp add: xs ys)
  ultimately have "consume_basic (xs @ ys) s = (case consume_basic ys s1 of (p, r) \<Rightarrow> (1 + p, r))"
    by (simp add: consume_basic_def split: option.split)
  then show ?thesis
    using s1 assms(2) by (simp add: continued_def consume_step_def xs split: prod.split)
next
  case False
  obtain x r where xs: "xs = x # r" using assms(4) by (cases xs) auto
  have "copy_basic_header_bytes (xs @ ys) s = copy_basic_header_bytes xs s"
    using False assms(3) by (cases r; cases ys) (auto simp: xs)
  then have "consume_basic (xs @ ys) s = consume_basic xs s" by (simp add: consume_basic_def)
  with assms(1,2) show ?thesis by (simp add: continued_def consume_step_def)
qed

lemma extended_continued:
  assumes "consume_extended xs s = (k, None, s1)" "hm_state s = HEADER_EXTENDED"
    and "m_cursor s \<le> length (m_extended_header s)"
  shows "continued xs ys k s s1"
proof (cases "length xs < m_bytes_needed s")
  case True
  then have s1: "k = length xs"
    "s1 = s\<lparr>m_extended_header := memcpy_at (m_extended_header s) (m_cursor s) xs,
        m_cursor := m_cursor s + length xs, m_bytes_needed := m_bytes_needed s - length xs\<rparr>"
    using assms(1) by (auto simp: consume_extended_def copy_extended_header_bytes_def Let_def)
  have "copy_extended_header_bytes (xs @ ys) s =
      (case copy_extended_header_bytes ys s1 of (p, s2) \<Rightarrow> (length xs + p, s2))"
    using True assms(3)
    by (auto simp: copy_extended_header_bytes_def s1 Let_def memcpy_at_append min_def)
  then have "consume_extended (xs @ ys) s = (case consume_extended ys s1 of (p, r) \<Rightarrow> (length xs + p, r))"
    by (simp add: consume_extended_def split: prod.split option.split)
  then show ?thesis
    using True s1 assms(2) by (simp add: continued_def consume_step_def split: prod.split)
next
  case False
  then have "copy_extended_header_bytes (xs @ ys) s = copy_extended_header_bytes xs s"
    by (simp add: copy_extended_header_bytes_def)
  then have "consume_extended (xs @ ys) s = consume_extended xs s" by (simp add: consume_extended_def)
  with assms(1,2) show ?thesis by (simp add: continued_def consume_step_def)
qed

lemma after_payload_same:
  assumes "same_outcome r (further k r')"
  shows "same_outcome (bind_result r after_payload) (further k (bind_result r' after_payload))"
proof (cases r')
  case (Inl e)
  with assms show ?thesis by (cases r) auto
next
  case r': (Inr x)
  obtain p ec t where x: "x = (p, ec, t)" by (cases x)
  show ?thesis
  proof (cases ec)
    case None
    with assms r' x have "r = Inr (k + p, None, t)" by (cases "(r, further k r')" rule: same_outcome.cases) auto
    with None r' x show ?thesis by (cases "finish_frame t") auto
  next
    case (Some e)
    with assms r' x obtain p' t' where "r = Inr (p', Some e, t')"
      by (cases "(r, further k r')" rule: same_outcome.cases) auto
    with Some r' x show ?thesis by simp
  qed
qed

lemma application_continued:
  assumes "consume_application xs s = Inr (k, None, s1)" "hm_state s = APPLICATION"
    and "\<not> get_masked (m_basic_header s)" "has_message s" "ys \<noteq> []" "xs \<noteq> [] \<or> m_bytes_needed s = 0"
  shows "continued xs ys k s s1"
proof (cases "length xs < m_bytes_needed s")
  case True
  then have "xs \<noteq> []" using assms(6) by auto
  with True have "consume_application xs s = bind_result (process_payload_bytes xs s) after_payload"
    by (simp add: consume_application_def)
  with assms(1) have "bind_result (process_payload_bytes xs s) after_payload = Inr (k, None, s1)" by simp
  then obtain k1 ec1 s0 where p: "process_payload_bytes xs s = Inr (k1, ec1, s0)"
    and after: "after_payload (k1, ec1, s0) = Inr (k, None, s1)"
    unfolding bind_result_eq_Inr by (metis prod_cases3)
  have ec1: "ec1 = None" using after by (cases ec1) auto
  have n0: "m_bytes_needed s0 = m_bytes_needed s - length xs" "k1 = length xs" "hm_state s0 = APPLICATION"
    using process_payload_result[OF p] ec1 assms(2) by simp_all
  with after True ec1 have s0: "s1 = s0" "k = length xs" by simp_all
  let ?zs = "take (m_bytes_needed s1) ys"
  have zs: "take (min (m_bytes_needed s) (length (xs @ ys))) (xs @ ys) = xs @ ?zs"
    "0 < min (m_bytes_needed s) (length (xs @ ys))"
    "take (min (m_bytes_needed s1) (length ys)) ys = ?zs" "0 < min (m_bytes_needed s1) (length ys)"
    using True \<open>xs \<noteq> []\<close> assms(5) n0(1) s0(1) by (auto simp: min_def)
  have two: "consume_application (xs @ ys) s = bind_result (process_payload_bytes (xs @ ?zs) s) after_payload"
    and one: "consume_application ys s1 = bind_result (process_payload_bytes ?zs s1) after_payload"
    unfolding consume_application_def Let_def zs using zs(2,4) by simp_all
  have "process_payload_bytes xs s = Inr (k, None, s1)" using p ec1 n0 s0 by simp
  note process_compose[OF assms(3,4) this, of ?zs]
  from after_payload_same[OF this] have "same_outcome (consume_application (xs @ ys) s) (further k (consume_application ys s1))"
    unfolding one two .
  then show ?thesis using True n0 s0 assms(2) by (simp add: continued_def consume_step_def)
next
  case False
  then have "consume_application (xs @ ys) s = consume_application xs s"
    by (simp add: consume_application_def Let_def)
  with assms(1,2) show ?thesis by (simp add: continued_def consume_step_def)
qed

lemma step_continued:
  assumes "consume_step xs s = Inr (k, None, s1)" "hybi_inv s" "\<not> m_server s"
    and "consume_goes_on xs s" "ys \<noteq> []"
  shows "continued xs ys k s s1"
proof (cases "hm_state s")
  case HEADER_BASIC
  then have "xs \<noteq> []" "m_bytes_needed s \<in> {1, 2}" using assms by (auto simp: consume_goes_on_def hybi_inv_def)
  with HEADER_BASIC assms show ?thesis by (intro basic_continued) (simp_all add: consume_step_def)
next
  case HEADER_EXTENDED
  with assms show ?thesis by (intro extended_continued) (simp_all add: consume_step_def hybi_inv_def)
next
  case APPLICATION
  with assms show ?thesis
    by (intro application_continued) (auto simp: consume_step_def hybi_inv_def consume_goes_on_def)
qed (use assms in \<open>simp_all add: hybi_inv_def consume_goes_on_def\<close>)

subsection \<open>The invariant is kept\<close>

lemma process_payload_kept:
  assumes "process_payload_bytes buf s = Inr (k, ec, s')"
  shows "has_message s' \<and> m_basic_header s' = m_basic_header s \<and> m_server s' = m_server s \<and>
         m_extended_header s' = m_extended_header s"
proof -
  obtain md where md: "current_msg s = Some md"
    using assms by (cases "current_msg s") (auto simp: process_payload_bytes_def)
  obtain buf' key where b: "(if get_masked (m_basic_header s) then word_mask_circ buf (prepared_key md)
      else Inr (buf, prepared_key md)) = Inr (buf', key)"
    using assms md by (auto simp: process_payload_bytes_def bind_result_eq_Inr split del: if_split)
  obtain m where m: "msg_ptr md = Some m"
    using assms md b by (cases "msg_ptr md") (auto simp: process_payload_bytes_def)
  show ?thesis
    using assms by (auto simp: process_payload_bytes_def md b m Let_def has_message_def split: prod.splits if_splits)
qed

lemma current_state [simp]: "current_msg (s\<lparr>hm_state := st\<rparr>) = current_msg s"
  by (simp add: current_msg_def split: option.split which_msg.split)

lemma finish_frame_inv:
  assumes "finish_frame s = Inr (None, s')" "has_message s" "length (m_extended_header s) = MAX_EXTENDED_HEADER_LENGTH"
  shows "hybi_inv s' \<and> m_server s' = m_server s"
proof (cases "get_fin (m_basic_header s)")
  case True
  with assms(1) have "s' = s\<lparr>hm_state := READY\<rparr>"
    by (auto simp: finish_frame_def split: if_splits option.splits)
  with assms(2,3) show ?thesis by (simp add: hybi_inv_def has_message_def)
next
  case False
  with assms(1) hybi_inv_reset show ?thesis by (auto simp: finish_frame_def reset_headers_def)
qed

lemma consume_application_inv:
  assumes "consume_application rest s = Inr (k, None, s')" "hybi_inv s" "hm_state s = APPLICATION"
  shows "hybi_inv s' \<and> m_server s' = m_server s"
proof -
  let ?n = "min (m_bytes_needed s) (length rest)"
  obtain k1 ec1 s1 where one: "(if 0 < ?n then process_payload_bytes (take ?n rest) s else Inr (0, None, s)) =
      Inr (k1, ec1, s1)"
    and after: "after_payload (k1, ec1, s1) = Inr (k, None, s')"
    using assms(1) by (auto simp: consume_application_def Let_def bind_result_eq_Inr split del: if_split)
  have none: "ec1 = None" using after by (cases ec1) auto
  have inv: "get_masked (m_basic_header s) = m_server s" "length (m_extended_header s) = MAX_EXTENDED_HEADER_LENGTH"
    "has_message s"
    using assms(2,3) by (simp_all add: hybi_inv_def)
  have s1: "has_message s1 \<and> m_basic_header s1 = m_basic_header s \<and> m_server s1 = m_server s \<and>
    m_extended_header s1 = m_extended_header s \<and> hm_state s1 = APPLICATION"
  proof (cases "0 < ?n")
    case True
    then have "process_payload_bytes (take ?n rest) s = Inr (k1, ec1, s1)" using one by simp
    from process_payload_kept[OF this] process_payload_result[OF this] assms(3) show ?thesis by simp
  next
    case False
    then have "s1 = s" using one by (metis Inr_inject prod.inject)
    with inv assms(3) show ?thesis by simp
  qed
  show ?thesis
  proof (cases "0 < m_bytes_needed s1")
    case True
    with after none have "s' = s1" by simp
    with s1 inv show ?thesis by (simp add: hybi_inv_def)
  next
    case False
    with after none have "finish_frame s1 = Inr (None, s')"
      by (auto simp: bind_result_eq_Inr)
    from finish_frame_inv[OF this] s1 inv show ?thesis by simp
  qed
qed

lemma copy_basic_server: "copy_basic_header_bytes rest s = (k, s') \<Longrightarrow> m_server s' = m_server s"
  by (cases "(rest, s)" rule: copy_basic_header_bytes.cases) (auto split: if_splits)

lemma consume_basic_server: "consume_basic rest s = (k, ec, s') \<Longrightarrow> m_server s' = m_server s"
  by (cases "copy_basic_header_bytes rest s")
    (auto simp: consume_basic_def Let_def dest: copy_basic_server split: if_splits option.splits)

lemma consume_extended_server: "consume_extended rest s = (k, ec, s') \<Longrightarrow> m_server s' = m_server s"
  by (auto simp: consume_extended_def copy_extended_header_bytes_def start_payload_def Let_def
      split: if_splits option.splits)

lemma consume_step_inv:
  assumes "consume_step rest s = Inr (k, None, s')" "hybi_inv s" "consume_goes_on rest s"
  shows "hybi_inv s' \<and> m_server s' = m_server s"
proof (cases "hm_state s")
  case HEADER_BASIC
  then have "rest \<noteq> []" using assms by (auto simp: consume_goes_on_def hybi_inv_def)
  with HEADER_BASIC assms show ?thesis
    by (auto simp: consume_step_def dest: consume_basic_inv consume_basic_server)
next
  case HEADER_EXTENDED
  with assms show ?thesis by (auto simp: consume_step_def dest: consume_extended_inv consume_extended_server)
next
  case APPLICATION
  with assms show ?thesis by (auto simp: consume_step_def dest: consume_application_inv)
qed (use assms in \<open>simp_all add: hybi_inv_def consume_goes_on_def\<close>)

end
