(* ===== verification/Hybi13_Reading.thy ===== *)
theory Hybi13_Reading
  imports Hybi13_Facts
begin

section \<open>Reading a stream of frames\<close>

text \<open>
  The loop of \<open>consume\<close> may be cut anywhere: what it does with two buffers one after the other is what it
  does with both at once. Hence a client that is given a frame, cut in any way, reads the message
  that the frame carries.
\<close>

subsection \<open>The loop\<close>

lemma consume_stop: "\<not> consume_goes_on rest s \<Longrightarrow> consume rest s = Inr (0, None, s)"
  by (simp add: consume.simps)

lemma consume_go:
  "consume_goes_on rest s \<Longrightarrow> consume_step rest s = Inr (k, None, s') \<Longrightarrow>
     consume rest s = further k (consume (drop k rest) s')"
  by (subst consume.simps) (simp add: further_def)

lemma consume_go_failed:
  "consume_goes_on rest s \<Longrightarrow> consume_step rest s = Inr (k, Some e, s') \<Longrightarrow> consume rest s = Inr (k, Some e, s')"
  "consume_goes_on rest s \<Longrightarrow> consume_step rest s = Inl u \<Longrightarrow> consume rest s = Inl u"
  by (subst consume.simps, simp)+

lemma further_further: "further k (further p r) = further (k + p) r"
  by (cases r) (auto simp: add.assoc)

lemma further_0 [simp]: "further 0 r = r"
  by (simp add: further_def result_simps)

lemma further_same: "same_outcome r r' \<Longrightarrow> same_outcome (further k r) (further k r')"
  by (cases "(r, r')" rule: same_outcome.cases) auto

lemma same_outcome_none:
  "same_outcome r (Inr (p, None, s)) \<longleftrightarrow> r = Inr (p, None, s)"
  by (cases "(r, Inr (p, None, s) :: (nat \<times> ws_error option \<times> hybi13) result)" rule: same_outcome.cases) auto

lemma same_outcome_error:
  "same_outcome r (Inr (p, Some e, s)) \<longleftrightarrow> (\<exists>p' s'. r = Inr (p', Some e, s'))"
  by (cases "(r, Inr (p, Some e, s) :: (nat \<times> ws_error option \<times> hybi13) result)" rule: same_outcome.cases) auto

lemma same_outcome_Inl: "same_outcome r (Inl u) \<longleftrightarrow> r = Inl u"
  by (cases "(r, Inl u :: (nat \<times> ws_error option \<times> hybi13) result)" rule: same_outcome.cases) auto

lemmas same_outcome_iffs = same_outcome_none same_outcome_error same_outcome_Inl

lemma consume_stops:
  "consume xs s = Inr (p, None, s') \<Longrightarrow> p \<le> length xs \<and> \<not> consume_goes_on (drop p xs) s'"
proof (induction xs s arbitrary: p rule: consume.induct)
  case (1 xs s)
  show ?case
  proof (cases "consume_goes_on xs s")
    case False
    with 1(2) show ?thesis by (simp add: consume_stop)
  next
    case True
    then obtain k s1 p' where step: "consume_step xs s = Inr (k, None, s1)"
      and rest: "consume (drop k xs) s1 = Inr (p', None, s')" and p: "p = k + p'"
      using 1(2) by (subst (asm) consume.simps) (auto simp: bind_result_eq_Inr split: option.splits)
    from 1(1)[of "(k, None, s1)" k "(None, s1)" None s1 p'] True step rest
    have "p' \<le> length (drop k xs) \<and> \<not> consume_goes_on (drop p' (drop k xs)) s'" by simp
    moreover have "k \<le> length xs" using consume_step_progress[OF True step] by simp
    ultimately show ?thesis by (auto simp: p add.commute)
  qed
qed

text \<open>A turn that the rest of the stream continues.\<close>

lemma consume_turn_continued:
  assumes "consume_goes_on ws s" "consume_goes_on ys s1" "length xs = k" "ws = xs @ ys"
    and "same_outcome (consume_step ws s) (further k (consume_step ys s1))"
  shows "same_outcome (consume ws s) (further k (consume ys s1))"
proof (cases "consume_step ys s1")
  case (Inl u)
  with assms show ?thesis by (simp add: same_outcome_iffs consume_go_failed)
next
  case (Inr r)
  obtain p ec t where r: "r = (p, ec, t)" by (cases r)
  show ?thesis
  proof (cases ec)
    case None
    with Inr r assms have step: "consume_step ws s = Inr (k + p, None, t)" by (simp add: same_outcome_iffs)
    have "drop (k + p) ws = drop p ys" using assms(3,4) by simp
    with consume_go[OF assms(1) step] consume_go[OF assms(2), of p t] Inr r None
    show ?thesis by (simp add: further_further)
  next
    case (Some e)
    with Inr r assms show ?thesis by (auto simp: same_outcome_iffs consume_go_failed)
  qed
qed

theorem consume_split:
  assumes "consume xs s = Inr (p, None, s')" "hybi_inv s" "\<not> m_server s" "\<not> hybi_ready s'"
  shows "p = length xs \<and> hybi_inv s' \<and> \<not> m_server s' \<and>
         same_outcome (consume (xs @ ys) s) (further p (consume ys s'))"
  using assms
proof (induction xs s arbitrary: p rule: consume.induct)
  case (1 xs s)
  show ?case
  proof (cases "consume_goes_on xs s")
    case False
    with 1(2) have "p = 0" "s' = s" by (simp_all add: consume_stop)
    moreover have "xs = []"
      using False 1(3,5) \<open>s' = s\<close> by (auto simp: consume_goes_on_def hybi_inv_def hybi_ready_def)
    ultimately show ?thesis using 1 by simp
  next
    case True
    then obtain k s1 p' where step: "consume_step xs s = Inr (k, None, s1)"
      and rest: "consume (drop k xs) s1 = Inr (p', None, s')" and p: "p = k + p'"
      using 1(2) by (subst (asm) consume.simps) (auto simp: bind_result_eq_Inr split: option.splits)
    have inv1: "hybi_inv s1" "\<not> m_server s1" using consume_step_inv[OF step 1(3) True] 1(4) by simp_all
    have k: "k \<le> length xs" using consume_step_progress[OF True step] by simp
    have IH: "p' = length (drop k xs) \<and> hybi_inv s' \<and> \<not> m_server s' \<and>
        same_outcome (consume (drop k xs @ ys) s1) (further p' (consume ys s'))"
      using 1(1)[of "(k, None, s1)" k "(None, s1)" None s1 p'] True step rest inv1 1(5) by blast
    have "same_outcome (consume (xs @ ys) s) (further p (consume ys s'))"
    proof (cases "ys = []")
      case True
      have "\<not> consume_goes_on [] s'"
        using consume_stops[OF rest] IH by simp
      with 1(2) True show ?thesis by (simp add: consume_stop)
    next
      case False
      have go: "consume_goes_on (xs @ ys) s" using True by (auto simp: consume_goes_on_def)
      from step_continued[OF step 1(3,4) True False] show ?thesis
        unfolding continued_def
      proof (elim disjE conjE)
        assume "consume_step (xs @ ys) s = Inr (k, None, s1)"
        then have "consume (xs @ ys) s = further k (consume (drop k xs @ ys) s1)"
          using consume_go[OF go] k by simp
        moreover have "same_outcome (consume (drop k xs @ ys) s1) (further p' (consume ys s'))"
          using IH by blast
        ultimately show ?thesis
          unfolding p further_further[symmetric] by (simp add: further_same)
      next
        assume c: "k = length xs" "0 < m_bytes_needed s1" "hm_state s1 = hm_state s"
          "same_outcome (consume_step (xs @ ys) s) (further k (consume_step ys s1))"
        then have "\<not> consume_goes_on [] s1" by (simp add: consume_goes_on_def)
        with rest c(1) have "p' = 0" "s' = s1" by (simp_all add: consume_stop)
        moreover have "consume_goes_on ys s1" using True False c(3) by (simp add: consume_goes_on_def)
        ultimately show ?thesis
          using consume_turn_continued[OF go _ c(1)[symmetric] refl c(4)] p by simp
      qed
    qed
    then show ?thesis using IH k p by simp
  qed
qed

end
