(* ===== verification/Hybi13_Stream.thy ===== *)
theory Hybi13_Stream
  imports Hybi13_Reading
begin

section \<open>Messages out of a stream of bytes\<close>

text \<open>
  The loop of \<open>connection::handle_read_frame\<close> (impl/connection\_impl.hpp) over one buffer, with
  what is done with a message as a parameter. On whatever bytes it is given, a client neither reads
  through a null pointer nor loops for ever, and the messages it delivers do not depend on how the
  stream was cut into buffers.
\<close>

subsection \<open>The loop\<close>

lemma consume_takes:
  assumes "consume bs s = Inr (p, None, s')" "bs \<noteq> []" "hm_state s = HEADER_BASIC" "0 < m_bytes_needed s"
  shows "0 < p"
proof -
  have go: "consume_goes_on bs s" using assms(2,3) by (simp add: consume_goes_on_def)
  obtain k s1 where c: "copy_basic_header_bytes bs s = (k, s1)" by (cases "copy_basic_header_bytes bs s")
  have k: "0 < k" using copy_basic_takes[OF c assms(2,4)] .
  have "fst (consume_basic bs s) = k" by (simp add: consume_basic_def c split: option.split)
  then obtain ec s2 where b: "consume_basic bs s = (k, ec, s2)" by (metis prod.collapse)
  then have "consume_step bs s = Inr (k, ec, s2)" using assms(3) by (simp add: consume_step_def)
  with go assms(1) have "\<exists>p'. p = k + p'"
    by (cases ec) (auto simp: consume_go consume_go_failed further_def bind_result_eq_Inr)
  with k show ?thesis by auto
qed

lemma get_message_reset: "hybi_get_message s = Inr (m, s') \<Longrightarrow> hybi_ready s \<Longrightarrow>
    hm_state s' = HEADER_BASIC \<and> m_bytes_needed s' = 2"
  by (auto simp: hybi_get_message_def Let_def reset_headers_def frame_constants split: option.splits)

text \<open>A turn that takes nothing and delivers nothing is repeated for ever.\<close>

function read_loop ::
    "(message option \<Rightarrow> 'c \<Rightarrow> 'c) \<Rightarrow> byte list \<Rightarrow> hybi13 \<Rightarrow> 'c \<Rightarrow> (ws_error option \<times> hybi13 \<times> 'c) result" where
  "read_loop dispatch bs s c =
     (if bs = [] then Inr (None, s, c)
      else bind_result (consume bs s) (\<lambda>(p, ec, s1).
             case ec of
               Some e \<Rightarrow> Inr (Some e, s1, c)
             | None \<Rightarrow>
                 if hybi_ready s1
                 then bind_result (hybi_get_message s1) (\<lambda>(msg, s2).
                        read_loop dispatch (drop p bs) s2 (dispatch msg c))
                 else if p = 0 then Inl Blocked
                 else read_loop dispatch (drop p bs) s1 c))"
  by pat_completeness auto
termination
proof (relation "measure (\<lambda>(d, bs, s, c).
    2 * length bs + (if hm_state s = HEADER_BASIC \<and> 0 < m_bytes_needed s then 0 else 1))", goal_cases)
  case 1
  show ?case by simp
next
  case (2 dispatch bs s c x p y ec s1 z msg s2)
  then have c: "consume bs s = Inr (p, None, s1)" and m: "hybi_get_message s1 = Inr (msg, s2)"
    and r: "hybi_ready s1" by auto
  show ?case
    using consume_takes[OF c 2(1)] get_message_reset[OF m r] consume_stops[OF c] 2(1) by auto
next
  case (3 dispatch bs s c x p y ec s1)
  then have c: "consume bs s = Inr (p, None, s1)" by auto
  have "p \<le> length bs" using consume_stops[OF c] by simp
  with 3 show ?case by auto
qed

declare read_loop.simps [simp del]

subsection \<open>Nothing undefined, nothing endless\<close>

lemma read_loop_Nil [simp]: "read_loop dispatch [] s c = Inr (None, s, c)"
  by (simp add: read_loop.simps)

lemma process_unmasked_defined:
  assumes "\<not> get_masked (m_basic_header s)" "has_message s"
  shows "\<exists>r. process_payload_bytes buf s = Inr r"
proof -
  obtain md m where md: "current_msg s = Some md" "msg_ptr md = Some m"
    using assms(2) by (auto simp: has_message_def)
  show ?thesis unfolding process_unmasked[OF assms(1) md] by (simp add: Let_def split: prod.split)
qed

lemma finish_frame_defined: "has_message s \<Longrightarrow> \<exists>r. finish_frame s = Inr r"
  by (auto simp: finish_frame_def has_message_def)

lemma after_payload_defined: "has_message s \<Longrightarrow> \<exists>r. after_payload (k, ec, s) = Inr r"
  using finish_frame_defined[of s] by (cases ec) auto

lemma consume_application_defined:
  assumes "hybi_inv s" "\<not> m_server s" "hm_state s = APPLICATION"
  shows "\<exists>r. consume_application rest s = Inr r"
proof -
  let ?n = "min (m_bytes_needed s) (length rest)"
  have s: "has_message s" "\<not> get_masked (m_basic_header s)" using assms by (simp_all add: hybi_inv_def)
  obtain k ec s1 where one: "(if 0 < ?n then process_payload_bytes (take ?n rest) s else Inr (0, None, s)) =
      Inr (k, ec, s1)"
    using process_unmasked_defined[OF s(2,1), of "take ?n rest"] by (metis prod_cases3)
  have "has_message s1"
  proof (cases "0 < ?n")
    case True
    with one process_payload_kept show ?thesis by metis
  next
    case False
    with one s(1) show ?thesis by (metis Inr_inject prod.inject)
  qed
  then show ?thesis unfolding consume_application_def Let_def one using after_payload_defined by simp
qed

lemma consume_step_defined:
  assumes "hybi_inv s" "\<not> m_server s"
  shows "\<exists>r. consume_step rest s = Inr r"
  using assms consume_application_defined[of s rest]
  by (cases "hm_state s") (simp_all add: consume_step_def del: split_paired_Ex)

lemma consume_defined: "hybi_inv s \<Longrightarrow> \<not> m_server s \<Longrightarrow> \<exists>r. consume bs s = Inr r"
proof (induction bs s rule: consume.induct)
  case (1 bs s)
  show ?case
  proof (cases "consume_goes_on bs s")
    case False
    then show ?thesis by (simp add: consume_stop)
  next
    case True
    obtain k ec s1 where step: "consume_step bs s = Inr (k, ec, s1)"
      using consume_step_defined[OF 1(2,3)] by (metis prod_cases3)
    show ?thesis
    proof (cases ec)
      case None
      with step have step: "consume_step bs s = Inr (k, None, s1)" by simp
      have "hybi_inv s1" "\<not> m_server s1" using consume_step_inv[OF step 1(2) True] 1(3) by simp_all
      then have "\<exists>r. consume (drop k bs) s1 = Inr r"
        using 1(1)[of "(k, None, s1)" k "(None, s1)" None s1] True step by blast
      then show ?thesis using consume_go[OF True step] by (auto simp: further_def split: prod.split)
    next
      case (Some e)
      with step True show ?thesis by (simp add: consume_go_failed)
    qed
  qed
qed

lemma consume_inv:
  "consume bs s = Inr (p, None, s') \<Longrightarrow> hybi_inv s \<Longrightarrow> hybi_inv s' \<and> m_server s' = m_server s"
proof (induction bs s arbitrary: p rule: consume.induct)
  case (1 bs s)
  show ?case
  proof (cases "consume_goes_on bs s")
    case False
    with 1(2,3) show ?thesis by (simp add: consume_stop)
  next
    case True
    then obtain k s1 p' where step: "consume_step bs s = Inr (k, None, s1)"
      and rest: "consume (drop k bs) s1 = Inr (p', None, s')"
      using 1(2) by (subst (asm) consume.simps) (auto simp: bind_result_eq_Inr split: option.splits)
    note kept = consume_step_inv[OF step 1(3) True]
    then have "hybi_inv s' \<and> m_server s' = m_server s1"
      using 1(1)[of "(k, None, s1)" k "(None, s1)" None s1 p'] True step rest by blast
    with kept show ?thesis by simp
  qed
qed

lemma get_message_defined:
  assumes "hybi_inv s" "hybi_ready s"
  shows "\<exists>m s'. hybi_get_message s = Inr (Some m, s') \<and> hybi_inv s' \<and> m_server s' = m_server s \<and> \<not> hybi_ready s'"
proof -
  obtain md m where md: "current_msg s = Some md" "msg_ptr md = Some m"
    using assms by (auto simp: hybi_inv_def hybi_ready_def has_message_def)
  show ?thesis
    using assms(2) hybi_inv_reset
    by (auto simp: hybi_get_message_def md Let_def hybi_ready_def reset_headers_def)
qed

lemma consume_takes_inv:
  assumes "consume bs s = Inr (p, None, s1)" "hybi_inv s" "bs \<noteq> []" "\<not> hybi_ready s1"
  shows "0 < p"
proof (rule ccontr)
  assume "\<not> 0 < p"
  with consume_stops[OF assms(1)] have "\<not> consume_goes_on bs s1" by simp
  with assms(3,4) have "hm_state s1 = FATAL_ERROR" by (auto simp: consume_goes_on_def hybi_ready_def)
  with consume_inv[OF assms(1,2)] show False by (simp add: hybi_inv_def)
qed

lemma read_loop_defined:
  "hybi_inv s \<Longrightarrow> \<not> m_server s \<Longrightarrow> \<not> hybi_ready s \<Longrightarrow>
     \<exists>ec s' c'. read_loop dispatch bs s c = Inr (ec, s', c') \<and>
       (ec = None \<longrightarrow> hybi_inv s' \<and> \<not> m_server s' \<and> \<not> hybi_ready s')"
proof (induction dispatch bs s c rule: read_loop.induct)
  case (1 dispatch bs s c)
  show ?case
  proof (cases "bs = []")
    case True
    with 1 show ?thesis by simp
  next
    case False
    obtain p ec s1 where c: "consume bs s = Inr (p, ec, s1)"
      using consume_defined[OF 1(3,4)] by (metis prod_cases3)
    show ?thesis
    proof (cases ec)
      case (Some e)
      with c False show ?thesis by (subst read_loop.simps) simp
    next
      case None
      with c have c: "consume bs s = Inr (p, None, s1)" by simp
      have s1: "hybi_inv s1" "\<not> m_server s1" using consume_inv[OF c 1(3)] 1(4) by simp_all
      show ?thesis
      proof (cases "hybi_ready s1")
        case True
        obtain m s2 where m: "hybi_get_message s1 = Inr (Some m, s2)"
          and s2: "hybi_inv s2" "\<not> m_server s2" "\<not> hybi_ready s2"
          using get_message_defined[OF s1(1) True] s1(2) by auto
        from 1(1)[OF False c refl refl refl True m refl s2] c m True False
        show ?thesis by (subst read_loop.simps) simp
      next
        case not_ready: False
        then have p: "p \<noteq> 0" using consume_takes_inv[OF c 1(3) False] by simp
        from 1(2)[OF False c refl refl refl not_ready p s1 not_ready] c not_ready p False
        show ?thesis by (subst read_loop.simps) simp
      qed
    qed
  qed
qed

subsection \<open>What a message does is done in order\<close>

lemma read_loop_fold:
  "bind_result (read_loop (\<lambda>m ms. ms @ [m]) bs s acc) (\<lambda>(ec, s', ms). Inr (ec, s', fold dispatch ms c)) =
     read_loop dispatch bs s (fold dispatch acc c)"
proof (induction "\<lambda>m ms. ms @ [m :: message option]" bs s acc rule: read_loop.induct)
  case (1 bs s acc)
  show ?case
  proof (cases "bs = []")
    case False
    show ?thesis
    proof (cases "consume bs s")
      case (Inl u)
      with False show ?thesis by (simp add: read_loop.simps[of _ bs])
    next
      case (Inr r)
      obtain p ec s1 where r: "r = (p, ec, s1)" by (cases r)
      with Inr have c: "consume bs s = Inr (p, ec, s1)" by simp
      show ?thesis
      proof (cases ec)
        case (Some e)
        with c False show ?thesis by (simp add: read_loop.simps[of _ bs])
      next
        case None
        with c have c: "consume bs s = Inr (p, None, s1)" by simp
        show ?thesis
        proof (cases "hybi_ready s1")
          case True
          show ?thesis
          proof (cases "hybi_get_message s1")
            case (Inl u)
            with c True False show ?thesis by (simp add: read_loop.simps[of _ bs])
          next
            case (Inr z)
            obtain m s2 where z: "z = (m, s2)" by (cases z)
            with Inr have m: "hybi_get_message s1 = Inr (m, s2)" by simp
            from 1(1)[OF False c refl refl refl True m refl] c True False m
            show ?thesis by (simp add: read_loop.simps[of _ bs])
          qed
        next
          case not_ready: False
          show ?thesis
          proof (cases "p = 0")
            case True
            with c not_ready False show ?thesis by (simp add: read_loop.simps[of _ bs])
          next
            case p: False
            from 1(2)[OF False c refl refl refl not_ready p] c not_ready p False
            show ?thesis by (simp add: read_loop.simps[of _ bs])
          qed
        qed
      qed
    qed
  qed simp
qed

subsection \<open>Errors do not depend on what follows\<close>

lemma consume_basic_failed:
  assumes "consume_basic xs s = (k, Some e, s1)" "m_bytes_needed s \<in> {1, 2}" "xs \<noteq> []"
  shows "consume_basic (xs @ ys) s = (k, Some e, s1)"
proof -
  obtain x r where xs: "xs = x # r" using assms(3) by (cases xs) auto
  have "\<not> (m_bytes_needed s = 2 \<and> r = [])"
    using assms(1) by (auto simp: xs consume_basic_def split: if_splits option.splits)
  then have "copy_basic_header_bytes (xs @ ys) s = copy_basic_header_bytes xs s"
    using assms(2) by (cases r; cases ys) (auto simp: xs)
  with assms(1) show ?thesis by (simp add: consume_basic_def)
qed

lemma consume_extended_failed:
  assumes "consume_extended xs s = (k, Some e, s1)"
  shows "consume_extended (xs @ ys) s = (k, Some e, s1)"
proof -
  have "m_bytes_needed s \<le> length xs"
    using assms by (auto simp: consume_extended_def copy_extended_header_bytes_def Let_def split: if_splits)
  then have "copy_extended_header_bytes (xs @ ys) s = copy_extended_header_bytes xs s"
    by (simp add: copy_extended_header_bytes_def)
  with assms show ?thesis by (simp add: consume_extended_def)
qed

lemma process_failed:
  assumes "\<not> get_masked (m_basic_header s)" "has_message s" "process_payload_bytes xs s = Inr (k, Some e, s1)"
  shows "\<exists>k' s'. process_payload_bytes (xs @ ys) s = Inr (k', Some e, s')"
proof -
  obtain md m where md: "current_msg s = Some md" "msg_ptr md = Some m"
    using assms(2) by (auto simp: has_message_def)
  have "\<not> fst (text_check xs m (msg_validator md))" "e = Invalid_Utf8"
    using assms(3) unfolding process_unmasked[OF assms(1) md] Let_def
    by (auto split: prod.splits if_splits)
  then show ?thesis
    unfolding process_unmasked[OF assms(1) md] text_check_append by (auto simp: Let_def split: prod.split)
qed

lemma consume_application_failed:
  assumes "consume_application xs s = Inr (k, Some e, s1)" "hybi_inv s" "\<not> m_server s"
    and "hm_state s = APPLICATION" "xs \<noteq> [] \<or> m_bytes_needed s = 0"
  shows "\<exists>k' s'. consume_application (xs @ ys) s = Inr (k', Some e, s')"
proof (cases "length xs < m_bytes_needed s")
  case True
  have s: "has_message s" "\<not> get_masked (m_basic_header s)" using assms by (simp_all add: hybi_inv_def)
  have "xs \<noteq> []" using True assms(5) by auto
  with True have one: "consume_application xs s = bind_result (process_payload_bytes xs s) after_payload"
    by (simp add: consume_application_def)
  obtain k1 ec1 s0 where p: "process_payload_bytes xs s = Inr (k1, ec1, s0)"
    using process_unmasked_defined[OF s(2,1), of xs] by (metis prod_cases3)
  have "ec1 = Some e"
  proof (cases ec1)
    case None
    with process_payload_result[OF p] True have "0 < m_bytes_needed s0" by simp
    with None p one assms(1) show ?thesis by simp
  qed (use p one assms(1) in simp)
  with p have p: "process_payload_bytes xs s = Inr (k1, Some e, s0)" by simp
  let ?n = "min (m_bytes_needed s) (length (xs @ ys))"
  have n: "take ?n (xs @ ys) = xs @ take (?n - length xs) ys" "0 < ?n"
    using True \<open>xs \<noteq> []\<close> by (auto simp: min_def)
  from process_failed[OF s(2,1) p] obtain k' s' where
    "process_payload_bytes (take ?n (xs @ ys)) s = Inr (k', Some e, s')" unfolding n(1) by blast
  then show ?thesis unfolding consume_application_def Let_def using n(2) by simp
next
  case False
  then have "consume_application (xs @ ys) s = consume_application xs s"
    by (simp add: consume_application_def Let_def)
  with assms(1) show ?thesis by simp
qed

lemma consume_step_failed:
  assumes "consume_step xs s = Inr (k, Some e, s1)" "hybi_inv s" "\<not> m_server s" "consume_goes_on xs s"
  shows "\<exists>k' s'. consume_step (xs @ ys) s = Inr (k', Some e, s')"
proof (cases "hm_state s")
  case HEADER_BASIC
  then have "xs \<noteq> []" "m_bytes_needed s \<in> {1, 2}" using assms by (auto simp: consume_goes_on_def hybi_inv_def)
  with HEADER_BASIC assms(1) consume_basic_failed[of xs s k e s1 ys] show ?thesis
    by (simp add: consume_step_def)
next
  case HEADER_EXTENDED
  with assms(1) show ?thesis by (auto simp: consume_step_def dest: consume_extended_failed)
next
  case APPLICATION
  have "consume_application xs s = Inr (k, Some e, s1)" "xs \<noteq> [] \<or> m_bytes_needed s = 0"
    using assms(1,4) APPLICATION by (auto simp: consume_step_def consume_goes_on_def)
  from consume_application_failed[OF this(1) assms(2,3) APPLICATION this(2)] APPLICATION
  show ?thesis by (simp add: consume_step_def)
qed (use assms in \<open>simp_all add: hybi_inv_def consume_goes_on_def\<close>)

lemma consume_failed:
  "consume xs s = Inr (p, Some e, s') \<Longrightarrow> hybi_inv s \<Longrightarrow> \<not> m_server s \<Longrightarrow>
     \<exists>p' s''. consume (xs @ ys) s = Inr (p', Some e, s'')"
proof (induction xs s arbitrary: p rule: consume.induct)
  case (1 xs s)
  have go: "consume_goes_on xs s" using 1(2) consume_stop[of xs s] by fastforce
  then have go': "consume_goes_on (xs @ ys) s" by (auto simp: consume_goes_on_def)
  obtain k ec s1 where step: "consume_step xs s = Inr (k, ec, s1)"
    using consume_step_defined[OF 1(3,4)] by (metis prod_cases3)
  show ?case
  proof (cases ec)
    case (Some e')
    with step 1(2) go have "consume_step xs s = Inr (k, Some e, s1)" by (simp add: consume_go_failed)
    from consume_step_failed[OF this 1(3,4) go, of ys] go' show ?thesis by (auto simp: consume_go_failed)
  next
    case None
    with step have step: "consume_step xs s = Inr (k, None, s1)" by simp
    with 1(2) obtain p' where rest: "consume (drop k xs) s1 = Inr (p', Some e, s')"
      by (auto simp: consume_go[OF go step] further_def bind_result_eq_Inr)
    have inv: "hybi_inv s1" "\<not> m_server s1" using consume_step_inv[OF step 1(3) go] 1(4) by simp_all
    have k: "k \<le> length xs" using consume_step_progress[OF go step] by simp
    show ?thesis
    proof (cases "ys = []")
      case True
      with 1(2) show ?thesis by simp
    next
      case False
      from step_continued[OF step 1(3,4) go False] show ?thesis
        unfolding continued_def
      proof (elim disjE conjE)
        assume "consume_step (xs @ ys) s = Inr (k, None, s1)"
        then have "consume (xs @ ys) s = further k (consume (drop k xs @ ys) s1)"
          using consume_go[OF go'] k by simp
        moreover have "\<exists>p' s''. consume (drop k xs @ ys) s1 = Inr (p', Some e, s'')"
          using 1(1)[of "(k, None, s1)" k "(None, s1)" None s1 p'] go step rest inv by blast
        ultimately show ?thesis by auto
      next
        assume "k = length xs" "0 < m_bytes_needed s1"
        with rest show ?thesis by (simp add: consume_stop consume_goes_on_def)
      qed
    qed
  qed
qed

lemma consume_ready:
  "consume xs s = Inr (p, None, s') \<Longrightarrow> hybi_inv s \<Longrightarrow> \<not> m_server s \<Longrightarrow> hybi_ready s' \<Longrightarrow>
     consume (xs @ ys) s = Inr (p, None, s')"
proof (induction xs s arbitrary: p rule: consume.induct)
  case (1 xs s)
  show ?case
  proof (cases "consume_goes_on xs s")
    case False
    with 1(2) have "p = 0" "s' = s" by (simp_all add: consume_stop)
    moreover have "\<not> consume_goes_on (xs @ ys) s"
      using 1(5) \<open>s' = s\<close> by (simp add: consume_goes_on_def hybi_ready_def)
    ultimately show ?thesis by (simp add: consume_stop)
  next
    case True
    then have go': "consume_goes_on (xs @ ys) s" by (auto simp: consume_goes_on_def)
    obtain k s1 p' where step: "consume_step xs s = Inr (k, None, s1)"
      and rest: "consume (drop k xs) s1 = Inr (p', None, s')" and p: "p = k + p'"
      using 1(2) True by (subst (asm) consume.simps) (auto simp: bind_result_eq_Inr split: option.splits)
    have inv: "hybi_inv s1" "\<not> m_server s1" using consume_step_inv[OF step 1(3) True] 1(4) by simp_all
    have k: "k \<le> length xs" using consume_step_progress[OF True step] by simp
    show ?thesis
    proof (cases "ys = []")
      case True
      with 1(2) show ?thesis by simp
    next
      case False
      from step_continued[OF step 1(3,4) True False] show ?thesis
        unfolding continued_def
      proof (elim disjE conjE)
        assume "consume_step (xs @ ys) s = Inr (k, None, s1)"
        then have "consume (xs @ ys) s = further k (consume (drop k xs @ ys) s1)"
          using consume_go[OF go'] k by simp
        moreover have "consume (drop k xs @ ys) s1 = Inr (p', None, s')"
          using 1(1)[of "(k, None, s1)" k "(None, s1)" None s1 p'] True step rest inv 1(5) by blast
        ultimately show ?thesis by (simp add: p)
      next
        assume c: "k = length xs" "0 < m_bytes_needed s1" "hm_state s1 = hm_state s"
        then have "s' = s1" using rest by (simp add: consume_stop consume_goes_on_def)
        with c(3) True 1(5) show ?thesis by (simp add: consume_goes_on_def hybi_ready_def)
      qed
    qed
  qed
qed

subsection \<open>Buffers\<close>

text \<open>The same, up to what an error leaves behind in the processor.\<close>

fun same_read :: "(ws_error option \<times> hybi13 \<times> 'c) result \<Rightarrow> (ws_error option \<times> hybi13 \<times> 'c) result \<Rightarrow> bool" where
  "same_read (Inl e) (Inl e') = (e = e')"
| "same_read (Inr (None, s, c)) (Inr (None, s', c')) = (s = s' \<and> c = c')"
| "same_read (Inr (Some e, s, c)) (Inr (Some e', s', c')) = (e = e' \<and> c = c')"
| "same_read _ _ = False"

lemma same_read_refl [simp]: "same_read r r"
  by (cases "(r, r)" rule: same_read.cases) auto

lemma read_loop_continued:
  assumes "hybi_inv s2" "\<not> m_server s2" "same_outcome (consume (xs @ ys) s) (further p (consume ys s2))"
    and "p = length xs" "xs \<noteq> []" "ys \<noteq> []"
  shows "same_read (read_loop dispatch (xs @ ys) s c) (read_loop dispatch ys s2 c)"
proof -
  obtain q ec s3 where q: "consume ys s2 = Inr (q, ec, s3)"
    using consume_defined[OF assms(1,2)] by (metis prod_cases3)
  show ?thesis
  proof (cases ec)
    case (Some e)
    with q assms(3) obtain p' s' where "consume (xs @ ys) s = Inr (p', Some e, s')"
      by (auto simp: same_outcome_iffs)
    with q Some assms(5,6) show ?thesis by (simp add: read_loop.simps[of _ ys] read_loop.simps[of _ "xs @ ys"])
  next
    case None
    with q have q: "consume ys s2 = Inr (q, None, s3)" by simp
    with assms(3) have both: "consume (xs @ ys) s = Inr (p + q, None, s3)" by (simp add: same_outcome_iffs)
    have "drop (p + q) (xs @ ys) = drop q ys" using assms(4) by simp
    moreover have "hybi_ready s3 \<or> 0 < q" using consume_takes_inv[OF q assms(1,6)] by blast
    moreover have "p \<noteq> 0" using assms(4,5) by simp
    ultimately show ?thesis
      using q both assms(5,6)
      by (cases "hybi_ready s3")
        (simp_all add: read_loop.simps[of _ ys] read_loop.simps[of _ "xs @ ys"] del: drop_append)
  qed
qed

theorem read_loop_append:
  assumes "hybi_inv s" "\<not> m_server s" "\<not> hybi_ready s" "read_loop dispatch xs s c = Inr (ec, s1, c1)"
  shows "same_read (read_loop dispatch (xs @ ys) s c)
     (if ec = None then read_loop dispatch ys s1 c1 else Inr (ec, s1, c1))"
  using assms
proof (induction dispatch xs s c rule: read_loop.induct)
  case (1 dispatch xs s c)
  show ?case
  proof (cases "xs = []")
    case True
    with 1 show ?thesis by simp
  next
    case False
    obtain p ec0 s2 where c: "consume xs s = Inr (p, ec0, s2)"
      using consume_defined[OF 1(3,4)] by (metis prod_cases3)
    show ?thesis
    proof (cases ec0)
      case (Some e)
      with c have c: "consume xs s = Inr (p, Some e, s2)" by simp
      then have "ec = Some e" "c1 = c" using 1(6) False by (simp_all add: read_loop.simps[of _ xs])
      with consume_failed[OF c 1(3,4), of ys] False show ?thesis
        by (auto simp: read_loop.simps[of _ "xs @ ys"])
    next
      case None
      with c have c: "consume xs s = Inr (p, None, s2)" by simp
      have s2: "hybi_inv s2" "\<not> m_server s2" using consume_inv[OF c 1(3)] 1(4) by simp_all
      show ?thesis
      proof (cases "hybi_ready s2")
        case True
        obtain m s3 where m: "hybi_get_message s2 = Inr (Some m, s3)"
          and s3: "hybi_inv s3" "\<not> m_server s3" "\<not> hybi_ready s3"
          using get_message_defined[OF s2(1) True] s2(2) by auto
        have p: "p \<le> length xs" using consume_stops[OF c] by simp
        have "read_loop dispatch (drop p xs) s3 (dispatch (Some m) c) = Inr (ec, s1, c1)"
          using 1(6) c m True False by (simp add: read_loop.simps[of _ xs])
        from 1(1)[OF False c refl refl refl True m refl s3 this]
        show ?thesis
          using consume_ready[OF c 1(3,4) True, of ys] m True False p
          by (simp add: read_loop.simps[of _ "xs @ ys"])
      next
        case not_ready: False
        note split = consume_split[OF c 1(3,4) not_ready, of ys]
        have p: "p \<noteq> 0" "p = length xs" using split False by auto
        have e: "ec = None \<and> s1 = s2 \<and> c1 = c"
          using 1(6) c not_ready False p by (simp add: read_loop.simps[of _ xs])
        show ?thesis
        proof (cases "ys = []")
          case True
          with 1(6) e show ?thesis by simp
        next
          case ys: False
          have "same_outcome (consume (xs @ ys) s) (further p (consume ys s2))" using split by blast
          from read_loop_continued[OF s2 this p(2) False ys] e show ?thesis by simp
        qed
      qed
    qed
  qed
qed

fun read_chunks ::
    "(message option \<Rightarrow> 'c \<Rightarrow> 'c) \<Rightarrow> byte list list \<Rightarrow> hybi13 \<Rightarrow> 'c \<Rightarrow> (ws_error option \<times> hybi13 \<times> 'c) result" where
  "read_chunks dispatch [] s c = Inr (None, s, c)"
| "read_chunks dispatch (b # bs) s c = bind_result (read_loop dispatch b s c) (\<lambda>(ec, s, c).
     case ec of Some e \<Rightarrow> Inr (Some e, s, c) | None \<Rightarrow> read_chunks dispatch bs s c)"

lemma same_read_trans: "same_read r r' \<Longrightarrow> same_read r' r'' \<Longrightarrow> same_read r r''"
  by (cases "(r, r')" rule: same_read.cases; cases "(r', r'')" rule: same_read.cases) auto

theorem read_chunks_concat:
  "hybi_inv s \<Longrightarrow> \<not> m_server s \<Longrightarrow> \<not> hybi_ready s \<Longrightarrow>
     same_read (read_loop dispatch (concat bs) s c) (read_chunks dispatch bs s c)"
proof (induction bs arbitrary: s c)
  case (Cons b bs)
  obtain ec s1 c1 where r: "read_loop dispatch b s c = Inr (ec, s1, c1)"
    and s1: "ec = None \<longrightarrow> hybi_inv s1 \<and> \<not> m_server s1 \<and> \<not> hybi_ready s1"
    using read_loop_defined[OF Cons.prems, of dispatch b c] by blast
  note one = read_loop_append[OF Cons.prems r, of "concat bs"]
  show ?case
  proof (cases ec)
    case None
    then have "same_read (read_loop dispatch (concat bs) s1 c1) (read_chunks dispatch bs s1 c1)"
      using s1 Cons.IH by simp
    moreover have "same_read (read_loop dispatch (concat (b # bs)) s c) (read_loop dispatch (concat bs) s1 c1)"
      using one None by simp
    ultimately have "same_read (read_loop dispatch (concat (b # bs)) s c) (read_chunks dispatch bs s1 c1)"
      by (rule same_read_trans[rotated])
    then show ?thesis by (simp add: r None)
  next
    case (Some e)
    with one r show ?thesis by simp
  qed
qed simp

end
