(* ===== verification/Hybi13_Roundtrip.thy ===== *)
theory Hybi13_Roundtrip
  imports Hybi13_Stream
begin

section \<open>A client reads what a server wrote\<close>

text \<open>
  A frame that the processor of a server prepared is read by the processor of a client as one
  message with the same opcode and payload; hence a stream of such frames is read as the
  messages that were sent, in order, however it is cut.
\<close>

subsection \<open>One frame\<close>

text \<open>Between messages.\<close>

definition idle :: "hybi13 \<Rightarrow> bool" where
  "idle s \<longleftrightarrow> reset_headers s = s \<and> \<not> m_server s \<and> msg_ptr (m_data_msg s) = None"

lemma idle_fields:
  assumes "idle s"
  shows "hm_state s = HEADER_BASIC" "m_bytes_needed s = 2" "m_extended_header s = extended_header_new"
    "\<not> m_server s" "msg_ptr (m_data_msg s) = None" "hybi_inv s" "\<not> hybi_ready s"
proof -
  have s: "reset_headers s = s" using assms by (simp add: idle_def)
  have "hm_state (reset_headers s) = HEADER_BASIC" "m_bytes_needed (reset_headers s) = 2"
    "m_extended_header (reset_headers s) = extended_header_new" "\<not> hybi_ready (reset_headers s)"
    by (simp_all add: reset_headers_def frame_constants hybi_ready_def)
  then show "hm_state s = HEADER_BASIC" "m_bytes_needed s = 2" "m_extended_header s = extended_header_new"
    "\<not> hybi_ready s" by (simp_all add: s)
  show "hybi_inv s" using hybi_inv_reset[of s] by (simp add: s)
qed (use assms in \<open>simp_all add: idle_def\<close>)

lemma idle_new: "idle (hybi13_new False mx cur k k')"
  by (simp add: idle_def hybi13_new_def reset_headers_def)

text \<open>The header of an unmasked final frame, and what may be sent.\<close>

definition server_header :: "opcode \<Rightarrow> nat \<Rightarrow> basic_header" where
  "server_header op n = basic_header_for op (of_nat n) True False False False False"

definition server_wire :: "opcode \<Rightarrow> byte list \<Rightarrow> byte list" where
  "server_wire op payload =
     prepare_header (server_header op (length payload)) (extended_header_size (of_nat (length payload))) @ payload"

definition sendable :: "nat \<Rightarrow> opcode \<Rightarrow> byte list \<Rightarrow> bool" where
  "sendable mx op payload \<longleftrightarrow>
     length payload < 2 ^ 64 \<and>
     (if op \<in> {CLOSE, PING, PONG} then length payload \<le> payload_size_basic
      else op \<in> {TEXT, BINARY} \<and> length payload \<le> mx) \<and>
     (op = TEXT \<longrightarrow> utf8_validate payload)"

lemma server_wire_bytes:
  "server_wire op payload =
     [b0 (server_header op (length payload)), b1 (server_header op (length payload))] @
     size_bytes (of_nat (length payload)) @ payload"
  using prepare_header_wire[of "server_header op (length payload)" op "of_nat (length payload)" True None False False False]
  by (simp add: server_wire_def server_header_def ext_for_def wire_ext_def)

lemma unat_length: "length payload < 2 ^ 64 \<Longrightarrow> unat (of_nat (length payload) :: 64 word) = length payload"
  by (simp add: unat_of_nat take_bit_nat_eq_self)

lemma read_basic:
  assumes "idle s" "sendable mx op payload" "h = server_header op (length payload)"
  shows "consume_step ([b0 h, b1 h] @ rest) s =
     Inr (2, None, s\<lparr>m_basic_header := h, hm_state := HEADER_EXTENDED, m_cursor := 0,
       m_bytes_needed := length (size_bytes (of_nat (length payload)))\<rparr>)"
proof -
  note f = idle_fields[OF assms(1)]
  have h: "(m_basic_header s)\<lparr>b0 := b0 h, b1 := b1 h\<rparr> = h" by (cases h) simp
  have small: "unat (basic_value (of_nat (length payload))) \<le> payload_size_basic" if "op \<in> {CLOSE, PING, PONG}"
    using assms(2) that by (simp add: sendable_def basic_value_codes unat_length)
  have "validate_incoming_basic_header h False True = None"
    unfolding basic_header_accepted using assms(2,3) small
    by (auto simp: server_header_def header_for sendable_def split: if_splits)
  moreover have "get_header_len h - BASIC_HEADER_LENGTH = length (size_bytes (of_nat (length payload)))"
    by (simp add: get_header_len_def size_bytes_length[of _ op True False False False False] assms(3)
        server_header_def header_for)
  ultimately show ?thesis
    using f by (simp add: consume_step_def consume_basic_def h)
qed

lemma read_extended:
  assumes "sendable (m_max_message_size s) op payload" "h = server_header op (length payload)"
    and "hm_state s = HEADER_EXTENDED" "m_basic_header s = h" "m_cursor s = 0"
    and "m_bytes_needed s = length (size_bytes (of_nat (length payload)))"
    and "m_extended_header s = extended_header_new" "msg_ptr (m_data_msg s) = None"
  shows "\<exists>s' md. consume_step (size_bytes (of_nat (length payload)) @ rest) s =
       Inr (length (size_bytes (of_nat (length payload))), None, s') \<and>
     hm_state s' = APPLICATION \<and> m_bytes_needed s' = length payload \<and> m_basic_header s' = h \<and>
     m_server s' = m_server s \<and> m_max_message_size s' = m_max_message_size s \<and>
     current_msg s' = Some md \<and> msg_ptr md = Some (message_new op) \<and> msg_validator md = validator_new \<and>
     (is_control op \<longleftrightarrow> m_current_msg s' = Some Control_Msg) \<and>
     (\<not> is_control op \<longleftrightarrow> m_current_msg s' = Some Data_Msg) \<and>
     (is_control op \<longrightarrow> msg_ptr (m_data_msg s') = None)"
proof -
  let ?sz = "of_nat (length payload) :: 64 word"
  let ?n = "length (size_bytes ?sz)"
  let ?ext = "memcpy_at extended_header_new 0 (size_bytes ?sz)"
  let ?s1 = "s\<lparr>m_extended_header := ?ext, m_cursor := ?n, hm_state := APPLICATION,
      m_bytes_needed := length payload\<rparr>"
  have ext: "?ext = ext_for ?sz None" by (simp add: ext_for_wire wire_ext_def)
  have n: "unat ?sz = length payload" using assms(1) by (simp add: sendable_def unat_length)
  have sz: "unat (get_payload_size h ?ext) = length payload"
    unfolding ext using payload_size_read[of h op ?sz True None False False False] n
    by (simp add: assms(2) server_header_def)
  have valid: "validate_incoming_extended_header h ?ext = None"
    using sz basic_value_codes[of ?sz] n
    by (simp add: validate_incoming_extended_header_def Let_def assms(2) server_header_def header_for)
  have op: "get_opcode h = op" by (simp add: assms(2) server_header_def header_for)
  have step: "consume_step (size_bytes ?sz @ rest) s = (case start_payload ?s1 of (ec, s') \<Rightarrow> Inr (?n, ec, s'))"
    using assms(3-7) valid sz
    by (simp add: consume_step_def consume_extended_def copy_extended_header_bytes_def Let_def
        split: prod.split)
  show ?thesis
  proof (cases "is_control op")
    case True
    with step show ?thesis
      by (simp add: start_payload_def Let_def assms(4) op current_msg_def msg_metadata_new_def
          manager_get_message_def assms(8))
  next
    case False
    then have "length payload \<le> m_max_message_size s"
      using assms(1) by (auto simp: sendable_def is_control_iff split: if_splits)
    with False step show ?thesis
      by (simp add: start_payload_def Let_def assms(4,8) op current_msg_def msg_metadata_new_def
          manager_get_message_def)
  qed
qed

lemma read_payload:
  assumes "sendable mx op payload" "h = server_header op (length payload)"
    and "hm_state s = APPLICATION" "m_basic_header s = h" "m_bytes_needed s = length payload"
    and "current_msg s = Some md" "msg_ptr md = Some (message_new op)" "msg_validator md = validator_new"
  shows "\<exists>s' md'. consume_step (payload @ rest) s = Inr (length payload, None, s') \<and> hybi_ready s' \<and>
     m_server s' = m_server s \<and> m_max_message_size s' = m_max_message_size s \<and>
     m_current_msg s' = m_current_msg s \<and>
     (m_current_msg s = Some Control_Msg \<longrightarrow> m_data_msg s' = m_data_msg s) \<and>
     current_msg s' = Some md' \<and> msg_ptr md' = Some ((message_new op)\<lparr>m_payload := payload\<rparr>)"
proof -
  have h: "\<not> get_masked h" "get_fin h" "get_opcode h = op"
    by (simp_all add: assms(2) server_header_def header_for)
  obtain v where v: "text_check payload (message_new op) validator_new = (True, v)"
    and complete: "op = TEXT \<longrightarrow> validator_complete v"
    using assms(1)
    by (cases "op = TEXT")
      (auto simp: text_check_def sendable_def utf8_validate_def message_new_def split: prod.splits if_splits)
  let ?m = "(message_new op)\<lparr>m_payload := payload\<rparr>"
  let ?md = "md\<lparr>msg_ptr := Some ?m, msg_validator := v\<rparr>"
  let ?s = "(set_current_msg ?md s)\<lparr>m_bytes_needed := 0\<rparr>"
  have cur: "current_msg ?s = Some ?md" using assms(6) by simp
  have data: "m_current_msg s = Some Control_Msg \<longrightarrow> m_data_msg (set_current_msg ?md s) = m_data_msg s"
    by (simp add: set_current_msg_def)
  have payload: "append_payload payload (message_new op) = ?m" by (simp add: append_payload_def message_new_def)
  show ?thesis
  proof (cases "payload = []")
    case True
    then have "op = TEXT \<longrightarrow> validator_complete validator_new"
      using v complete by (auto simp: text_check_def message_new_def)
    with True h assms show ?thesis
      by (simp add: consume_step_def consume_application_def finish_frame_def hybi_ready_def message_new_def)
  next
    case False
    have "process_payload_bytes payload s = Inr (length payload, None, ?s)"
      using h(1) assms(4,5,8) v payload
      by (simp add: process_unmasked[OF _ assms(6,7)] write_payload_def)
    then have "consume_application (payload @ rest) s = after_payload (length payload, None, ?s)"
      using False assms(5) by (simp add: consume_application_def)
    also have "\<dots> = Inr (length payload, None, ?s\<lparr>hm_state := READY\<rparr>)"
      using h assms(4,6) complete by (simp add: finish_frame_def)
    finally show ?thesis
      using cur data assms(3) by (simp add: consume_step_def hybi_ready_def)
  qed
qed

theorem read_frame:
  assumes "idle s" "sendable (m_max_message_size s) op payload"
  shows "\<exists>s1 s2. consume (server_wire op payload @ rest) s = Inr (length (server_wire op payload), None, s1) \<and>
     hybi_ready s1 \<and> hybi_get_message s1 = Inr (Some ((message_new op)\<lparr>m_payload := payload\<rparr>), s2) \<and>
     idle s2 \<and> m_max_message_size s2 = m_max_message_size s"
proof -
  let ?h = "server_header op (length payload)" and ?e = "size_bytes (of_nat (length payload))"
  note f = idle_fields[OF assms(1)]
  let ?s1 = "s\<lparr>m_basic_header := ?h, hm_state := HEADER_EXTENDED, m_cursor := 0, m_bytes_needed := length ?e\<rparr>"
  have one: "consume_step ([b0 ?h, b1 ?h] @ ?e @ payload @ rest) s = Inr (2, None, ?s1)"
    using read_basic[OF assms refl, of "?e @ payload @ rest"] by simp
  obtain s2 md where two: "consume_step (?e @ payload @ rest) ?s1 = Inr (length ?e, None, s2)"
    and s2: "hm_state s2 = APPLICATION" "m_bytes_needed s2 = length payload" "m_basic_header s2 = ?h"
      "m_server s2 = m_server s" "m_max_message_size s2 = m_max_message_size s"
      "current_msg s2 = Some md" "msg_ptr md = Some (message_new op)" "msg_validator md = validator_new"
    and which: "is_control op \<longleftrightarrow> m_current_msg s2 = Some Control_Msg"
      "\<not> is_control op \<longleftrightarrow> m_current_msg s2 = Some Data_Msg"
      "is_control op \<longrightarrow> msg_ptr (m_data_msg s2) = None"
    using read_extended[of ?s1 op payload ?h "payload @ rest"] assms(2) f by auto
  obtain s3 md' where three: "consume_step (payload @ rest) s2 = Inr (length payload, None, s3)"
    and s3: "hybi_ready s3" "m_server s3 = m_server s2" "m_max_message_size s3 = m_max_message_size s2"
      "m_current_msg s3 = m_current_msg s2"
      "m_current_msg s2 = Some Control_Msg \<longrightarrow> m_data_msg s3 = m_data_msg s2"
      "current_msg s3 = Some md'" "msg_ptr md' = Some ((message_new op)\<lparr>m_payload := payload\<rparr>)"
    using read_payload[OF assms(2) refl s2(1,3,2,6,7,8), of rest] by blast
  have "consume (server_wire op payload @ rest) s =
      further (2 + length ?e + length payload) (consume rest s3)"
  proof -
    have "consume_goes_on ([b0 ?h, b1 ?h] @ ?e @ payload @ rest) s" using f by (simp add: consume_goes_on_def)
    note consume_go[OF this one]
    moreover have "consume_goes_on (?e @ payload @ rest) ?s1"
      by (auto simp: consume_goes_on_def)
    note consume_go[OF this two]
    moreover have "consume_goes_on (payload @ rest) s2" using s2(1,2) by (auto simp: consume_goes_on_def)
    note consume_go[OF this three]
    ultimately show ?thesis
      unfolding server_wire_bytes by (simp add: further_further add.assoc)
  qed
  moreover have "consume rest s3 = Inr (0, None, s3)"
    using s3(1) by (simp add: consume_stop consume_goes_on_def hybi_ready_def)
  ultimately have consumed: "consume (server_wire op payload @ rest) s = Inr (length (server_wire op payload), None, s3)"
    by (simp add: server_wire_bytes)
  let ?m = "(message_new op)\<lparr>m_payload := payload\<rparr>"
  let ?s4 = "set_current_msg (md'\<lparr>msg_ptr := None\<rparr>) s3"
  let ?s5 = "if is_control op then ?s4\<lparr>m_control_msg := (m_control_msg ?s4)\<lparr>msg_ptr := None\<rparr>\<rparr>
             else ?s4\<lparr>m_data_msg := (m_data_msg ?s4)\<lparr>msg_ptr := None\<rparr>\<rparr>"
  have got: "hybi_get_message s3 = Inr (Some ?m, reset_headers ?s5)"
    using s3(1) by (simp add: hybi_get_message_def s3(6,7) Let_def message_new_def)
  have "msg_ptr (m_data_msg ?s5) = None"
  proof (cases "is_control op")
    case True
    then have "m_data_msg ?s4 = m_data_msg s3" using which s3(4) by (simp add: set_current_msg_def)
    with True which s3(5) show ?thesis by simp
  qed simp
  then have "idle (reset_headers ?s5)"
    using s2(4) s3(2) f(4) by (auto simp: idle_def reset_headers_def)
  moreover have "m_max_message_size (reset_headers ?s5) = m_max_message_size s"
    using s2(5) s3(3) by (simp add: reset_headers_def)
  ultimately show ?thesis using consumed s3(1) got by blast
qed

subsection \<open>A stream of frames\<close>

definition delivered :: "message \<Rightarrow> message" where
  "delivered m = (message_new (m_opcode m))\<lparr>m_payload := m_payload m\<rparr>"

text \<open>A frame that a server's processor prepared, from a message that a client accepts.\<close>

definition server_frame :: "nat \<Rightarrow> message \<Rightarrow> bool" where
  "server_frame mx m \<longleftrightarrow>
     m_header m @ m_payload m = server_wire (m_opcode m) (m_payload m) \<and> sendable mx (m_opcode m) (m_payload m)"

lemma prepared_data_frame:
  assumes "prepare_data_frame True rng (Some inm) (Some out) = (None, Some m)" "m_fin inm"
    and "m_opcode inm \<in> {TEXT, BINARY}" "length (m_payload inm) \<le> mx" "mx < 2 ^ 64"
  shows "server_frame mx m \<and> m_opcode m = m_opcode inm \<and> m_payload m = m_payload inm"
proof -
  have "m_opcode inm = TEXT \<longrightarrow> utf8_validate (m_payload inm)"
    "m = out\<lparr>m_header := prepare_header (server_header (m_opcode inm) (length (m_payload inm)))
           (extended_header_size (of_nat (length (m_payload inm)))),
         m_payload := m_payload inm, m_prepared := True, m_opcode := m_opcode inm\<rparr>"
    using assms(1,2) by (auto simp: prepare_data_frame_def Let_def server_header_def split: if_splits)
  with assms(3-5) show ?thesis
    by (auto simp: server_frame_def server_wire_def sendable_def)
qed

lemma prepared_control:
  assumes "prepare_control True rng op payload (Some out) = (None, Some m)" "op \<in> {CLOSE, PING, PONG}"
  shows "server_frame mx m \<and> m_opcode m = op \<and> m_payload m = payload"
proof -
  have "length payload \<le> payload_size_basic"
    "m = out\<lparr>m_header := prepare_header (server_header op (length payload))
           (extended_header_size (of_nat (length payload))),
         m_payload := payload, m_opcode := op, m_prepared := True\<rparr>"
    using assms(1) by (auto simp: prepare_control_def Let_def server_header_def split: if_splits)
  with assms(2) show ?thesis
    by (auto simp: server_frame_def server_wire_def sendable_def frame_constants)
qed

definition wire_bytes :: "message list \<Rightarrow> byte list" where
  "wire_bytes ms = concat (map (\<lambda>m. m_header m @ m_payload m) ms)"

theorem read_wire:
  "idle s \<Longrightarrow> list_all (server_frame (m_max_message_size s)) ms \<Longrightarrow>
     \<exists>s'. read_loop dispatch (wire_bytes ms) s c = Inr (None, s', fold dispatch (map (Some \<circ> delivered) ms) c) \<and> idle s'"
proof (induction ms arbitrary: s c)
  case (Cons m ms)
  let ?bs = "server_wire (m_opcode m) (m_payload m)"
  have ok: "sendable (m_max_message_size s) (m_opcode m) (m_payload m)" "m_header m @ m_payload m = ?bs"
    using Cons.prems(2) by (simp_all add: server_frame_def)
  obtain s1 s2 where c: "consume (?bs @ wire_bytes ms) s = Inr (length ?bs, None, s1)" and r: "hybi_ready s1"
    and g: "hybi_get_message s1 = Inr (Some (delivered m), s2)"
    and s2: "idle s2" "m_max_message_size s2 = m_max_message_size s"
    using read_frame[OF Cons.prems(1) ok(1), of "wire_bytes ms"] by (auto simp: delivered_def)
  have bs: "wire_bytes (m # ms) = ?bs @ wire_bytes ms" using ok(2) by (simp add: wire_bytes_def)
  have "?bs \<noteq> []" by (simp add: server_wire_bytes)
  then have "read_loop dispatch (wire_bytes (m # ms)) s c = read_loop dispatch (wire_bytes ms) s2 (dispatch (Some (delivered m)) c)"
    unfolding bs using c r g by (subst read_loop.simps) simp
  with Cons.IH[OF s2(1), of "dispatch (Some (delivered m)) c"] Cons.prems(2) s2(2) show ?case by simp
qed (simp add: wire_bytes_def)

lemma same_read_none:
  fixes r :: "(ws_error option \<times> hybi13 \<times> 'c) result"
  shows "same_read (Inr (None, s, c)) r \<longleftrightarrow> r = Inr (None, s, c)"
  by (cases "(Inr (None, s, c) :: (ws_error option \<times> hybi13 \<times> 'c) result, r)" rule: same_read.cases) auto

theorem read_chunks_wire:
  assumes "idle s" "list_all (server_frame (m_max_message_size s)) ms" "concat bs = wire_bytes ms"
  shows "\<exists>s'. read_chunks dispatch bs s c = Inr (None, s', fold dispatch (map (Some \<circ> delivered) ms) c) \<and> idle s'"
proof -
  note f = idle_fields[OF assms(1)]
  obtain s' where r: "read_loop dispatch (concat bs) s c =
      Inr (None, s', fold dispatch (map (Some \<circ> delivered) ms) c)" and s': "idle s'"
    using read_wire[OF assms(1,2), of dispatch c] assms(3) by auto
  have "same_read (read_loop dispatch (concat bs) s c) (read_chunks dispatch bs s c)"
    by (rule read_chunks_concat[OF f(6,4,7)])
  then have "read_chunks dispatch bs s c = Inr (None, s', fold dispatch (map (Some \<circ> delivered) ms) c)"
    unfolding r by (simp add: same_read_none)
  with s' show ?thesis by blast
qed

text \<open>What a server may have sent: data messages of at most \<open>mx\<close> bytes and control messages.\<close>

definition server_sent :: "nat \<Rightarrow> message \<Rightarrow> bool" where
  "server_sent mx m \<longleftrightarrow>
     (\<exists>inm rng out. prepare_data_frame True rng (Some inm) (Some out) = (None, Some m) \<and> m_fin inm \<and>
        m_opcode inm \<in> {TEXT, BINARY} \<and> length (m_payload inm) \<le> mx) \<or>
     (\<exists>op payload rng out. prepare_control True rng op payload (Some out) = (None, Some m) \<and> op \<in> {CLOSE, PING, PONG})"

lemma server_sent_frame: "server_sent mx m \<Longrightarrow> mx < 2 ^ 64 \<Longrightarrow> server_frame mx m"
  unfolding server_sent_def using prepared_data_frame prepared_control by blast

subsection \<open>What a client writes\<close>

text \<open>The masked payload is unmasked with the key of the header, byte by byte.\<close>

definition client_wire :: "opcode \<Rightarrow> bool \<Rightarrow> byte list \<Rightarrow> message \<Rightarrow> bool" where
  "client_wire op fin payload m \<longleftrightarrow>
     (\<exists>h e. m_header m = [b0 h, b1 h] @ take (get_header_len h - BASIC_HEADER_LENGTH) e \<and>
        length e = MAX_EXTENDED_HEADER_LENGTH \<and>
        get_fin h = fin \<and> \<not> get_rsv1 h \<and> \<not> get_rsv2 h \<and> \<not> get_rsv3 h \<and> get_masked h \<and>
        get_opcode h = op \<and> validate_incoming_extended_header h e = None \<and>
        unat (get_payload_size h e) = length (m_payload m) \<and>
        byte_mask (m_payload m) (get_masking_key h e) 0 = payload)"

lemma masked_wire:
  assumes "length payload < 2 ^ 64"
    and "m_header m = prepare_header (basic_header_for op (of_nat (length payload)) fin True False False False)
           (extended_header_key (of_nat (length payload)) rng)"
    and "m_payload m = masked_copy payload rng"
  shows "client_wire op fin payload m"
proof -
  let ?sz = "of_nat (length payload) :: 64 word"
  let ?h = "basic_header_for op ?sz fin True False False False"
  let ?e = "extended_header_key ?sz rng"
  have e: "?e = ext_for ?sz (Some rng)" by (simp add: ext_for_def)
  have n: "unat ?sz = length payload" using assms(1) by (rule unat_length)
  have sz: "get_payload_size ?h ?e = ?sz"
    unfolding e using payload_size_read[of ?h op ?sz fin "Some rng" False False False] by simp
  have key: "get_masking_key ?h ?e = rng"
    unfolding e using masking_key_read[of ?h op ?sz fin "Some rng" False False False] by simp
  have valid: "validate_incoming_extended_header ?h ?e = None"
    using basic_value_codes[of ?sz] n
    by (simp add: validate_incoming_extended_header_def Let_def header_for sz)
  have "byte_mask (m_payload m) rng 0 = payload" "length (m_payload m) = length payload"
    by (simp_all add: assms(3) masked_copy_def word_mask_exact_byte_mask byte_mask_twice)
  with key sz n valid show ?thesis
    unfolding client_wire_def
    by (intro exI[of _ ?h] exI[of _ ?e])
      (simp add: assms(2) prepare_header_def header_for e ext_for_length)
qed

lemma client_data_frame:
  assumes "prepare_data_frame False rng (Some inm) (Some out) = (None, Some m)" "length (m_payload inm) < 2 ^ 64"
  shows "client_wire (m_opcode inm) (m_fin inm) (m_payload inm) m \<and>
         (m_opcode inm = TEXT \<longrightarrow> utf8_validate (m_payload inm))"
proof -
  have "m_opcode inm = TEXT \<longrightarrow> utf8_validate (m_payload inm)"
    "m = out\<lparr>m_header := prepare_header
           (basic_header_for (m_opcode inm) (of_nat (length (m_payload inm))) (m_fin inm) True False False False)
           (extended_header_key (of_nat (length (m_payload inm))) rng),
         m_payload := masked_copy (m_payload inm) rng, m_prepared := True, m_opcode := m_opcode inm\<rparr>"
    using assms(1) by (auto simp: prepare_data_frame_def Let_def split: if_splits)
  with masked_wire[OF assms(2)] show ?thesis by simp
qed

lemma client_control:
  assumes "prepare_control False rng op payload (Some out) = (None, Some m)"
  shows "client_wire op True payload m \<and> length payload \<le> payload_size_basic \<and> is_control op"
proof -
  have "length payload \<le> payload_size_basic" "is_control op"
    "m = out\<lparr>m_header := prepare_header (basic_header_for op (of_nat (length payload)) True True False False False)
           (extended_header_key (of_nat (length payload)) rng),
         m_payload := masked_copy payload rng, m_opcode := op, m_prepared := True\<rparr>"
    using assms(1) by (auto simp: prepare_control_def Let_def split: if_splits)
  moreover from this(1) have "length payload < 2 ^ 64" by (simp add: frame_constants)
  ultimately show ?thesis using masked_wire[of payload m op True rng] by simp
qed

subsection \<open>Two defects\<close>

text \<open>The first frame of a text ends inside a character and the last frame is empty: the message is
  delivered although it is no UTF-8.\<close>

lemma truncated_text_delivered:
  "(case read_loop (\<lambda>m ms. ms @ [m]) [0x01, 0x01, 0xC3, 0x80, 0x00] (hybi13_new False 1000 0 0 0) [] of
      Inr (ec, s, ms) \<Rightarrow> ec = None \<and> map (map_option (\<lambda>m. (m_opcode m, m_payload m))) ms = [Some (TEXT, [0xC3])]
    | Inl _ \<Rightarrow> False) \<and> \<not> utf8_validate [0xC3]"
  by code_simp

text \<open>A frame that announces enough bytes for the sum of the sizes to wrap around passes whatever limit
  is set.\<close>

lemma size_limit_wraps:
  assumes "msg_ptr (m_data_msg s) = Some m" "\<not> is_control (get_opcode (m_basic_header s))"
    and "m_payload m \<noteq> []" "length (m_payload m) \<le> 2 ^ 64" "m_bytes_needed s = 2 ^ 64 - length (m_payload m)"
  shows "fst (start_payload s) = None"
proof -
  have "int (length (m_payload m)) + int (m_bytes_needed s) = 2 ^ 64"
    using assms(4,5) by (simp add: of_nat_diff)
  then have "size_t (int (length (m_payload m)) + int (m_bytes_needed s)) = 0" by (simp add: size_t_def)
  with assms(1,2) show ?thesis by (simp add: start_payload_def Let_def)
qed

end
