(* ===== verification/Ws_Uri.thy ===== *)
theory Ws_Uri
  imports Clib
begin

section \<open>websocketpp/uri.hpp: the address of a connection\<close>

text \<open>
  The constructor from a string, the accessors, and the printing. A uri whose \<open>m_valid\<close> stays false is
  \<open>None\<close>: nothing reads its other fields. A comparison at the end of the string meets the
  terminating zero, which no scheme contains.
\<close>

definition uri_default_port :: nat where "uri_default_port = 80"
definition uri_default_secure_port :: nat where "uri_default_secure_port = 443"

record ws_uri =
  u_scheme :: string
  u_host :: string
  u_resource :: string
  u_port :: nat
  u_secure :: bool

text \<open>\<open>atoi\<close>: \<open>strtol\<close>, which stops at the ends of a \<open>long\<close>, cut to an \<open>int\<close>; then read as unsigned.\<close>

definition clamp_long :: "int \<Rightarrow> int" where
  "clamp_long v = max (- (2 ^ 63)) (min (2 ^ 63 - 1) v)"

definition atoi_unsigned :: "string \<Rightarrow> nat" where
  "atoi_unsigned s = (case strtol10 (cstr s) of None \<Rightarrow> 0 | Some v \<Rightarrow> nat (clamp_long v mod 2 ^ 32))"

definition get_port_from_string :: "bool \<Rightarrow> string \<Rightarrow> nat option" where
  "get_port_from_string secure port =
     (if port = [] then Some (if secure then uri_default_secure_port else uri_default_port)
      else let t_port = atoi_unsigned port
           in if 65535 < t_port then None else if t_port = 0 then None else Some t_port)"

definition strip_prefix :: "string \<Rightarrow> string \<Rightarrow> string option" where
  "strip_prefix p s = (if take (length p) s = p then Some (drop (length p) s) else None)"

text \<open>The scheme, whether it is secure, and what follows.\<close>

definition parse_scheme :: "string \<Rightarrow> (string \<times> bool \<times> string) option" where
  "parse_scheme s =
     (case strip_prefix ''wss://'' s of Some r \<Rightarrow> Some (''wss'', True, r)
      | None \<Rightarrow> case strip_prefix ''ws://'' s of Some r \<Rightarrow> Some (''ws'', False, r)
      | None \<Rightarrow> case strip_prefix ''http://'' s of Some r \<Rightarrow> Some (''http'', False, r)
      | None \<Rightarrow> case strip_prefix ''https://'' s of Some r \<Rightarrow> Some (''https'', True, r)
      | None \<Rightarrow> None)"

text \<open>The host, whether a port follows, and the rest. After an IPv6 literal only the end, a slash or a
  colon may stand.\<close>

definition parse_host :: "string \<Rightarrow> (string \<times> bool \<times> string) option" where
  "parse_host s =
     (if take 1 s = ''[''
      then let host = takeWhile (\<lambda>c. c \<noteq> CHR '']'') (drop 1 s)
           in (case dropWhile (\<lambda>c. c \<noteq> CHR '']'') (drop 1 s) of
                 [] \<Rightarrow> None
               | [_] \<Rightarrow> Some (host, False, [])
               | _ # c # r \<Rightarrow> if c = CHR ''/'' then Some (host, False, r)
                            else if c = CHR '':'' then Some (host, True, r) else None)
      else let host = takeWhile (\<lambda>c. c \<noteq> CHR ''/'' \<and> c \<noteq> CHR '':'') s
           in (case dropWhile (\<lambda>c. c \<noteq> CHR ''/'' \<and> c \<noteq> CHR '':'') s of
                 [] \<Rightarrow> Some (host, False, [])
               | c # r \<Rightarrow> Some (host, c = CHR '':'', r)))"

definition parse_port :: "bool \<Rightarrow> string \<Rightarrow> string \<times> string" where
  "parse_port has_port s =
     (if has_port then (takeWhile (\<lambda>c. c \<noteq> CHR ''/'') s, drop 1 (dropWhile (\<lambda>c. c \<noteq> CHR ''/'') s)) else ([], s))"

definition uri_parse :: "string \<Rightarrow> ws_uri option" where
  "uri_parse s =
     (case parse_scheme s of
        None \<Rightarrow> None
      | Some (scheme, secure, r) \<Rightarrow>
          (case parse_host r of
             None \<Rightarrow> None
           | Some (host, has_port, r) \<Rightarrow>
               let (port, r) = parse_port has_port r
               in (case get_port_from_string secure port of
                     None \<Rightarrow> None
                   | Some p \<Rightarrow> Some \<lparr>u_scheme = scheme, u_host = host, u_resource = ''/'' @ r, u_port = p,
                                     u_secure = secure\<rparr>)))"

definition default_port :: "ws_uri \<Rightarrow> bool" where
  "default_port u \<longleftrightarrow> u_port u = (if u_secure u then uri_default_secure_port else uri_default_port)"

definition get_host_port :: "ws_uri \<Rightarrow> string" where
  "get_host_port u =
     (if default_port u then u_host u else u_host u @ '':'' @ nat_to_string (u_port u))"

definition get_authority :: "ws_uri \<Rightarrow> string" where
  "get_authority u = u_host u @ '':'' @ nat_to_string (u_port u)"

definition get_port_str :: "ws_uri \<Rightarrow> string" where
  "get_port_str u = nat_to_string (u_port u)"

definition uri_str :: "ws_uri \<Rightarrow> string" where
  "uri_str u =
     u_scheme u @ ''://'' @ u_host u @ (if \<not> default_port u then '':'' @ nat_to_string (u_port u) else []) @ u_resource u"

definition get_query :: "ws_uri \<Rightarrow> string" where
  "get_query u = drop 1 (dropWhile (\<lambda>c. c \<noteq> CHR ''?'') (u_resource u))"

subsection \<open>Facts\<close>

definition uri_wf :: "ws_uri \<Rightarrow> bool" where
  "uri_wf u \<longleftrightarrow>
     (u_scheme u, u_secure u) \<in> {(''wss'', True), (''ws'', False), (''http'', False), (''https'', True)} \<and>
     CHR ''/'' \<notin> set (u_host u) \<and> CHR '':'' \<notin> set (u_host u) \<and> take 1 (u_host u) \<noteq> ''['' \<and>
     0 < u_port u \<and> u_port u \<le> 65535 \<and> take 1 (u_resource u) = ''/''"

lemma clamp_long_id: "- (2 ^ 63) \<le> v \<Longrightarrow> v < 2 ^ 63 \<Longrightarrow> clamp_long v = v"
  by (simp add: clamp_long_def)

lemma strtol10_nat [simp]: "strtol10 (nat_to_string n) = Some (int n)"
  using strtol10_int_to_string[of "int n"] by (simp add: int_to_string_def)

lemma port_roundtrip: "0 < n \<Longrightarrow> n \<le> 65535 \<Longrightarrow> get_port_from_string secure (nat_to_string n) = Some n"
  by (simp add: get_port_from_string_def atoi_unsigned_def clamp_long_id Let_def)

lemma parse_scheme_str:
  "(scheme, secure) \<in> {(''wss'', True), (''ws'', False), (''http'', False), (''https'', True)} \<Longrightarrow>
     parse_scheme (scheme @ ''://'' @ r) = Some (scheme, secure, r)"
  by (auto simp: parse_scheme_def strip_prefix_def)

lemma parse_host_str:
  assumes "CHR ''/'' \<notin> set h" "CHR '':'' \<notin> set h" "take 1 h \<noteq> ''[''" "c = CHR ''/'' \<or> c = CHR '':''"
  shows "parse_host (h @ c # r) = Some (h, c = CHR '':'', r)"
proof -
  have "takeWhile (\<lambda>c. c \<noteq> CHR ''/'' \<and> c \<noteq> CHR '':'') (h @ c # r) = h"
    "dropWhile (\<lambda>c. c \<noteq> CHR ''/'' \<and> c \<noteq> CHR '':'') (h @ c # r) = c # r"
    using assms by (auto simp: takeWhile_append dropWhile_append takeWhile_eq_all_conv dropWhile_eq_Nil_conv)
  moreover have "take 1 (h @ c # r) \<noteq> ''[''" using assms by (cases h) auto
  ultimately show ?thesis by (simp add: parse_host_def)
qed

lemma nat_to_string_slash: "CHR ''/'' \<notin> set (nat_to_string n)"
  using nat_to_string_digits[of "CHR ''/''" n] by (auto simp: isdigit_def)

theorem uri_parse_str:
  assumes "uri_wf u"
  shows "uri_parse (uri_str u) = Some u"
proof -
  obtain res where res: "u_resource u = CHR ''/'' # res"
    using assms by (cases "u_resource u") (auto simp: uri_wf_def)
  have scheme: "parse_scheme (u_scheme u @ ''://'' @ r) = Some (u_scheme u, u_secure u, r)" for r
    using assms by (intro parse_scheme_str) (simp add: uri_wf_def)
  have host: "parse_host (u_host u @ c # r) = Some (u_host u, c = CHR '':'', r)" if "c = CHR ''/'' \<or> c = CHR '':''" for c r
    using assms that by (intro parse_host_str) (auto simp: uri_wf_def)
  show ?thesis
  proof (cases "default_port u")
    case True
    then show ?thesis
      using scheme[of "u_host u @ CHR ''/'' # res"] host[of "CHR ''/''" res] res
      by (simp add: uri_str_def uri_parse_def parse_port_def get_port_from_string_def default_port_def)
  next
    case False
    have port: "parse_port True (nat_to_string (u_port u) @ CHR ''/'' # res) = (nat_to_string (u_port u), res)"
      using nat_to_string_slash[of "u_port u"]
      by (auto simp: parse_port_def takeWhile_append dropWhile_append takeWhile_eq_all_conv)
    have "get_port_from_string (u_secure u) (nat_to_string (u_port u)) = Some (u_port u)"
      using assms by (intro port_roundtrip) (auto simp: uri_wf_def)
    with False scheme[of "u_host u @ CHR '':'' # nat_to_string (u_port u) @ CHR ''/'' # res"] port res
      host[of "CHR '':''" "nat_to_string (u_port u) @ CHR ''/'' # res"]
    show ?thesis by (simp add: uri_str_def uri_parse_def)
  qed
qed

lemma uri_parse_port: "uri_parse s = Some u \<Longrightarrow> 0 < u_port u \<and> u_port u \<le> 65535 \<and> take 1 (u_resource u) = ''/''"
  by (auto simp: uri_parse_def get_port_from_string_def uri_default_port_def uri_default_secure_port_def Let_def
      split: option.splits prod.splits if_splits)

lemma uri_port_wraps: "get_port_from_string secure (nat_to_string (2 ^ 32 + 80)) = Some 80"
  by (simp add: get_port_from_string_def atoi_unsigned_def clamp_long_id Let_def)

end
