(* ===== verification/Base64.thy ===== *)
theory Base64
  imports Prelude
begin

unbundle bit_operations_syntax

section \<open>websocketpp/base64.hpp\<close>

text \<open>
  Three bytes are four digits of six bits; what is missing at the end is padded with \<open>=\<close>. The loops
  collect three bytes, or four characters, before they write: they are recursions by threes and by
  fours here. Decoding stops at the first character that is no digit.
\<close>

definition base64_chars :: string where
  "base64_chars =
     ''ABCDEFGHIJKLMNOPQRSTUVWXYZ'' @ ''abcdefghijklmnopqrstuvwxyz'' @ ''0123456789+/''"

definition is_base64 :: "char \<Rightarrow> bool" where
  "is_base64 ch \<longleftrightarrow>
     (let c = of_char ch :: nat
      in c = 43 \<or> 47 \<le> c \<and> c \<le> 57 \<or> 65 \<le> c \<and> c \<le> 90 \<or> 97 \<le> c \<and> c \<le> 122)"

text \<open>\<open>char_array_4\<close> from \<open>char_array_3\<close>.\<close>

definition base64_digits :: "byte \<Rightarrow> byte \<Rightarrow> byte \<Rightarrow> byte list" where
  "base64_digits a b c =
     [drop_bit 2 (a AND 0xFC),
      push_bit 4 (a AND 0x03) + drop_bit 4 (b AND 0xF0),
      push_bit 2 (b AND 0x0F) + drop_bit 6 (c AND 0xC0),
      c AND 0x3F]"

definition base64_char :: "byte \<Rightarrow> char" where
  "base64_char d = base64_chars ! unat d"

fun base64_encode :: "byte list \<Rightarrow> string" where
  "base64_encode (a # b # c # bs) = map base64_char (base64_digits a b c) @ base64_encode bs"
| "base64_encode [a, b] = map base64_char (take 3 (base64_digits a b 0)) @ ''=''"
| "base64_encode [a] = map base64_char (take 2 (base64_digits a 0 0)) @ ''==''"
| "base64_encode [] = []"

text \<open>\<open>find\<close>, with \<open>npos\<close> cast to a byte for a character that is no digit.\<close>

fun find_from :: "nat \<Rightarrow> char \<Rightarrow> string \<Rightarrow> byte" where
  "find_from k c [] = 0xFF"
| "find_from k c (x # xs) = (if x = c then of_nat k else find_from (Suc k) c xs)"

definition base64_value :: "char \<Rightarrow> byte" where
  "base64_value c = find_from 0 c base64_chars"

text \<open>\<open>char_array_3\<close> from \<open>char_array_4\<close>.\<close>

definition base64_bytes :: "byte \<Rightarrow> byte \<Rightarrow> byte \<Rightarrow> byte \<Rightarrow> byte list" where
  "base64_bytes p q r s =
     [push_bit 2 p + drop_bit 4 (q AND 0x30),
      push_bit 4 (q AND 0x0F) + drop_bit 2 (r AND 0x3C),
      push_bit 6 (r AND 0x03) + s]"

fun base64_decode_digits :: "string \<Rightarrow> byte list" where
  "base64_decode_digits (p # q # r # s # cs) =
     base64_bytes (base64_value p) (base64_value q) (base64_value r) (base64_value s) @ base64_decode_digits cs"
| "base64_decode_digits [p, q, r] =
     take 2 (base64_bytes (base64_value p) (base64_value q) (base64_value r) (base64_value (CHR 0x00)))"
| "base64_decode_digits [p, q] =
     take 1 (base64_bytes (base64_value p) (base64_value q) (base64_value (CHR 0x00)) (base64_value (CHR 0x00)))"
| "base64_decode_digits [p] = []"
| "base64_decode_digits [] = []"

definition base64_decode :: "string \<Rightarrow> byte list" where
  "base64_decode input = base64_decode_digits (takeWhile (\<lambda>c. c \<noteq> CHR ''='' \<and> is_base64 c) input)"

subsection \<open>Decoding inverts encoding\<close>

lemma base64_chars_distinct: "distinct base64_chars" "length base64_chars = 64"
  by (simp_all add: base64_chars_def)

lemma base64_chars_valid: "list_all (\<lambda>c. c \<noteq> CHR ''='' \<and> is_base64 c) base64_chars"
  by (simp add: base64_chars_def is_base64_def Let_def)

lemma find_from_nth: "distinct xs \<Longrightarrow> i < length xs \<Longrightarrow> find_from k (xs ! i) xs = of_nat (k + i)"
proof (induction xs arbitrary: i k)
  case (Cons x xs)
  then show ?case by (cases i) auto
qed simp

lemma base64_value_char: "d < 64 \<Longrightarrow> base64_value (base64_char d) = d"
  using find_from_nth[OF base64_chars_distinct(1), of "unat d" 0] base64_chars_distinct(2)
  by (simp add: base64_value_def base64_char_def word_less_nat_alt)

lemma base64_char_valid: "d < 64 \<Longrightarrow> base64_char d \<noteq> CHR ''='' \<and> is_base64 (base64_char d)"
proof -
  assume "d < 64"
  then have "unat d < length base64_chars"
    using base64_chars_distinct(2) by (simp add: word_less_nat_alt)
  then have "base64_chars ! unat d \<in> set base64_chars" by (rule nth_mem)
  with base64_chars_valid show ?thesis unfolding base64_char_def list_all_iff by (rule bspec)
qed

text \<open>The digits of three bytes are small, and hold the bytes.\<close>

lemma six_bits: "d AND 0x3F = d \<Longrightarrow> d < (64 :: byte)"
proof -
  have "d AND 0x3F < 64" by (rule le_less_trans[of _ "0x3F"]) (simp_all add: word_and_le1)
  then show "d AND 0x3F = d \<Longrightarrow> d < (64 :: byte)" by simp
qed

text \<open>Bytes bit by bit.\<close>

lemma byte_bits_all: "(\<forall>n < 8. P n) \<longleftrightarrow> P 0 \<and> P 1 \<and> P 2 \<and> P 3 \<and> P 4 \<and> P 5 \<and> P 6 \<and> P (7 :: nat)"
proof -
  have "n < 8 \<longleftrightarrow> n \<in> {0, 1, 2, 3, 4, 5, 6, 7}" for n :: nat by auto
  then show ?thesis by auto
qed

lemma byte_eqI: "\<forall>n < 8. bit a n = bit b n \<Longrightarrow> a = (b :: byte)"
  by (rule bit_eqI) simp

lemma byte_add_or: "\<forall>n < 8. \<not> (bit a n \<and> bit b n) \<Longrightarrow> a + b = a OR (b :: byte)"
  by (rule disjunctive_add) (use bit_imp_le_length[of a] in force)

lemmas byte_bits =
  byte_bits_all bit_and_iff bit_or_iff bit_push_bit_iff bit_drop_bit_eq

text \<open>The sums are of disjoint bits.\<close>

lemma base64_or:
  "push_bit 4 (a AND 0x03) + drop_bit 4 (b AND 0xF0) = push_bit 4 (a AND 0x03) OR drop_bit 4 (b AND 0xF0)"
  "push_bit 2 (a AND 0x0F) + drop_bit 6 (b AND 0xC0) = push_bit 2 (a AND 0x0F) OR drop_bit 6 (b AND 0xC0)"
  "push_bit 2 (a AND 0x3F) + drop_bit 4 (b AND 0x30) = push_bit 2 (a AND 0x3F) OR drop_bit 4 (b AND 0x30)"
  "push_bit 4 (a AND 0x0F) + drop_bit 2 (b AND 0x3C) = push_bit 4 (a AND 0x0F) OR drop_bit 2 (b AND 0x3C)"
  "push_bit 6 (a AND 0x03) + (b AND 0x3F) = push_bit 6 (a AND 0x03) OR (b AND 0x3F)"
  for a b :: byte
  by (rule byte_add_or; simp add: byte_bits)+

lemma base64_digits_low: "list_all (\<lambda>d. d AND 0x3F = d) (base64_digits a b c)"
  unfolding base64_digits_def base64_or by (simp; intro conjI byte_eqI; simp add: byte_bits)

lemma base64_digits_less: "list_all (\<lambda>d. d < 64) (base64_digits a b c)"
  using base64_digits_low[of a b c] by (auto simp: list_all_iff intro: six_bits)

lemma base64_bytes_digits:
  "base64_bytes (base64_digits a b c ! 0) (base64_digits a b c ! 1) (base64_digits a b c ! 2)
     (base64_digits a b c ! 3) = [a, b, c]"
proof -
  let ?d = "base64_digits a b c"
  have low: "?d ! 0 AND 0x3F = ?d ! 0" "?d ! 3 AND 0x3F = ?d ! 3"
    using base64_digits_low[of a b c] by (simp_all add: base64_digits_def)
  have "base64_bytes (?d ! 0) (?d ! 1) (?d ! 2) (?d ! 3) =
      [push_bit 2 (?d ! 0 AND 0x3F) + drop_bit 4 (?d ! 1 AND 0x30),
       push_bit 4 (?d ! 1 AND 0x0F) + drop_bit 2 (?d ! 2 AND 0x3C),
       push_bit 6 (?d ! 2 AND 0x03) + (?d ! 3 AND 0x3F)]"
    by (simp only: base64_bytes_def low)
  also have "\<dots> = [a, b, c]"
    unfolding base64_or unfolding base64_digits_def base64_or
    by (simp; intro conjI byte_eqI; simp add: byte_bits) (simp add: numeral_2_eq_2 numeral_3_eq_3)
  finally show ?thesis .
qed

text \<open>Groups.\<close>

lemma digit_chars:
  "i < 4 \<Longrightarrow> base64_value (base64_char (base64_digits a b c ! i)) = base64_digits a b c ! i"
  "i < 4 \<Longrightarrow> base64_char (base64_digits a b c ! i) \<noteq> CHR ''=''"
  "i < 4 \<Longrightarrow> is_base64 (base64_char (base64_digits a b c ! i))"
proof -
  have "length (base64_digits a b c) = 4" by (simp add: base64_digits_def)
  then have "base64_digits a b c ! i < 64" if "i < 4"
    using base64_digits_less[of a b c] that by (simp add: list_all_length)
  then show "i < 4 \<Longrightarrow> base64_value (base64_char (base64_digits a b c ! i)) = base64_digits a b c ! i"
    "i < 4 \<Longrightarrow> base64_char (base64_digits a b c ! i) \<noteq> CHR ''=''"
    "i < 4 \<Longrightarrow> is_base64 (base64_char (base64_digits a b c ! i))"
    using base64_value_char base64_char_valid by simp_all
qed

lemma base64_digits_list:
  "base64_digits a b c =
     [base64_digits a b c ! 0, base64_digits a b c ! 1, base64_digits a b c ! 2, base64_digits a b c ! 3]"
  by (simp add: base64_digits_def)

definition base64_clean :: "string \<Rightarrow> string" where
  "base64_clean = takeWhile (\<lambda>c. c \<noteq> CHR ''='' \<and> is_base64 c)"

lemma base64_group:
  "base64_clean (map base64_char (base64_digits a b c) @ cs) =
     map base64_char (base64_digits a b c) @ base64_clean cs"
  "base64_clean (map base64_char (take 3 (base64_digits a b c)) @ ''='') =
     map base64_char (take 3 (base64_digits a b c))"
  "base64_clean (map base64_char (take 2 (base64_digits a b c)) @ ''=='') =
     map base64_char (take 2 (base64_digits a b c))"
  using digit_chars(2,3)[of _ a b c]
  by (subst (1 2) base64_digits_list, simp add: base64_clean_def)+

lemma base64_group_decode:
  "base64_decode_digits (map base64_char (base64_digits a b c) @ cs) = [a, b, c] @ base64_decode_digits cs"
  "base64_decode_digits (map base64_char (take 3 (base64_digits a b c))) = [a, b]"
  "base64_decode_digits (map base64_char (take 2 (base64_digits a b c))) = [a]"
proof -
  let ?d = "base64_digits a b c"
  have same: "take 2 (base64_bytes p q r s) = take 2 (base64_bytes p q r s')"
    "take 1 (base64_bytes p q r s) = take 1 (base64_bytes p q r' s')" for p q r r' s s'
    by (simp_all add: base64_bytes_def)
  note bytes = base64_bytes_digits[of a b c, unfolded One_nat_def]
  show "base64_decode_digits (map base64_char ?d @ cs) = [a, b, c] @ base64_decode_digits cs"
    by (subst base64_digits_list) (simp add: digit_chars bytes)
  have "base64_decode_digits (map base64_char (take 3 ?d)) =
      take 2 (base64_bytes (?d ! 0) (?d ! 1) (?d ! 2) (base64_value (CHR 0x00)))"
    by (subst base64_digits_list) (simp add: digit_chars)
  also have "\<dots> = [a, b]" by (subst same(1)[of _ _ _ _ "?d ! 3"]) (simp add: bytes)
  finally show "base64_decode_digits (map base64_char (take 3 ?d)) = [a, b]" .
  have "base64_decode_digits (map base64_char (take 2 ?d)) =
      take 1 (base64_bytes (?d ! 0) (?d ! 1) (base64_value (CHR 0x00)) (base64_value (CHR 0x00)))"
    by (subst base64_digits_list) (simp add: digit_chars)
  also have "\<dots> = [a]" by (subst same(2)[of _ _ _ _ "?d ! 2" "?d ! 3"]) (simp add: bytes)
  finally show "base64_decode_digits (map base64_char (take 2 ?d)) = [a]" .
qed

lemma base64_clean_Nil [simp]: "base64_clean [] = []"
  by (simp add: base64_clean_def)

lemma base64_decode_encode: "base64_decode (base64_encode bs) = bs"
  unfolding base64_decode_def base64_clean_def[symmetric]
  by (induction bs rule: base64_encode.induct) (simp_all add: base64_group base64_group_decode)

end
