(* ===== verification/Sha1.thy ===== *)
theory Sha1
  imports Prelude
begin

unbundle bit_operations_syntax

section \<open>websocketpp/sha1.hpp\<close>

text \<open>
  The digest of the opening handshake. Words are 32 bits wide. The round buffer \<open>w\<close> has 80 words that
  nothing initialises: what it holds at first is an argument. \<open>calc\<close> stores the length in bits in one
  word, so it computes the SHA-1 of FIPS 180-4 for messages of less than \<open>2 ^ 29\<close> bytes.
\<close>

subsection \<open>The code\<close>

definition rol :: "uint4 \<Rightarrow> nat \<Rightarrow> uint4" where
  "rol v steps = push_bit steps v OR drop_bit (32 - steps) v"

definition clearWBuffert :: "uint4 list \<Rightarrow> uint4 list" where
  "clearWBuffert w = replicate 16 0 @ drop 16 w"

type_synonym sha1_state = "uint4 \<times> uint4 \<times> uint4 \<times> uint4 \<times> uint4"

fun sha1macro :: "uint4 \<Rightarrow> uint4 \<Rightarrow> uint4 \<Rightarrow> sha1_state \<Rightarrow> sha1_state" where
  "sha1macro func val x (a, b, c, d, e) = (rol a 5 + func + e + val + x, a, rol b 30, c, d)"

text \<open>The function and the constant of a round; the last three loops first extend \<open>w\<close>.\<close>

fun sha1_func :: "nat \<Rightarrow> sha1_state \<Rightarrow> uint4" where
  "sha1_func r (a, b, c, d, e) =
     (if r < 20 then (b AND c) OR (NOT b AND d)
      else if r < 40 then b XOR c XOR d
      else if r < 60 then (b AND c) OR (b AND d) OR (c AND d)
      else b XOR c XOR d)"

definition sha1_val :: "nat \<Rightarrow> uint4" where
  "sha1_val r =
     (if r < 20 then 0x5a827999 else if r < 40 then 0x6ed9eba1 else if r < 60 then 0x8f1bbcdc else 0xca62c1d6)"

definition sha1_extend :: "nat \<Rightarrow> uint4 list \<Rightarrow> uint4" where
  "sha1_extend r w = rol (w ! (r - 3) XOR w ! (r - 8) XOR w ! (r - 14) XOR w ! (r - 16)) 1"

definition sha1_round :: "nat \<Rightarrow> sha1_state \<times> uint4 list \<Rightarrow> sha1_state \<times> uint4 list" where
  "sha1_round r = (\<lambda>(s, w).
     let w = (if r < 16 then w else w[r := sha1_extend r w])
     in (sha1macro (sha1_func r s) (sha1_val r) (w ! r) s, w))"

fun add_state :: "sha1_state \<Rightarrow> sha1_state \<Rightarrow> sha1_state" where
  "add_state (r0, r1, r2, r3, r4) (a, b, c, d, e) = (r0 + a, r1 + b, r2 + c, r3 + d, r4 + e)"

definition innerHash :: "sha1_state \<times> uint4 list \<Rightarrow> sha1_state \<times> uint4 list" where
  "innerHash = (\<lambda>(result, w). case fold sha1_round [0..<80] (result, w) of (s, w) \<Rightarrow> (add_state result s, w))"

definition be_word4 :: "byte \<Rightarrow> byte \<Rightarrow> byte \<Rightarrow> byte \<Rightarrow> uint4" where
  "be_word4 b0 b1 b2 b3 = ucast b3 OR push_bit 8 (ucast b2) OR push_bit 16 (ucast b1) OR push_bit 24 (ucast b0)"

definition block_words :: "byte list \<Rightarrow> uint4 list" where
  "block_words bs =
     map (\<lambda>j. be_word4 (bs ! (4 * j)) (bs ! (4 * j + 1)) (bs ! (4 * j + 2)) (bs ! (4 * j + 3))) [0..<16]"

function full_blocks :: "byte list \<Rightarrow> sha1_state \<times> uint4 list \<Rightarrow> byte list \<times> sha1_state \<times> uint4 list" where
  "full_blocks bs (s, w) =
     (if 64 \<le> length bs then full_blocks (drop 64 bs) (innerHash (s, block_words bs @ drop 16 w))
      else (bs, s, w))"
  by pat_completeness auto
termination
  by (relation "measure (\<lambda>(bs, _). length bs)") auto

declare full_blocks.simps [simp del]

definition put_byte :: "nat \<Rightarrow> byte \<Rightarrow> uint4 list \<Rightarrow> uint4 list" where
  "put_byte i b w = w[i div 4 := w ! (i div 4) OR push_bit ((3 - i mod 4) * 8) (ucast b)]"

fun put_bytes :: "nat \<Rightarrow> byte list \<Rightarrow> uint4 list \<Rightarrow> uint4 list" where
  "put_bytes i [] w = w"
| "put_bytes i (b # bs) w = put_bytes (Suc i) bs (put_byte i b w)"

fun store_hash :: "sha1_state \<Rightarrow> byte list" where
  "store_hash (r0, r1, r2, r3, r4) =
     concat (map (\<lambda>r. map (\<lambda>k. ucast (drop_bit ((3 - k) * 8) r) :: byte) [0..<4]) [r0, r1, r2, r3, r4])"

definition sha1_init :: sha1_state where
  "sha1_init = (0x67452301, 0xefcdab89, 0x98badcfe, 0x10325476, 0xc3d2e1f0)"

definition sha1_calc :: "byte list \<Rightarrow> uint4 list \<Rightarrow> byte list" where
  "sha1_calc src w =
     (case full_blocks src (sha1_init, w) of
        (rest, s, w) \<Rightarrow>
          let w = put_bytes 0 rest (clearWBuffert w);
              w = put_byte (length rest) 0x80 w;
              (s, w) = (if 56 \<le> length rest then (case innerHash (s, w) of (s, w) \<Rightarrow> (s, clearWBuffert w)) else (s, w));
              w = w[15 := push_bit 3 (of_nat (length src))]
          in store_hash (fst (innerHash (s, w))))"

subsection \<open>The standard\<close>

text \<open>FIPS 180-4, 6.1: the message schedule, the rounds, and the padding.\<close>

fun fips_schedule :: "nat \<Rightarrow> uint4 list \<Rightarrow> uint4 list" where
  "fips_schedule 0 ws = ws"
| "fips_schedule (Suc n) ws =
     (let w = fips_schedule n ws; t = length w
      in w @ [rol (w ! (t - 3) XOR w ! (t - 8) XOR w ! (t - 14) XOR w ! (t - 16)) 1])"

fun fips_f :: "nat \<Rightarrow> uint4 \<Rightarrow> uint4 \<Rightarrow> uint4 \<Rightarrow> uint4" where
  "fips_f t x y z =
     (if t < 20 then (x AND y) XOR (NOT x AND z)
      else if 40 \<le> t \<and> t < 60 then (x AND y) XOR (x AND z) XOR (y AND z)
      else x XOR y XOR z)"

fun fips_step :: "uint4 list \<Rightarrow> nat \<Rightarrow> sha1_state \<Rightarrow> sha1_state" where
  "fips_step w t (a, b, c, d, e) =
     (rol a 5 + fips_f t b c d + e + sha1_val t + w ! t, a, rol b 30, c, d)"

definition fips_block :: "sha1_state \<Rightarrow> uint4 list \<Rightarrow> sha1_state" where
  "fips_block h ws = add_state h (fold (fips_step (fips_schedule 64 ws)) [0..<80] h)"

definition be_bytes :: "nat \<Rightarrow> nat \<Rightarrow> byte list" where
  "be_bytes k n = map (\<lambda>i. of_nat (n div 256 ^ (k - 1 - i))) [0..<k]"

definition fips_pad :: "byte list \<Rightarrow> byte list" where
  "fips_pad m = m @ [0x80] @ replicate (nat ((55 - int (length m)) mod 64)) 0 @ be_bytes 8 (8 * length m)"

function fips_blocks :: "byte list \<Rightarrow> sha1_state \<Rightarrow> sha1_state" where
  "fips_blocks bs h =
     (if 64 \<le> length bs then fips_blocks (drop 64 bs) (fips_block h (block_words bs)) else h)"
  by pat_completeness auto
termination
  by (relation "measure (\<lambda>(bs, _). length bs)") auto

declare fips_blocks.simps [simp del]

definition fips_sha1 :: "byte list \<Rightarrow> byte list" where
  "fips_sha1 m = store_hash (fips_blocks (fips_pad m) sha1_init)"

subsection \<open>One block\<close>

lemma length_fips_schedule [simp]: "length (fips_schedule n ws) = length ws + n"
  by (induction n) (simp_all add: Let_def)

lemma fips_schedule_prefix: "n \<le> m \<Longrightarrow> take (length ws + n) (fips_schedule m ws) = fips_schedule n ws"
  by (induction m) (auto simp: Let_def le_Suc_eq)

lemma ch_or: "(b AND c) OR (NOT b AND d) = (b AND c) XOR (NOT b AND d)" for b c d :: uint4
  by (intro bit_eqI) (auto simp: bit_simps)

lemma maj_or: "(b AND c) OR (b AND d) OR (c AND d) = (b AND c) XOR (b AND d) XOR (c AND d)" for b c d :: uint4
  by (intro bit_eqI) (auto simp: bit_simps)

lemma sha1macro_fips: "w ! r = w' ! r \<Longrightarrow> sha1macro (sha1_func r s) (sha1_val r) (w ! r) s = fips_step w' r s"
  by (cases s) (simp add: ch_or maj_or)

lemma schedule_nth:
  assumes "length ws = 16" "16 \<le> r" "r < 80"
  shows "fips_schedule 64 ws ! r = sha1_extend r (fips_schedule (r - 16) ws)"
proof -
  have "fips_schedule (Suc (r - 16)) ws ! r = sha1_extend r (fips_schedule (r - 16) ws)"
    using assms by (simp add: Let_def sha1_extend_def nth_append)
  moreover have "fips_schedule (Suc (r - 16)) ws = take (Suc r) (fips_schedule 64 ws)"
    using fips_schedule_prefix[of "Suc (r - 16)" 64 ws] assms by simp
  ultimately show ?thesis by simp
qed

lemma rounds_fips:
  assumes "length w = 80" "r \<le> 80"
  shows "\<exists>w'. fold sha1_round [0..<r] (s, w) = (fold (fips_step (fips_schedule 64 (take 16 w))) [0..<r] s, w') \<and>
    length w' = 80 \<and> take (max r 16) w' = fips_schedule (r - 16) (take 16 w)"
  using assms(2)
proof (induction r)
  case 0
  then show ?case using assms by simp
next
  case (Suc r)
  let ?W = "fips_schedule 64 (take 16 w)" and ?ws = "take 16 w"
  have ws: "length ?ws = 16" using assms(1) by simp
  obtain w' where fold: "fold sha1_round [0..<r] (s, w) = (fold (fips_step ?W) [0..<r] s, w')"
    and w': "length w' = 80" "take (max r 16) w' = fips_schedule (r - 16) ?ws"
    using Suc by auto
  have pre: "fips_schedule (r - 16) ?ws = take (max r 16) ?W"
  proof -
    have "max r 16 = length ?ws + (r - 16)" using ws by simp
    with fips_schedule_prefix[of "r - 16" 64 ?ws] Suc.prems show ?thesis by simp
  qed
  let ?w = "if r < 16 then w' else w'[r := sha1_extend r w']"
  have nth: "?w ! r = ?W ! r"
  proof (cases "r < 16")
    case True
    then have "w' ! r = take (max r 16) w' ! r" by simp
    also have "\<dots> = ?W ! r" unfolding w'(2) pre using True by simp
    finally show ?thesis using True by simp
  next
    case False
    have "w' ! i = fips_schedule (r - 16) ?ws ! i" if "i < r" for i
      using w'(2) that False by (metis max.absorb1 not_less nth_take)
    then have "sha1_extend r w' = sha1_extend r (fips_schedule (r - 16) ?ws)"
      using False by (simp add: sha1_extend_def)
    with False schedule_nth[OF ws, of r] Suc.prems w'(1) show ?thesis by simp
  qed
  have "take (max (Suc r) 16) ?w = fips_schedule (Suc r - 16) ?ws"
  proof (cases "r < 16")
    case True
    with w'(2) show ?thesis by (simp add: max_def)
  next
    case False
    then have "take (Suc r) ?w = take r w' @ [?W ! r]"
      using nth w'(1) Suc.prems by (simp add: take_Suc_conv_app_nth)
    also have "\<dots> = fips_schedule (r - 16) ?ws @ [?W ! r]" using w'(2) False by (simp add: max_def)
    also have "\<dots> = take (Suc r) ?W"
      using pre False Suc.prems ws by (simp add: take_Suc_conv_app_nth max_def)
    also have "\<dots> = fips_schedule (Suc (r - 16)) ?ws"
      using fips_schedule_prefix[of "Suc (r - 16)" 64 ?ws] ws False Suc.prems by simp
    also have "Suc (r - 16) = Suc r - 16" using False by simp
    finally show ?thesis using False by (simp add: max_def)
  qed
  moreover have "fold sha1_round [0..<Suc r] (s, w) = (fold (fips_step ?W) [0..<Suc r] s, ?w)"
    using sha1macro_fips[OF nth] by (simp add: fold sha1_round_def Let_def)
  ultimately show ?case using w'(1) by (intro exI[of _ ?w]) simp
qed

lemma innerHash_fips:
  assumes "length w = 80"
  shows "\<exists>w'. innerHash (s, w) = (fips_block s (take 16 w), w') \<and> length w' = 80"
  using rounds_fips[OF assms, of 80 s] by (auto simp: innerHash_def fips_block_def)

lemma full_blocks_fips:
  "length w = 80 \<Longrightarrow> \<exists>w'. full_blocks bs (s, w) =
     (drop (64 * (length bs div 64)) bs, fips_blocks (take (64 * (length bs div 64)) bs) s, w') \<and> length w' = 80"
proof (induction bs "(s, w)" arbitrary: s w rule: full_blocks.induct)
  case (1 bs s w)
  show ?case
  proof (cases "64 \<le> length bs")
    case True
    let ?w = "block_words bs @ drop 16 w"
    have w: "length ?w = 80" "take 16 ?w = block_words bs" using 1(2) by (simp_all add: block_words_def)
    obtain w1 where one: "innerHash (s, ?w) = (fips_block s (block_words bs), w1)" "length w1 = 80"
      using innerHash_fips[OF w(1), of s] w(2) by auto
    have IH: "\<exists>w'. full_blocks (drop 64 bs) (fips_block s (block_words bs), w1) =
        (drop (64 * (length (drop 64 bs) div 64)) (drop 64 bs),
         fips_blocks (take (64 * (length (drop 64 bs) div 64)) (drop 64 bs)) (fips_block s (block_words bs)), w') \<and>
        length w' = 80"
      using 1(1)[OF True] one by simp
    have n: "64 * (length bs div 64) = 64 * (length (drop 64 bs) div 64) + 64"
      using True by (simp add: le_div_geq)
    let ?t = "take (64 * (length bs div 64)) bs"
    have t: "64 \<le> length ?t" "drop 64 ?t = take (64 * (length (drop 64 bs) div 64)) (drop 64 bs)"
      "block_words ?t = block_words bs"
      using True n by (simp_all add: block_words_def drop_take)
    show ?thesis
      using IH one t True n
      by (subst full_blocks.simps, subst fips_blocks.simps) (simp add: add.commute)
  next
    case False
    then have "length bs div 64 = 0" by simp
    with False 1(2) show ?thesis by (subst full_blocks.simps, subst fips_blocks.simps) simp
  qed
qed

subsection \<open>The last blocks\<close>

definition byt :: "byte list \<Rightarrow> nat \<Rightarrow> byte" where
  "byt bs i = (if i < length bs then bs ! i else 0)"

definition word_at :: "byte list \<Rightarrow> nat \<Rightarrow> uint4" where
  "word_at bs j = be_word4 (byt bs (4 * j)) (byt bs (4 * j + 1)) (byt bs (4 * j + 2)) (byt bs (4 * j + 3))"

lemma byt_snoc: "byt (bs @ [b]) i = (if i = length bs then b else byt bs i)"
  by (auto simp: byt_def nth_append)

lemma byt_past: "length bs \<le> i \<Longrightarrow> byt bs i = 0"
  by (simp add: byt_def)

lemma word_at_snoc:
  "word_at (bs @ [b]) j =
     (if j = length bs div 4 then word_at bs j OR push_bit ((3 - length bs mod 4) * 8) (ucast b) else word_at bs j)"
proof (cases "j = length bs div 4")
  case True
  define r where "r = length bs mod 4"
  then have r: "length bs mod 4 = r" "length bs = 4 * j + r" "r < 4" unfolding True by simp_all
  have "word_at (bs @ [b]) j = word_at bs j OR push_bit ((3 - r) * 8) (ucast b)"
  proof -
    consider "r = 0" | "r = 1" | "r = 2" | "r = 3" using r(3) by linarith
    then show ?thesis
      using r(2)
      by cases (simp_all add: word_at_def byt_snoc byt_past be_word4_def or.assoc or.commute or.left_commute)
  qed
  with True r(1) show ?thesis by simp
next
  case False
  then have "length bs \<noteq> 4 * j" "length bs \<noteq> 4 * j + 1" "length bs \<noteq> 4 * j + 2" "length bs \<noteq> 4 * j + 3"
    by auto
  with False show ?thesis by (auto simp: word_at_def byt_snoc)
qed

lemma put_byte_word:
  assumes "take 16 w = map (word_at xs) [0..<16]" "length xs < 64" "16 \<le> length w"
  shows "take 16 (put_byte (length xs) b w) = map (word_at (xs @ [b])) [0..<16]"
proof (rule nth_equalityI)
  fix j assume "j < length (take 16 (put_byte (length xs) b w))"
  then have j: "j < 16" by simp
  have w: "w ! i = word_at xs i" if "i < 16" for i
    using assms(1) that by (metis diff_zero length_upt map_nth nth_map nth_take nth_upt add_0)
  have "length xs div 4 < 16" using assms(2) by simp
  with j w assms(3) show "take 16 (put_byte (length xs) b w) ! j = map (word_at (xs @ [b])) [0..<16] ! j"
    by (simp add: put_byte_def word_at_snoc nth_list_update)
qed (use assms(3) in \<open>simp add: put_byte_def\<close>)

lemma length_put_byte [simp]: "length (put_byte i b w) = length w"
  by (simp add: put_byte_def)

lemma length_put_bytes [simp]: "length (put_bytes i bs w) = length w"
  by (induction bs arbitrary: i w) simp_all

lemma put_bytes_words:
  "take 16 w = map (word_at xs) [0..<16] \<Longrightarrow> length xs + length bs \<le> 64 \<Longrightarrow> 16 \<le> length w \<Longrightarrow>
     take 16 (put_bytes (length xs) bs w) = map (word_at (xs @ bs)) [0..<16]"
proof (induction bs arbitrary: xs w)
  case (Cons b bs)
  have "take 16 (put_byte (length xs) b w) = map (word_at (xs @ [b])) [0..<16]"
    by (rule put_byte_word) (use Cons.prems in simp_all)
  from Cons.IH[OF this] Cons.prems show ?case by simp
qed simp

lemma word_at_Nil: "word_at [] = (\<lambda>j. 0)"
  by (simp add: word_at_def byt_def be_word4_def fun_eq_iff)

lemma clear_words: "length w = 80 \<Longrightarrow> take 16 (clearWBuffert w) = map (word_at []) [0..<16] \<and> length (clearWBuffert w) = 80"
  by (simp add: clearWBuffert_def word_at_Nil map_replicate_const)

lemma words_padded:
  assumes "length xs \<le> 64"
  shows "map (word_at xs) [0..<16] = block_words (xs @ replicate (64 - length xs) 0)"
proof -
  have "(xs @ replicate (64 - length xs) 0) ! i = byt xs i" if "i < 64" for i
    using that assms by (simp add: byt_def nth_append)
  then show ?thesis by (simp add: block_words_def word_at_def)
qed

lemma be_word4_number:
  "be_word4 (of_nat (n div 256 ^ 3)) (of_nat (n div 256 ^ 2)) (of_nat (n div 256)) (of_nat n) = of_nat n"
proof -
  have d: "n div 256 = drop_bit 8 n" "n div 256 ^ 2 = drop_bit 16 n" "n div 256 ^ 3 = drop_bit 24 n"
    by (simp_all add: drop_bit_eq_div)
  show ?thesis
    unfolding d be_word4_def
  proof (rule bit_eqI)
    fix i assume "possible_bit TYPE(32 word) i"
    then consider "i < 8" | "8 \<le> i \<and> i < 16" | "16 \<le> i \<and> i < 24" | "24 \<le> i \<and> i < 32"
      by simp linarith
    then show "bit (ucast (of_nat n :: byte) OR push_bit 8 (ucast (of_nat (drop_bit 8 n) :: byte)) OR
        push_bit 16 (ucast (of_nat (drop_bit 16 n) :: byte)) OR
        push_bit 24 (ucast (of_nat (drop_bit 24 n) :: byte)) :: uint4) i = bit (of_nat n :: uint4) i"
      by cases (auto simp: bit_simps)
  qed
qed

lemma words_with_length:
  assumes "length xs \<le> 56" "n < 2 ^ 32"
  shows "block_words (xs @ replicate (56 - length xs) 0 @ be_bytes 8 n) = (map (word_at xs) [0..<16])[15 := of_nat n]"
proof (rule nth_equalityI)
  let ?b = "xs @ replicate (56 - length xs) 0 @ be_bytes 8 n"
  fix j assume "j < length (block_words ?b)"
  then have j: "j < 16" by (simp add: block_words_def)
  have low: "?b ! i = byt xs i" if "i < 56" for i
    using that assms(1) by (auto simp: byt_def nth_append)
  have high: "?b ! (56 + i) = of_nat (n div 256 ^ (7 - i))" if "i < 8" for i
    using that assms(1) by (auto simp: nth_append be_bytes_def)
  have zero: "?b ! (56 + i) = 0" if "i < 4" for i
  proof -
    have "(256 :: nat) ^ 4 \<le> 256 ^ (7 - i)" using that by (intro power_increasing) simp_all
    with assms(2) have "n div 256 ^ (7 - i) = 0" by (simp add: div_eq_0_iff)
    with high[of i] that show ?thesis by simp
  qed
  consider "j < 14" | "j = 14" | "j = 15" using j by linarith
  then show "block_words ?b ! j = (map (word_at xs) [0..<16])[15 := of_nat n] ! j"
  proof cases
    case 1
    then show ?thesis using low by (simp add: block_words_def word_at_def)
  next
    case 2
    have "word_at xs 14 = 0" using assms(1) by (simp add: word_at_def byt_def be_word4_def)
    with 2 zero[of 0] zero[of 1] zero[of 2] zero[of 3] show ?thesis
      by (simp add: block_words_def be_word4_def)
  next
    case 3
    with high[of 4] high[of 5] high[of 6] high[of 7] be_word4_number[of n] show ?thesis
      by (simp add: block_words_def)
  qed
qed (simp add: block_words_def)

lemma fips_blocks_append:
  "64 dvd length xs \<Longrightarrow> fips_blocks (xs @ ys) h = fips_blocks ys (fips_blocks xs h)"
proof (induction xs h rule: fips_blocks.induct)
  case (1 xs h)
  show ?case
  proof (cases "64 \<le> length xs")
    case True
    then have "block_words (xs @ ys) = block_words xs" by (simp add: block_words_def nth_append)
    moreover have "64 dvd length (drop 64 xs)" using 1(2) True by simp
    ultimately show ?thesis
      using 1(1)[OF True] True by (simp add: fips_blocks.simps[of "xs @ ys"] fips_blocks.simps[of xs])
  next
    case False
    with 1(2) have "xs = []" by (auto dest: dvd_imp_le)
    then show ?thesis by (simp add: fips_blocks.simps[of "[]"])
  qed
qed

lemma fips_one_block: "length b = 64 \<Longrightarrow> fips_blocks b h = fips_block h (block_words b)"
  by (subst fips_blocks.simps, subst fips_blocks.simps) simp

lemma pad_long:
  assumes "56 \<le> n" "n < 64"
  shows "nat ((55 - int n) mod 64) = 63 - n + 56"
proof -
  have "(55 - int n) mod 64 = (119 - int n) mod 64"
    using mod_add_self2[of "55 - int n" 64] by (simp add: algebra_simps)
  also have "\<dots> = 119 - int n" using assms by simp
  finally show ?thesis using assms by simp
qed

theorem sha1_calc_fips:
  assumes "length src < 2 ^ 29" "length w = 80"
  shows "sha1_calc src w = fips_sha1 src"
proof -
  let ?q = "64 * (length src div 64)"
  let ?pre = "take ?q src" and ?rest = "drop ?q src" and ?N = "8 * length src"
  let ?x = "?rest @ [0x80]"
  have n: "length ?rest = length src mod 64" by (simp add: minus_mult_div_eq_mod)
  then have n64: "length ?rest < 64" by simp
  have q: "?q \<le> length src" by simp
  obtain w1 where full: "full_blocks src (sha1_init, w) = (?rest, fips_blocks ?pre sha1_init, w1)" "length w1 = 80"
    using full_blocks_fips[OF assms(2), of src sha1_init] by auto
  let ?h = "fips_blocks ?pre sha1_init"
  let ?w2 = "put_byte (length ?rest) 0x80 (put_bytes 0 ?rest (clearWBuffert w1))"
  have w2: "take 16 ?w2 = map (word_at ?x) [0..<16]" "length ?w2 = 80"
    using put_bytes_words[where w = "clearWBuffert w1" and xs = "[]" and bs = ?rest] clear_words[OF full(2)] n64
      put_byte_word[where w = "put_bytes 0 ?rest (clearWBuffert w1)" and xs = ?rest and b = "0x80"] by simp_all
  have bits: "push_bit 3 (of_nat (length src)) = (of_nat ?N :: uint4)"
    by (simp add: push_bit_eq_mult mult.commute)
  have N: "?N < 2 ^ 32" using assms(1) by simp
  have pad: "fips_sha1 src = store_hash (fips_blocks (?x @ replicate (nat ((55 - int (length src)) mod 64)) 0 @ be_bytes 8 ?N) ?h)"
  proof -
    have "fips_pad src = ?pre @ ?x @ replicate (nat ((55 - int (length src)) mod 64)) 0 @ be_bytes 8 ?N"
      by (simp add: fips_pad_def)
    moreover have "64 dvd length ?pre" using q by simp
    ultimately show ?thesis by (simp only: fips_sha1_def fips_blocks_append)
  qed
  have z: "(55 - int (length src)) mod 64 = (55 - int (length ?rest)) mod 64"
    unfolding n by (simp add: zmod_int mod_diff_right_eq)
  show ?thesis
  proof (cases "56 \<le> length ?rest")
    case False
    then have "nat ((55 - int (length ?rest)) mod 64) = 56 - length ?x" by simp
    then have "fips_sha1 src = store_hash (fips_blocks (?x @ replicate (56 - length ?x) 0 @ be_bytes 8 ?N) ?h)"
      using pad z by simp
    also have "\<dots> = store_hash (fips_block ?h ((map (word_at ?x) [0..<16])[15 := of_nat ?N]))"
      using words_with_length[of ?x ?N] False N by (subst fips_one_block) (simp_all add: be_bytes_def)
    finally have spec: "fips_sha1 src = \<dots>" .
    let ?w3 = "?w2[15 := of_nat ?N]"
    have "take 16 ?w3 = (map (word_at ?x) [0..<16])[15 := of_nat ?N]"
      using w2 by (simp add: take_update_swap)
    with innerHash_fips[of ?w3 ?h] w2(2) spec full False bits show ?thesis
      by (auto simp: sha1_calc_def Let_def)
  next
    case True
    let ?b = "?x @ replicate (64 - length ?x) 0" and ?c = "[] @ replicate (56 - length ([] :: byte list)) 0 @ be_bytes 8 ?N"
    have x: "64 - length ?x = 63 - length ?rest" by simp
    have "replicate (nat ((55 - int (length src)) mod 64)) (0 :: byte) = replicate (64 - length ?x) 0 @ replicate 56 0"
      unfolding z pad_long[OF True n64] x replicate_add ..
    then have "fips_sha1 src = store_hash (fips_blocks (?b @ ?c) ?h)"
      unfolding pad by simp
    have b: "length ?b = 64" using n64 by simp
    then have b': "64 dvd length ?b" by (simp only: dvd_refl)
    have c: "length ?c = 64" by (simp add: be_bytes_def)
    note \<open>fips_sha1 src = store_hash (fips_blocks (?b @ ?c) ?h)\<close>
    also have "store_hash (fips_blocks (?b @ ?c) ?h) =
        store_hash (fips_block (fips_block ?h (block_words ?b)) (block_words ?c))"
      unfolding fips_blocks_append[OF b'] fips_one_block[OF b] fips_one_block[OF c] ..
    finally have spec: "fips_sha1 src =
        store_hash (fips_block (fips_block ?h (map (word_at ?x) [0..<16])) ((map (word_at []) [0..<16])[15 := of_nat ?N]))"
      using words_padded[of ?x] words_with_length[of "[]" ?N] n64 N by simp
    obtain w4 where w4: "innerHash (?h, ?w2) = (fips_block ?h (map (word_at ?x) [0..<16]), w4)" "length w4 = 80"
      using innerHash_fips[OF w2(2), of ?h] w2(1) by auto
    let ?w5 = "(clearWBuffert w4)[15 := of_nat ?N]"
    have w5: "take 16 ?w5 = (map (word_at []) [0..<16])[15 := of_nat ?N]" "length ?w5 = 80"
      using clear_words[OF w4(2)] by (simp_all add: take_update_swap)
    with innerHash_fips[OF w5(2), of "fips_block ?h (map (word_at ?x) [0..<16])"] spec full True bits w4
    show ?thesis by (auto simp: sha1_calc_def Let_def)
  qed
qed

end
