(* ===== verification/Ws_Handshake.thy ===== *)
theory Ws_Handshake
  imports Http_Reply Ws_Uri Ws_Errors Base64 Sha1
begin

section \<open>The opening handshake\<close>

text \<open>
  processors/hybi13.hpp and processors/processor.hpp: the request a client sends, the check of the
  server's reply, and the server's side of both, which says what a correct reply is. The four random
  words of the key, and what the 80 words of the digest's buffer hold before it is used, are arguments.
\<close>

definition upgrade_token :: string where "upgrade_token = ''websocket''"
definition connection_token :: string where "connection_token = ''upgrade''"
definition handshake_guid :: string where "handshake_guid = ''258EAFA5-E914-47DA-95CA-C5AB0DC85B11''"

definition octets :: "string \<Rightarrow> byte list" where
  "octets s = map of_char s"

text \<open>\<open>utility::ci_find_substr(...) != end\<close>.\<close>

fun ci_prefix :: "string \<Rightarrow> string \<Rightarrow> bool" where
  "ci_prefix [] _ \<longleftrightarrow> True"
| "ci_prefix (_ # _) [] \<longleftrightarrow> False"
| "ci_prefix (n # ns) (h # hs) \<longleftrightarrow> toupper n = toupper h \<and> ci_prefix ns hs"

fun ci_contains :: "string \<Rightarrow> string \<Rightarrow> bool" where
  "ci_contains [] needle \<longleftrightarrow> ci_prefix needle []"
| "ci_contains (h # hs) needle \<longleftrightarrow> ci_prefix needle (h # hs) \<or> ci_contains hs needle"

definition is_websocket_handshake :: "'a parser_scheme \<Rightarrow> bool" where
  "is_websocket_handshake r \<longleftrightarrow>
     (if \<not> ci_contains (get_header ''Upgrade'' r) upgrade_token then False
      else if \<not> ci_contains (get_header ''Connection'' r) connection_token then False
      else True)"

definition validate_handshake :: "request \<Rightarrow> ws_error option" where
  "validate_handshake r =
     (if m_method r \<noteq> ''GET'' then Some Invalid_Http_Method
      else if m_version r \<noteq> ''HTTP/1.1'' then Some Invalid_Http_Version
      else if get_header ''Sec-WebSocket-Key'' r = [] then Some Missing_Required_Header
      else None)"

definition process_handshake_key :: "uint4 list \<Rightarrow> string \<Rightarrow> string" where
  "process_handshake_key w key = base64_encode (sha1_calc (octets (key @ handshake_guid)) w)"

definition process_handshake :: "uint4 list \<Rightarrow> request \<Rightarrow> string \<Rightarrow> response \<Rightarrow> response http" where
  "process_handshake w request subprotocol res =
     bind_http (append_header ''Upgrade'' upgrade_token
       (replace_header ''Sec-WebSocket-Accept'' (process_handshake_key w (get_header ''Sec-WebSocket-Key'' request)) res)) (\<lambda>res.
     bind_http (append_header ''Connection'' connection_token res) (\<lambda>res.
     Inr (if subprotocol \<noteq> [] then replace_header ''Sec-WebSocket-Protocol'' subprotocol res else res)))"

text \<open>A random word is stored in the byte order of the machine, which is little-endian.\<close>

definition raw_key :: "uint4 list \<Rightarrow> byte list" where
  "raw_key rs = concat (map (\<lambda>r. map (\<lambda>i. ucast (drop_bit (8 * i) r)) [0..<4]) (take 4 rs))"

fun join_commas :: "string list \<Rightarrow> string" where
  "join_commas [] = []"
| "join_commas (s # ss) = s @ concat (map (\<lambda>t. '', '' @ t) ss)"

definition client_handshake_request :: "uint4 list \<Rightarrow> ws_uri \<Rightarrow> string list \<Rightarrow> request \<Rightarrow> request http" where
  "client_handshake_request rs uri subprotocols req =
     bind_http (set_method ''GET'' req) (\<lambda>req.
     let req = set_version ''HTTP/1.1'' (set_uri (u_resource uri) req)
     in bind_http (append_header ''Upgrade'' ''websocket'' req) (\<lambda>req.
        bind_http (append_header ''Connection'' ''Upgrade'' req) (\<lambda>req.
        let req = replace_header ''Host'' (get_host_port uri) (replace_header ''Sec-WebSocket-Version'' ''13'' req);
            req = (if subprotocols \<noteq> [] then replace_header ''Sec-WebSocket-Protocol'' (join_commas subprotocols) req
                   else req)
        in Inr (replace_header ''Sec-WebSocket-Key'' (base64_encode (raw_key rs)) req))))"

definition validate_server_handshake_response :: "uint4 list \<Rightarrow> request \<Rightarrow> response \<Rightarrow> ws_error option" where
  "validate_server_handshake_response w req res =
     (if m_status_code res \<noteq> switching_protocols then Some Invalid_Http_Status
      else if \<not> ci_contains (get_header ''Upgrade'' res) upgrade_token then Some Missing_Required_Header
      else if \<not> ci_contains (get_header ''Connection'' res) connection_token then Some Missing_Required_Header
      else if process_handshake_key w (get_header ''Sec-WebSocket-Key'' req) \<noteq> get_header ''Sec-WebSocket-Accept'' res
      then Some Missing_Required_Header
      else None)"

subsection \<open>Facts\<close>

lemma get_header_replace [simp]:
  "header_order (m_headers p) \<Longrightarrow>
     get_header key (replace_header k v p) = (if header_name key = header_name k then v else get_header key p)"
  by (simp add: get_header_def replace_header_def header_find_set)

lemma header_order_replace [simp]: "header_order (m_headers p) \<Longrightarrow> header_order (m_headers (replace_header k v p))"
  by (simp add: replace_header_def)

lemma replace_header_fields [simp]:
  "m_version (replace_header k v p) = m_version p" "m_body (replace_header k v p) = m_body p"
  "m_header_bytes (replace_header k v p) = m_header_bytes p" "parser.more (replace_header k v p) = parser.more p"
  by (simp_all add: replace_header_def)

lemma replace_header_request [simp]:
  "m_method (replace_header k v r) = m_method r" "m_uri_text (replace_header k v r) = m_uri_text r"
  by (simp_all add: replace_header_def)

lemma replace_header_response [simp]: "m_status_code (replace_header k v s) = m_status_code s"
  by (simp add: replace_header_def)

lemma ci_prefix_refl [simp]: "ci_prefix needle (needle @ r)"
  by (induction needle) simp_all

lemma ci_prefix_append: "ci_prefix needle h \<Longrightarrow> ci_prefix needle (h @ r)"
  by (induction needle h rule: ci_prefix.induct) simp_all

lemma ci_contains_prefix: "ci_prefix needle h \<Longrightarrow> ci_contains h needle"
  by (cases h) simp_all

lemma ci_contains_append: "ci_contains h needle \<Longrightarrow> ci_contains (x @ h) needle"
  by (induction x) simp_all

lemma upgrade_found [simp]: "ci_contains (x @ ''websocket'') upgrade_token"
  "ci_contains (x @ ''Upgrade'') connection_token" "ci_contains (x @ ''upgrade'') connection_token"
proof -
  have "ci_prefix upgrade_token ''websocket''" "ci_prefix connection_token ''Upgrade''"
    "ci_prefix connection_token ''upgrade''"
    by code_simp+
  then show "ci_contains (x @ ''websocket'') upgrade_token"
    "ci_contains (x @ ''Upgrade'') connection_token" "ci_contains (x @ ''upgrade'') connection_token"
    by (metis ci_contains_append ci_contains_prefix)+
qed

lemma get_header_append:
  assumes "list_all is_token_char k" "header_order (m_headers p)"
  shows "\<exists>x. append_header k v p = Inr (replace_header k (x @ v) p)"
proof -
  have "\<not> list_ex is_not_token_char k" using assms(1) by (auto simp: list_all_iff list_ex_iff)
  then show ?thesis
    by (cases "get_header k p = []")
      (auto simp: append_header_def intro: exI[of _ "[]"] exI[of _ "get_header k p @ '', ''"])
qed

text \<open>The names in use differ, most of them in their lengths.\<close>

lemma length_header_name: "length (header_name k) = length k"
  by (simp add: header_name_def)

lemma header_names_differ [simp]: "length a \<noteq> length b \<Longrightarrow> header_name a \<noteq> header_name b"
  using length_header_name[of a] length_header_name[of b] by metis

lemma user_agent_differs [simp]:
  "header_name ''User-Agent'' \<noteq> header_name ''Connection''" "header_name ''Connection'' \<noteq> header_name ''User-Agent''"
proof -
  have "header_name ''User-Agent'' ! 0 \<noteq> header_name ''Connection'' ! 0"
    by (simp add: header_name_def tolower_def isupper_def)
  then show "header_name ''User-Agent'' \<noteq> header_name ''Connection''"
    "header_name ''Connection'' \<noteq> header_name ''User-Agent''" by metis+
qed

lemma handshake_names_tokens: "list_all is_token_char ''Upgrade''" "list_all is_token_char ''Connection''"
  "\<not> list_ex is_not_token_char ''GET''"
  by (simp_all add: is_token_char_iff token_code_def)

text \<open>The request of a client: what it holds, and that a server takes it for a handshake.\<close>

theorem client_request_accepted:
  assumes "header_order (m_headers req)"
  shows "\<exists>req'. client_handshake_request rs uri subprotocols req = Inr req' \<and>
    m_method req' = ''GET'' \<and> m_uri_text req' = u_resource uri \<and> m_version req' = ''HTTP/1.1'' \<and>
    header_order (m_headers req') \<and> get_header ''Host'' req' = get_host_port uri \<and>
    get_header ''Sec-WebSocket-Version'' req' = ''13'' \<and>
    base64_decode (get_header ''Sec-WebSocket-Key'' req') = raw_key rs \<and>
    is_websocket_handshake req' \<and> (rs \<noteq> [] \<longrightarrow> validate_handshake req' = None)"
proof -
  let ?r0 = "set_version ''HTTP/1.1'' (set_uri (u_resource uri) (req\<lparr>m_method := ''GET''\<rparr>))"
  have o0: "header_order (m_headers ?r0)" using assms by (simp add: set_version_def set_uri_def)
  obtain x where x: "append_header ''Upgrade'' ''websocket'' ?r0 = Inr (replace_header ''Upgrade'' (x @ ''websocket'') ?r0)"
    using get_header_append[OF handshake_names_tokens(1) o0] by blast
  let ?r1 = "replace_header ''Upgrade'' (x @ ''websocket'') ?r0"
  have o1: "header_order (m_headers ?r1)" using o0 by simp
  obtain y where y: "append_header ''Connection'' ''Upgrade'' ?r1 = Inr (replace_header ''Connection'' (y @ ''Upgrade'') ?r1)"
    using get_header_append[OF handshake_names_tokens(2) o1] by blast
  have key: "rs \<noteq> [] \<Longrightarrow> base64_encode (raw_key rs) \<noteq> []"
    using base64_decode_encode[of "raw_key rs"] by (cases rs) (auto simp: raw_key_def upt_rec base64_decode_def)
  have "client_handshake_request rs uri subprotocols req =
      (let r = replace_header ''Host'' (get_host_port uri) (replace_header ''Sec-WebSocket-Version'' ''13''
                 (replace_header ''Connection'' (y @ ''Upgrade'') ?r1));
           r = (if subprotocols \<noteq> [] then replace_header ''Sec-WebSocket-Protocol'' (join_commas subprotocols) r else r)
       in Inr (replace_header ''Sec-WebSocket-Key'' (base64_encode (raw_key rs)) r))"
    using x y handshake_names_tokens(3) by (simp add: client_handshake_request_def set_method_def Let_def)
  with o0 show ?thesis
    by (simp add: Let_def is_websocket_handshake_def validate_handshake_def base64_decode_encode key
        set_version_def set_uri_def)
qed

definition accept_value :: "string \<Rightarrow> string" where
  "accept_value key = base64_encode (fips_sha1 (octets (key @ handshake_guid)))"

lemma process_handshake_key_spec:
  assumes "length key < 2 ^ 28" "length w = 80"
  shows "process_handshake_key w key = accept_value key"
proof -
  have "length (octets (key @ handshake_guid)) < 2 ^ 29"
    using assms(1) by (simp add: octets_def handshake_guid_def)
  then show ?thesis using assms(2) by (simp add: process_handshake_key_def accept_value_def sha1_calc_fips)
qed

text \<open>What a client accepts: RFC 6455, 4.1, but for the subprotocol and the extensions, which are not
  looked at.\<close>

theorem validate_server_handshake_iff:
  assumes "length (get_header ''Sec-WebSocket-Key'' req) < 2 ^ 28" "length w = 80"
  shows "validate_server_handshake_response w req res = None \<longleftrightarrow>
    m_status_code res = 101 \<and> is_websocket_handshake res \<and>
    get_header ''Sec-WebSocket-Accept'' res = accept_value (get_header ''Sec-WebSocket-Key'' req)"
  using process_handshake_key_spec[OF assms]
  by (auto simp: validate_server_handshake_response_def is_websocket_handshake_def switching_protocols_def)

theorem handshake_agreed:
  assumes "header_order (m_headers res)" "m_status_code res = switching_protocols"
    "length (get_header ''Sec-WebSocket-Key'' req) < 2 ^ 28" "length w = 80" "length w' = 80"
  shows "\<exists>res'. process_handshake w req subprotocol res = Inr res' \<and>
    validate_server_handshake_response w' req res' = None"
proof -
  let ?a = "process_handshake_key w (get_header ''Sec-WebSocket-Key'' req)"
  let ?r0 = "replace_header ''Sec-WebSocket-Accept'' ?a res"
  have o0: "header_order (m_headers ?r0)" using assms(1) by simp
  obtain x where x: "append_header ''Upgrade'' upgrade_token ?r0 = Inr (replace_header ''Upgrade'' (x @ upgrade_token) ?r0)"
    using get_header_append[OF handshake_names_tokens(1) o0] by blast
  let ?r1 = "replace_header ''Upgrade'' (x @ upgrade_token) ?r0"
  have o1: "header_order (m_headers ?r1)" using o0 by simp
  obtain y where y: "append_header ''Connection'' connection_token ?r1 = Inr (replace_header ''Connection'' (y @ connection_token) ?r1)"
    using get_header_append[OF handshake_names_tokens(2) o1] by blast
  have found: "ci_contains (x @ upgrade_token) upgrade_token" "ci_contains (y @ connection_token) connection_token"
    using upgrade_found by (simp_all add: upgrade_token_def connection_token_def)
  have key: "?a = accept_value (get_header ''Sec-WebSocket-Key'' req)"
    using assms by (intro process_handshake_key_spec)
  show ?thesis
    unfolding validate_server_handshake_iff[OF assms(3,5)] process_handshake_def x bind_http.simps y
    using assms(1,2) key found by (auto simp: is_websocket_handshake_def switching_protocols_def)
qed

end
