(* ===== verification/Asio_Connection.thy ===== *)
theory Asio_Connection
  imports Ws_Errors
begin

section \<open>websocketpp/transport/asio: the transport of a connection\<close>

text \<open>
  transport/asio/connection.hpp with the socket of security/tls.hpp. What was asked of asio and
  has not completed is part of the state: the operations on the socket, the functions posted to the
  io\_service (run in order) and the timers. A handler that the transport calls back is a value. When
  the transport must call it at once, the operation returns it with the error.

  A timer runs, has expired (its handler is queued and a cancellation comes too late), or was
  cancelled. \<open>sent_bytes\<close> records the bytes given to the socket.
\<close>

datatype read_handler = RH_Http_Response | RH_Frame
datatype write_handler = WH_Http_Request | WH_Frame
datatype terminate_status = Ts_Failed | Ts_Closed | Ts_Unknown
datatype post = Post_Write_Frame | Post_Pause | Post_Resume | Post_Interrupt

datatype timer_kind =
    T_Post_Init bool | T_Open_Handshake | T_Close_Handshake | T_Pong "byte list" | T_Shutdown terminate_status

datatype timer_status = Running | Expired | Cancelled

datatype asio_op = Op_Handshake nat bool | Op_Read | Op_Write "byte list" | Op_Shutdown terminate_status nat

datatype asio_error = Asio_Eof | Asio_Operation_Aborted | Asio_Not_Connected | Asio_Short_Read | Asio_Ssl | Asio_Other

type_synonym timer = "nat \<times> timer_kind \<times> timer_status"

record asio_con =
  m_async_read_handler :: bool
  m_async_write_handler :: bool
  m_init_handler :: bool
  m_read_handler :: "read_handler option"
  m_write_handler :: "write_handler option"
  m_bufs :: "byte list list"
  tls_ec :: "error_code option"
  io_ops :: "asio_op list"
  io_posts :: "post list"
  io_timers :: "timer list"
  next_timer :: nat
  sent_bytes :: "byte list"

subsection \<open>Timers\<close>

definition set_timer :: "timer_kind \<Rightarrow> 'a asio_con_scheme \<Rightarrow> nat \<times> 'a asio_con_scheme" where
  "set_timer k c =
     (next_timer c, c\<lparr>io_timers := io_timers c @ [(next_timer c, k, Running)], next_timer := next_timer c + 1\<rparr>)"

fun cancel_in :: "nat \<Rightarrow> timer list \<Rightarrow> timer list" where
  "cancel_in i [] = []"
| "cancel_in i ((j, k, s) # ts) =
     (if i = j then (j, k, if s = Running then Cancelled else s) # ts else (j, k, s) # cancel_in i ts)"

definition cancel_timer :: "nat \<Rightarrow> 'a asio_con_scheme \<Rightarrow> 'a asio_con_scheme" where
  "cancel_timer i c = c\<lparr>io_timers := cancel_in i (io_timers c)\<rparr>"

text \<open>\<open>expires_from_now()\<close> is negative: the timer is not in the list once its handler has run.\<close>

definition timer_expired :: "nat \<Rightarrow> 'a asio_con_scheme \<Rightarrow> bool" where
  "timer_expired i c \<longleftrightarrow> \<not> list_ex (\<lambda>(j, k, s). j = i \<and> s \<noteq> Expired) (io_timers c)"

text \<open>What \<open>handle_timer\<close> passes on.\<close>

definition timer_result :: "timer_status \<Rightarrow> error_code option" where
  "timer_result s = (if s = Cancelled then Some (Transport_Error Operation_Aborted) else None)"

subsection \<open>Set-up\<close>

text \<open>\<open>post_init\<close>: a timer and the handshake of TLS. The init handler is copied as it is now: \<open>False\<close>
  for an empty function.\<close>

definition post_init :: "'a asio_con_scheme \<Rightarrow> 'a asio_con_scheme" where
  "post_init c =
     (case set_timer (T_Post_Init (m_init_handler c)) c of (i, c) \<Rightarrow>
        c\<lparr>tls_ec := Some (Socket_Error Sock_Tls_Handshake_Timeout), io_ops := io_ops c @ [Op_Handshake i (m_init_handler c)]\<rparr>)"

definition asio_init :: "'a asio_con_scheme \<Rightarrow> 'a asio_con_scheme" where
  "asio_init c = c\<lparr>m_init_handler := True\<rparr>"

text \<open>\<open>handle_init\<close> of the socket.\<close>

definition handle_tls_init :: "asio_error option \<Rightarrow> 'a asio_con_scheme \<Rightarrow> 'a asio_con_scheme" where
  "handle_tls_init ec c = c\<lparr>tls_ec := map_option (\<lambda>_. Socket_Error Sock_Tls_Handshake_Failed) ec\<rparr>"

subsection \<open>Reading and writing\<close>

definition translate_ec :: "asio_error \<Rightarrow> transport_error" where
  "translate_ec ec = (if ec = Asio_Short_Read then Tls_Short_Read else if ec = Asio_Ssl then Tls_Error else Pass_Through)"

definition async_read_at_least :: "read_handler \<Rightarrow> 'a asio_con_scheme \<Rightarrow> error_code option \<times> 'a asio_con_scheme" where
  "async_read_at_least handler c =
     (if \<not> m_async_read_handler c then (Some (Transport_Error Action_After_Shutdown), c)
      else (None, c\<lparr>m_read_handler := Some handler, io_ops := io_ops c @ [Op_Read]\<rparr>))"

definition read_result :: "asio_error option \<Rightarrow> error_code option" where
  "read_result ec =
     (case ec of None \<Rightarrow> None
      | Some e \<Rightarrow> Some (Transport_Error (if e = Asio_Eof then Tr_Eof else translate_ec e)))"

definition async_write :: "byte list list \<Rightarrow> write_handler \<Rightarrow> 'a asio_con_scheme \<Rightarrow> error_code option \<times> 'a asio_con_scheme" where
  "async_write bufs handler c =
     (if \<not> m_async_write_handler c then (Some (Transport_Error Action_After_Shutdown), c)
      else let c = c\<lparr>m_bufs := m_bufs c @ bufs\<rparr>
           in (None, c\<lparr>m_write_handler := Some handler, io_ops := io_ops c @ [Op_Write (concat (m_bufs c))],
                        sent_bytes := sent_bytes c @ concat (m_bufs c)\<rparr>))"

definition write_result :: "asio_error option \<Rightarrow> error_code option" where
  "write_result ec = map_option (\<lambda>_. Transport_Error Pass_Through) ec"

definition asio_post :: "post \<Rightarrow> 'a asio_con_scheme \<Rightarrow> 'a asio_con_scheme" where
  "asio_post p c = c\<lparr>io_posts := io_posts c @ [p]\<rparr>"

subsection \<open>Shutdown\<close>

definition async_shutdown :: "terminate_status \<Rightarrow> 'a asio_con_scheme \<Rightarrow> 'a asio_con_scheme" where
  "async_shutdown t c =
     (case set_timer (T_Shutdown t)
        (c\<lparr>m_async_read_handler := False, m_async_write_handler := False, m_init_handler := False,
           m_read_handler := None, m_write_handler := None\<rparr>) of
        (i, c) \<Rightarrow> c\<lparr>io_ops := io_ops c @ [Op_Shutdown t i]\<rparr>)"

text \<open>\<open>handle_async_shutdown\<close>: whether it calls back, and with what.\<close>

definition handle_async_shutdown ::
    "nat \<Rightarrow> asio_error option \<Rightarrow> 'a asio_con_scheme \<Rightarrow> error_code option option \<times> 'a asio_con_scheme" where
  "handle_async_shutdown i ec c =
     (if ec = Some Asio_Operation_Aborted \<or> timer_expired i c then (None, c)
      else (Some (case ec of None \<Rightarrow> None
                  | Some e \<Rightarrow> if e = Asio_Not_Connected then None else Some (Transport_Error (translate_ec e))),
            cancel_timer i c))"

definition handle_async_shutdown_timeout :: "error_code option \<Rightarrow> error_code option option" where
  "handle_async_shutdown_timeout ec =
     (case ec of None \<Rightarrow> Some (Some (Transport_Error Tr_Timeout))
      | Some e \<Rightarrow> if e = Transport_Error Operation_Aborted then None else Some (Some e))"

subsection \<open>Facts\<close>

lemma set_timer_eq:
  "set_timer k c = (i, c') \<longleftrightarrow>
     i = next_timer c \<and> c' = c\<lparr>io_timers := io_timers c @ [(next_timer c, k, Running)], next_timer := next_timer c + 1\<rparr>"
  by (auto simp: set_timer_def)

lemma cancel_in_ids [simp]: "map fst (cancel_in i ts) = map fst ts"
  by (induction i ts rule: cancel_in.induct) auto

lemma cancel_in_kinds [simp]: "map (\<lambda>(j, k, s). (j, k)) (cancel_in i ts) = map (\<lambda>(j, k, s). (j, k)) ts"
  by (induction i ts rule: cancel_in.induct) auto

lemma cancel_in_other: "i \<noteq> j \<Longrightarrow> (j, k, s) \<in> set (cancel_in i ts) \<longleftrightarrow> (j, k, s) \<in> set ts"
  by (induction i ts rule: cancel_in.induct) auto

end
