(* ===== verification/Ws_Session.thy ===== *)
theory Ws_Session
  imports Hybi13_Roundtrip Ws_Handshake Asio_Connection
begin

section \<open>websocketpp/impl/connection\_impl.hpp: a client connection\<close>

text \<open>
  The state of \<open>connection<config>\<close> for a client (config/core\_client.hpp), on top of the transport.
  The last fields are a record of what happened: the calls of the user's handlers, the messages
  pushed to the write queue, those handed to the transport, and what other threads are about to push:
  \<open>send\<close>, \<open>ping\<close> and \<open>pong\<close> do not hold the lock between their check of the state and the push.

  The user's handlers are code of the program: what operations one calls, given the event and the
  connection, is an argument (\<open>on_event\<close>), and so are the random numbers and what the code leaves
  uninitialised. The processor is used while the connection is open, and it is set by then.
\<close>

datatype session_state = St_Connecting | St_Open | St_Closing | St_Closed

datatype internal_state =
    USER_INIT | TRANSPORT_INIT | READ_HTTP_REQUEST | WRITE_HTTP_REQUEST | READ_HTTP_RESPONSE
  | WRITE_HTTP_RESPONSE | PROCESS_HTTP_REQUEST | PROCESS_CONNECTION

datatype user_event =
    Ev_Open | Ev_Message message | Ev_Ping "byte list" | Ev_Pong "byte list" | Ev_Pong_Timeout "byte list"
  | Ev_Interrupt | Ev_Close | Ev_Fail

datatype action =
    Act_Send opcode "byte list" | Act_Send_Message message | Act_Ping "byte list" | Act_Pong "byte list"
  | Act_Close close_code "byte list" | Act_Pause | Act_Resume | Act_Interrupt

datatype pending = Pn_Send message | Pn_Ping "byte list" | Pn_Pong "byte list"

datatype other =
    Ot_Check pending                  \<comment> \<open>another thread checked the state\<close>
  | Ot_Push pending                   \<comment> \<open>and goes on\<close>
  | Ot_Close close_code "byte list" | Ot_Pause | Ot_Resume | Ot_Interrupt

record conn = asio_con +
  con_state :: session_state
  con_istate :: internal_state
  m_user_agent :: string
  m_open_handshake_timeout_dur :: int
  m_close_handshake_timeout_dur :: int
  m_pong_timeout_dur :: int
  con_max_message_size :: nat
  con_uri :: ws_uri
  m_requested_subprotocols :: "string list"
  m_request :: request
  m_response :: response
  m_processor :: "hybi13 option"
  m_handshake_timer :: "nat option"
  m_ping_timer :: "nat option"
  m_handshake_buffer :: string
  m_send_queue :: "message list"
  m_send_buffer_size :: nat
  m_send_buffer :: "byte list list"
  m_current_msgs :: "message list"
  m_write_flag :: bool
  m_read_flag :: bool
  m_local_close_code :: close_code
  m_local_close_reason :: "byte list"
  m_remote_close_code :: close_code
  m_remote_close_reason :: "byte list"
  m_ec :: "error_code option"
  m_was_clean :: bool
  rng_drawn :: nat
  h_events :: "user_event list"
  h_pushed :: "message list"
  h_written :: "message list"
  h_sending :: "pending list"

record ws_env =
  on_event :: "user_event \<Rightarrow> conn \<Rightarrow> action list"
  on_ping :: "byte list \<Rightarrow> conn \<Rightarrow> bool"
  meanwhile :: "conn \<Rightarrow> other list"
  has_pong_timeout_handler :: bool
  rng :: "nat \<Rightarrow> uint4"
  blank_cursor :: nat
  blank_keys :: "64 word \<times> 64 word"
  blank_words :: "uint4 list"

abbreviation lib_err :: "lib_error \<Rightarrow> error_code option" where "lib_err e \<equiv> Some (Library_Error e)"
abbreviation tr_err :: "transport_error \<Rightarrow> error_code option" where "tr_err e \<equiv> Some (Transport_Error e)"

definition drop_on_protocol_error :: bool where "drop_on_protocol_error = False"
definition silent_close :: bool where "silent_close = False"
definition close_blank :: close_code where "close_blank = 0"
definition close_reason_size :: nat where "close_reason_size = 123"

definition string_of :: "byte list \<Rightarrow> string" where
  "string_of bs = map (\<lambda>b. char_of (unat b)) bs"

definition conn_new :: "string \<Rightarrow> ws_uri \<Rightarrow> conn" where
  "conn_new user_agent u =
     \<lparr>m_async_read_handler = True, m_async_write_handler = True, m_init_handler = False, m_read_handler = None,
      m_write_handler = None, m_bufs = [], tls_ec = None, io_ops = [], io_posts = [], io_timers = [], next_timer = 0,
      sent_bytes = [],
      con_state = St_Connecting, con_istate = USER_INIT, m_user_agent = user_agent,
      m_open_handshake_timeout_dur = 5000, m_close_handshake_timeout_dur = 5000, m_pong_timeout_dur = 5000,
      con_max_message_size = 32000000, con_uri = u, m_requested_subprotocols = [], m_request = request_new,
      m_response = response_new, m_processor = None, m_handshake_timer = None, m_ping_timer = None,
      m_handshake_buffer = [], m_send_queue = [], m_send_buffer_size = 0, m_send_buffer = [], m_current_msgs = [],
      m_write_flag = False, m_read_flag = True, m_local_close_code = close_abnormal_close, m_local_close_reason = [],
      m_remote_close_code = close_abnormal_close, m_remote_close_reason = [], m_ec = None, m_was_clean = False,
      rng_drawn = 0, h_events = [], h_pushed = [], h_written = [], h_sending = []\<rparr>"

subsection \<open>The write queue\<close>

definition write_push :: "message \<Rightarrow> conn \<Rightarrow> conn" where
  "write_push msg c =
     c\<lparr>m_send_buffer_size := size_t (int (m_send_buffer_size c) + int (length (m_payload msg))),
       m_send_queue := m_send_queue c @ [msg], h_pushed := h_pushed c @ [msg]\<rparr>"

definition write_pop :: "conn \<Rightarrow> message option \<times> conn" where
  "write_pop c =
     (case m_send_queue c of
        [] \<Rightarrow> (None, c)
      | msg # q \<Rightarrow> (Some msg, c\<lparr>m_send_buffer_size := size_t (int (m_send_buffer_size c) - int (length (m_payload msg))),
                                m_send_queue := q\<rparr>))"

text \<open>What \<open>send\<close>, \<open>ping\<close>, \<open>pong\<close> and \<open>send_close_frame\<close> do with a message that is prepared.\<close>

definition queue_message :: "message \<Rightarrow> conn \<Rightarrow> conn" where
  "queue_message msg c =
     (let c = write_push msg c; needs_writing = \<not> m_write_flag c \<and> m_send_queue c \<noteq> []
      in if needs_writing then asio_post Post_Write_Frame c else c)"

text \<open>A random number, taken when a frame is masked.\<close>

definition draw_if :: "bool \<Rightarrow> conn \<Rightarrow> conn" where
  "draw_if b c = (if b then c\<lparr>rng_drawn := rng_drawn c + 1\<rparr> else c)"

subsection \<open>Operations of the user\<close>

text \<open>\<open>send\<close> after its check of the state.\<close>

definition send_push :: "ws_env \<Rightarrow> message \<Rightarrow> conn \<Rightarrow> error_code option \<times> conn" where
  "send_push env msg c =
     (if m_prepared msg then (None, queue_message msg c)
      else case prepare_data_frame False (rng env (rng_drawn c)) (Some msg) (Some (message_new CONTINUATION)) of
             (Some e, _) \<Rightarrow> (Some (Processor_Error e), c)
           | (None, Some out) \<Rightarrow> (None, queue_message out (draw_if True c))
           | (None, None) \<Rightarrow> (None, c))"

text \<open>The timers that \<open>ping\<close>, \<open>send_close_frame\<close> and \<open>send_http_request\<close> start.\<close>

definition arm_pong_timer :: "ws_env \<Rightarrow> byte list \<Rightarrow> conn \<Rightarrow> conn" where
  "arm_pong_timer env payload c =
     (if has_pong_timeout_handler env
      then let c = (case m_ping_timer c of None \<Rightarrow> c | Some i \<Rightarrow> cancel_timer i c)
           in if 0 < m_pong_timeout_dur c
              then (case set_timer (T_Pong payload) c of (i, c) \<Rightarrow> c\<lparr>m_ping_timer := Some i\<rparr>)
              else c
      else c)"

definition arm_close_timer :: "conn \<Rightarrow> conn" where
  "arm_close_timer c =
     (if 0 < m_close_handshake_timeout_dur c
      then (case set_timer T_Close_Handshake c of (i, c) \<Rightarrow> c\<lparr>m_handshake_timer := Some i\<rparr>)
      else c)"

definition arm_open_timer :: "conn \<Rightarrow> conn" where
  "arm_open_timer c =
     (if 0 < m_open_handshake_timeout_dur c
      then (case set_timer T_Open_Handshake c of (i, c) \<Rightarrow> c\<lparr>m_handshake_timer := Some i\<rparr>)
      else c)"

text \<open>\<open>ping\<close> and \<open>pong\<close> after their check.\<close>

definition ping_push :: "ws_env \<Rightarrow> byte list \<Rightarrow> conn \<Rightarrow> error_code option \<times> conn" where
  "ping_push env payload c =
     (case prepare_ping False (rng env (rng_drawn c)) payload (Some (message_new CONTINUATION)) of
        (Some e, _) \<Rightarrow> (Some (Processor_Error e), c)
      | (None, None) \<Rightarrow> (None, c)
      | (None, Some msg) \<Rightarrow>
          (None, queue_message msg (arm_pong_timer env payload (draw_if True c))))"

definition pong_push :: "ws_env \<Rightarrow> byte list \<Rightarrow> conn \<Rightarrow> error_code option \<times> conn" where
  "pong_push env payload c =
     (case prepare_pong False (rng env (rng_drawn c)) payload (Some (message_new CONTINUATION)) of
        (Some e, _) \<Rightarrow> (Some (Processor_Error e), c)
      | (None, None) \<Rightarrow> (None, c)
      | (None, Some msg) \<Rightarrow> (None, queue_message msg (draw_if True c)))"

text \<open>The code and the reason that \<open>send_close_frame\<close> puts into the frame.\<close>

definition choose_close :: "close_code \<Rightarrow> byte list \<Rightarrow> bool \<Rightarrow> conn \<Rightarrow> close_code \<times> byte list" where
  "choose_close code reason ack c =
     (if silent_close then (close_no_status, [])
      else if code \<noteq> close_blank then (code, reason)
      else if \<not> ack then (close_no_status, [])
      else if m_remote_close_code c = close_no_status then (close_normal, [])
      else (m_remote_close_code c, m_remote_close_reason c))"

definition send_close_frame ::
    "ws_env \<Rightarrow> close_code \<Rightarrow> byte list \<Rightarrow> bool \<Rightarrow> bool \<Rightarrow> conn \<Rightarrow> error_code option \<times> conn" where
  "send_close_frame env code reason ack terminal c =
     (let (lc, lr) = choose_close code reason ack c;
          c = c\<lparr>m_local_close_code := lc, m_local_close_reason := lr\<rparr>
      in case prepare_close False (rng env (rng_drawn c)) lc lr (Some (message_new CONTINUATION)) of
           (Some e, _) \<Rightarrow> (Some (Processor_Error e), c)
         | (None, None) \<Rightarrow> (None, c)
         | (None, Some msg) \<Rightarrow>
             let msg = (if terminal then msg\<lparr>m_terminal := True\<rparr> else msg);
                 c = (draw_if True c)\<lparr>con_state := St_Closing\<rparr>;
                 c = (if ack then c\<lparr>m_was_clean := True\<rparr> else c)
             in (None, queue_message msg (arm_close_timer c)))"

definition send_close_ack :: "ws_env \<Rightarrow> close_code \<Rightarrow> byte list \<Rightarrow> conn \<Rightarrow> error_code option \<times> conn" where
  "send_close_ack env code reason c = send_close_frame env code reason True False c"

definition con_close :: "ws_env \<Rightarrow> close_code \<Rightarrow> byte list \<Rightarrow> conn \<Rightarrow> error_code option \<times> conn" where
  "con_close env code reason c =
     (let tr = take (min (length reason) close_reason_size) reason
      in if con_state c \<noteq> St_Open then (lib_err Invalid_State, c)
         else send_close_frame env code tr False (close_terminal code) c)"

text \<open>
  Other threads. \<open>send\<close>, \<open>ping\<close> and \<open>pong\<close> release the lock between the check of the state and the push,
  so another thread can be in between (\<open>h_sending\<close>), and what it does while this one is in between is
  \<open>meanwhile\<close>. \<open>close\<close> holds the lock all along.
\<close>

definition push_pending :: "ws_env \<Rightarrow> pending \<Rightarrow> conn \<Rightarrow> conn" where
  "push_pending env p c =
     (case p of
        Pn_Send msg \<Rightarrow> snd (send_push env msg c)
      | Pn_Ping payload \<Rightarrow> snd (ping_push env payload c)
      | Pn_Pong payload \<Rightarrow> snd (pong_push env payload c))"

fun other_op :: "ws_env \<Rightarrow> other \<Rightarrow> conn \<Rightarrow> conn" where
  "other_op env (Ot_Check p) c = (if con_state c = St_Open then c\<lparr>h_sending := p # h_sending c\<rparr> else c)"
| "other_op env (Ot_Push p) c =
     (if p \<in> set (h_sending c) then push_pending env p (c\<lparr>h_sending := remove1 p (h_sending c)\<rparr>) else c)"
| "other_op env (Ot_Close code reason) c = snd (con_close env code reason c)"
| "other_op env Ot_Pause c = asio_post Post_Pause c"
| "other_op env Ot_Resume c = asio_post Post_Resume c"
| "other_op env Ot_Interrupt c = asio_post Post_Interrupt c"

definition others :: "ws_env \<Rightarrow> conn \<Rightarrow> conn" where
  "others env c = fold (other_op env) (meanwhile env c) c"

definition send_message :: "ws_env \<Rightarrow> message \<Rightarrow> conn \<Rightarrow> error_code option \<times> conn" where
  "send_message env msg c =
     (if con_state c \<noteq> St_Open then (lib_err Invalid_State, c) else send_push env msg (others env c))"

definition con_send :: "ws_env \<Rightarrow> opcode \<Rightarrow> byte list \<Rightarrow> conn \<Rightarrow> error_code option \<times> conn" where
  "con_send env op payload c = send_message env (append_payload payload (message_new op)) c"

definition con_ping :: "ws_env \<Rightarrow> byte list \<Rightarrow> conn \<Rightarrow> error_code option \<times> conn" where
  "con_ping env payload c =
     (if con_state c \<noteq> St_Open then (lib_err Invalid_State, c) else ping_push env payload (others env c))"

definition con_pong :: "ws_env \<Rightarrow> byte list \<Rightarrow> conn \<Rightarrow> error_code option \<times> conn" where
  "con_pong env payload c =
     (if con_state c \<noteq> St_Open then (lib_err Invalid_State, c) else pong_push env payload (others env c))"

fun do_action :: "ws_env \<Rightarrow> action \<Rightarrow> conn \<Rightarrow> conn" where
  "do_action env (Act_Send op payload) c = snd (con_send env op payload c)"
| "do_action env (Act_Send_Message msg) c = snd (send_message env msg c)"
| "do_action env (Act_Ping payload) c = snd (con_ping env payload c)"
| "do_action env (Act_Pong payload) c = snd (con_pong env payload c)"
| "do_action env (Act_Close code reason) c = snd (con_close env code reason c)"
| "do_action env Act_Pause c = asio_post Post_Pause c"
| "do_action env Act_Resume c = asio_post Post_Resume c"
| "do_action env Act_Interrupt c = asio_post Post_Interrupt c"

definition call_user :: "ws_env \<Rightarrow> user_event \<Rightarrow> conn \<Rightarrow> conn" where
  "call_user env ev c = fold (do_action env) (on_event env ev c) (c\<lparr>h_events := h_events c @ [ev]\<rparr>)"

subsection \<open>The end\<close>

definition cancel_handshake_timer :: "conn \<Rightarrow> conn" where
  "cancel_handshake_timer c =
     (case m_handshake_timer c of None \<Rightarrow> c | Some i \<Rightarrow> (cancel_timer i c)\<lparr>m_handshake_timer := None\<rparr>)"

definition con_terminate :: "error_code option \<Rightarrow> conn \<Rightarrow> conn" where
  "con_terminate ec c =
     (let c = cancel_handshake_timer c;
          c = (case ec of None \<Rightarrow> c
               | Some e \<Rightarrow> c\<lparr>m_ec := ec, m_local_close_code := close_abnormal_close,
                            m_local_close_reason := octets (error_message e)\<rparr>)
      in if con_state c = St_Connecting then async_shutdown Ts_Failed (c\<lparr>con_state := St_Closed\<rparr>)
         else if con_state c \<noteq> St_Closed then async_shutdown Ts_Closed (c\<lparr>con_state := St_Closed\<rparr>)
         else c)"

definition handle_terminate :: "ws_env \<Rightarrow> terminate_status \<Rightarrow> error_code option \<Rightarrow> conn \<Rightarrow> conn" where
  "handle_terminate env tstat ec c =
     (if tstat = Ts_Failed
      then if m_ec c \<noteq> lib_err Http_Connection_Ended then call_user env Ev_Fail c else c
      else if tstat = Ts_Closed then call_user env Ev_Close c
      else c)"

subsection \<open>Writing\<close>

text \<open>Messages are taken until the queue is empty or one is terminal.\<close>

function pop_ready :: "conn \<Rightarrow> conn" where
  "pop_ready c =
     (case write_pop c of
        (None, c') \<Rightarrow> c'
      | (Some msg, c') \<Rightarrow>
          let c' = c'\<lparr>m_current_msgs := m_current_msgs c' @ [msg]\<rparr>
          in if m_terminal msg then c' else pop_ready c')"
  by pat_completeness auto
termination
  by (relation "measure (\<lambda>c. length (m_send_queue c))") (auto simp: write_pop_def split: list.splits)

declare pop_ready.simps [simp del]

definition handle_write_frame :: "error_code option \<Rightarrow> conn \<Rightarrow> conn result" where
  "handle_write_frame ec c =
     (if m_current_msgs c = [] then Inl Undefined_Behaviour
      else let terminal = m_terminal (last (m_current_msgs c));
               c = c\<lparr>m_send_buffer := [], m_current_msgs := []\<rparr>
           in if ec \<noteq> None then Inr (con_terminate ec c)
              else if terminal then Inr (con_terminate None c)
              else let c = c\<lparr>m_write_flag := False\<rparr>
                   in Inr (if m_send_queue c \<noteq> [] then asio_post Post_Write_Frame c else c))"

definition write_frame :: "conn \<Rightarrow> conn result" where
  "write_frame c =
     (if m_write_flag c then Inr c
      else let c = pop_ready c
           in if m_current_msgs c = [] then Inr c
              else let c = c\<lparr>m_write_flag := True,
                     m_send_buffer := m_send_buffer c @ concat (map (\<lambda>m. [m_header m, m_payload m]) (m_current_msgs c))\<rparr>
                   in case async_write (m_send_buffer c) WH_Frame c of
                        (Some e, c) \<Rightarrow> handle_write_frame (Some e) c
                      | (None, c) \<Rightarrow> Inr (c\<lparr>h_written := h_written c @ m_current_msgs c\<rparr>))"

subsection \<open>Reading\<close>

text \<open>The part of \<open>handle_read_frame\<close> for an error.\<close>

definition read_failed :: "error_code \<Rightarrow> conn \<Rightarrow> conn" where
  "read_failed ecm c =
     (if ecm = Transport_Error Tr_Eof \<and> con_state c = St_Closed then c
      else if ecm = Transport_Error Tr_Eof \<and> con_state c = St_Closing then con_terminate None c
      else if ecm = Library_Error Invalid_State \<and> con_state c = St_Closed then c
      else if ecm = Transport_Error Tls_Short_Read \<and> con_state c = St_Closed then con_terminate None c
      else con_terminate (Some ecm) c)"

definition read_frame :: "conn \<Rightarrow> conn" where
  "read_frame c =
     (if \<not> m_read_flag c then c
      else case async_read_at_least RH_Frame c of
             (Some e, c) \<Rightarrow> read_failed e c
           | (None, c) \<Rightarrow> c)"

definition handle_close_frame :: "ws_env \<Rightarrow> message \<Rightarrow> conn \<Rightarrow> conn" where
  "handle_close_frame env msg c =
     (let (code, ec) = extract_code (m_payload msg);
          c = c\<lparr>m_remote_close_code := code\<rparr>
      in if ec \<noteq> None
         then if drop_on_protocol_error then con_terminate (map_option Library_Error ec) c
              else snd (send_close_ack env close_protocol_error (octets ''Invalid close code'') c)
         else let (reason, ec) = extract_reason (m_payload msg);
                  c = c\<lparr>m_remote_close_reason := reason\<rparr>
              in if ec \<noteq> None
                 then if drop_on_protocol_error then con_terminate (map_option Library_Error ec) c
                      else snd (send_close_ack env close_protocol_error (octets ''Invalid close reason'') c)
                 else if con_state c = St_Open then snd (send_close_ack env close_blank [] c)
                 else if con_state c = St_Closing \<and> \<not> m_was_clean c then c\<lparr>m_was_clean := True\<rparr>
                 else c)"

definition process_control_frame :: "ws_env \<Rightarrow> message \<Rightarrow> conn \<Rightarrow> conn" where
  "process_control_frame env msg c =
     (let op = m_opcode msg
      in if con_state c = St_Closed then c
         else if op \<noteq> CLOSE \<and> con_state c \<noteq> St_Open then c
         else if op = PING
         then let should_reply = on_ping env (m_payload msg) c;
                  c = call_user env (Ev_Ping (m_payload msg)) c
              in if should_reply then snd (con_pong env (m_payload msg) c) else c
         else if op = PONG
         then let c = call_user env (Ev_Pong (m_payload msg)) c
              in case m_ping_timer c of None \<Rightarrow> c | Some i \<Rightarrow> cancel_timer i c
         else if op = CLOSE then handle_close_frame env msg c
         else c)"

definition dispatch_message :: "ws_env \<Rightarrow> message option \<Rightarrow> conn \<Rightarrow> conn" where
  "dispatch_message env msg c =
     (case msg of
        None \<Rightarrow> c
      | Some msg \<Rightarrow>
          if \<not> is_control (m_opcode msg)
          then if con_state c \<noteq> St_Open then c else call_user env (Ev_Message msg) c
          else process_control_frame env msg c)"

definition to_ws :: "error_code \<Rightarrow> close_code" where
  "to_ws ec =
     (case ec of
        Processor_Error e \<Rightarrow>
          if e \<in> {Protocol_Violation, Control_Too_Big, Invalid_Opcode, Invalid_Rsv_Bit, Fragmented_Control,
                 Invalid_Continuation, Masking_Required, Masking_Forbidden, Reserved_Close_Code,
                 Invalid_Close_Code} then close_protocol_error
          else if e \<in> {Invalid_Payload, Invalid_Utf8} then close_invalid_payload
          else if e = Message_Too_Big then close_message_too_big
          else close_internal_endpoint_error
      | _ \<Rightarrow> close_blank)"

definition consume_failed_with :: "ws_env \<Rightarrow> error_code \<Rightarrow> conn \<Rightarrow> conn" where
  "consume_failed_with env ec c =
     (if drop_on_protocol_error then con_terminate (Some ec) c
      else case con_close env (to_ws ec) (octets (error_message ec)) c of
             (Some close_ec, c) \<Rightarrow> con_terminate (Some close_ec) c
           | (None, c) \<Rightarrow> c)"

definition handle_read_frame :: "ws_env \<Rightarrow> error_code option \<Rightarrow> byte list \<Rightarrow> conn \<Rightarrow> conn result" where
  "handle_read_frame env ec bytes c =
     (let ecm = (if ec = None \<and> con_istate c \<noteq> PROCESS_CONNECTION then lib_err Invalid_State else ec)
      in case ecm of
           Some e \<Rightarrow> Inr (read_failed e c)
         | None \<Rightarrow>
             (case m_processor c of
                None \<Rightarrow> Inl Undefined_Behaviour
              | Some s \<Rightarrow>
                  bind_result (read_loop (dispatch_message env) bytes s c) (\<lambda>(consume_ec, s, c).
                    let c = c\<lparr>m_processor := Some s\<rparr>
                    in Inr (case consume_ec of
                              Some e \<Rightarrow> consume_failed_with env (Processor_Error e) c
                            | None \<Rightarrow> read_frame c))))"

definition handle_resume_reading :: "conn \<Rightarrow> conn" where
  "handle_resume_reading c = read_frame (c\<lparr>m_read_flag := True\<rparr>)"

definition handle_pause_reading :: "conn \<Rightarrow> conn" where
  "handle_pause_reading c = c\<lparr>m_read_flag := False\<rparr>"

subsection \<open>The opening handshake\<close>

text \<open>The parts of the two handlers for an error.\<close>

definition http_failed :: "error_code \<Rightarrow> conn \<Rightarrow> conn" where
  "http_failed ecm c =
     (if ecm = Transport_Error Tr_Eof \<and> con_state c = St_Closed then c else con_terminate (Some ecm) c)"

definition read_response :: "conn \<Rightarrow> conn" where
  "read_response c =
     (case async_read_at_least RH_Http_Response c of (Some e, c) \<Rightarrow> http_failed e c | (None, c) \<Rightarrow> c)"

definition handle_send_http_request :: "error_code option \<Rightarrow> conn \<Rightarrow> conn" where
  "handle_send_http_request ec c =
     (case ec of
        Some e \<Rightarrow> http_failed e c
      | None \<Rightarrow>
          if con_state c = St_Connecting
          then if con_istate c \<noteq> WRITE_HTTP_REQUEST then http_failed (Library_Error Invalid_State) c
               else read_response (c\<lparr>con_istate := READ_HTTP_RESPONSE\<rparr>)
          else if con_state c = St_Closed then c
          else http_failed (Library_Error Invalid_State) c)"

definition http_result :: "'a http \<Rightarrow> 'a result" where
  "http_result r = (case r of Inr x \<Rightarrow> Inr x | Inl (Cpp_Failure f) \<Rightarrow> Inl f | Inl (Http_Exception _ _) \<Rightarrow> Inl Other_Exception)"

definition send_http_request :: "ws_env \<Rightarrow> conn \<Rightarrow> conn result" where
  "send_http_request env c =
     (if m_processor c = None then Inr c
      else bind_result (http_result (client_handshake_request
             (map (\<lambda>i. rng env (rng_drawn c + i)) [0..<4]) (con_uri c) (m_requested_subprotocols c) (m_request c))) (\<lambda>req.
           let req = (if get_header ''User-Agent'' req = []
                      then if m_user_agent c \<noteq> [] then replace_header ''User-Agent'' (m_user_agent c) req
                           else remove_header ''User-Agent'' req
                      else req);
               c = arm_open_timer (c\<lparr>rng_drawn := rng_drawn c + 4, m_request := req,
                                    m_handshake_buffer := request_raw req\<rparr>)
           in Inr (case async_write [octets (m_handshake_buffer c)] WH_Http_Request c of
                     (Some e, c) \<Rightarrow> handle_send_http_request (Some e) c
                   | (None, c) \<Rightarrow> c)))"

definition get_processor :: "ws_env \<Rightarrow> conn \<Rightarrow> hybi13" where
  "get_processor env c =
     hybi13_new False (con_max_message_size c) (blank_cursor env) (fst (blank_keys env)) (snd (blank_keys env))"

definition handle_transport_init :: "ws_env \<Rightarrow> error_code option \<Rightarrow> conn \<Rightarrow> conn result" where
  "handle_transport_init env ec c =
     (let ecm = (if con_istate c \<noteq> TRANSPORT_INIT then lib_err Invalid_State else ec)
      in if ecm \<noteq> None then Inr (con_terminate ecm c)
         else send_http_request env (c\<lparr>con_istate := WRITE_HTTP_REQUEST, m_processor := Some (get_processor env c)\<rparr>))"

definition handle_read_http_response :: "ws_env \<Rightarrow> error_code option \<Rightarrow> byte list \<Rightarrow> conn \<Rightarrow> conn result" where
  "handle_read_http_response env ec bytes c =
     (let go = (\<lambda>c.
        case response_consume (string_of bytes) (m_response c) of
          Inl (Cpp_Failure f) \<Rightarrow> Inl f
        | Inl (Http_Exception _ _) \<Rightarrow> Inr (con_terminate (lib_err Lib_General) c)
        | Inr (bytes_processed, res) \<Rightarrow>
            let c = c\<lparr>m_response := res\<rparr>
            in if headers_ready res
               then let c = cancel_handshake_timer c
                    in case validate_server_handshake_response (blank_words env) (m_request c) res of
                         Some e \<Rightarrow> Inr (con_terminate (Some (Processor_Error e)) c)
                       | None \<Rightarrow>
                           let c = c\<lparr>con_istate := PROCESS_CONNECTION, con_state := St_Open\<rparr>;
                               c = call_user env Ev_Open c
                           in handle_read_frame env None (drop bytes_processed bytes) c
               else Inr (read_response c))
      in case ec of
           Some e \<Rightarrow> Inr (http_failed e c)
         | None \<Rightarrow>
             if con_state c = St_Connecting
             then if con_istate c \<noteq> READ_HTTP_RESPONSE then Inr (http_failed (Library_Error Invalid_State) c) else go c
             else if con_state c = St_Closed then Inr c
             else Inr (http_failed (Library_Error Invalid_State) c))"

subsection \<open>Timers\<close>

definition handle_open_handshake_timeout :: "error_code option \<Rightarrow> conn \<Rightarrow> conn" where
  "handle_open_handshake_timeout ec c = (if ec = None then con_terminate (lib_err Open_Handshake_Timeout) c else c)"

definition handle_close_handshake_timeout :: "error_code option \<Rightarrow> conn \<Rightarrow> conn" where
  "handle_close_handshake_timeout ec c = (if ec = None then con_terminate (lib_err Close_Handshake_Timeout) c else c)"

definition handle_pong_timeout :: "ws_env \<Rightarrow> byte list \<Rightarrow> error_code option \<Rightarrow> conn \<Rightarrow> conn" where
  "handle_pong_timeout env payload ec c =
     (if ec = None \<and> has_pong_timeout_handler env then call_user env (Ev_Pong_Timeout payload) c else c)"

end
