(* ===== verification/Ws_Session_Io.thy ===== *)
theory Ws_Session_Io
  imports Ws_Session
begin

section \<open>A connection and its io\_service\<close>

text \<open>
  What can happen to a connection, one event at a time: \<open>start\<close>, the completion of an operation or
  of a timer, a posted function, and the operations of other threads. \<open>io_step\<close> is \<open>None\<close> where an
  event cannot happen. A handler that leaves by an exception or is undefined is a failure.
\<close>

datatype io_event =
    Io_Start bool                                   \<comment> \<open>\<open>start\<close>; whether the host name for TLS can be set\<close>
  | Io_Connect_Failed error_code                    \<comment> \<open>the endpoint could not connect\<close>
  | Io_Handshake "asio_error option"
  | Io_Read "asio_error option" "byte list"
  | Io_Write "asio_error option"
  | Io_Shutdown "asio_error option"
  | Io_Post
  | Io_Expire nat
  | Io_Timer nat
  | Io_User action
  | Io_Other other

definition connection_read_buffer_size :: nat where
  "connection_read_buffer_size = 16384"

text \<open>A call of the init handler, which is empty after a shutdown.\<close>

definition call_init_handler :: "ws_env \<Rightarrow> bool \<Rightarrow> error_code option \<Rightarrow> conn \<Rightarrow> conn result" where
  "call_init_handler env has ec c = (if has then handle_transport_init env ec c else Inl Other_Exception)"

text \<open>\<open>handle_pre_init\<close>: it goes on after an error.\<close>

definition handle_pre_init :: "ws_env \<Rightarrow> error_code option \<Rightarrow> conn \<Rightarrow> conn result" where
  "handle_pre_init env ec c =
     bind_result (if ec \<noteq> None then call_init_handler env (m_init_handler c) ec c else Inr c) (\<lambda>c. Inr (post_init c))"

text \<open>\<open>pre_init\<close> of the TLS socket calls back at once, and twice after an error.\<close>

definition pre_init :: "ws_env \<Rightarrow> bool \<Rightarrow> conn \<Rightarrow> conn result" where
  "pre_init env sni_ok c =
     bind_result (if \<not> sni_ok then handle_pre_init env (Some (Socket_Error Sock_Tls_Failed_Sni_Hostname)) c else Inr c)
       (handle_pre_init env None)"

definition con_start :: "ws_env \<Rightarrow> bool \<Rightarrow> conn \<Rightarrow> conn result" where
  "con_start env sni_ok c =
     (if con_istate c \<noteq> USER_INIT then Inr (con_terminate (lib_err Invalid_State) c)
      else pre_init env sni_ok (asio_init (c\<lparr>con_istate := TRANSPORT_INIT\<rparr>)))"

definition handle_post_init :: "ws_env \<Rightarrow> nat \<Rightarrow> bool \<Rightarrow> error_code option \<Rightarrow> conn \<Rightarrow> conn result" where
  "handle_post_init env i has ec c =
     (if ec = tr_err Operation_Aborted \<or> timer_expired i c then Inr c
      else call_init_handler env has ec (cancel_timer i c))"

definition handle_post_init_timeout :: "ws_env \<Rightarrow> bool \<Rightarrow> error_code option \<Rightarrow> conn \<Rightarrow> conn result" where
  "handle_post_init_timeout env has ec c =
     (if ec = tr_err Operation_Aborted then Inr c
      else call_init_handler env has
             (if ec \<noteq> None then ec else if tls_ec c \<noteq> None then tls_ec c else tr_err Tr_Timeout) c)"

definition handle_async_read :: "ws_env \<Rightarrow> asio_error option \<Rightarrow> byte list \<Rightarrow> conn \<Rightarrow> conn result" where
  "handle_async_read env ec bytes c =
     (case m_read_handler c of
        None \<Rightarrow> Inr c
      | Some RH_Http_Response \<Rightarrow> handle_read_http_response env (read_result ec) bytes c
      | Some RH_Frame \<Rightarrow> handle_read_frame env (read_result ec) bytes c)"

definition handle_async_write :: "asio_error option \<Rightarrow> conn \<Rightarrow> conn result" where
  "handle_async_write ec c =
     (let c = c\<lparr>m_bufs := []\<rparr>
      in case m_write_handler c of
           None \<Rightarrow> Inr c
         | Some WH_Http_Request \<Rightarrow> Inr (handle_send_http_request (write_result ec) c)
         | Some WH_Frame \<Rightarrow> handle_write_frame (write_result ec) c)"

definition run_post :: "ws_env \<Rightarrow> post \<Rightarrow> conn \<Rightarrow> conn result" where
  "run_post env p c =
     (case p of
        Post_Write_Frame \<Rightarrow> write_frame c
      | Post_Pause \<Rightarrow> Inr (handle_pause_reading c)
      | Post_Resume \<Rightarrow> Inr (handle_resume_reading c)
      | Post_Interrupt \<Rightarrow> Inr (call_user env Ev_Interrupt c))"

definition run_timer :: "ws_env \<Rightarrow> timer_kind \<Rightarrow> error_code option \<Rightarrow> conn \<Rightarrow> conn result" where
  "run_timer env k ec c =
     (case k of
        T_Post_Init has \<Rightarrow> handle_post_init_timeout env has ec c
      | T_Open_Handshake \<Rightarrow> Inr (handle_open_handshake_timeout ec c)
      | T_Close_Handshake \<Rightarrow> Inr (handle_close_handshake_timeout ec c)
      | T_Pong payload \<Rightarrow> Inr (handle_pong_timeout env payload ec c)
      | T_Shutdown t \<Rightarrow>
          Inr (case handle_async_shutdown_timeout ec of None \<Rightarrow> c | Some ec' \<Rightarrow> handle_terminate env t ec' c))"

text \<open>The first operation of a kind, and the others.\<close>

fun take_op :: "(asio_op \<Rightarrow> bool) \<Rightarrow> asio_op list \<Rightarrow> (asio_op \<times> asio_op list) option" where
  "take_op P [] = None"
| "take_op P (x # xs) = (if P x then Some (x, xs) else map_option (map_prod id ((#) x)) (take_op P xs))"

fun take_timer :: "nat \<Rightarrow> timer list \<Rightarrow> (timer_kind \<times> timer_status \<times> timer list) option" where
  "take_timer i [] = None"
| "take_timer i ((j, k, s) # ts) =
     (if i = j then Some (k, s, ts) else map_option (\<lambda>(k', s', r). (k', s', (j, k, s) # r)) (take_timer i ts))"

fun expire_in :: "nat \<Rightarrow> timer list \<Rightarrow> timer list" where
  "expire_in i [] = []"
| "expire_in i ((j, k, s) # ts) =
     (if i = j then (j, k, if s = Running then Expired else s) # ts else (j, k, s) # expire_in i ts)"

definition is_handshake :: "asio_op \<Rightarrow> bool" where
  "is_handshake x \<longleftrightarrow> (case x of Op_Handshake _ _ \<Rightarrow> True | _ \<Rightarrow> False)"

definition is_write :: "asio_op \<Rightarrow> bool" where
  "is_write x \<longleftrightarrow> (case x of Op_Write _ \<Rightarrow> True | _ \<Rightarrow> False)"

definition is_shutdown :: "asio_op \<Rightarrow> bool" where
  "is_shutdown x \<longleftrightarrow> (case x of Op_Shutdown _ _ \<Rightarrow> True | _ \<Rightarrow> False)"

definition io_step :: "ws_env \<Rightarrow> io_event \<Rightarrow> conn \<Rightarrow> conn result option" where
  "io_step env e c =
     (case e of
        Io_Start sni_ok \<Rightarrow> Some (con_start env sni_ok c)
      | Io_Connect_Failed ec \<Rightarrow> if con_istate c = USER_INIT then Some (Inr (con_terminate (Some ec) c)) else None
      | Io_Handshake ec \<Rightarrow>
          (case take_op is_handshake (io_ops c) of
             Some (Op_Handshake i has, ops) \<Rightarrow>
               let c = handle_tls_init ec (c\<lparr>io_ops := ops\<rparr>) in Some (handle_post_init env i has (tls_ec c) c)
           | _ \<Rightarrow> None)
      | Io_Read ec bytes \<Rightarrow>
          (case take_op ((=) Op_Read) (io_ops c) of
             Some (_, ops) \<Rightarrow>
               if (ec = None \<longrightarrow> bytes \<noteq> []) \<and> length bytes \<le> connection_read_buffer_size
               then Some (handle_async_read env ec bytes (c\<lparr>io_ops := ops\<rparr>)) else None
           | None \<Rightarrow> None)
      | Io_Write ec \<Rightarrow>
          (case take_op is_write (io_ops c) of
             Some (_, ops) \<Rightarrow> Some (handle_async_write ec (c\<lparr>io_ops := ops\<rparr>))
           | None \<Rightarrow> None)
      | Io_Shutdown ec \<Rightarrow>
          (case take_op is_shutdown (io_ops c) of
             Some (Op_Shutdown t i, ops) \<Rightarrow>
               (case handle_async_shutdown i ec (c\<lparr>io_ops := ops\<rparr>) of
                  (None, c) \<Rightarrow> Some (Inr c)
                | (Some ec', c) \<Rightarrow> Some (Inr (handle_terminate env t ec' c)))
           | _ \<Rightarrow> None)
      | Io_Post \<Rightarrow>
          (case io_posts c of [] \<Rightarrow> None | p # ps \<Rightarrow> Some (run_post env p (c\<lparr>io_posts := ps\<rparr>)))
      | Io_Expire i \<Rightarrow> Some (Inr (c\<lparr>io_timers := expire_in i (io_timers c)\<rparr>))
      | Io_Timer i \<Rightarrow>
          (case take_timer i (io_timers c) of
             Some (k, s, ts) \<Rightarrow>
               if s = Running then None else Some (run_timer env k (timer_result s) (c\<lparr>io_timers := ts\<rparr>))
           | None \<Rightarrow> None)
      | Io_User a \<Rightarrow> Some (Inr (do_action env a c))
      | Io_Other o1 \<Rightarrow> Some (Inr (other_op env o1 c)))"

text \<open>The states that a connection reaches, where the user's operations satisfy \<open>ok\<close>.\<close>

inductive ws_reach :: "ws_env \<Rightarrow> (io_event \<Rightarrow> bool) \<Rightarrow> conn \<Rightarrow> bool" for env ok where
  start: "ws_reach env ok (conn_new ua u)"
| step: "ws_reach env ok c \<Longrightarrow> ok e \<Longrightarrow> io_step env e c = Some (Inr c') \<Longrightarrow> ws_reach env ok c'"

text \<open>A run is a list of events; one that cannot happen is passed over.\<close>

fun io_run :: "ws_env \<Rightarrow> io_event list \<Rightarrow> conn \<Rightarrow> conn result" where
  "io_run env [] c = Inr c"
| "io_run env (e # es) c = (case io_step env e c of None \<Rightarrow> io_run env es c | Some r \<Rightarrow> bind_result r (io_run env es))"

end
