(* ===== verification/Ws_Session_Kept.thy ===== *)
theory Ws_Session_Kept
  imports Ws_Session_Io
begin

section \<open>What the handlers of a connection keep\<close>

text \<open>
  The handlers are built from few operations: those of the user, the close frame, the end of the
  connection, a read. A property of connections that these keep is kept by every handler: the interface
  \<open>session_kept\<close>.
\<close>

subsection \<open>The phase of the handshake\<close>

lemma istate_simps [simp]:
  "con_istate (write_push m c) = con_istate c" "con_istate (asio_post p c) = con_istate c"
  "con_istate (queue_message m c) = con_istate c" "con_istate (draw_if b c) = con_istate c"
  "con_istate (cancel_timer i c) = con_istate c" "con_istate (snd (set_timer k c)) = con_istate c"
  by (simp_all add: write_push_def asio_post_def queue_message_def draw_if_def cancel_timer_def set_timer_def Let_def)

lemma istate_set_timer: "set_timer k c = (i, c') \<Longrightarrow> con_istate c' = con_istate c"
  by (auto simp: set_timer_eq)

lemma istate_arm [simp]:
  "con_istate (arm_pong_timer env payload c) = con_istate c" "con_istate (arm_close_timer c) = con_istate c"
  "con_istate (arm_open_timer c) = con_istate c"
  by (simp_all add: arm_pong_timer_def arm_close_timer_def arm_open_timer_def set_timer_def Let_def split: option.split)

lemma istate_send_push [simp]: "con_istate (snd (send_push env m c)) = con_istate c"
  by (simp add: send_push_def split: prod.split option.split)

lemma istate_ping_push [simp]: "con_istate (snd (ping_push env p c)) = con_istate c"
  by (simp add: ping_push_def split: prod.split option.split)

lemma istate_pong_push [simp]: "con_istate (snd (pong_push env p c)) = con_istate c"
  by (simp add: pong_push_def split: prod.split option.split)

lemma istate_push_pending [simp]: "con_istate (push_pending env p c) = con_istate c"
  by (simp add: push_pending_def split: pending.split)

lemma istate_close_frame [simp]: "con_istate (snd (send_close_frame env code reason ack t c)) = con_istate c"
  by (auto simp: send_close_frame_def Let_def split: prod.split option.split)

lemma istate_close [simp]: "con_istate (snd (con_close env code reason c)) = con_istate c"
  by (simp add: con_close_def Let_def)

lemma istate_other [simp]: "con_istate (other_op env x c) = con_istate c"
  by (cases x) simp_all

lemma istate_others [simp]: "con_istate (others env c) = con_istate c"
proof -
  have "con_istate (fold (other_op env) xs c) = con_istate c" for xs by (induction xs arbitrary: c) simp_all
  then show ?thesis by (simp add: others_def)
qed

lemma istate_send [simp]: "con_istate (snd (send_message env m c)) = con_istate c"
  by (simp add: send_message_def)

lemma istate_pong [simp]: "con_istate (snd (con_pong env p c)) = con_istate c"
  by (simp add: con_pong_def)

lemma istate_ping [simp]: "con_istate (snd (con_ping env p c)) = con_istate c"
  by (simp add: con_ping_def)

lemma istate_action [simp]: "con_istate (do_action env a c) = con_istate c"
  by (cases a) (simp_all add: con_send_def)

lemma istate_actions [simp]: "con_istate (fold (do_action env) as c) = con_istate c"
  by (induction as arbitrary: c) simp_all

lemma istate_call_user [simp]: "con_istate (call_user env ev c) = con_istate c"
  by (simp add: call_user_def)

lemma istate_shutdown [simp]: "con_istate (async_shutdown t c) = con_istate c"
  by (simp add: async_shutdown_def set_timer_def)

lemma istate_terminate [simp]: "con_istate (con_terminate ec c) = con_istate c"
  by (simp add: con_terminate_def cancel_handshake_timer_def Let_def split: option.split)

lemma istate_dispatch [simp]: "con_istate (dispatch_message env m c) = con_istate c"
  by (auto simp: dispatch_message_def process_control_frame_def handle_close_frame_def send_close_ack_def Let_def
      split: option.split prod.split)

lemma istate_consume_failed [simp]: "con_istate (consume_failed_with env ec c) = con_istate c"
proof -
  have "con_istate (snd (con_close env (to_ws ec) (octets (error_message ec)) c)) = con_istate c" by simp
  then show ?thesis
    by (cases "con_close env (to_ws ec) (octets (error_message ec)) c")
      (auto simp: consume_failed_with_def split: option.split)
qed

lemma istate_read_failed [simp]: "con_istate (read_failed ec c) = con_istate c"
  by (simp add: read_failed_def)

subsection \<open>The loop over a buffer\<close>

lemma read_loop_kept:
  "read_loop dispatch bs s c = Inr (ec, s', c') \<Longrightarrow> J c \<Longrightarrow> (\<And>m c. J c \<Longrightarrow> J (dispatch m c)) \<Longrightarrow> J c'"
proof (induction dispatch bs s c rule: read_loop.induct)
  case (1 dispatch bs s c)
  show ?case
  proof (cases "bs = []")
    case False
    with "1.prems"(1) obtain p ec1 s1 where cons: "consume bs s = Inr (p, ec1, s1)"
      by (subst (asm) read_loop.simps) (auto simp: bind_result_eq_Inr)
    show ?thesis
    proof (cases ec1)
      case (Some e)
      with "1.prems" False cons show ?thesis by (subst (asm) read_loop.simps) simp
    next
      case None
      show ?thesis
      proof (cases "hybi_ready s1")
        case True
        with "1.prems"(1) False cons None obtain msg s2 where m: "hybi_get_message s1 = Inr (msg, s2)"
          and r: "read_loop dispatch (drop p bs) s2 (dispatch msg c) = Inr (ec, s', c')"
          by (subst (asm) read_loop.simps) (auto simp: bind_result_eq_Inr)
        show ?thesis
          using "1.IH"(1)[OF False cons refl refl None True m refl r "1.prems"(3)[OF "1.prems"(2)] "1.prems"(3)] .
      next
        case not_ready: False
        with "1.prems"(1) False cons None have r: "p \<noteq> 0" "read_loop dispatch (drop p bs) s1 c = Inr (ec, s', c')"
          by (subst (asm) read_loop.simps, auto split: if_splits)+
        show ?thesis
          using "1.IH"(2)[OF False cons refl refl None not_ready r "1.prems"(2,3)] .
      qed
    qed
  qed (use "1.prems" in simp)
qed

subsection \<open>The interface\<close>

definition data_event :: "user_event \<Rightarrow> bool" where
  "data_event ev \<longleftrightarrow> (case ev of Ev_Message _ \<Rightarrow> True | Ev_Ping _ \<Rightarrow> True | Ev_Pong _ \<Rightarrow> True | _ \<Rightarrow> False)"

locale session_kept =
  fixes env :: ws_env and ok :: "action \<Rightarrow> bool" and I :: "conn \<Rightarrow> bool"
  assumes actions_ok: "list_all ok (on_event env ev c)"
    and act: "ok a \<Longrightarrow> I c \<Longrightarrow> I (do_action env a c)"
    and pong: "I c \<Longrightarrow> I (snd (con_pong env p c))"
    and close_frame: "con_state c \<noteq> St_Closed \<Longrightarrow> con_istate c = PROCESS_CONNECTION \<Longrightarrow> I c \<Longrightarrow>
      I (snd (send_close_frame env code reason ack t c))"
    and data: "con_state c = St_Open \<Longrightarrow> data_event ev \<Longrightarrow> I c \<Longrightarrow> I (c\<lparr>h_events := h_events c @ [ev]\<rparr>)"
    and remote: "I c \<Longrightarrow> I (c\<lparr>m_remote_close_code := code\<rparr>)" "I c \<Longrightarrow> I (c\<lparr>m_remote_close_reason := reason\<rparr>)"
    and clean: "I c \<Longrightarrow> I (c\<lparr>m_was_clean := True\<rparr>)"
    and ping_timer: "m_ping_timer c = Some i \<Longrightarrow> I c \<Longrightarrow> I (cancel_timer i c)"
    and terminate: "I c \<Longrightarrow> I (con_terminate ec c)"
    and read: "async_read_at_least RH_Frame c = (None, c') \<Longrightarrow> con_istate c = PROCESS_CONNECTION \<Longrightarrow> I c \<Longrightarrow> I c'"
begin

lemma user_actions: "list_all ok as \<Longrightarrow> I c \<Longrightarrow> I (fold (do_action env) as c)"
  by (induction as arbitrary: c) (simp_all add: act)

lemma user_called: "I (c\<lparr>h_events := h_events c @ [ev]\<rparr>) \<Longrightarrow> I (call_user env ev c)"
  by (simp add: call_user_def user_actions actions_ok)

lemma user_data: "con_state c = St_Open \<Longrightarrow> data_event ev \<Longrightarrow> I c \<Longrightarrow> I (call_user env ev c)"
  by (rule user_called) (rule data)

lemma closing:
  assumes "con_state c \<noteq> St_Closed" "con_istate c = PROCESS_CONNECTION" "I c"
  shows "I (handle_close_frame env msg c)"
proof -
  obtain code ec where code: "extract_code (m_payload msg) = (code, ec)" by fastforce
  obtain reason ec' where reason: "extract_reason (m_payload msg) = (reason, ec')" by fastforce
  let ?c = "c\<lparr>m_remote_close_code := code\<rparr>" and ?d = "c\<lparr>m_remote_close_code := code, m_remote_close_reason := reason\<rparr>"
  have I: "I ?c" "I ?d" using remote(1)[OF assms(3)] remote(2)[OF remote(1)[OF assms(3)]] by simp_all
  have send: "I (snd (send_close_frame env k r True False ?c))" "I (snd (send_close_frame env k r True False ?d))" for k r
    using assms by (intro close_frame I; simp)+
  show ?thesis
    using I send terminate[OF I(1)] terminate[OF I(2)] clean[OF I(2)]
    by (simp add: handle_close_frame_def code reason send_close_ack_def Let_def)
qed

lemma control:
  assumes "con_istate c = PROCESS_CONNECTION" "I c"
  shows "I (process_control_frame env msg c)"
proof -
  have ping: "I (call_user env (Ev_Ping (m_payload msg)) c)" "I (call_user env (Ev_Pong (m_payload msg)) c)"
    if "con_state c = St_Open" using user_data[OF that _ assms(2)] by (simp_all add: data_event_def)
  show ?thesis
    using assms ping closing pong ping_timer
    by (auto simp: process_control_frame_def Let_def split: option.split)
qed

lemma dispatched: "con_istate c = PROCESS_CONNECTION \<Longrightarrow> I c \<Longrightarrow> I (dispatch_message env msg c)"
  using control user_data by (auto simp: dispatch_message_def data_event_def split: option.split)

lemma read_error: "I c \<Longrightarrow> I (read_failed ec c)"
  by (simp add: read_failed_def terminate)

lemma read_more:
  assumes "con_istate c = PROCESS_CONNECTION" "I c"
  shows "I (read_frame c)"
proof (cases "async_read_at_least RH_Frame c")
  case (Pair e c')
  then show ?thesis
    using assms read[of c c'] read_error[of c]
    by (cases e) (auto simp: read_frame_def async_read_at_least_def split: if_splits)
qed

lemma closed_by_user:
  assumes "con_istate c = PROCESS_CONNECTION" "I c"
  shows "I (snd (con_close env code reason c))"
  using assms by (simp add: con_close_def Let_def close_frame)

lemma consume_error:
  assumes "con_istate c = PROCESS_CONNECTION" "I c"
  shows "I (consume_failed_with env ec c)"
  using closed_by_user[OF assms, of "to_ws ec" "octets (error_message ec)"] terminate assms(2)
  by (cases "con_close env (to_ws ec) (octets (error_message ec)) c")
    (auto simp: consume_failed_with_def split: option.split)

text \<open>A buffer of frames, where the property does not look at the processor.\<close>

lemma frames_read:
  assumes "handle_read_frame env ec bytes c = Inr c'" "I c" "\<And>s c. I c \<Longrightarrow> I (c\<lparr>m_processor := Some s\<rparr>)"
  shows "I c'"
proof (cases "if ec = None \<and> con_istate c \<noteq> PROCESS_CONNECTION then lib_err Invalid_State else ec")
  case (Some e)
  with assms(1,2) show ?thesis by (auto simp: handle_read_frame_def Let_def intro: read_error)
next
  case None
  then have p: "ec = None" "con_istate c = PROCESS_CONNECTION" by (auto split: if_splits)
  obtain s where s: "m_processor c = Some s"
    using assms(1) p by (cases "m_processor c") (auto simp: handle_read_frame_def)
  obtain e s1 c1 where loop: "read_loop (dispatch_message env) bytes s c = Inr (e, s1, c1)"
    using assms(1) p s by (auto simp: handle_read_frame_def bind_result_eq_Inr)
  have J: "I c1 \<and> con_istate c1 = PROCESS_CONNECTION"
    by (rule read_loop_kept[OF loop, of "\<lambda>c. I c \<and> con_istate c = PROCESS_CONNECTION"])
      (use assms(2) p dispatched in auto)
  then have I: "I (c1\<lparr>m_processor := Some s1\<rparr>)" using assms(3) by blast
  have "I (case e of Some e \<Rightarrow> consume_failed_with env (Processor_Error e) (c1\<lparr>m_processor := Some s1\<rparr>)
                   | None \<Rightarrow> read_frame (c1\<lparr>m_processor := Some s1\<rparr>))"
    using I J by (cases e) (auto intro: consume_error read_more)
  with assms(1) p s loop show ?thesis by (auto simp: handle_read_frame_def Let_def)
qed

end

end
