(* ===== verification/Ws_Session_Write.thy ===== *)
theory Ws_Session_Write
  imports Ws_Session_Kept
begin

section \<open>The writes of a connection\<close>

text \<open>
  At most one write is outstanding; what is handed to the transport is what was pushed, in order; and
  the bytes given to the socket are the request followed by the frames.
\<close>

subsection \<open>The queue\<close>

lemma size_t_add: "size_t (int (size_t x) + y) = size_t (x + y)"
  by (simp add: size_t_def mod_add_left_eq)

lemma size_t_diff: "size_t (int (size_t x) - y) = size_t (x - y)"
  by (simp add: size_t_def mod_diff_left_eq)

lemma size_t_add': "size_t (y + int (size_t x)) = size_t (y + x)"
  by (simp add: size_t_def mod_add_right_eq)

definition wire_of :: "message \<Rightarrow> byte list" where
  "wire_of m = m_header m @ m_payload m"

definition queued_bytes :: "message list \<Rightarrow> nat" where
  "queued_bytes ms = sum_list (map (\<lambda>m. length (m_payload m)) ms)"

lemma queued_bytes_simps [simp]:
  "queued_bytes [] = 0" "queued_bytes (m # ms) = length (m_payload m) + queued_bytes ms"
  "queued_bytes (ms @ ms') = queued_bytes ms + queued_bytes ms'"
  by (simp_all add: queued_bytes_def)

lemma queue_message_eq:
  "queue_message msg c =
     c\<lparr>m_send_buffer_size := size_t (int (m_send_buffer_size c) + int (length (m_payload msg))),
       m_send_queue := m_send_queue c @ [msg], h_pushed := h_pushed c @ [msg],
       io_posts := io_posts c @ (if m_write_flag c then [] else [Post_Write_Frame])\<rparr>"
  by (simp add: queue_message_def write_push_def asio_post_def Let_def)

lemma pop_ready_eq:
  "m_send_buffer_size c = size_t (int (queued_bytes (m_send_queue c))) \<Longrightarrow>
   \<exists>taken rest.
     m_send_queue c = taken @ rest \<and>
     pop_ready c = c\<lparr>m_send_queue := rest, m_current_msgs := m_current_msgs c @ taken,
                      m_send_buffer_size := size_t (int (queued_bytes rest))\<rparr> \<and>
     list_all (\<lambda>m. \<not> m_terminal m) (butlast taken) \<and> (rest \<noteq> [] \<longrightarrow> taken \<noteq> [] \<and> m_terminal (last taken))"
proof (induction c rule: pop_ready.induct)
  case (1 c)
  show ?case
  proof (cases "m_send_queue c")
    case Nil
    with 1(2) show ?thesis
      by (intro exI[of _ "[]"]) (simp add: pop_ready.simps[of c] write_pop_def)
  next
    case (Cons msg q)
    let ?c = "c\<lparr>m_send_buffer_size := size_t (int (m_send_buffer_size c) - int (length (m_payload msg))),
       m_send_queue := q, m_current_msgs := m_current_msgs c @ [msg]\<rparr>"
    have pop: "pop_ready c = (if m_terminal msg then ?c else pop_ready ?c)"
      using Cons by (simp add: pop_ready.simps[of c] write_pop_def Let_def)
    have size: "size_t (int (m_send_buffer_size c) - int (length (m_payload msg))) = size_t (int (queued_bytes q))"
      using 1(2) Cons by (simp add: size_t_diff)
    show ?thesis
    proof (cases "m_terminal msg")
      case True
      with Cons pop size show ?thesis by (intro exI[of _ "[msg]"] exI[of _ q]) auto
    next
      case False
      have w: "write_pop c = (Some msg, ?c\<lparr>m_current_msgs := m_current_msgs c\<rparr>)" using Cons by (simp add: write_pop_def)
      have "m_send_buffer_size ?c = size_t (int (queued_bytes (m_send_queue ?c)))" using size by simp
      then have "\<exists>taken rest. m_send_queue ?c = taken @ rest \<and>
          pop_ready ?c = ?c\<lparr>m_send_queue := rest, m_current_msgs := m_current_msgs ?c @ taken,
                      m_send_buffer_size := size_t (int (queued_bytes rest))\<rparr> \<and>
          list_all (\<lambda>m. \<not> m_terminal m) (butlast taken) \<and> (rest \<noteq> [] \<longrightarrow> taken \<noteq> [] \<and> m_terminal (last taken))"
        using "1.IH"[OF w[symmetric] refl refl False] by simp
      then obtain taken rest where
        IH: "q = taken @ rest"
          "pop_ready ?c = c\<lparr>m_send_queue := rest, m_current_msgs := m_current_msgs c @ msg # taken,
                             m_send_buffer_size := size_t (int (queued_bytes rest))\<rparr>"
          "list_all (\<lambda>m. \<not> m_terminal m) (butlast taken)" "rest \<noteq> [] \<Longrightarrow> taken \<noteq> [] \<and> m_terminal (last taken)"
        by auto
      show ?thesis
        by (rule exI[of _ "msg # taken"], rule exI[of _ rest])
          (simp only: pop False if_False IH(2), use Cons False IH in auto)
    qed
  qed
qed

subsection \<open>The invariant\<close>

definition writes :: "asio_op list \<Rightarrow> nat" where
  "writes ops = length (filter is_write ops)"

text \<open>The transport is shut down exactly in the state closed; frames are processed exactly after the
  opening handshake.\<close>

definition link_inv :: "conn \<Rightarrow> bool" where
  "link_inv c \<longleftrightarrow>
     m_async_read_handler c = (con_state c \<noteq> St_Closed) \<and> m_async_write_handler c = (con_state c \<noteq> St_Closed) \<and>
     (con_state c \<in> {St_Open, St_Closing} \<longrightarrow> con_istate c = PROCESS_CONNECTION) \<and>
     (con_istate c = PROCESS_CONNECTION \<longrightarrow> con_state c \<noteq> St_Connecting) \<and>
     (con_state c = St_Closed \<longrightarrow> m_read_handler c = None \<and> m_write_handler c = None)"

text \<open>Pushed is written, lost after the end, or waiting.\<close>

definition queue_inv :: "conn \<Rightarrow> bool" where
  "queue_inv c \<longleftrightarrow>
     (\<exists>lost. h_pushed c = h_written c @ lost @ m_send_queue c \<and> (con_state c \<noteq> St_Closed \<longrightarrow> lost = [])) \<and>
     m_send_buffer_size c = size_t (int (queued_bytes (m_send_queue c))) \<and>
     (con_istate c \<noteq> PROCESS_CONNECTION \<longrightarrow>
        h_pushed c = [] \<and> h_sending c = [] \<and> \<not> m_write_flag c \<and> m_current_msgs c = [] \<and> m_send_buffer c = [])"

text \<open>A write of frames is outstanding exactly while the write flag is set.\<close>

definition flight_inv :: "conn \<Rightarrow> bool" where
  "flight_inv c \<longleftrightarrow>
     (con_state c \<noteq> St_Closed \<longrightarrow>
        writes (io_ops c) = (if con_istate c = WRITE_HTTP_REQUEST \<or> m_write_flag c then 1 else 0) \<and>
        (writes (io_ops c) = 0 \<longrightarrow> m_bufs c = []) \<and>
        (con_istate c = WRITE_HTTP_REQUEST \<longrightarrow> m_write_handler c = Some WH_Http_Request) \<and>
        (m_write_flag c \<longrightarrow> m_write_handler c = Some WH_Frame) \<and>
        (m_write_flag c \<longleftrightarrow> m_current_msgs c \<noteq> [])) \<and>
     (m_current_msgs c \<noteq> [] \<longrightarrow> m_write_flag c) \<and>
     (m_current_msgs c = [] \<longrightarrow> m_send_buffer c = [])"

definition wire_inv :: "conn \<Rightarrow> bool" where
  "wire_inv c \<longleftrightarrow>
     (con_istate c \<in> {USER_INIT, TRANSPORT_INIT} \<longrightarrow> sent_bytes c = []) \<and>
     (sent_bytes c = [] \<and> h_written c = [] \<and> (con_istate c \<in> {USER_INIT, TRANSPORT_INIT} \<or> con_state c = St_Closed) \<or>
      sent_bytes c = octets (m_handshake_buffer c) @ concat (map wire_of (h_written c)))"

definition write_inv :: "conn \<Rightarrow> bool" where
  "write_inv c \<longleftrightarrow> link_inv c \<and> queue_inv c \<and> flight_inv c \<and> wire_inv c"

lemmas write_inv_defs = write_inv_def link_inv_def queue_inv_def flight_inv_def wire_inv_def

lemma writes_simps [simp]:
  "writes [] = 0" "writes (x # ops) = (if is_write x then 1 else 0) + writes ops"
  "writes (ops @ ops') = writes ops + writes ops'"
  by (simp_all add: writes_def)

lemma is_write_simps [simp]:
  "is_write (Op_Write bs)" "\<not> is_write Op_Read" "\<not> is_write (Op_Handshake i b)" "\<not> is_write (Op_Shutdown t i)"
  by (simp_all add: is_write_def)

lemma write_inv_new: "write_inv (conn_new ua u)"
  by (simp add: write_inv_defs conn_new_def size_t_def)

text \<open>Fields that the invariant does not look at.\<close>

lemma write_inv_other [simp]:
  "write_inv (c\<lparr>io_timers := ts\<rparr>) = write_inv c" "write_inv (c\<lparr>next_timer := n\<rparr>) = write_inv c"
  "write_inv (c\<lparr>io_posts := ps\<rparr>) = write_inv c" "write_inv (c\<lparr>rng_drawn := n\<rparr>) = write_inv c"
  "write_inv (c\<lparr>m_ping_timer := x\<rparr>) = write_inv c" "write_inv (c\<lparr>m_handshake_timer := x\<rparr>) = write_inv c"
  "write_inv (c\<lparr>m_was_clean := b\<rparr>) = write_inv c" "write_inv (c\<lparr>h_events := es\<rparr>) = write_inv c"
  "write_inv (c\<lparr>m_local_close_code := x1\<rparr>) = write_inv c" "write_inv (c\<lparr>m_local_close_reason := x2\<rparr>) = write_inv c"
  "write_inv (c\<lparr>m_remote_close_code := x1\<rparr>) = write_inv c" "write_inv (c\<lparr>m_remote_close_reason := x2\<rparr>) = write_inv c"
  "write_inv (c\<lparr>m_ec := x3\<rparr>) = write_inv c" "write_inv (c\<lparr>m_processor := x4\<rparr>) = write_inv c"
  "write_inv (c\<lparr>m_response := x5\<rparr>) = write_inv c" "write_inv (c\<lparr>m_request := x6\<rparr>) = write_inv c"
  "write_inv (c\<lparr>m_read_flag := b\<rparr>) = write_inv c" "write_inv (c\<lparr>tls_ec := x3\<rparr>) = write_inv c"
  "write_inv (c\<lparr>m_init_handler := b\<rparr>) = write_inv c"
  by (simp_all add: write_inv_defs)

lemma queue_message_write_inv:
  assumes "write_inv c" "con_istate c = PROCESS_CONNECTION"
  shows "write_inv (queue_message msg c)"
proof -
  have "queue_inv (queue_message msg c)"
    using assms by (auto simp: write_inv_def queue_inv_def queue_message_eq size_t_add size_t_add'[of _ "int (length (m_payload msg))"])
  moreover have "link_inv (queue_message msg c)" "flight_inv (queue_message msg c)" "wire_inv (queue_message msg c)"
    using assms by (simp_all add: write_inv_def link_inv_def flight_inv_def wire_inv_def queue_message_eq)
  ultimately show ?thesis by (simp add: write_inv_def)
qed

lemma set_timer_write_inv [simp]: "set_timer k c = (i, c') \<Longrightarrow> write_inv c' = write_inv c"
  by (auto simp: set_timer_eq)

lemma cancel_timer_write_inv [simp]: "write_inv (cancel_timer i c) = write_inv c"
  by (simp add: cancel_timer_def)

lemma asio_post_write_inv [simp]: "write_inv (asio_post p c) = write_inv c"
  by (simp add: asio_post_def)

lemma draw_if_write_inv [simp]: "write_inv (draw_if b c) = write_inv c" "con_istate (draw_if b c) = con_istate c"
  by (simp_all add: draw_if_def)

text \<open>The end, whether or not the write that it interrupts is still counted.\<close>

lemma terminate_ends:
  assumes "queue_inv c" "link_inv c" "wire_inv c" "m_current_msgs c \<noteq> [] \<longrightarrow> m_write_flag c"
    "m_current_msgs c = [] \<longrightarrow> m_send_buffer c = []"
  shows "write_inv (con_terminate ec c)"
proof -
  let ?d = "case ec of None \<Rightarrow> cancel_handshake_timer c
    | Some e \<Rightarrow> (cancel_handshake_timer c)\<lparr>m_ec := ec, m_local_close_code := close_abnormal_close,
        m_local_close_reason := octets (error_message e)\<rparr>"
  have keep: "queue_inv ?d" "link_inv ?d" "wire_inv ?d" "m_current_msgs ?d \<noteq> [] \<longrightarrow> m_write_flag ?d"
    "m_current_msgs ?d = [] \<longrightarrow> m_send_buffer ?d = []" "con_state ?d = con_state c"
    using assms by (auto simp: cancel_handshake_timer_def cancel_timer_def queue_inv_def link_inv_def wire_inv_def
        split: option.split)
  have "write_inv (async_shutdown t (?d\<lparr>con_state := St_Closed\<rparr>))" for t
  proof -
    have "queue_inv (async_shutdown t (?d\<lparr>con_state := St_Closed\<rparr>))"
      using keep by (auto simp: async_shutdown_def set_timer_def queue_inv_def simp del: option.case)
    moreover have "link_inv (async_shutdown t (?d\<lparr>con_state := St_Closed\<rparr>))"
      using keep by (simp add: async_shutdown_def set_timer_def link_inv_def)
    moreover have "flight_inv (async_shutdown t (?d\<lparr>con_state := St_Closed\<rparr>))"
      using keep by (simp add: async_shutdown_def set_timer_def flight_inv_def)
    moreover have "wire_inv (async_shutdown t (?d\<lparr>con_state := St_Closed\<rparr>))"
      using keep by (auto simp: async_shutdown_def set_timer_def wire_inv_def)
    ultimately show ?thesis by (simp add: write_inv_def)
  qed
  moreover have "write_inv ?d" if "con_state c = St_Closed"
    using keep that by (simp add: write_inv_def flight_inv_def)
  moreover have "con_terminate ec c = (if con_state ?d = St_Connecting then async_shutdown Ts_Failed (?d\<lparr>con_state := St_Closed\<rparr>)
      else if con_state ?d \<noteq> St_Closed then async_shutdown Ts_Closed (?d\<lparr>con_state := St_Closed\<rparr>) else ?d)"
    by (simp add: con_terminate_def Let_def)
  ultimately show ?thesis using keep(6) by simp
qed

lemma terminate_write_inv: "write_inv c \<Longrightarrow> write_inv (con_terminate ec c)"
  by (rule terminate_ends) (auto simp: write_inv_def flight_inv_def)

subsection \<open>Kept by the handlers\<close>

lemma write_inv_open:
  assumes "write_inv c" "con_state c = St_Open \<or> con_state c = St_Closing"
  shows "con_istate c = PROCESS_CONNECTION"
  using assms by (auto simp: write_inv_def link_inv_def)

lemma arm_write_inv [simp]:
  "write_inv (arm_pong_timer env payload c) = write_inv c" "write_inv (arm_close_timer c) = write_inv c"
  "write_inv (arm_open_timer c) = write_inv c"
  by (simp_all add: arm_pong_timer_def arm_close_timer_def arm_open_timer_def set_timer_def Let_def split: option.split)

lemma send_push_write_inv:
  assumes "write_inv c" "con_istate c = PROCESS_CONNECTION"
  shows "write_inv (snd (send_push env msg c))"
proof -
  have "write_inv (queue_message m d)" if "write_inv d" "con_istate d = con_istate c" for m d
    using that assms(2) by (intro queue_message_write_inv) auto
  then show ?thesis using assms(1) by (simp add: send_push_def split: prod.split option.split)
qed

lemma ping_push_write_inv:
  assumes "write_inv c" "con_istate c = PROCESS_CONNECTION"
  shows "write_inv (snd (ping_push env payload c))" "write_inv (snd (pong_push env payload c))"
proof -
  have "write_inv (queue_message m d)" if "write_inv d" "con_istate d = con_istate c" for m d
    using that assms(2) by (intro queue_message_write_inv) auto
  then show "write_inv (snd (ping_push env payload c))" "write_inv (snd (pong_push env payload c))"
    using assms(1) by (simp_all add: ping_push_def pong_push_def split: prod.split option.split)
qed

lemma push_pending_write_inv:
  "write_inv c \<Longrightarrow> con_istate c = PROCESS_CONNECTION \<Longrightarrow> write_inv (push_pending env p c)"
  by (simp add: push_pending_def send_push_write_inv ping_push_write_inv split: pending.split)

lemma set_closing_write_inv:
  assumes "write_inv c" "con_state c \<noteq> St_Closed" "con_istate c = PROCESS_CONNECTION"
  shows "write_inv (c\<lparr>con_state := St_Closing\<rparr>)"
proof -
  have "queue_inv (c\<lparr>con_state := St_Closing\<rparr>)" "link_inv (c\<lparr>con_state := St_Closing\<rparr>)"
    "flight_inv (c\<lparr>con_state := St_Closing\<rparr>)" "wire_inv (c\<lparr>con_state := St_Closing\<rparr>)"
    using assms by (auto simp: write_inv_def queue_inv_def link_inv_def flight_inv_def wire_inv_def)
  then show ?thesis by (simp add: write_inv_def)
qed

lemma close_frame_write_inv:
  assumes "con_state c \<noteq> St_Closed" "con_istate c = PROCESS_CONNECTION" "write_inv c"
  shows "write_inv (snd (send_close_frame env code reason ack t c))"
proof -
  have q: "write_inv (queue_message m d)" if "write_inv d" "con_istate d = con_istate c" for m d
    using that assms(2) by (intro queue_message_write_inv) auto
  have s: "write_inv ((draw_if True (c\<lparr>m_local_close_code := x, m_local_close_reason := y\<rparr>))\<lparr>con_state := St_Closing\<rparr>)" for x y
    using assms by (intro set_closing_write_inv) (simp_all add: draw_if_def)
  show ?thesis
    using assms s q by (simp add: send_close_frame_def Let_def split: prod.split option.split)
qed

lemma close_write_inv: "write_inv c \<Longrightarrow> write_inv (snd (con_close env code reason c))"
  using close_frame_write_inv[OF _ write_inv_open] by (simp add: con_close_def Let_def)

text \<open>Other threads: one that is between its check and the push is there after the opening handshake only.\<close>

lemma set_sending_write_inv:
  assumes "write_inv c" "con_istate c = PROCESS_CONNECTION"
  shows "write_inv (c\<lparr>h_sending := ps\<rparr>)"
proof -
  have "queue_inv (c\<lparr>h_sending := ps\<rparr>)" "link_inv (c\<lparr>h_sending := ps\<rparr>)" "flight_inv (c\<lparr>h_sending := ps\<rparr>)"
    "wire_inv (c\<lparr>h_sending := ps\<rparr>)"
    using assms by (simp_all add: write_inv_def queue_inv_def link_inv_def flight_inv_def wire_inv_def)
  then show ?thesis by (simp add: write_inv_def)
qed

lemma write_inv_sending: "write_inv c \<Longrightarrow> h_sending c \<noteq> [] \<Longrightarrow> con_istate c = PROCESS_CONNECTION"
  by (auto simp: write_inv_def queue_inv_def)

lemma other_write_inv:
  assumes "write_inv c"
  shows "write_inv (other_op env x c)"
proof (cases x)
  case (Ot_Check p)
  with assms write_inv_open[OF assms] show ?thesis by (simp add: set_sending_write_inv)
next
  case (Ot_Push p)
  show ?thesis
  proof (cases "p \<in> set (h_sending c)")
    case True
    then have "con_istate c = PROCESS_CONNECTION" using write_inv_sending[OF assms] by force
    with assms Ot_Push True show ?thesis by (simp add: push_pending_write_inv set_sending_write_inv)
  qed (use assms Ot_Push in simp)
qed (use assms in \<open>simp_all add: close_write_inv\<close>)

lemma others_write_inv: "write_inv c \<Longrightarrow> write_inv (others env c)"
proof -
  have "write_inv d \<Longrightarrow> write_inv (fold (other_op env) xs d)" for xs d
    by (induction xs arbitrary: d) (simp_all add: other_write_inv)
  then show "write_inv c \<Longrightarrow> write_inv (others env c)" by (simp add: others_def)
qed

lemma pong_write_inv:
  assumes "write_inv c"
  shows "write_inv (snd (con_pong env payload c))" "write_inv (snd (con_ping env payload c))"
    "write_inv (snd (send_message env m c))"
  using assms others_write_inv[OF assms, of env] write_inv_open[OF assms]
  by (simp_all add: con_pong_def con_ping_def send_message_def ping_push_write_inv send_push_write_inv)

lemma action_write_inv: "write_inv c \<Longrightarrow> write_inv (do_action env a c)"
  by (cases a) (simp_all add: con_send_def pong_write_inv close_write_inv)

lemma read_write_inv:
  assumes "async_read_at_least h c = (None, c')" "write_inv c"
  shows "write_inv c'"
proof -
  have c': "c' = c\<lparr>m_read_handler := Some h, io_ops := io_ops c @ [Op_Read]\<rparr>" "m_async_read_handler c"
    using assms(1) by (auto simp: async_read_at_least_def split: if_splits)
  have "queue_inv c'" using assms(2) by (simp add: write_inv_def queue_inv_def c'(1))
  moreover have "link_inv c'" using assms(2) c' by (auto simp: write_inv_def link_inv_def)
  moreover have "flight_inv c'" using assms(2) by (simp add: write_inv_def flight_inv_def c'(1))
  moreover have "wire_inv c'" using assms(2) by (simp add: write_inv_def wire_inv_def c'(1))
  ultimately show ?thesis by (simp add: write_inv_def)
qed

interpretation wk: session_kept env "\<lambda>a. True" write_inv
  by unfold_locales
    (simp_all add: list_all_iff action_write_inv pong_write_inv close_frame_write_inv terminate_write_inv read_write_inv)

subsection \<open>Writing\<close>

text \<open>Frames are sent only after the opening handshake, and while no write is outstanding.\<close>

lemma handle_write_frame_inv:
  assumes "handle_write_frame ec c = Inr c'" "link_inv c" "queue_inv (c\<lparr>m_current_msgs := [], m_send_buffer := []\<rparr>)"
    "wire_inv c" "con_istate c = PROCESS_CONNECTION"
    "con_state c \<noteq> St_Closed \<Longrightarrow> writes (io_ops c) = 0 \<and> m_bufs c = []"
  shows "write_inv c'"
proof -
  let ?c = "c\<lparr>m_send_buffer := [], m_current_msgs := []\<rparr>"
  have q: "queue_inv ?c" using assms(3) by (simp add: queue_inv_def)
  have l: "link_inv ?c" "wire_inv ?c" using assms(2,4) by (simp_all add: link_inv_def wire_inv_def)
  have shut: "write_inv (con_terminate ec ?c)" for ec
    by (rule terminate_ends) (use q l in simp_all)
  have clear: "write_inv (?c\<lparr>m_write_flag := False\<rparr>)"
    using q l assms(5,6) by (auto simp: write_inv_def queue_inv_def link_inv_def wire_inv_def flight_inv_def)
  show ?thesis
    using assms(1) shut clear by (auto simp: handle_write_frame_def Let_def asio_post_def split: if_splits)
qed

lemma write_inv_parts:
  assumes "write_inv c"
  shows "queue_inv c" "link_inv c" "flight_inv c" "wire_inv c"
  using assms by (simp_all add: write_inv_def)

lemma concat_wire: "concat (concat (map (\<lambda>m. [m_header m, m_payload m]) ms)) = concat (map wire_of ms)"
  by (induction ms) (simp_all add: wire_of_def)

lemma write_frame_inv:
  assumes "write_frame c = Inr c'" "write_inv c"
  shows "write_inv c'"
proof (cases "m_write_flag c")
  case True
  with assms show ?thesis by (simp add: write_frame_def)
next
  case False
  note w = write_inv_parts[OF assms(2)]
  have size: "m_send_buffer_size c = size_t (int (queued_bytes (m_send_queue c)))" using w(1) by (simp add: queue_inv_def)
  obtain taken rest where q: "m_send_queue c = taken @ rest"
    and pop: "pop_ready c = c\<lparr>m_send_queue := rest, m_current_msgs := m_current_msgs c @ taken,
                      m_send_buffer_size := size_t (int (queued_bytes rest))\<rparr>"
    and rest: "rest \<noteq> [] \<longrightarrow> taken \<noteq> []"
    using pop_ready_eq[OF size] by blast
  have cur: "m_current_msgs c = []" "m_send_buffer c = []" using w(3) False by (auto simp: flight_inv_def)
  show ?thesis
  proof (cases "taken = []")
    case True
    with rest q have nil: "rest = []" "m_send_queue c = []" by auto
    have "pop_ready c = c" using pop True nil size cur by simp
    with assms False cur show ?thesis by (simp add: write_frame_def Let_def)
  next
    case taken: False
    have proc: "con_istate c = PROCESS_CONNECTION" using w(1) q taken by (auto simp: queue_inv_def)
    let ?bufs = "concat (map (\<lambda>m. [m_header m, m_payload m]) taken)"
    let ?d = "c\<lparr>m_send_queue := rest, m_current_msgs := taken, m_send_buffer_size := size_t (int (queued_bytes rest)),
       m_write_flag := True, m_send_buffer := ?bufs\<rparr>"
    have step: "write_frame c = (case async_write ?bufs WH_Frame ?d of
        (Some e, c) \<Rightarrow> handle_write_frame (Some e) c | (None, c) \<Rightarrow> Inr (c\<lparr>h_written := h_written c @ m_current_msgs c\<rparr>))"
      using False cur taken by (simp add: write_frame_def pop Let_def)
    show ?thesis
    proof (cases "con_state c = St_Closed")
      case True
      then have closed: "\<not> m_async_write_handler ?d" using w(2) by (simp add: link_inv_def)
      have h: "handle_write_frame (tr_err Action_After_Shutdown) ?d = Inr c'"
        using assms(1) closed by (simp add: step async_write_def)
      obtain lost where "h_pushed c = h_written c @ lost @ taken @ rest"
        using w(1) q by (auto simp: queue_inv_def)
      then have "queue_inv (?d\<lparr>m_current_msgs := [], m_send_buffer := []\<rparr>)"
        using True proc by (auto simp: queue_inv_def intro!: exI[of _ "lost @ taken"])
      moreover have "link_inv ?d" "wire_inv ?d" using w by (simp_all add: link_inv_def wire_inv_def)
      ultimately show ?thesis
        using handle_write_frame_inv[OF h] proc True by simp
    next
      case open_: False
      then have async: "m_async_write_handler ?d" using w(2) by (simp add: link_inv_def)
      have idle: "writes (io_ops c) = 0" "m_bufs c = []"
        using w(3) open_ False proc by (auto simp: flight_inv_def)
      let ?e = "?d\<lparr>m_bufs := ?bufs, m_write_handler := Some WH_Frame, io_ops := io_ops c @ [Op_Write (concat ?bufs)],
         sent_bytes := sent_bytes c @ concat ?bufs, h_written := h_written c @ taken\<rparr>"
      have c': "c' = ?e" using assms(1) async idle by (auto simp: step async_write_def Let_def)
      have "queue_inv ?e" using w(1) q open_ proc by (auto simp: queue_inv_def)
      moreover have "link_inv ?e" using w(2) open_ by (simp add: link_inv_def)
      moreover have "flight_inv ?e" using idle taken proc by (simp add: flight_inv_def)
      moreover have "wire_inv ?e" using w(4) open_ proc by (auto simp: wire_inv_def concat_wire)
      ultimately show ?thesis by (simp add: write_inv_def c')
    qed
  qed
qed

text \<open>A frame write that completes.\<close>

lemma frames_written_inv:
  assumes "write_inv c" "m_write_handler c = Some WH_Frame" "Op_Write bs \<in> set (io_ops c)"
    "writes (io_ops c) = Suc (writes ops)"
    "handle_write_frame ec (c\<lparr>io_ops := ops, m_bufs := []\<rparr>) = Inr c'"
  shows "write_inv c'"
proof -
  note w = write_inv_parts[OF assms(1)]
  have open_: "con_state c \<noteq> St_Closed" using w(2) assms(2) by (auto simp: link_inv_def)
  have flag: "m_write_flag c" "writes ops = 0" "con_istate c \<noteq> WRITE_HTTP_REQUEST"
    using w(3) open_ assms(2,4) by (auto simp: flight_inv_def split: if_splits)
  have proc: "con_istate c = PROCESS_CONNECTION" using w(1) flag by (auto simp: queue_inv_def)
  show ?thesis
    by (rule handle_write_frame_inv[OF assms(5)])
      (use w flag proc in \<open>simp_all add: link_inv_def queue_inv_def wire_inv_def\<close>)
qed

subsection \<open>The opening handshake\<close>

lemma http_failed_inv: "write_inv c \<Longrightarrow> write_inv (http_failed e c)"
  by (simp add: http_failed_def terminate_write_inv)

lemma read_response_inv: "write_inv c \<Longrightarrow> write_inv (read_response c)"
proof (cases "async_read_at_least RH_Http_Response c")
  case (Pair e c')
  assume "write_inv c"
  with Pair show ?thesis
    by (cases e) (auto simp: read_response_def async_read_at_least_def http_failed_inv read_write_inv[of _ c] split: if_splits)
qed

lemma send_http_request_inv:
  assumes "send_http_request env c = Inr c'" "write_inv (c\<lparr>con_istate := TRANSPORT_INIT\<rparr>)"
    "con_istate c = WRITE_HTTP_REQUEST" "m_processor c \<noteq> None"
  shows "write_inv c'"
proof -
  note w = write_inv_parts[OF assms(2)]
  obtain req where c': "c' = (let c = arm_open_timer (c\<lparr>rng_drawn := rng_drawn c + 4, m_request := req,
                                    m_handshake_buffer := request_raw req\<rparr>)
      in case async_write [octets (m_handshake_buffer c)] WH_Http_Request c of
        (Some e, c) \<Rightarrow> handle_send_http_request (Some e) c | (None, c) \<Rightarrow> c)"
    using assms(1,4) by (auto simp: send_http_request_def bind_result_eq_Inr Let_def)
  let ?d = "arm_open_timer (c\<lparr>rng_drawn := rng_drawn c + 4, m_request := req, m_handshake_buffer := request_raw req\<rparr>)"
  have d: "con_state ?d = con_state c" "con_istate ?d = WRITE_HTTP_REQUEST" "io_ops ?d = io_ops c" "m_bufs ?d = m_bufs c"
    "m_async_write_handler ?d = m_async_write_handler c" "m_async_read_handler ?d = m_async_read_handler c"
    "m_read_handler ?d = m_read_handler c" "m_write_handler ?d = m_write_handler c" "h_pushed ?d = h_pushed c"
    "h_written ?d = h_written c" "h_sending ?d = h_sending c" "m_send_queue ?d = m_send_queue c"
    "m_send_buffer_size ?d = m_send_buffer_size c" "m_write_flag ?d = m_write_flag c" "m_current_msgs ?d = m_current_msgs c"
    "m_send_buffer ?d = m_send_buffer c" "sent_bytes ?d = sent_bytes c" "m_handshake_buffer ?d = request_raw req"
    using assms(3) by (simp_all add: arm_open_timer_def set_timer_def)
  have q: "h_pushed c = []" "h_written c = []" "m_send_queue c = []" "m_current_msgs c = []" "\<not> m_write_flag c"
    "h_sending c = []" "m_send_buffer c = []" "m_send_buffer_size c = size_t 0" "sent_bytes c = []"
    using w by (auto simp: queue_inv_def wire_inv_def)
  have state: "con_state c = St_Connecting \<or> con_state c = St_Closed"
    using w(2) by (cases "con_state c") (auto simp: link_inv_def)
  show ?thesis
  proof (cases "con_state c = St_Closed")
    case True
    then have "\<not> m_async_write_handler c" using w(2) by (simp add: link_inv_def)
    then have c2: "c' = http_failed (Transport_Error Action_After_Shutdown) ?d"
      using d by (simp add: c' Let_def async_write_def handle_send_http_request_def)
    have "queue_inv ?d" "link_inv ?d" "flight_inv ?d" "wire_inv ?d"
      using True w(2) d q by (simp_all add: queue_inv_def link_inv_def flight_inv_def wire_inv_def)
    then have "write_inv ?d" by (simp add: write_inv_def)
    then show ?thesis unfolding c2 by (rule http_failed_inv)
  next
    case False
    then have async: "m_async_write_handler c" and idle: "writes (io_ops c) = 0" "m_bufs c = []"
      using w(2,3) q(5) by (simp_all add: link_inv_def flight_inv_def)
    let ?e = "?d\<lparr>m_bufs := [octets (request_raw req)], m_write_handler := Some WH_Http_Request,
       io_ops := io_ops c @ [Op_Write (octets (request_raw req))], sent_bytes := octets (request_raw req)\<rparr>"
    have c2: "c' = ?e" using async idle d q by (simp add: c' Let_def async_write_def)
    have "queue_inv ?e" "link_inv ?e" "flight_inv ?e" "wire_inv ?e"
      using False w(2) d q idle state by (simp_all add: queue_inv_def link_inv_def flight_inv_def wire_inv_def)
    then show ?thesis by (simp add: write_inv_def c2)
  qed
qed

lemma transport_init_inv:
  assumes "handle_transport_init env ec c = Inr c'" "write_inv c"
  shows "write_inv c'"
proof (cases "con_istate c = TRANSPORT_INIT \<and> ec = None")
  case True
  let ?c = "c\<lparr>con_istate := WRITE_HTTP_REQUEST, m_processor := Some (get_processor env c)\<rparr>"
  have "?c\<lparr>con_istate := TRANSPORT_INIT\<rparr> = c\<lparr>m_processor := Some (get_processor env c)\<rparr>" using True by simp
  then have "write_inv (?c\<lparr>con_istate := TRANSPORT_INIT\<rparr>)" using assms(2) by (simp only: write_inv_other)
  with True assms(1) show ?thesis
    by (auto simp: handle_transport_init_def intro: send_http_request_inv)
next
  case False
  with assms show ?thesis by (auto simp: handle_transport_init_def terminate_write_inv Let_def split: if_splits)
qed

lemma request_sent_inv:
  assumes "write_inv c" "m_write_handler c = Some WH_Http_Request" "writes (io_ops c) = Suc (writes ops)"
  shows "write_inv (handle_send_http_request ec (c\<lparr>io_ops := ops, m_bufs := []\<rparr>))"
proof -
  note w = write_inv_parts[OF assms(1)]
  let ?c = "c\<lparr>io_ops := ops, m_bufs := []\<rparr>"
  have open_: "con_state c \<noteq> St_Closed" using w(2) assms(2) by (auto simp: link_inv_def)
  have f: "\<not> m_write_flag c" "writes ops = 0" "con_istate c = WRITE_HTTP_REQUEST"
    using w(3) open_ assms(2,3) by (auto simp: flight_inv_def split: if_splits)
  have state: "con_state c = St_Connecting"
    using w(2) open_ f by (cases "con_state c") (auto simp: link_inv_def)
  have failed: "write_inv (http_failed e ?c)" for e
  proof -
    have "write_inv (con_terminate (Some e) ?c)"
      by (rule terminate_ends) (use w in \<open>auto simp: queue_inv_def link_inv_def wire_inv_def flight_inv_def\<close>)
    then show ?thesis using open_ by (simp add: http_failed_def)
  qed
  let ?d = "?c\<lparr>con_istate := READ_HTTP_RESPONSE\<rparr>"
  have "queue_inv ?d" "flight_inv ?d" "link_inv ?d" "wire_inv ?d"
    using w f state by (auto simp: queue_inv_def link_inv_def wire_inv_def flight_inv_def)
  then have "write_inv (read_response ?d)" by (intro read_response_inv) (simp add: write_inv_def)
  with failed state f show ?thesis
    by (simp add: handle_send_http_request_def split: option.split)
qed

lemma response_read_inv:
  assumes "handle_read_http_response env ec bytes c = Inr c'" "write_inv c"
  shows "write_inv c'"
proof (cases "ec = None \<and> con_state c = St_Connecting \<and> con_istate c = READ_HTTP_RESPONSE")
  case False
  with assms show ?thesis
    by (auto simp: handle_read_http_response_def Let_def http_failed_inv split: option.splits if_splits)
next
  case True
  show ?thesis
  proof (cases "response_consume (string_of bytes) (m_response c)")
    case (Inl e)
    with True assms show ?thesis
      by (cases e) (auto simp: handle_read_http_response_def Let_def terminate_write_inv)
  next
    case (Inr r)
    obtain k res where r: "r = (k, res)" by (cases r)
    let ?c = "c\<lparr>m_response := res\<rparr>" and ?d = "cancel_handshake_timer (c\<lparr>m_response := res\<rparr>)"
    have c: "write_inv ?c" "write_inv ?d"
      using assms(2) by (simp_all add: cancel_handshake_timer_def split: option.split)
    consider "\<not> headers_ready res" "c' = read_response ?c"
      | e where "headers_ready res" "c' = con_terminate (Some e) ?d"
      | "headers_ready res" "handle_read_frame env None (drop k bytes)
          (call_user env Ev_Open (?d\<lparr>con_istate := PROCESS_CONNECTION, con_state := St_Open\<rparr>)) = Inr c'"
      using True assms(1) Inr r
      by (auto simp: handle_read_http_response_def Let_def split: if_splits option.splits)
    then show ?thesis
    proof cases
      case 3
      let ?o = "?d\<lparr>con_istate := PROCESS_CONNECTION, con_state := St_Open\<rparr>"
      have s: "con_state ?d = St_Connecting" "con_istate ?d = READ_HTTP_RESPONSE"
        using True by (simp_all add: cancel_handshake_timer_def cancel_timer_def split: option.split)
      note w = write_inv_parts[OF c(2)]
      have "queue_inv ?o" "link_inv ?o" "flight_inv ?o" "wire_inv ?o"
        using w s by (auto simp: queue_inv_def link_inv_def wire_inv_def flight_inv_def)
      then have "write_inv ?o" by (simp add: write_inv_def)
      then have "write_inv (call_user env Ev_Open ?o)" by (intro wk.user_called) simp
      from wk.frames_read[OF 3(2) this] show ?thesis by simp
    qed (use c in \<open>simp_all add: read_response_inv terminate_write_inv\<close>)
  qed
qed

subsection \<open>Every step\<close>

lemma call_init_inv: "call_init_handler env has ec c = Inr c' \<Longrightarrow> write_inv c \<Longrightarrow> write_inv c'"
  by (auto simp: call_init_handler_def transport_init_inv split: if_splits)

lemma post_init_inv: "write_inv c \<Longrightarrow> write_inv (post_init c)"
proof -
  assume "write_inv c"
  note w = write_inv_parts[OF this]
  have "queue_inv (post_init c)" using w(1) by (auto simp: post_init_def set_timer_def queue_inv_def)
  moreover have "link_inv (post_init c)" using w(2) by (simp add: post_init_def set_timer_def link_inv_def)
  moreover have "flight_inv (post_init c)" using w(3) by (simp add: post_init_def set_timer_def flight_inv_def)
  moreover have "wire_inv (post_init c)" using w(4) by (simp add: post_init_def set_timer_def wire_inv_def)
  ultimately show ?thesis by (simp add: write_inv_def)
qed

lemma pre_init_inv: "handle_pre_init env ec c = Inr c' \<Longrightarrow> write_inv c \<Longrightarrow> write_inv c'"
  by (auto simp: handle_pre_init_def bind_result_eq_Inr post_init_inv call_init_inv split: if_splits)

lemma start_inv:
  assumes "con_start env sni c = Inr c'" "write_inv c"
  shows "write_inv c'"
proof (cases "con_istate c = USER_INIT")
  case True
  let ?c = "asio_init (c\<lparr>con_istate := TRANSPORT_INIT\<rparr>)"
  note w = write_inv_parts[OF assms(2)]
  have "queue_inv ?c" "link_inv ?c" "flight_inv ?c" "wire_inv ?c"
    using w True by (auto simp: asio_init_def queue_inv_def link_inv_def flight_inv_def wire_inv_def)
  then have c: "write_inv ?c" by (simp add: write_inv_def)
  obtain c1 where "(if \<not> sni then handle_pre_init env (Some (Socket_Error Sock_Tls_Failed_Sni_Hostname)) ?c else Inr ?c) = Inr c1"
    "handle_pre_init env None c1 = Inr c'"
    using assms(1) True by (auto simp: con_start_def pre_init_def bind_result_eq_Inr)
  with c show ?thesis by (auto intro: pre_init_inv split: if_splits)
next
  case False
  with assms show ?thesis by (auto simp: con_start_def terminate_write_inv)
qed

lemma take_op_some:
  "take_op P ops = Some (x, ops') \<Longrightarrow> P x \<and> x \<in> set ops \<and> (\<forall>Q. length (filter Q ops) = (if Q x then 1 else 0) + length (filter Q ops'))"
  by (induction ops arbitrary: ops') (auto split: if_splits)

lemma take_op_writes: "take_op P ops = Some (x, ops') \<Longrightarrow> writes ops = (if is_write x then 1 else 0) + writes ops'"
  using take_op_some[of P ops x ops'] by (simp add: writes_def)

lemma drop_op_inv:
  assumes "take_op P (io_ops c) = Some (x, ops)" "\<not> is_write x" "write_inv c"
  shows "write_inv (c\<lparr>io_ops := ops\<rparr>)"
proof -
  note w = write_inv_parts[OF assms(3)]
  have "writes ops = writes (io_ops c)" using take_op_writes[OF assms(1)] assms(2) by simp
  then have "flight_inv (c\<lparr>io_ops := ops\<rparr>)" using w(3) by (simp add: flight_inv_def)
  moreover have "queue_inv (c\<lparr>io_ops := ops\<rparr>)" "link_inv (c\<lparr>io_ops := ops\<rparr>)" "wire_inv (c\<lparr>io_ops := ops\<rparr>)"
    using w(1,2,4) by (simp_all add: queue_inv_def link_inv_def wire_inv_def)
  ultimately show ?thesis by (simp add: write_inv_def)
qed

lemma async_write_inv:
  assumes "take_op is_write (io_ops c) = Some (x, ops)" "write_inv c" "handle_async_write ec (c\<lparr>io_ops := ops\<rparr>) = Inr c'"
  shows "write_inv c'"
proof -
  note w = write_inv_parts[OF assms(2)]
  have n: "writes (io_ops c) = Suc (writes ops)" "is_write x" "x \<in> set (io_ops c)"
    using take_op_writes[OF assms(1)] take_op_some[OF assms(1)] by auto
  obtain bs where bs: "x = Op_Write bs" using n(2) by (cases x) (auto simp: is_write_def)
  show ?thesis
  proof (cases "m_write_handler c")
    case None
    have closed: "con_state c = St_Closed"
    proof (rule ccontr)
      assume "con_state c \<noteq> St_Closed"
      with w(3) n(1) None show False by (auto simp: flight_inv_def split: if_splits)
    qed
    let ?c = "c\<lparr>io_ops := ops, m_bufs := []\<rparr>"
    have "queue_inv ?c" "link_inv ?c" "wire_inv ?c" using w by (simp_all add: queue_inv_def link_inv_def wire_inv_def)
    moreover have "flight_inv ?c" using w(3) closed by (simp add: flight_inv_def)
    ultimately have "write_inv ?c" by (simp add: write_inv_def)
    with assms(3) None show ?thesis by (simp add: handle_async_write_def Let_def)
  next
    case (Some h)
    then show ?thesis
      using assms(3) request_sent_inv[OF assms(2) _ n(1)] frames_written_inv[OF assms(2) _ _ n(1)] n(3) bs
      by (cases h) (auto simp: handle_async_write_def Let_def)
  qed
qed

lemma terminate_handled_inv: "write_inv c \<Longrightarrow> write_inv (handle_terminate env t ec c)"
  by (simp add: handle_terminate_def wk.user_called)

lemma run_timer_inv:
  assumes "run_timer env k ec c = Inr c'" "write_inv c"
  shows "write_inv c'"
  using assms
  by (cases k) (auto simp: run_timer_def handle_post_init_timeout_def handle_open_handshake_timeout_def
      handle_close_handshake_timeout_def handle_pong_timeout_def terminate_write_inv wk.user_called
      terminate_handled_inv call_init_inv split: if_splits option.splits)

lemma run_post_inv:
  assumes "run_post env p c = Inr c'" "write_inv c"
  shows "write_inv c'"
proof -
  have "write_inv (read_frame (c\<lparr>m_read_flag := True\<rparr>))"
  proof (cases "async_read_at_least RH_Frame (c\<lparr>m_read_flag := True\<rparr>)")
    case (Pair e d)
    then show ?thesis
      using assms(2) read_write_inv[of RH_Frame "c\<lparr>m_read_flag := True\<rparr>" d] wk.read_error[of d]
      by (cases e) (auto simp: read_frame_def async_read_at_least_def split: if_splits)
  qed
  with assms show ?thesis
    by (cases p) (auto simp: run_post_def write_frame_inv handle_resume_reading_def handle_pause_reading_def wk.user_called)
qed

theorem io_step_write_inv:
  assumes "io_step env e c = Some (Inr c')" "write_inv c"
  shows "write_inv c'"
proof (cases e)
  case (Io_Start sni)
  with assms show ?thesis by (auto simp: io_step_def intro: start_inv)
next
  case (Io_Connect_Failed ec)
  with assms show ?thesis by (auto simp: io_step_def terminate_write_inv split: if_splits)
next
  case (Io_Handshake ec)
  then obtain i has ops where t: "take_op is_handshake (io_ops c) = Some (Op_Handshake i has, ops)"
    using assms(1) by (auto simp: io_step_def split: option.splits prod.splits asio_op.splits)
  let ?c = "handle_tls_init ec (c\<lparr>io_ops := ops\<rparr>)"
  have "write_inv ?c" using drop_op_inv[OF t _ assms(2)] by (simp add: handle_tls_init_def)
  moreover have "handle_post_init env i has (tls_ec ?c) ?c = Inr c'" using assms(1) t Io_Handshake by (simp add: io_step_def Let_def)
  ultimately show ?thesis by (auto simp: handle_post_init_def call_init_inv split: if_splits)
next
  case (Io_Read ec bytes)
  then obtain ops where t: "take_op ((=) Op_Read) (io_ops c) = Some (Op_Read, ops)"
    and h: "handle_async_read env ec bytes (c\<lparr>io_ops := ops\<rparr>) = Inr c'"
    using assms(1) take_op_some[of "(=) Op_Read" "io_ops c"] by (auto simp: io_step_def split: option.splits prod.splits if_splits)
  have c: "write_inv (c\<lparr>io_ops := ops\<rparr>)" using drop_op_inv[OF t _ assms(2)] by simp
  show ?thesis
    using h c wk.frames_read[OF _ c]
    by (auto simp: handle_async_read_def response_read_inv split: option.splits read_handler.splits)
next
  case (Io_Write ec)
  with assms show ?thesis by (auto simp: io_step_def async_write_inv split: option.splits prod.splits)
next
  case (Io_Shutdown ec)
  then obtain t i ops where t: "take_op is_shutdown (io_ops c) = Some (Op_Shutdown t i, ops)"
    using assms(1) by (auto simp: io_step_def split: option.splits prod.splits asio_op.splits)
  have "write_inv (c\<lparr>io_ops := ops\<rparr>)" using drop_op_inv[OF t _ assms(2)] by simp
  with assms(1) t Io_Shutdown show ?thesis
    by (auto simp: io_step_def handle_async_shutdown_def terminate_handled_inv split: if_splits)
next
  case Io_Post
  with assms obtain p ps where "io_posts c = p # ps" "run_post env p (c\<lparr>io_posts := ps\<rparr>) = Inr c'"
    by (auto simp: io_step_def split: list.splits)
  with assms(2) show ?thesis using run_post_inv by (metis write_inv_other(3))
next
  case (Io_Expire i)
  with assms show ?thesis by (auto simp: io_step_def)
next
  case (Io_Timer i)
  with assms obtain k s ts where "run_timer env k (timer_result s) (c\<lparr>io_timers := ts\<rparr>) = Inr c'"
    by (auto simp: io_step_def split: option.splits prod.splits if_splits)
  with assms(2) show ?thesis using run_timer_inv by (metis write_inv_other(1))
next
  case (Io_User a)
  with assms show ?thesis by (auto simp: io_step_def action_write_inv)
next
  case (Io_Other x)
  with assms show ?thesis by (auto simp: io_step_def other_write_inv)
qed

lemma ws_reach_write_inv: "ws_reach env ok c \<Longrightarrow> write_inv c"
  by (induction rule: ws_reach.induct) (auto intro: write_inv_new io_step_write_inv)

end
