(* ===== verification/Ws_Session_Spec.thy ===== *)
theory Ws_Session_Spec
  imports Ws_Session_Write "HOL-Library.Sublist"
begin

section \<open>What a session promises\<close>

text \<open>
  An abstract session: its phase, the messages that were pushed and the calls of the user's handlers. It
  goes forward through its phases; data is pushed while it is open, close frames end that; it reports
  its opening once and its end once. With \<open>late\<close> it also allows the push of a thread that passed the
  check of \<open>send\<close> before the session began to close.
\<close>

datatype phase = Ph_Connecting | Ph_Open | Ph_Closing | Ph_Ending bool | Ph_Ended

type_synonym session = "phase \<times> message list \<times> user_event list"

definition note_event :: "user_event \<Rightarrow> bool" where
  "note_event ev \<longleftrightarrow> (case ev of Ev_Interrupt \<Rightarrow> True | Ev_Pong_Timeout _ \<Rightarrow> True | _ \<Rightarrow> False)"

inductive session_step :: "bool \<Rightarrow> session \<Rightarrow> session \<Rightarrow> bool" for late where
  s_open: "session_step late (Ph_Connecting, p, e) (Ph_Open, p, e @ [Ev_Open])"
| s_data: "data_event ev \<Longrightarrow> session_step late (Ph_Open, p, e) (Ph_Open, p, e @ [ev])"
| s_note: "note_event ev \<Longrightarrow> session_step late (ph, p, e) (ph, p, e @ [ev])"
| s_push: "late \<or> m_opcode m \<noteq> CLOSE \<Longrightarrow> session_step late (Ph_Open, p, e) (Ph_Open, p @ [m], e)"
| s_late: "late \<Longrightarrow> ph \<noteq> Ph_Connecting \<Longrightarrow> session_step late (ph, p, e) (ph, p @ [m], e)"
| s_close: "m_opcode m = CLOSE \<Longrightarrow> ph = Ph_Open \<or> ph = Ph_Closing \<Longrightarrow>
    session_step late (ph, p, e) (Ph_Closing, p @ [m], e)"
| s_end: "ph = Ph_Connecting \<or> ph = Ph_Open \<or> ph = Ph_Closing \<Longrightarrow>
    session_step late (ph, p, e) (Ph_Ending (ph = Ph_Connecting), p, e)"
| s_report: "session_step late (Ph_Ending f, p, e) (Ph_Ended, p, e @ [if f then Ev_Fail else Ev_Close])"
| s_silent: "session_step late (Ph_Ending True, p, e) (Ph_Ended, p, e)"

inductive_cases session_stepE: "session_step late (ph, p, e) (ph', p', e')"

abbreviation session_steps :: "bool \<Rightarrow> session \<Rightarrow> session \<Rightarrow> bool" where
  "session_steps late \<equiv> (session_step late)\<^sup>*\<^sup>*"

subsection \<open>What follows from the abstract session\<close>

fun phase_rank :: "phase \<Rightarrow> nat" where
  "phase_rank Ph_Connecting = 0"
| "phase_rank Ph_Open = 1"
| "phase_rank Ph_Closing = 2"
| "phase_rank (Ph_Ending _) = 3"
| "phase_rank Ph_Ended = 4"

lemma session_forward:
  "session_steps late s s' \<Longrightarrow>
     phase_rank (fst s) \<le> phase_rank (fst s') \<and> prefix (fst (snd s)) (fst (snd s')) \<and> prefix (snd (snd s)) (snd (snd s'))"
proof (induction rule: rtranclp_induct)
  case (step y z)
  from step(2) have "phase_rank (fst y) \<le> phase_rank (fst z) \<and> prefix (fst (snd y)) (fst (snd z)) \<and> prefix (snd (snd y)) (snd (snd z))"
    by cases (auto simp: )
  with step(3) show ?case by (auto intro: prefix_order.trans)
qed simp

text \<open>Nothing but close frames after a close frame.\<close>

definition close_last :: "message list \<Rightarrow> bool" where
  "close_last p \<longleftrightarrow> (\<exists>ds cs. p = ds @ cs \<and> list_all (\<lambda>m. m_opcode m \<noteq> CLOSE) ds \<and> list_all (\<lambda>m. m_opcode m = CLOSE) cs)"

lemma close_last_snoc: "close_last p \<Longrightarrow> m_opcode m = CLOSE \<Longrightarrow> close_last (p @ [m])"
  unfolding close_last_def
proof (elim exE conjE)
  fix ds cs
  assume "m_opcode m = CLOSE" "p = ds @ cs" "list_all (\<lambda>m. m_opcode m \<noteq> CLOSE) ds" "list_all (\<lambda>m. m_opcode m = CLOSE) cs"
  then show "\<exists>ds cs. p @ [m] = ds @ cs \<and> list_all (\<lambda>m. m_opcode m \<noteq> CLOSE) ds \<and> list_all (\<lambda>m. m_opcode m = CLOSE) cs"
    by (intro exI[of _ ds] exI[of _ "cs @ [m]"]) simp
qed

lemma no_close_last: "list_all (\<lambda>m. m_opcode m \<noteq> CLOSE) p \<Longrightarrow> close_last p"
  unfolding close_last_def by (intro exI[of _ p] exI[of _ "[]"]) simp

lemma session_close_last:
  "session_steps False (Ph_Connecting, [], []) s \<Longrightarrow>
     close_last (fst (snd s)) \<and> (phase_rank (fst s) \<le> 1 \<longrightarrow> list_all (\<lambda>m. m_opcode m \<noteq> CLOSE) (fst (snd s)))"
proof (induction rule: rtranclp_induct)
  case (step y z)
  from step(2,3) show ?case
    by cases (simp_all add: close_last_snoc no_close_last)
qed (simp add: close_last_def)

text \<open>The calls of the handlers: the opening, data, the end; or the failure alone.\<close>

definition life :: "user_event list \<Rightarrow> user_event list" where
  "life e = filter (\<lambda>ev. \<not> note_event ev) e"

definition life_ok :: "phase \<Rightarrow> user_event list \<Rightarrow> bool" where
  "life_ok ph e \<longleftrightarrow>
     (case ph of
        Ph_Connecting \<Rightarrow> e = []
      | Ph_Open \<Rightarrow> (\<exists>ds. e = Ev_Open # ds \<and> list_all data_event ds)
      | Ph_Closing \<Rightarrow> (\<exists>ds. e = Ev_Open # ds \<and> list_all data_event ds)
      | Ph_Ending f \<Rightarrow> if f then e = [] else (\<exists>ds. e = Ev_Open # ds \<and> list_all data_event ds)
      | Ph_Ended \<Rightarrow> e = [] \<or> e = [Ev_Fail] \<or> (\<exists>ds. e = Ev_Open # ds @ [Ev_Close] \<and> list_all data_event ds))"

lemma session_life: "session_steps late (Ph_Connecting, [], []) s \<Longrightarrow> life_ok (fst s) (life (snd (snd s)))"
proof (induction rule: rtranclp_induct)
  case (step y z)
  have "\<not> note_event ev" if "data_event ev" for ev
    using that by (cases ev) (simp_all add: data_event_def note_event_def)
  with step(2,3) show ?case
    by cases (auto simp: life_def life_ok_def note_event_def)
qed (simp add: life_ok_def life_def)

end
