(* ===== verification/Ws_Session_Timers.thy ===== *)
theory Ws_Session_Timers
  imports Ws_Session_Kept
begin

section \<open>The timers of a connection\<close>

text \<open>
  Timers have names of their own, and those a connection may cancel are not the timer of the shutdown:
  \<open>held\<close> are the names that it keeps, in \<open>m_handshake_timer\<close>, \<open>m_ping_timer\<close> and for the handshake of
  TLS.
\<close>

fun shuts :: "timer_kind \<Rightarrow> bool" where
  "shuts (T_Shutdown _) = True"
| "shuts _ = False"

definition timers_ok :: "timer list \<Rightarrow> nat \<Rightarrow> nat set \<Rightarrow> bool" where
  "timers_ok ts n H \<longleftrightarrow>
     distinct (map fst ts) \<and> (\<forall>(i, k, s) \<in> set ts. i < n) \<and>
     (\<forall>i \<in> H. i < n \<and> (\<forall>k s. (i, k, s) \<in> set ts \<longrightarrow> \<not> shuts k))"

definition shut_timers :: "timer list \<Rightarrow> timer list" where
  "shut_timers ts = filter (\<lambda>(i, k, s). shuts k) ts"

lemma shut_timers_simps [simp]:
  "shut_timers [] = []" "shut_timers ((i, k, s) # ts) = (if shuts k then [(i, k, s)] else []) @ shut_timers ts"
  "shut_timers (ts @ ts') = shut_timers ts @ shut_timers ts'"
  by (simp_all add: shut_timers_def)

lemma timers_ok_mono: "timers_ok ts n H \<Longrightarrow> H' \<subseteq> H \<Longrightarrow> timers_ok ts n H'"
  unfolding timers_ok_def by (meson subsetD)

lemma timers_ok_new: "timers_ok ts n H \<Longrightarrow> timers_ok (ts @ [(n, k, Running)]) (Suc n) H"
  by (fastforce simp: timers_ok_def)

lemma timers_ok_hold: "timers_ok ts n H \<Longrightarrow> \<not> shuts k \<Longrightarrow> timers_ok (ts @ [(n, k, Running)]) (Suc n) (insert n H)"
  by (fastforce simp: timers_ok_def)

lemma cancel_in_mem: "(j, k, s) \<in> set (cancel_in i ts) \<Longrightarrow> \<exists>s'. (j, k, s') \<in> set ts"
  by (induction i ts rule: cancel_in.induct) (auto split: if_splits)

lemma timers_ok_cancel: "timers_ok ts n H \<Longrightarrow> timers_ok (cancel_in i ts) n H"
  by (force simp: timers_ok_def dest: cancel_in_mem)

lemma shut_timers_cancel:
  assumes "\<And>k s. (i, k, s) \<in> set ts \<Longrightarrow> \<not> shuts k"
  shows "shut_timers (cancel_in i ts) = shut_timers ts"
  using assms by (induction i ts rule: cancel_in.induct) auto

lemma shut_timers_cancel_in:
  "(\<And>k s. (i, k, s) \<in> set ts \<Longrightarrow> shuts k) \<Longrightarrow> shut_timers (cancel_in i ts) = cancel_in i (shut_timers ts)"
  by (induction i ts rule: cancel_in.induct) auto

lemma timers_ok_held: "timers_ok ts n H \<Longrightarrow> i \<in> H \<Longrightarrow> (i, k, s) \<in> set ts \<Longrightarrow> \<not> shuts k"
  by (auto simp: timers_ok_def)

lemma expire_in_ids [simp]: "map fst (expire_in i ts) = map fst ts"
  by (induction i ts rule: expire_in.induct) auto

lemma expire_in_mem: "(j, k, s) \<in> set (expire_in i ts) \<Longrightarrow> \<exists>s'. (j, k, s') \<in> set ts \<and> (s = Cancelled \<longleftrightarrow> s' = Cancelled)"
  by (induction i ts rule: expire_in.induct) (auto split: if_splits)

lemma timers_ok_expire: "timers_ok ts n H \<Longrightarrow> timers_ok (expire_in i ts) n H"
  by (force simp: timers_ok_def dest: expire_in_mem)

lemma shut_timers_expire: "shut_timers (expire_in i ts) = expire_in i (shut_timers ts) \<or> shut_timers (expire_in i ts) = shut_timers ts"
  by (induction i ts rule: expire_in.induct) auto

lemma take_timer_split:
  "take_timer i ts = Some (k, s, ts') \<Longrightarrow> \<exists>xs ys. ts = xs @ (i, k, s) # ys \<and> ts' = xs @ ys \<and> i \<notin> fst ` set xs"
proof (induction i ts arbitrary: ts' rule: take_timer.induct)
  case (2 i j k' s' ts)
  show ?case
  proof (cases "i = j")
    case True
    with 2(2) have "ts = ts'" "k = k'" "s = s'" by auto
    with True have "(j, k', s') # ts = [] @ (i, k, s) # ts' \<and> ts' = [] @ ts' \<and> i \<notin> fst ` set []"
      using 2(2) by auto
    then show ?thesis by blast
  next
    case False
    with 2(2) obtain r where r: "take_timer i ts = Some (k, s, r)" "ts' = (j, k', s') # r"
      by (auto split: if_splits)
    from 2(1)[OF False r(1)] obtain xs ys where "ts = xs @ (i, k, s) # ys" "r = xs @ ys" "i \<notin> fst ` set xs" by blast
    with r(2) False show ?thesis by (intro exI[of _ "(j, k', s') # xs"] exI[of _ ys]) auto
  qed
qed simp

lemma timers_ok_taken:
  assumes "timers_ok ts n H" "take_timer i ts = Some (k, s, ts')"
  shows "timers_ok ts' n H"
proof -
  obtain xs ys where "ts = xs @ (i, k, s) # ys" "ts' = xs @ ys" using take_timer_split[OF assms(2)] by blast
  then have "distinct (map fst ts) \<longrightarrow> distinct (map fst ts')" "set ts' \<subseteq> set ts" by auto
  with assms(1) show ?thesis unfolding timers_ok_def by (meson subsetD)
qed

lemma shut_timers_taken:
  "take_timer i ts = Some (k, s, ts') \<Longrightarrow> \<not> shuts k \<Longrightarrow> shut_timers ts' = shut_timers ts"
  by (auto dest!: take_timer_split)

lemma shut_timers_taken_one:
  "take_timer i ts = Some (k, s, ts') \<Longrightarrow> shuts k \<Longrightarrow> length (shut_timers ts) \<le> 1 \<Longrightarrow>
     shut_timers ts = [(i, k, s)] \<and> shut_timers ts' = []"
  by (auto dest!: take_timer_split)

subsection \<open>What a connection holds\<close>

definition held :: "conn \<Rightarrow> nat set" where
  "held c = set_option (m_handshake_timer c) \<union> set_option (m_ping_timer c) \<union> {i. \<exists>b. Op_Handshake i b \<in> set (io_ops c)}"

definition shut_ops :: "asio_op list \<Rightarrow> asio_op list" where
  "shut_ops = filter is_shutdown"

lemma shut_ops_simps [simp]:
  "shut_ops [] = []" "shut_ops (x # xs) = (if is_shutdown x then [x] else []) @ shut_ops xs"
  "shut_ops (xs @ ys) = shut_ops xs @ shut_ops ys"
  by (simp_all add: shut_ops_def)

lemma is_shutdown_simps [simp]:
  "is_shutdown (Op_Shutdown t i)" "\<not> is_shutdown Op_Read" "\<not> is_shutdown (Op_Write bs)" "\<not> is_shutdown (Op_Handshake i b)"
  by (simp_all add: is_shutdown_def)

text \<open>The timer and the operation of the shutdown: none before it; then either reports the end, and
  the other finds that it came too late.\<close>

definition shut_state :: "bool \<Rightarrow> nat \<Rightarrow> timer list \<Rightarrow> asio_op list \<Rightarrow> bool" where
  "shut_state closed n ts ops \<longleftrightarrow>
     ts = [] \<and> ops = [] \<or>
     closed \<and> (\<exists>i t s. i < n \<and> (t = Ts_Failed \<or> t = Ts_Closed) \<and>
       (ts = [(i, T_Shutdown t, s)] \<and> ops = [] \<or> ts = [] \<and> ops = [Op_Shutdown t i] \<or>
        ts = [(i, T_Shutdown t, s)] \<and> ops = [Op_Shutdown t i] \<and> s \<noteq> Cancelled))"

text \<open>The name that an operation of the shutdown knows is never that of another timer.\<close>

definition ops_ok :: "timer list \<Rightarrow> nat \<Rightarrow> asio_op list \<Rightarrow> bool" where
  "ops_ok ts n ops \<longleftrightarrow> (\<forall>t i. Op_Shutdown t i \<in> set ops \<longrightarrow> i < n \<and> (\<forall>k s. (i, k, s) \<in> set ts \<longrightarrow> shuts k))"

lemma ops_ok_new: "ops_ok ts n ops \<Longrightarrow> ops_ok (ts @ [(n, k, s)]) (Suc n) ops"
  by (fastforce simp: ops_ok_def)

lemma ops_ok_sub:
  "ops_ok ts n ops \<Longrightarrow> (\<And>i k s. (i, k, s) \<in> set ts' \<Longrightarrow> \<exists>s'. (i, k, s') \<in> set ts) \<Longrightarrow> set ops' \<subseteq> set ops \<Longrightarrow>
     ops_ok ts' n ops'"
  unfolding ops_ok_def by (meson subsetD)

lemma ops_ok_cancel: "ops_ok ts n ops \<Longrightarrow> ops_ok (cancel_in i ts) n ops"
  by (rule ops_ok_sub) (auto dest: cancel_in_mem)

lemma ops_ok_expire: "ops_ok ts n ops \<Longrightarrow> ops_ok (expire_in i ts) n ops"
  by (rule ops_ok_sub) (auto dest: expire_in_mem)

lemma ops_ok_taken: "ops_ok ts n ops \<Longrightarrow> take_timer i ts = Some (k, s, ts') \<Longrightarrow> ops_ok ts' n ops"
  by (rule ops_ok_sub) (auto dest!: take_timer_split)

definition timer_inv :: "conn \<Rightarrow> bool" where
  "timer_inv c \<longleftrightarrow>
     timers_ok (io_timers c) (next_timer c) (held c) \<and>
     ops_ok (io_timers c) (next_timer c) (shut_ops (io_ops c)) \<and>
     shut_state (con_state c = St_Closed) (next_timer c) (shut_timers (io_timers c)) (shut_ops (io_ops c))"

lemma shut_state_later: "shut_state b n ts ops \<Longrightarrow> n \<le> n' \<Longrightarrow> shut_state b n' ts ops"
  unfolding shut_state_def using order_less_le_trans by blast

lemma timer_inv_new: "timer_inv (conn_new ua u)"
  by (simp add: timer_inv_def timers_ok_def ops_ok_def held_def conn_new_def shut_state_def)

text \<open>The part of the state that the invariant looks at.\<close>

definition timer_view :: "conn \<Rightarrow> timer list \<times> nat \<times> nat option \<times> nat option \<times> asio_op list \<times> bool" where
  "timer_view c = (io_timers c, next_timer c, m_handshake_timer c, m_ping_timer c, io_ops c, con_state c = St_Closed)"

lemma timer_inv_view: "timer_view d = timer_view c \<Longrightarrow> timer_inv d = timer_inv c"
  by (simp add: timer_view_def timer_inv_def held_def)

end
