(* ===== verification/Ws_Session_Refines.thy ===== *)
theory Ws_Session_Refines
  imports Ws_Session_Spec Ws_Session_Timers
begin

section \<open>A connection is a session\<close>

text \<open>
  The phase of a connection that is closed is told by its timer of the shutdown: while it runs or has
  expired, the end is still to be reported. Every step of a connection is a sequence of steps of the
  session.
\<close>

definition end_phase :: "timer list \<Rightarrow> phase" where
  "end_phase ts =
     (case filter (\<lambda>(i, k, s). s \<noteq> Cancelled) ts of
        [] \<Rightarrow> Ph_Ended
      | (i, k, s) # _ \<Rightarrow> Ph_Ending (k = T_Shutdown Ts_Failed))"

fun phase_of :: "session_state \<Rightarrow> timer list \<Rightarrow> phase" where
  "phase_of St_Connecting ts = Ph_Connecting"
| "phase_of St_Open ts = Ph_Open"
| "phase_of St_Closing ts = Ph_Closing"
| "phase_of St_Closed ts = end_phase ts"

definition abs_session :: "conn \<Rightarrow> session" where
  "abs_session c = (phase_of (con_state c) (shut_timers (io_timers c)), h_pushed c, h_events c)"

definition session_inv :: "bool \<Rightarrow> session \<Rightarrow> conn \<Rightarrow> bool" where
  "session_inv late a c \<longleftrightarrow>
     timer_inv c \<and> (con_istate c = PROCESS_CONNECTION \<longrightarrow> con_state c \<noteq> St_Connecting) \<and>
     (con_state c = St_Open \<longrightarrow> con_istate c = PROCESS_CONNECTION) \<and>
     (h_sending c \<noteq> [] \<longrightarrow> late \<and> con_state c \<noteq> St_Connecting) \<and> session_steps late a (abs_session c)"

subsection \<open>Timers\<close>

lemma shut_state_open: "shut_state False n ts ops \<longleftrightarrow> ts = [] \<and> ops = []"
  by (simp add: shut_state_def)

lemma set_timer_inv:
  assumes "timer_inv c" "\<not> shuts k" "set_timer k c = (i, d)"
  shows "timer_inv d" "timer_inv (d\<lparr>m_handshake_timer := Some i\<rparr>)" "timer_inv (d\<lparr>m_ping_timer := Some i\<rparr>)"
    "shut_timers (io_timers d) = shut_timers (io_timers c)"
    "d = c\<lparr>io_timers := io_timers d, next_timer := next_timer d\<rparr>"
proof -
  have d: "i = next_timer c" "d = c\<lparr>io_timers := io_timers c @ [(next_timer c, k, Running)], next_timer := next_timer c + 1\<rparr>"
    using assms(3) by (auto simp: set_timer_eq)
  have t: "timers_ok (io_timers d) (next_timer d) (insert i (held c))"
    using assms(1,2) by (simp add: timer_inv_def d timers_ok_hold)
  have s: "shut_state (con_state c = St_Closed) (next_timer d) (shut_timers (io_timers d)) (shut_ops (io_ops d))"
    using assms(1,2) shut_state_later[of _ "next_timer c" _ _ "next_timer d"] by (auto simp: timer_inv_def d)
  have o: "ops_ok (io_timers d) (next_timer d) (shut_ops (io_ops d))"
    using assms(1) ops_ok_new by (simp add: timer_inv_def d)
  have h: "held d \<subseteq> insert i (held c)" "held (d\<lparr>m_handshake_timer := Some i\<rparr>) \<subseteq> insert i (held c)"
    "held (d\<lparr>m_ping_timer := Some i\<rparr>) \<subseteq> insert i (held c)"
    by (auto simp: held_def d(2))
  show "timer_inv d" "timer_inv (d\<lparr>m_handshake_timer := Some i\<rparr>)" "timer_inv (d\<lparr>m_ping_timer := Some i\<rparr>)"
    using timers_ok_mono[OF t h(1)] timers_ok_mono[OF t h(2)] timers_ok_mono[OF t h(3)] s o by (simp_all add: timer_inv_def d)
  show "shut_timers (io_timers d) = shut_timers (io_timers c)" using assms(2) by (simp add: d)
  show "d = c\<lparr>io_timers := io_timers d, next_timer := next_timer d\<rparr>" by (simp add: d)
qed

lemma cancel_timer_inv:
  assumes "timer_inv c" "i \<in> held c"
  shows "timer_inv (cancel_timer i c)" "shut_timers (io_timers (cancel_timer i c)) = shut_timers (io_timers c)"
proof -
  have t: "timers_ok (io_timers c) (next_timer c) (held c)" using assms(1) by (simp add: timer_inv_def)
  show shut: "shut_timers (io_timers (cancel_timer i c)) = shut_timers (io_timers c)"
    using shut_timers_cancel timers_ok_held[OF t assms(2)] by (simp add: cancel_timer_def)
  have "held (cancel_timer i c) = held c" by (simp add: held_def cancel_timer_def)
  then show "timer_inv (cancel_timer i c)"
    using shut assms(1) timers_ok_cancel[OF t] by (simp add: ops_ok_cancel timer_inv_def cancel_timer_def)
qed

lemma timer_inv_less:
  "timer_inv c \<Longrightarrow> io_timers d = io_timers c \<Longrightarrow> next_timer d = next_timer c \<Longrightarrow> held d \<subseteq> held c \<Longrightarrow>
     shut_ops (io_ops d) = shut_ops (io_ops c) \<Longrightarrow> (con_state d = St_Closed) = (con_state c = St_Closed) \<Longrightarrow> timer_inv d"
  using timers_ok_mono[of "io_timers c" "next_timer c" "held c" "held d"] by (simp add: timer_inv_def)

lemma cancel_handshake_inv:
  assumes "timer_inv c"
  shows "timer_inv (cancel_handshake_timer c)" "shut_timers (io_timers (cancel_handshake_timer c)) = shut_timers (io_timers c)"
proof -
  have h: "i \<in> held c" if "m_handshake_timer c = Some i" for i using that by (simp add: held_def)
  have "timer_inv ((cancel_timer i c)\<lparr>m_handshake_timer := None\<rparr>)" if "m_handshake_timer c = Some i" for i
    by (rule timer_inv_less[OF cancel_timer_inv(1)[OF assms h[OF that]]]) (auto simp: held_def)
  with assms show "timer_inv (cancel_handshake_timer c)"
    by (simp add: cancel_handshake_timer_def split: option.split)
  show "shut_timers (io_timers (cancel_handshake_timer c)) = shut_timers (io_timers c)"
    using cancel_timer_inv(2)[OF assms h] by (simp add: cancel_handshake_timer_def split: option.split)
qed

subsection \<open>Steps that the session does not see\<close>

lemma session_inv_same:
  "session_inv late a c \<Longrightarrow> timer_inv d \<Longrightarrow> shut_timers (io_timers d) = shut_timers (io_timers c) \<Longrightarrow>
     con_state d = con_state c \<Longrightarrow> con_istate d = con_istate c \<Longrightarrow> h_pushed d = h_pushed c \<Longrightarrow>
     h_events d = h_events c \<Longrightarrow> h_sending d = h_sending c \<Longrightarrow> session_inv late a d"
  by (simp add: session_inv_def abs_session_def)

lemma session_inv_view:
  "timer_view d = timer_view c \<Longrightarrow> con_state d = con_state c \<Longrightarrow> con_istate d = con_istate c \<Longrightarrow>
     h_pushed d = h_pushed c \<Longrightarrow> h_events d = h_events c \<Longrightarrow> h_sending d = h_sending c \<Longrightarrow>
     session_inv late a d = session_inv late a c"
  using timer_inv_view[of d c] by (simp add: session_inv_def abs_session_def timer_view_def)

lemma session_inv_other [simp]:
  "session_inv late a (c\<lparr>io_posts := ps\<rparr>) = session_inv late a c" "session_inv late a (c\<lparr>rng_drawn := n\<rparr>) = session_inv late a c"
  "session_inv late a (c\<lparr>m_was_clean := b\<rparr>) = session_inv late a c"
  "session_inv late a (c\<lparr>m_local_close_code := x1\<rparr>) = session_inv late a c"
  "session_inv late a (c\<lparr>m_local_close_reason := x2\<rparr>) = session_inv late a c"
  "session_inv late a (c\<lparr>m_remote_close_code := x1\<rparr>) = session_inv late a c"
  "session_inv late a (c\<lparr>m_remote_close_reason := x2\<rparr>) = session_inv late a c"
  "session_inv late a (c\<lparr>m_ec := x3\<rparr>) = session_inv late a c" "session_inv late a (c\<lparr>m_processor := x4\<rparr>) = session_inv late a c"
  "session_inv late a (c\<lparr>m_response := x5\<rparr>) = session_inv late a c" "session_inv late a (c\<lparr>m_request := x6\<rparr>) = session_inv late a c"
  "session_inv late a (c\<lparr>m_read_flag := b\<rparr>) = session_inv late a c" "session_inv late a (c\<lparr>tls_ec := x3\<rparr>) = session_inv late a c"
  "session_inv late a (c\<lparr>m_init_handler := b\<rparr>) = session_inv late a c"
  "session_inv late a (c\<lparr>m_bufs := x7\<rparr>) = session_inv late a c"
  "session_inv late a (c\<lparr>m_write_flag := b\<rparr>) = session_inv late a c"
  "session_inv late a (c\<lparr>m_send_buffer := x7\<rparr>) = session_inv late a c"
  "session_inv late a (c\<lparr>m_current_msgs := x8\<rparr>) = session_inv late a c"
  "session_inv late a (c\<lparr>h_written := x8\<rparr>) = session_inv late a c"
  "session_inv late a (c\<lparr>m_handshake_buffer := x9\<rparr>) = session_inv late a c"
  "session_inv late a (c\<lparr>m_send_queue := x8\<rparr>) = session_inv late a c"
  "session_inv late a (c\<lparr>m_send_buffer_size := n\<rparr>) = session_inv late a c"
  "session_inv late a (c\<lparr>m_write_handler := y1\<rparr>) = session_inv late a c"
  "session_inv late a (c\<lparr>sent_bytes := y2\<rparr>) = session_inv late a c"
  by (rule session_inv_view; simp add: timer_view_def)+

lemma asio_post_inv [simp]: "session_inv late a (asio_post p c) = session_inv late a c"
  by (simp add: asio_post_def)

lemma draw_if_inv [simp]: "session_inv late a (draw_if b c) = session_inv late a c"
  by (simp add: draw_if_def)

text \<open>The operations of the socket that are not the shutdown.\<close>

lemma session_inv_ops:
  assumes "session_inv late a c" "shut_ops ops = shut_ops (io_ops c)"
    "{i. \<exists>b. Op_Handshake i b \<in> set ops} \<subseteq> {i. \<exists>b. Op_Handshake i b \<in> set (io_ops c)}"
  shows "session_inv late a (c\<lparr>io_ops := ops\<rparr>)"
  by (rule session_inv_same[OF assms(1) timer_inv_less[of c]])
    (use assms in \<open>auto simp: session_inv_def held_def\<close>)

lemma async_read_session: "async_read_at_least h c = (None, d) \<Longrightarrow> session_inv late a c \<Longrightarrow> session_inv late a d"
  using session_inv_ops[of late a c "io_ops c @ [Op_Read]"] session_inv_view[of d "c\<lparr>io_ops := io_ops c @ [Op_Read]\<rparr>" late a]
  by (auto simp: async_read_at_least_def timer_view_def split: if_splits)

subsection \<open>Steps that it sees\<close>

lemma session_inv_step:
  assumes "session_inv late a c" "timer_inv d" "session_step late (abs_session c) (abs_session d)"
    "con_istate d = PROCESS_CONNECTION \<longrightarrow> con_state d \<noteq> St_Connecting"
    "con_state d = St_Open \<longrightarrow> con_istate d = PROCESS_CONNECTION"
    "h_sending d \<noteq> [] \<longrightarrow> late \<and> con_state d \<noteq> St_Connecting"
  shows "session_inv late a d"
  using assms rtranclp.rtrancl_into_rtrancl[of "session_step late" a "abs_session c" "abs_session d"]
  by (simp add: session_inv_def)

lemma queue_message_fields:
  "con_state (queue_message m c) = con_state c" "con_istate (queue_message m c) = con_istate c"
  "io_timers (queue_message m c) = io_timers c" "h_events (queue_message m c) = h_events c"
  "h_sending (queue_message m c) = h_sending c" "h_pushed (queue_message m c) = h_pushed c @ [m]"
  "timer_view (queue_message m c) = timer_view c"
  by (simp_all add: queue_message_def write_push_def asio_post_def timer_view_def Let_def)

lemma queue_message_inv:
  assumes "session_inv late a c"
    "con_state c = St_Open \<and> (late \<or> m_opcode m \<noteq> CLOSE) \<or> late \<and> con_state c \<noteq> St_Connecting"
  shows "session_inv late a (queue_message m c)"
proof (rule session_inv_step[OF assms(1)])
  have "phase_of st ts \<noteq> Ph_Connecting" if "st \<noteq> St_Connecting" for st ts
    using that by (cases st) (simp_all add: end_phase_def split: list.split)
  with assms(2) show "session_step late (abs_session c) (abs_session (queue_message m c))"
    by (auto simp: abs_session_def queue_message_fields intro: s_push s_late)
qed (use assms(1) in \<open>simp_all add: queue_message_fields session_inv_def timer_inv_view[OF queue_message_fields(7)]\<close>)

lemma prepared_opcode:
  "prepare_data_frame s r (Some i) (Some out) = (None, Some m) \<Longrightarrow> m_opcode m \<noteq> CLOSE"
  "prepare_ping s r p (Some out) = (None, Some m) \<Longrightarrow> m_opcode m \<noteq> CLOSE"
  "prepare_pong s r p (Some out) = (None, Some m) \<Longrightarrow> m_opcode m \<noteq> CLOSE"
  "prepare_close s r k p (Some out) = (None, Some m) \<Longrightarrow> m_opcode m = CLOSE"
  by (auto simp: prepare_data_frame_def prepare_ping_def prepare_pong_def prepare_close_def prepare_control_def
      is_control_iff Let_def split: if_splits)

lemma send_push_inv:
  assumes "session_inv late a c"
    "con_state c = St_Open \<and> (late \<or> (m_prepared msg \<longrightarrow> m_opcode msg \<noteq> CLOSE)) \<or> late \<and> con_state c \<noteq> St_Connecting"
  shows "session_inv late a (snd (send_push env msg c))"
proof (cases "m_prepared msg")
  case True
  with assms show ?thesis by (simp add: send_push_def queue_message_inv)
next
  case False
  have "session_inv late a (queue_message m (draw_if True c))" if "m_opcode m \<noteq> CLOSE" for m
    by (rule queue_message_inv) (use assms that in \<open>auto simp: draw_if_def\<close>)
  with False assms(1) show ?thesis
    by (auto simp: send_push_def dest: prepared_opcode(1) split: prod.split option.split)
qed

lemma arm_timer_inv:
  assumes "timer_inv c"
  shows "timer_inv (arm_close_timer c)" "timer_inv (arm_open_timer c)" "timer_inv (arm_pong_timer env payload c)"
    "shut_timers (io_timers (arm_close_timer c)) = shut_timers (io_timers c)"
    "shut_timers (io_timers (arm_open_timer c)) = shut_timers (io_timers c)"
    "shut_timers (io_timers (arm_pong_timer env payload c)) = shut_timers (io_timers c)"
proof -
  have plain: "\<not> shuts T_Close_Handshake" "\<not> shuts T_Open_Handshake" "\<not> shuts (T_Pong payload)" by simp_all
  show "timer_inv (arm_close_timer c)" "shut_timers (io_timers (arm_close_timer c)) = shut_timers (io_timers c)"
    using assms set_timer_inv(2,4)[OF assms plain(1)] by (auto simp: arm_close_timer_def split: prod.split)
  show "timer_inv (arm_open_timer c)" "shut_timers (io_timers (arm_open_timer c)) = shut_timers (io_timers c)"
    using assms set_timer_inv(2,4)[OF assms plain(2)] by (auto simp: arm_open_timer_def split: prod.split)
  let ?d = "case m_ping_timer c of None \<Rightarrow> c | Some i \<Rightarrow> cancel_timer i c"
  have d: "timer_inv ?d" "shut_timers (io_timers ?d) = shut_timers (io_timers c)"
    using assms cancel_timer_inv[OF assms] by (auto simp: held_def split: option.split)
  show "timer_inv (arm_pong_timer env payload c)"
    "shut_timers (io_timers (arm_pong_timer env payload c)) = shut_timers (io_timers c)"
    using assms d set_timer_inv(3,4)[OF d(1) plain(3)] by (auto simp: arm_pong_timer_def Let_def split: prod.split)
qed

lemma arm_fields [simp]:
  "con_state (arm_close_timer c) = con_state c" "con_state (arm_open_timer c) = con_state c"
  "con_state (arm_pong_timer env p c) = con_state c"
  "h_pushed (arm_close_timer c) = h_pushed c" "h_pushed (arm_open_timer c) = h_pushed c"
  "h_pushed (arm_pong_timer env p c) = h_pushed c"
  "h_events (arm_close_timer c) = h_events c" "h_events (arm_open_timer c) = h_events c"
  "h_events (arm_pong_timer env p c) = h_events c"
  "h_sending (arm_close_timer c) = h_sending c" "h_sending (arm_open_timer c) = h_sending c"
  "h_sending (arm_pong_timer env p c) = h_sending c"
  by (simp_all add: arm_close_timer_def arm_open_timer_def arm_pong_timer_def set_timer_def cancel_timer_def Let_def
      split: option.split)

lemma arm_inv:
  assumes "session_inv late a c"
  shows "session_inv late a (arm_open_timer c)" "session_inv late a (arm_pong_timer env p c)"
proof -
  have t: "timer_inv c" using assms by (simp add: session_inv_def)
  show "session_inv late a (arm_open_timer c)" "session_inv late a (arm_pong_timer env p c)"
    by (rule session_inv_same[OF assms]; simp add: arm_timer_inv[OF t])+
qed

lemma ping_push_inv:
  assumes "session_inv late a c" "con_state c = St_Open \<or> late \<and> con_state c \<noteq> St_Connecting"
  shows "session_inv late a (snd (ping_push env p c))" "session_inv late a (snd (pong_push env p c))"
proof -
  have "session_inv late a (queue_message m (arm_pong_timer env p (draw_if True c)))"
    "session_inv late a (queue_message m (draw_if True c))" if "m_opcode m \<noteq> CLOSE" for m
    by (rule queue_message_inv; use assms that arm_inv(2)[of late a "draw_if True c"] in \<open>auto simp: draw_if_def\<close>)+
  then show "session_inv late a (snd (ping_push env p c))" "session_inv late a (snd (pong_push env p c))"
    using assms by (auto simp: ping_push_def pong_push_def dest: prepared_opcode(2,3) split: prod.split option.split)
qed

lemma push_pending_inv:
  "session_inv late a c \<Longrightarrow> late \<Longrightarrow> con_state c \<noteq> St_Connecting \<Longrightarrow> session_inv late a (push_pending env p c)"
  by (simp add: push_pending_def send_push_inv ping_push_inv split: pending.split)

lemma close_frame_inv:
  assumes "con_state c \<noteq> St_Closed" "con_istate c = PROCESS_CONNECTION" "session_inv late a c"
  shows "session_inv late a (snd (send_close_frame env code reason ack t c))"
proof -
  have "session_inv late a (queue_message m (arm_close_timer d))"
    if m: "m_opcode m = CLOSE" and d: "timer_view d = timer_view c" "con_state d = St_Closing"
      "con_istate d = con_istate c" "h_pushed d = h_pushed c" "h_events d = h_events c" "h_sending d = h_sending c" for m d
  proof (rule session_inv_step[OF assms(3)])
    have s: "timer_inv c" "con_state c = St_Open \<or> con_state c = St_Closing" "h_sending c \<noteq> [] \<longrightarrow> late"
      using assms by (cases "con_state c"; auto simp: session_inv_def)+
    have td: "timer_inv d" using s(1) timer_inv_view[OF d(1)] by simp
    show "timer_inv (queue_message m (arm_close_timer d))"
      using arm_timer_inv(1)[OF td] timer_inv_view[OF queue_message_fields(7)] by simp
    show "session_step late (abs_session c) (abs_session (queue_message m (arm_close_timer d)))"
      using s(2) d m by (auto simp: abs_session_def queue_message_fields intro: s_close)
    show "con_istate (queue_message m (arm_close_timer d)) = PROCESS_CONNECTION \<longrightarrow>
        con_state (queue_message m (arm_close_timer d)) \<noteq> St_Connecting"
      "con_state (queue_message m (arm_close_timer d)) = St_Open \<longrightarrow>
        con_istate (queue_message m (arm_close_timer d)) = PROCESS_CONNECTION"
      "h_sending (queue_message m (arm_close_timer d)) \<noteq> [] \<longrightarrow>
        late \<and> con_state (queue_message m (arm_close_timer d)) \<noteq> St_Connecting"
      using d s(3) by (simp_all add: queue_message_fields)
  qed
  then show ?thesis
    using assms(1,3)
    by (auto simp: send_close_frame_def Let_def timer_view_def draw_if_def dest: prepared_opcode(4)
        split: prod.split option.split)
qed

subsection \<open>The end\<close>

lemma cancel_handshake_fields [simp]:
  "con_state (cancel_handshake_timer c) = con_state c" "con_istate (cancel_handshake_timer c) = con_istate c"
  "h_pushed (cancel_handshake_timer c) = h_pushed c" "h_events (cancel_handshake_timer c) = h_events c"
  "h_sending (cancel_handshake_timer c) = h_sending c"
  by (simp_all add: cancel_handshake_timer_def cancel_timer_def split: option.split)

lemma cancel_handshake_session: "session_inv late a c \<Longrightarrow> session_inv late a (cancel_handshake_timer c)"
  by (rule session_inv_same) (simp_all add: cancel_handshake_inv session_inv_def)

lemma end_phase_simps [simp]:
  "end_phase [] = Ph_Ended"
  "end_phase ((i, k, s) # ts) = (if s = Cancelled then end_phase ts else Ph_Ending (k = T_Shutdown Ts_Failed))"
  by (simp_all add: end_phase_def)

lemma async_shutdown_fields:
  "io_timers (async_shutdown t c) = io_timers c @ [(next_timer c, T_Shutdown t, Running)]"
  "next_timer (async_shutdown t c) = Suc (next_timer c)" "held (async_shutdown t c) = held c"
  "io_ops (async_shutdown t c) = io_ops c @ [Op_Shutdown t (next_timer c)]"
  "con_state (async_shutdown t c) = con_state c" "h_pushed (async_shutdown t c) = h_pushed c"
  "h_events (async_shutdown t c) = h_events c" "h_sending (async_shutdown t c) = h_sending c"
  by (simp_all add: async_shutdown_def set_timer_def held_def)

lemma async_shutdown_inv:
  assumes "session_inv late a c" "con_state c \<noteq> St_Closed"
    "t = (if con_state c = St_Connecting then Ts_Failed else Ts_Closed)"
  shows "session_inv late a (async_shutdown t (c\<lparr>con_state := St_Closed\<rparr>))"
proof (rule session_inv_step[OF assms(1)])
  have s: "timer_inv c" "h_sending c \<noteq> [] \<longrightarrow> late" using assms(1) by (auto simp: session_inv_def)
  have none: "shut_timers (io_timers c) = []" "shut_ops (io_ops c) = []"
    using s(1) assms(2) by (simp_all add: timer_inv_def shut_state_open)
  have t: "timers_ok (io_timers c @ [(next_timer c, T_Shutdown t, Running)]) (Suc (next_timer c)) (held c)"
    using s(1) by (intro timers_ok_new) (simp add: timer_inv_def)
  have h: "held (c\<lparr>con_state := St_Closed\<rparr>) = held c" by (simp add: held_def)
  have "t = Ts_Failed \<or> t = Ts_Closed" using assms(3) by simp
  then have "shut_state True (Suc (next_timer c)) [(next_timer c, T_Shutdown t, Running)] [Op_Shutdown t (next_timer c)]"
    unfolding shut_state_def by blast
  moreover have "ops_ok (io_timers c @ [(next_timer c, T_Shutdown t, Running)]) (Suc (next_timer c)) [Op_Shutdown t (next_timer c)]"
    using s(1) by (auto simp: ops_ok_def timer_inv_def timers_ok_def)
  ultimately show "timer_inv (async_shutdown t (c\<lparr>con_state := St_Closed\<rparr>))"
    using t none by (simp add: timer_inv_def async_shutdown_fields h)
  show "session_step late (abs_session c) (abs_session (async_shutdown t (c\<lparr>con_state := St_Closed\<rparr>)))"
    using assms(2,3) none s_end[of "Ph_Connecting" late] s_end[of "Ph_Open" late] s_end[of "Ph_Closing" late]
    by (cases "con_state c") (simp_all add: abs_session_def async_shutdown_fields)
qed (use assms(1) in \<open>simp_all add: async_shutdown_fields session_inv_def\<close>)

lemma terminate_inv:
  assumes "session_inv late a c"
  shows "session_inv late a (con_terminate ec c)"
proof -
  have shut: "session_inv late a (if con_state d = St_Connecting then async_shutdown Ts_Failed (d\<lparr>con_state := St_Closed\<rparr>)
      else if con_state d \<noteq> St_Closed then async_shutdown Ts_Closed (d\<lparr>con_state := St_Closed\<rparr>) else d)"
    if "session_inv late a d" for d
    using that async_shutdown_inv[OF that, of Ts_Failed] async_shutdown_inv[OF that, of Ts_Closed] by simp
  show ?thesis
    using cancel_handshake_session[OF assms]
    by (cases ec) (unfold con_terminate_def Let_def, simp_all only: option.case, (rule shut, simp)+)
qed

subsection \<open>What the handlers keep\<close>

text \<open>
  A program that is not to send a close frame of its own as a message, and whose threads let each other go
  on from the check of \<open>send\<close>, \<open>ping\<close> and \<open>pong\<close> to the push: none begins to close, or passes its own check,
  in between.
\<close>

definition plain_action :: "action \<Rightarrow> bool" where
  "plain_action a \<longleftrightarrow> (case a of Act_Send_Message msg \<Rightarrow> m_prepared msg \<longrightarrow> m_opcode msg \<noteq> CLOSE | _ \<Rightarrow> True)"

definition plain_other :: "other \<Rightarrow> bool" where
  "plain_other x \<longleftrightarrow> (case x of Ot_Check p \<Rightarrow> False | _ \<Rightarrow> True)"

definition gap_other :: "other \<Rightarrow> bool" where
  "gap_other x \<longleftrightarrow> (case x of Ot_Check p \<Rightarrow> False | Ot_Close code reason \<Rightarrow> False | _ \<Rightarrow> True)"

definition plain_env :: "ws_env \<Rightarrow> bool" where
  "plain_env env \<longleftrightarrow> (\<forall>ev c. list_all plain_action (on_event env ev c)) \<and> (\<forall>c. list_all gap_other (meanwhile env c))"

lemma close_inv:
  assumes "session_inv late a c"
  shows "session_inv late a (snd (con_close env code reason c))"
proof -
  have "con_istate c = PROCESS_CONNECTION" if "con_state c = St_Open"
    using that assms by (simp add: session_inv_def)
  with assms show ?thesis by (simp add: con_close_def close_frame_inv Let_def)
qed

lemma set_sending_inv:
  assumes "session_inv late a c" "ps \<noteq> [] \<longrightarrow> late \<and> con_state c \<noteq> St_Connecting"
  shows "session_inv late a (c\<lparr>h_sending := ps\<rparr>)"
proof -
  have "timer_inv (c\<lparr>h_sending := ps\<rparr>) = timer_inv c" by (rule timer_inv_view) (simp add: timer_view_def)
  with assms show ?thesis by (auto simp: session_inv_def abs_session_def)
qed

lemma other_inv:
  assumes "late \<or> plain_other x" "session_inv late a c"
  shows "session_inv late a (other_op env x c)"
proof (cases x)
  case (Ot_Check p)
  then show ?thesis using assms by (auto simp: plain_other_def intro: set_sending_inv)
next
  case (Ot_Push p)
  let ?c = "c\<lparr>h_sending := remove1 p (h_sending c)\<rparr>"
  show ?thesis
  proof (cases "p \<in> set (h_sending c)")
    case True
    then have late: "late" "con_state c \<noteq> St_Connecting" using assms(2) by (auto simp: session_inv_def)
    have "session_inv late a ?c" using late by (intro set_sending_inv[OF assms(2)]) simp
    with Ot_Push True late show ?thesis by (simp add: push_pending_inv)
  qed (use assms Ot_Push in simp)
qed (use assms in \<open>simp_all add: close_inv\<close>)

lemma others_kept: "list_all (\<lambda>x. late \<or> plain_other x) xs \<Longrightarrow> session_inv late a c \<Longrightarrow> session_inv late a (fold (other_op env) xs c)"
  by (induction xs arbitrary: c) (simp_all add: other_inv)

lemma push_state [simp]:
  "con_state (snd (send_push env m c)) = con_state c" "con_state (snd (ping_push env p c)) = con_state c"
  "con_state (snd (pong_push env p c)) = con_state c" "con_state (push_pending env q c) = con_state c"
  by (auto simp: send_push_def ping_push_def pong_push_def push_pending_def queue_message_fields draw_if_def
      split: prod.split option.split pending.split)

lemma gap_state: "list_all gap_other xs \<Longrightarrow> con_state (fold (other_op env) xs c) = con_state c"
proof (induction xs arbitrary: c)
  case (Cons x xs)
  then show ?case by (cases x) (auto simp: gap_other_def asio_post_def)
qed simp

text \<open>What a thread finds after the others.\<close>

lemma others_inv:
  assumes "late \<or> plain_env env" "session_inv late a c" "con_state c = St_Open"
  shows "session_inv late a (others env c)"
    "con_state (others env c) = St_Open \<or> late \<and> con_state (others env c) \<noteq> St_Connecting"
proof -
  have "plain_other x" if "gap_other x" for x using that by (cases x) (simp_all add: gap_other_def plain_other_def)
  then have "list_all (\<lambda>x. late \<or> plain_other x) (meanwhile env c)"
    using assms(1) by (auto simp: plain_env_def list_all_iff)
  then show kept: "session_inv late a (others env c)" unfolding others_def by (rule others_kept[OF _ assms(2)])
  have "con_istate (others env c) = PROCESS_CONNECTION" using assms(2,3) by (simp add: session_inv_def)
  with kept have "con_state (others env c) \<noteq> St_Connecting" by (simp add: session_inv_def)
  moreover have "con_state (others env c) = St_Open" if "plain_env env"
    using that assms(3) gap_state[of "meanwhile env c" env c] by (simp add: others_def plain_env_def)
  ultimately show "con_state (others env c) = St_Open \<or> late \<and> con_state (others env c) \<noteq> St_Connecting"
    using assms(1) by blast
qed

lemma pong_inv:
  assumes "late \<or> plain_env env" "session_inv late a c"
  shows "session_inv late a (snd (con_pong env p c))" "session_inv late a (snd (con_ping env p c))"
  using assms(2) ping_push_inv[OF others_inv[OF assms]] by (simp_all add: con_pong_def con_ping_def)

lemma send_inv:
  assumes "late \<or> plain_env env" "session_inv late a c" "late \<or> (m_prepared m \<longrightarrow> m_opcode m \<noteq> CLOSE)"
  shows "session_inv late a (snd (send_message env m c))"
proof (cases "con_state c = St_Open")
  case True
  have "session_inv late a (snd (send_push env m (others env c)))"
    by (rule send_push_inv) (use others_inv[OF assms(1,2) True] assms(3) in auto)
  with True show ?thesis by (simp add: send_message_def)
qed (use assms in \<open>simp add: send_message_def\<close>)

lemma action_inv:
  assumes "late \<or> plain_env env" "late \<or> plain_action act" "session_inv late a c"
  shows "session_inv late a (do_action env act c)"
  using assms(2,3) pong_inv[OF assms(1,3)] close_inv[OF assms(3)] send_inv[OF assms(1,3)]
  by (cases act) (auto simp: con_send_def plain_action_def append_payload_def message_new_def)

lemma data_event_inv:
  assumes "con_state c = St_Open" "data_event ev" "session_inv late a c"
  shows "session_inv late a (c\<lparr>h_events := h_events c @ [ev]\<rparr>)"
proof (rule session_inv_step[OF assms(3)])
  show "timer_inv (c\<lparr>h_events := h_events c @ [ev]\<rparr>)"
    using assms(3) timer_inv_view[of "c\<lparr>h_events := h_events c @ [ev]\<rparr>" c] by (simp add: session_inv_def timer_view_def)
  show "session_step late (abs_session c) (abs_session (c\<lparr>h_events := h_events c @ [ev]\<rparr>))"
    using assms(1,2) by (simp add: abs_session_def s_data)
qed (use assms in \<open>simp_all add: session_inv_def\<close>)

lemma ping_timer_inv:
  assumes "m_ping_timer c = Some i" "session_inv late a c"
  shows "session_inv late a (cancel_timer i c)"
proof (rule session_inv_same[OF assms(2)])
  have "timer_inv c" "i \<in> held c" using assms by (simp_all add: session_inv_def held_def)
  then show "timer_inv (cancel_timer i c)" "shut_timers (io_timers (cancel_timer i c)) = shut_timers (io_timers c)"
    using cancel_timer_inv by blast+
qed (simp_all add: cancel_timer_def)

lemma session_kept_inv:
  assumes "late \<or> plain_env env"
  shows "session_kept env (\<lambda>act. late \<or> plain_action act) (session_inv late a)"
proof
  fix ev c
  show "list_all (\<lambda>act. late \<or> plain_action act) (on_event env ev c)"
    using assms by (auto simp: plain_env_def list_all_iff)
next
  fix c c'
  assume "async_read_at_least RH_Frame c = (None, c')" "session_inv late a c"
  then show "session_inv late a c'" by (rule async_read_session)
qed (use assms in \<open>simp_all add: action_inv pong_inv close_frame_inv terminate_inv data_event_inv ping_timer_inv\<close>)

subsection \<open>Writing and the opening handshake\<close>

lemma pop_ready_inv: "session_inv late a c \<Longrightarrow> session_inv late a (pop_ready c)"
proof (induction c rule: pop_ready.induct)
  case (1 c)
  then show ?case
    by (subst pop_ready.simps) (auto simp: write_pop_def Let_def split: list.splits)
qed

lemma write_done_inv: "handle_write_frame ec c = Inr c' \<Longrightarrow> session_inv late a c \<Longrightarrow> session_inv late a c'"
  by (auto simp: handle_write_frame_def Let_def terminate_inv split: if_splits)

lemma async_write_session:
  assumes "async_write bufs h c = (e, d)" "session_inv late a c"
  shows "session_inv late a d"
proof -
  have "session_inv late a (c\<lparr>m_bufs := x, m_write_handler := y, io_ops := io_ops c @ [Op_Write bs]\<rparr>)" for bs x y
    using session_inv_ops[of late a "c\<lparr>m_bufs := x, m_write_handler := y\<rparr>" "io_ops c @ [Op_Write bs]"] assms(2) by auto
  with assms show ?thesis by (auto simp: async_write_def Let_def split: if_splits)
qed

lemma write_frame_session: "write_frame c = Inr c' \<Longrightarrow> session_inv late a c \<Longrightarrow> session_inv late a c'"
proof -
  assume w: "write_frame c = Inr c'" "session_inv late a c"
  show "session_inv late a c'"
  proof (cases "m_write_flag c \<or> m_current_msgs (pop_ready c) = []")
    case True
    with w show ?thesis by (auto simp: write_frame_def pop_ready_inv Let_def split: if_splits)
  next
    case False
    let ?d = "pop_ready c\<lparr>m_write_flag := True, m_send_buffer := m_send_buffer (pop_ready c) @
       concat (map (\<lambda>m. [m_header m, m_payload m]) (m_current_msgs (pop_ready c)))\<rparr>"
    obtain e d where a: "async_write (m_send_buffer ?d) WH_Frame ?d = (e, d)" by fastforce
    then have "session_inv late a d" using w(2) by (intro async_write_session[OF a]) (simp add: pop_ready_inv)
    with w(1) a False show ?thesis
      by (cases e) (auto simp: write_frame_def Let_def intro: write_done_inv)
  qed
qed

lemma http_failed_session: "session_inv late a c \<Longrightarrow> session_inv late a (http_failed e c)"
  by (simp add: http_failed_def terminate_inv)

lemma read_response_session: "session_inv late a c \<Longrightarrow> session_inv late a (read_response c)"
proof (cases "async_read_at_least RH_Http_Response c")
  case (Pair e c')
  assume "session_inv late a c"
  with Pair show ?thesis
    by (cases e) (auto simp: read_response_def async_read_at_least_def http_failed_session async_read_session[of _ c] split: if_splits)
qed

lemma istate_inv:
  assumes "session_inv late a c" "con_istate c \<noteq> PROCESS_CONNECTION" "x \<noteq> PROCESS_CONNECTION"
  shows "session_inv late a (c\<lparr>con_istate := x\<rparr>)"
proof -
  have "timer_inv (c\<lparr>con_istate := x\<rparr>) = timer_inv c" by (rule timer_inv_view) (simp add: timer_view_def)
  moreover have "abs_session (c\<lparr>con_istate := x\<rparr>) = abs_session c" by (simp add: abs_session_def)
  ultimately show ?thesis using assms by (auto simp: session_inv_def)
qed

lemma request_sent_session: "session_inv late a c \<Longrightarrow> session_inv late a (handle_send_http_request ec c)"
  using http_failed_session[of late a c] read_response_session[OF istate_inv[of late a c READ_HTTP_RESPONSE]]
  by (auto simp: handle_send_http_request_def split: option.split)

lemma transport_init_session:
  assumes "handle_transport_init env ec c = Inr c'" "session_inv late a c"
  shows "session_inv late a c'"
proof (cases "con_istate c = TRANSPORT_INIT \<and> ec = None")
  case True
  then obtain req where c': "c' = (let c = arm_open_timer (c\<lparr>con_istate := WRITE_HTTP_REQUEST,
        m_processor := Some (get_processor env c), rng_drawn := rng_drawn c + 4, m_request := req,
                                    m_handshake_buffer := request_raw req\<rparr>)
      in case async_write [octets (m_handshake_buffer c)] WH_Http_Request c of
        (Some e, c) \<Rightarrow> handle_send_http_request (Some e) c | (None, c) \<Rightarrow> c)"
    using assms(1) by (auto simp: handle_transport_init_def send_http_request_def bind_result_eq_Inr Let_def)
  let ?d = "arm_open_timer (c\<lparr>con_istate := WRITE_HTTP_REQUEST, m_processor := Some (get_processor env c),
     rng_drawn := rng_drawn c + 4, m_request := req, m_handshake_buffer := request_raw req\<rparr>)"
  have "session_inv late a (c\<lparr>con_istate := WRITE_HTTP_REQUEST\<rparr>)" using True assms(2) by (intro istate_inv) auto
  then have d: "session_inv late a ?d" by (intro arm_inv) simp
  obtain e c1 where "async_write [octets (m_handshake_buffer ?d)] WH_Http_Request ?d = (e, c1)" by fastforce
  with async_write_session[OF this d] show ?thesis
    by (cases e) (simp_all add: c' Let_def request_sent_session)
next
  case False
  with assms show ?thesis by (auto simp: handle_transport_init_def Let_def terminate_inv split: if_splits)
qed

lemma call_init_session: "call_init_handler env has ec c = Inr c' \<Longrightarrow> session_inv late a c \<Longrightarrow> session_inv late a c'"
  by (auto simp: call_init_handler_def transport_init_session split: if_splits)

lemma post_init_session:
  assumes "session_inv late a c"
  shows "session_inv late a (post_init c)"
proof -
  obtain i d where d: "set_timer (T_Post_Init (m_init_handler c)) c = (i, d)" by fastforce
  have t: "timer_inv c" using assms by (simp add: session_inv_def)
  note s = set_timer_inv[OF t _ d, simplified]
  have n: "i = next_timer c" "next_timer d = Suc (next_timer c)" "io_timers d = io_timers c @ [(i, T_Post_Init (m_init_handler c), Running)]"
    "io_ops d = io_ops c" "held d = held c" "m_init_handler d = m_init_handler c"
    using d by (auto simp: set_timer_eq held_def)
  let ?e = "d\<lparr>tls_ec := Some (Socket_Error Sock_Tls_Handshake_Timeout), io_ops := io_ops d @ [Op_Handshake i (m_init_handler c)]\<rparr>"
  have "timers_ok (io_timers ?e) (next_timer ?e) (insert i (held c))"
    using t n by (auto simp: timer_inv_def intro!: timers_ok_hold)
  moreover have "held ?e \<subseteq> insert i (held d)" by (auto simp: held_def)
  ultimately have "timer_inv ?e" using s(1) n(5) timers_ok_mono[of "io_timers ?e" "next_timer ?e" "insert i (held c)" "held ?e"]
    by (simp add: timer_inv_def)
  moreover have "con_state ?e = con_state c" "con_istate ?e = con_istate c" "h_pushed ?e = h_pushed c"
    "h_events ?e = h_events c" "h_sending ?e = h_sending c" "shut_timers (io_timers ?e) = shut_timers (io_timers c)"
    using d by (auto simp: set_timer_eq)
  ultimately have "session_inv late a ?e" by (intro session_inv_same[OF assms])
  then show ?thesis using n by (simp add: post_init_def d)
qed

lemma pre_init_session: "handle_pre_init env ec c = Inr c' \<Longrightarrow> session_inv late a c \<Longrightarrow> session_inv late a c'"
  by (auto simp: handle_pre_init_def bind_result_eq_Inr post_init_session call_init_session split: if_splits)

lemma start_session:
  assumes "con_start env sni c = Inr c'" "session_inv late a c"
  shows "session_inv late a c'"
proof (cases "con_istate c = USER_INIT")
  case True
  let ?c = "asio_init (c\<lparr>con_istate := TRANSPORT_INIT\<rparr>)"
  have c: "session_inv late a ?c" using istate_inv[OF assms(2), of TRANSPORT_INIT] True by (simp add: asio_init_def)
  obtain c1 where "(if \<not> sni then handle_pre_init env (Some (Socket_Error Sock_Tls_Failed_Sni_Hostname)) ?c else Inr ?c) = Inr c1"
    "handle_pre_init env None c1 = Inr c'"
    using assms(1) True by (auto simp: con_start_def pre_init_def bind_result_eq_Inr)
  with c show ?thesis by (auto intro: pre_init_session split: if_splits)
next
  case False
  with assms show ?thesis by (auto simp: con_start_def terminate_inv)
qed

subsection \<open>Handlers of events\<close>

lemma note_inv:
  assumes "late \<or> plain_env env" "note_event ev" "session_inv late a c"
  shows "session_inv late a (call_user env ev c)"
proof (rule session_kept.user_called[OF session_kept_inv[OF assms(1)]], rule session_inv_step[OF assms(3)])
  show "timer_inv (c\<lparr>h_events := h_events c @ [ev]\<rparr>)"
    using assms(3) timer_inv_view[of "c\<lparr>h_events := h_events c @ [ev]\<rparr>" c] by (simp add: session_inv_def timer_view_def)
  show "session_step late (abs_session c) (abs_session (c\<lparr>h_events := h_events c @ [ev]\<rparr>))"
    using assms(2) by (simp add: abs_session_def s_note)
qed (use assms(3) in \<open>simp_all add: session_inv_def\<close>)

lemma opened_inv:
  assumes "late \<or> plain_env env" "session_inv late a c" "con_state c = St_Connecting"
  shows "session_inv late a (call_user env Ev_Open (c\<lparr>con_istate := PROCESS_CONNECTION, con_state := St_Open\<rparr>))"
proof (rule session_kept.user_called[OF session_kept_inv[OF assms(1)]], rule session_inv_step[OF assms(2)])
  let ?d = "c\<lparr>con_istate := PROCESS_CONNECTION, con_state := St_Open\<rparr>"
  show "timer_inv (?d\<lparr>h_events := h_events ?d @ [Ev_Open]\<rparr>)"
    using assms(2,3) timer_inv_view[of "?d\<lparr>h_events := h_events ?d @ [Ev_Open]\<rparr>" c] by (simp add: session_inv_def timer_view_def)
  show "session_step late (abs_session c) (abs_session (?d\<lparr>h_events := h_events ?d @ [Ev_Open]\<rparr>))"
    using assms(3) by (simp add: abs_session_def s_open)
qed (use assms(2,3) in \<open>simp_all add: session_inv_def\<close>)

lemma response_session:
  assumes "late \<or> plain_env env" "handle_read_http_response env ec bytes c = Inr c'" "session_inv late a c"
  shows "session_inv late a c'"
proof (cases "ec = None \<and> con_state c = St_Connecting \<and> con_istate c = READ_HTTP_RESPONSE")
  case False
  with assms(2,3) show ?thesis
    by (auto simp: handle_read_http_response_def Let_def http_failed_session split: option.splits if_splits)
next
  case True
  show ?thesis
  proof (cases "response_consume (string_of bytes) (m_response c)")
    case (Inl e)
    with True assms show ?thesis
      by (cases e) (auto simp: handle_read_http_response_def Let_def terminate_inv)
  next
    case (Inr r)
    obtain k res where r: "r = (k, res)" by (cases r)
    let ?c = "c\<lparr>m_response := res\<rparr>" and ?d = "cancel_handshake_timer (c\<lparr>m_response := res\<rparr>)"
    have c: "session_inv late a ?c" "session_inv late a ?d"
      using assms(3) by (simp_all add: cancel_handshake_session)
    consider "\<not> headers_ready res" "c' = read_response ?c"
      | e where "headers_ready res" "c' = con_terminate (Some e) ?d"
      | "headers_ready res" "handle_read_frame env None (drop k bytes)
          (call_user env Ev_Open (?d\<lparr>con_istate := PROCESS_CONNECTION, con_state := St_Open\<rparr>)) = Inr c'"
      using True assms(2) Inr r
      by (auto simp: handle_read_http_response_def Let_def split: if_splits option.splits)
    then show ?thesis
    proof cases
      case 3
      have "session_inv late a (call_user env Ev_Open (?d\<lparr>con_istate := PROCESS_CONNECTION, con_state := St_Open\<rparr>))"
        using opened_inv[OF assms(1) c(2)] True by simp
      from session_kept.frames_read[OF session_kept_inv[OF assms(1)] 3(2) this] show ?thesis by simp
    qed (use c in \<open>simp_all add: read_response_session terminate_inv\<close>)
  qed
qed

text \<open>The end is reported.\<close>

lemma reported_inv:
  assumes "late \<or> plain_env env" "session_inv late a c" "timer_inv d"
    and "con_state c = St_Closed" "con_state d = St_Closed" "con_istate d = con_istate c" "h_pushed d = h_pushed c"
    "h_events d = h_events c" "h_sending d = h_sending c" "t = Ts_Failed \<or> t = Ts_Closed"
    "end_phase (shut_timers (io_timers c)) = Ph_Ending (t = Ts_Failed)" "end_phase (shut_timers (io_timers d)) = Ph_Ended"
  shows "session_inv late a (handle_terminate env t ec d)"
proof -
  note kept = session_kept_inv[OF assms(1)]
  have event: "session_inv late a (d\<lparr>h_events := h_events d @ [if t = Ts_Failed then Ev_Fail else Ev_Close]\<rparr>)"
  proof (rule session_inv_step[OF assms(2)])
    let ?e = "d\<lparr>h_events := h_events d @ [if t = Ts_Failed then Ev_Fail else Ev_Close]\<rparr>"
    show "timer_inv ?e" using assms(3) timer_inv_view[of ?e d] by (simp add: timer_view_def)
    show "session_step late (abs_session c) (abs_session ?e)"
      using assms(4-) s_report[of late "t = Ts_Failed" "h_pushed c" "h_events c"] by (simp add: abs_session_def)
  qed (use assms(2,4-) in \<open>auto simp: session_inv_def\<close>)
  have silent: "session_inv late a d" if "t = Ts_Failed"
  proof (rule session_inv_step[OF assms(2)])
    show "session_step late (abs_session c) (abs_session d)"
      using assms(4-) that by (simp add: abs_session_def s_silent)
  qed (use assms in \<open>auto simp: session_inv_def\<close>)
  show ?thesis
    using assms(10) event silent session_kept.user_called[OF kept, of a d]
    by (auto simp: handle_terminate_def)
qed

subsection \<open>Every step\<close>

lemma take_op_rest: "take_op P ops = Some (x, ops') \<Longrightarrow> set ops' \<subseteq> set ops \<and> P x \<and> x \<in> set ops"
  by (induction ops arbitrary: ops') (auto split: if_splits)

lemma take_op_shut: "take_op P ops = Some (x, ops') \<Longrightarrow> \<not> is_shutdown x \<Longrightarrow> shut_ops ops' = shut_ops ops"
  by (induction ops arbitrary: ops') (auto split: if_splits)

lemma take_op_shutdown: "take_op is_shutdown ops = Some (x, ops') \<Longrightarrow> shut_ops ops = x # shut_ops ops'"
  by (induction ops arbitrary: ops') (auto split: if_splits)

lemma drop_op_session:
  assumes "take_op P (io_ops c) = Some (x, ops)" "\<not> is_shutdown x" "session_inv late a c"
  shows "session_inv late a (c\<lparr>io_ops := ops\<rparr>)"
  using take_op_rest[OF assms(1)] by (intro session_inv_ops[OF assms(3) take_op_shut[OF assms(1,2)]]) auto

lemma shutdown_done:
  assumes E: "late \<or> plain_env env" and c: "session_inv late a c"
    and t: "take_op is_shutdown (io_ops c) = Some (Op_Shutdown t i, ops)"
    and h: "handle_async_shutdown i ec (c\<lparr>io_ops := ops\<rparr>) = (r, d)"
  shows "session_inv late a (case r of None \<Rightarrow> d | Some ec' \<Rightarrow> handle_terminate env t ec' d)"
proof -
  let ?c = "c\<lparr>io_ops := ops\<rparr>"
  have inv: "timer_inv c" using c by (simp add: session_inv_def)
  have shut: "shut_ops (io_ops c) = Op_Shutdown t i # shut_ops ops" using take_op_shutdown[OF t] .
  obtain s where st: "con_state c = St_Closed" "i < next_timer c" "t = Ts_Failed \<or> t = Ts_Closed" "shut_ops ops = []"
    "shut_timers (io_timers c) = [] \<or> shut_timers (io_timers c) = [(i, T_Shutdown t, s)] \<and> s \<noteq> Cancelled"
    using inv shut by (auto simp: timer_inv_def shut_state_def)
  have own: "shuts k" if "(i, k, s) \<in> set (io_timers c)" for k s
    using inv shut that by (auto simp: timer_inv_def ops_ok_def)
  have held: "held ?c \<subseteq> held c" using take_op_rest[OF t] by (auto simp: held_def)
  have "shut_state True (next_timer c) (shut_timers (io_timers c)) []"
    using st unfolding shut_state_def by blast
  then have d0: "timer_inv ?c"
    using inv st held timers_ok_mono[of "io_timers c" "next_timer c" "held c" "held ?c"]
    by (simp add: timer_inv_def ops_ok_def)
  have none: "session_inv late a ?c"
    by (rule session_inv_same[OF c d0]) simp_all
  show ?thesis
  proof (cases r)
    case None
    with h none show ?thesis by (auto simp: handle_async_shutdown_def split: if_splits)
  next
    case (Some ec')
    then have d: "d = cancel_timer i ?c" "\<not> timer_expired i c"
      using h by (auto simp: handle_async_shutdown_def timer_expired_def split: if_splits)
    then obtain k s' where mem: "(i, k, s') \<in> set (io_timers c)" "s' \<noteq> Expired"
      by (auto simp: timer_expired_def list_ex_iff)
    then have "(i, k, s') \<in> set (shut_timers (io_timers c))" using own by (auto simp: shut_timers_def)
    with st mem have one: "shut_timers (io_timers c) = [(i, T_Shutdown t, s)]" "s \<noteq> Cancelled" "s \<noteq> Expired"
      by auto
    then have run: "s = Running" by (cases s) auto
    have can: "shut_timers (io_timers d) = [(i, T_Shutdown t, Cancelled)]"
      using shut_timers_cancel_in[of i "io_timers c"] own one run by (simp add: d cancel_timer_def)
    have "held d = held ?c" by (simp add: d held_def cancel_timer_def)
    then have "timer_inv d"
      using d0 can st timers_ok_cancel[of "io_timers c" "next_timer c" "held ?c" i]
      by (auto simp: timer_inv_def d cancel_timer_def ops_ok_def shut_state_def)
    then have "session_inv late a (handle_terminate env t ec' d)"
      by (intro reported_inv[OF E c]) (use st one can in \<open>auto simp: d cancel_timer_def\<close>)
    with Some show ?thesis by simp
  qed
qed

lemma timer_run:
  assumes E: "late \<or> plain_env env" and c: "session_inv late a c"
    and t: "take_timer i (io_timers c) = Some (k, s, ts)" and s: "s \<noteq> Running"
    and r: "run_timer env k (timer_result s) (c\<lparr>io_timers := ts\<rparr>) = Inr c'"
  shows "session_inv late a c'"
proof -
  let ?c = "c\<lparr>io_timers := ts\<rparr>"
  have inv: "timer_inv c" using c by (simp add: session_inv_def)
  have held: "held ?c = held c" by (simp add: held_def)
  have ok: "timers_ok ts (next_timer c) (held c)" "ops_ok ts (next_timer c) (shut_ops (io_ops c))"
    using inv timers_ok_taken[OF _ t] ops_ok_taken[OF _ t] by (simp_all add: timer_inv_def)
  show ?thesis
  proof (cases "shuts k")
    case False
    then have "shut_timers ts = shut_timers (io_timers c)" by (rule shut_timers_taken[OF t])
    then have "session_inv late a ?c"
      using inv ok held by (intro session_inv_same[OF c]) (simp_all add: timer_inv_def)
    with r False show ?thesis
      by (cases k) (auto simp: run_timer_def handle_post_init_timeout_def handle_open_handshake_timeout_def
          handle_close_handshake_timeout_def handle_pong_timeout_def terminate_inv call_init_session
          note_inv[OF E] note_event_def split: if_splits)
  next
    case True
    have "length (shut_timers (io_timers c)) \<le> 1" using inv by (auto simp: timer_inv_def shut_state_def)
    then have one: "shut_timers (io_timers c) = [(i, k, s)]" "shut_timers ts = []"
      using shut_timers_taken_one[OF t True] by auto
    then obtain u where u: "k = T_Shutdown u" "u = Ts_Failed \<or> u = Ts_Closed" "con_state c = St_Closed"
      and ops: "shut_ops (io_ops c) = [] \<or> shut_ops (io_ops c) = [Op_Shutdown u i] \<and> i < next_timer c"
      using inv by (auto simp: timer_inv_def shut_state_def)
    have d: "timer_inv ?c"
      using ok held one ops u by (auto simp: timer_inv_def shut_state_def)
    show ?thesis
    proof (cases s)
      case Cancelled
      have "session_inv late a ?c"
        using c d one u Cancelled by (simp add: session_inv_def abs_session_def)
      with r u Cancelled show ?thesis by (simp add: run_timer_def timer_result_def handle_async_shutdown_timeout_def)
    next
      case Expired
      have "session_inv late a (handle_terminate env u (tr_err Tr_Timeout) ?c)"
        by (rule reported_inv[OF E c d]) (use u one Expired in auto)
      with r u Expired show ?thesis by (simp add: run_timer_def timer_result_def handle_async_shutdown_timeout_def)
    qed (use s in simp)
  qed
qed

text \<open>The events of such a program.\<close>

definition plain_event :: "io_event \<Rightarrow> bool" where
  "plain_event e \<longleftrightarrow> (case e of Io_User act \<Rightarrow> plain_action act | Io_Other x \<Rightarrow> plain_other x | _ \<Rightarrow> True)"

theorem io_step_session:
  assumes E: "late \<or> plain_env env" and e: "late \<or> plain_event e"
    and step: "io_step env e c = Some (Inr c')" and c: "session_inv late a c"
  shows "session_inv late a c'"
proof (cases e)
  case (Io_Start sni)
  with step c show ?thesis by (auto simp: io_step_def intro: start_session)
next
  case (Io_Connect_Failed ec)
  with step c show ?thesis by (auto simp: io_step_def terminate_inv split: if_splits)
next
  case (Io_Handshake ec)
  then obtain i has ops where t: "take_op is_handshake (io_ops c) = Some (Op_Handshake i has, ops)"
    using step by (auto simp: io_step_def split: option.splits prod.splits asio_op.splits)
  have "i \<in> held c" using take_op_rest[OF t] by (auto simp: held_def)
  let ?c = "handle_tls_init ec (c\<lparr>io_ops := ops\<rparr>)"
  have "session_inv late a ?c" using drop_op_session[OF t _ c] by (simp add: handle_tls_init_def)
  moreover have "session_inv late a (cancel_timer i ?c)"
  proof -
    have inv: "timer_inv c" using c by (simp add: session_inv_def)
    note can = cancel_timer_inv[OF inv \<open>i \<in> held c\<close>]
    have "held (cancel_timer i ?c) \<subseteq> held (cancel_timer i c)"
      using take_op_rest[OF t] by (auto simp: held_def handle_tls_init_def cancel_timer_def)
    then have "timer_inv (cancel_timer i ?c)"
      using take_op_shut[OF t] by (intro timer_inv_less[OF can(1)]) (simp_all add: handle_tls_init_def cancel_timer_def)
    then show ?thesis
      using can(2) by (intro session_inv_same[OF c]) (simp_all add: handle_tls_init_def cancel_timer_def)
  qed
  moreover have "handle_post_init env i has (tls_ec ?c) ?c = Inr c'" using step t Io_Handshake by (simp add: io_step_def Let_def)
  ultimately show ?thesis by (auto simp: handle_post_init_def call_init_session split: if_splits)
next
  case (Io_Read ec bytes)
  then obtain ops where t: "take_op ((=) Op_Read) (io_ops c) = Some (Op_Read, ops)"
    and h: "handle_async_read env ec bytes (c\<lparr>io_ops := ops\<rparr>) = Inr c'"
    using step take_op_rest[of "(=) Op_Read" "io_ops c"] by (auto simp: io_step_def split: option.splits prod.splits if_splits)
  have d: "session_inv late a (c\<lparr>io_ops := ops\<rparr>)" using drop_op_session[OF t _ c] by simp
  show ?thesis
    using h d session_kept.frames_read[OF session_kept_inv[OF E] _ d]
    by (auto simp: handle_async_read_def response_session[OF E] split: option.splits read_handler.splits)
next
  case (Io_Write ec)
  then obtain x ops where t: "take_op is_write (io_ops c) = Some (x, ops)"
    and h: "handle_async_write ec (c\<lparr>io_ops := ops\<rparr>) = Inr c'"
    using step by (auto simp: io_step_def split: option.splits prod.splits)
  have "\<not> is_shutdown x" using take_op_rest[OF t] by (cases x) (auto simp: is_write_def)
  from drop_op_session[OF t this c] h show ?thesis
    by (auto simp: handle_async_write_def Let_def request_sent_session write_done_inv split: option.splits write_handler.splits)
next
  case (Io_Shutdown ec)
  then obtain t i ops where t: "take_op is_shutdown (io_ops c) = Some (Op_Shutdown t i, ops)"
    using step by (auto simp: io_step_def split: option.splits prod.splits asio_op.splits)
  obtain r d where h: "handle_async_shutdown i ec (c\<lparr>io_ops := ops\<rparr>) = (r, d)" by fastforce
  with step t Io_Shutdown have "c' = (case r of None \<Rightarrow> d | Some ec' \<Rightarrow> handle_terminate env t ec' d)"
    by (auto simp: io_step_def split: option.splits)
  with shutdown_done[OF E c t h] show ?thesis by simp
next
  case Io_Post
  with step obtain p ps where p: "io_posts c = p # ps" "run_post env p (c\<lparr>io_posts := ps\<rparr>) = Inr c'"
    by (auto simp: io_step_def split: list.splits)
  have d: "session_inv late a (c\<lparr>io_posts := ps\<rparr>)" using c by simp
  have read: "session_inv late a (read_frame (c\<lparr>io_posts := ps, m_read_flag := True\<rparr>))"
  proof (cases "async_read_at_least RH_Frame (c\<lparr>io_posts := ps, m_read_flag := True\<rparr>)")
    case (Pair ec1 d1)
    then show ?thesis
      using c async_read_session[of RH_Frame "c\<lparr>io_posts := ps, m_read_flag := True\<rparr>" d1 late a]
        session_kept.read_error[OF session_kept_inv[OF E], of a]
      by (cases ec1) (auto simp: read_frame_def async_read_at_least_def split: if_splits)
  qed
  show ?thesis
    using p(2) d read
    by (cases p) (auto simp: run_post_def write_frame_session[OF _ d] handle_resume_reading_def handle_pause_reading_def
        note_inv[OF E] note_event_def)
next
  case (Io_Expire i)
  have inv: "timer_inv c" using c by (simp add: session_inv_def)
  have ex: "shut_timers (expire_in i (io_timers c)) = shut_timers (io_timers c) \<or>
      shut_timers (expire_in i (io_timers c)) = expire_in i (shut_timers (io_timers c))"
    using shut_timers_expire by blast
  have ph: "end_phase (expire_in i ts) = end_phase ts" for ts
    by (induction i ts rule: expire_in.induct) auto
  have sh: "shut_state b n ts ops \<Longrightarrow> shut_state b n (expire_in i ts) ops" for b n ts ops
    by (auto simp: shut_state_def)
  let ?d = "c\<lparr>io_timers := expire_in i (io_timers c)\<rparr>"
  have "held ?d = held c" by (simp add: held_def)
  with ex inv sh have "timer_inv ?d"
    by (auto simp: timer_inv_def timers_ok_expire ops_ok_expire)
  moreover have "abs_session ?d = abs_session c"
    using ex ph by (cases "con_state c") (auto simp: abs_session_def)
  ultimately have "session_inv late a ?d" using c by (simp add: session_inv_def)
  with step Io_Expire show ?thesis by (auto simp: io_step_def)
next
  case (Io_Timer i)
  then obtain k s ts where "take_timer i (io_timers c) = Some (k, s, ts)" "s \<noteq> Running"
    "run_timer env k (timer_result s) (c\<lparr>io_timers := ts\<rparr>) = Inr c'"
    using step by (auto simp: io_step_def split: option.splits prod.splits if_splits)
  then show ?thesis by (rule timer_run[OF E c])
next
  case (Io_User act)
  with step e c show ?thesis by (auto simp: io_step_def plain_event_def intro: action_inv[OF E])
next
  case (Io_Other x)
  with step e c show ?thesis by (auto simp: io_step_def plain_event_def intro: other_inv)
qed

subsection \<open>The session of a connection\<close>

lemma session_inv_new: "session_inv late (abs_session (conn_new ua u)) (conn_new ua u)"
  using timer_inv_new[of ua u] by (simp add: session_inv_def) (simp add: conn_new_def)

lemma abs_session_new: "abs_session (conn_new ua u) = (Ph_Connecting, [], [])"
  by (simp add: abs_session_def conn_new_def)

theorem connection_is_session:
  assumes "late \<or> plain_env env" "ws_reach env (\<lambda>e. late \<or> plain_event e) c"
  shows "session_inv late (Ph_Connecting, [], []) c"
  using assms(2)
proof induction
  case (start ua u)
  then show ?case using session_inv_new[of late ua u] by (simp add: abs_session_new)
qed (use io_step_session[OF assms(1)] in blast)

text \<open>What is promised of every connection, whatever the other threads do.\<close>

lemma reached_life:
  assumes "ws_reach env ok c"
  shows "life_ok (fst (abs_session c)) (life (h_events c))"
proof -
  have "ws_reach env (\<lambda>e. True) c" using assms by induction (auto intro: ws_reach.intros)
  then have "session_steps True (Ph_Connecting, [], []) (abs_session c)"
    using connection_is_session[of True env c] by (simp add: session_inv_def)
  from session_life[OF this] show ?thesis by (simp add: abs_session_def)
qed

lemma reached_close_last:
  assumes "plain_env env" "ws_reach env plain_event c"
  shows "close_last (h_pushed c)"
proof -
  have "session_steps False (Ph_Connecting, [], []) (abs_session c)"
    using connection_is_session[of False env c] assms by (simp add: session_inv_def)
  from session_close_last[OF this] show ?thesis by (simp add: abs_session_def)
qed

end
