(* ===== verification/Ws_Session_Calm.thy ===== *)
theory Ws_Session_Calm
  imports Ws_Session_Spec
begin

section \<open>A user who does not close the connection\<close>

text \<open>
  The program's handlers and its other threads may send, ping, pong and interrupt, at any time; they do
  not close the connection, pause or resume it, or send a message that is marked to be the last. Then
  what is read does not depend on what is written in between: the relation \<open>calmly\<close>.
\<close>

definition calm_message :: "message \<Rightarrow> bool" where
  "calm_message m \<longleftrightarrow> (m_prepared m \<longrightarrow> \<not> m_terminal m)"

definition calm_action :: "action \<Rightarrow> bool" where
  "calm_action a \<longleftrightarrow>
     (case a of
        Act_Send op payload \<Rightarrow> True
      | Act_Send_Message m \<Rightarrow> calm_message m
      | Act_Ping payload \<Rightarrow> True
      | Act_Pong payload \<Rightarrow> True
      | Act_Interrupt \<Rightarrow> True
      | _ \<Rightarrow> False)"

definition calm_pending :: "pending \<Rightarrow> bool" where
  "calm_pending p \<longleftrightarrow> (case p of Pn_Send m \<Rightarrow> calm_message m | _ \<Rightarrow> True)"

definition calm_other :: "other \<Rightarrow> bool" where
  "calm_other x \<longleftrightarrow>
     (case x of Ot_Check p \<Rightarrow> calm_pending p | Ot_Push p \<Rightarrow> True | Ot_Interrupt \<Rightarrow> True | _ \<Rightarrow> False)"

definition calm_env :: "ws_env \<Rightarrow> bool" where
  "calm_env env \<longleftrightarrow>
     (\<forall>ev c. list_all calm_action (on_event env ev c)) \<and> (\<forall>c. list_all calm_other (meanwhile env c))"

text \<open>The events of a connection that is not disturbed: reads and writes that succeed, and what the
  program does in between.\<close>

definition calm_event :: "io_event \<Rightarrow> bool" where
  "calm_event e \<longleftrightarrow>
     (case e of
        Io_Read ec bytes \<Rightarrow> ec = None \<and> bytes \<noteq> [] \<and> length bytes \<le> connection_read_buffer_size
      | Io_Write ec \<Rightarrow> ec = None
      | Io_Post \<Rightarrow> True
      | Io_User a \<Rightarrow> calm_action a
      | Io_Other x \<Rightarrow> calm_other x
      | _ \<Rightarrow> False)"

subsection \<open>What is kept\<close>

definition calm :: "conn \<Rightarrow> bool" where
  "calm c \<longleftrightarrow>
     m_async_read_handler c \<and> m_read_flag c \<and> set (io_posts c) \<subseteq> {Post_Write_Frame, Post_Interrupt} \<and>
     list_all (\<lambda>m. \<not> m_terminal m) (m_send_queue c @ m_current_msgs c) \<and> list_all calm_pending (h_sending c)"

type_synonym seen =
  "session_state \<times> internal_state \<times> read_handler option \<times> hybi13 option \<times> response \<times> request \<times> asio_op list \<times> user_event list"

definition reads :: "asio_op list \<Rightarrow> asio_op list" where
  "reads ops = filter ((=) Op_Read) ops"

definition seen :: "conn \<Rightarrow> seen" where
  "seen c = (con_state c, con_istate c, m_read_handler c, m_processor c, m_response c, m_request c, reads (io_ops c),
     life (h_events c))"

definition calmly :: "conn \<Rightarrow> conn \<Rightarrow> bool" where
  "calmly c d \<longleftrightarrow> (calm c \<longrightarrow> calm d \<and> seen d = seen c)"

lemma calmly_refl [simp]: "calmly c c"
  by (simp add: calmly_def)

lemma calmly_trans [trans]: "calmly c d \<Longrightarrow> calmly d e \<Longrightarrow> calmly c e"
  by (simp add: calmly_def)

lemma calmly_fields [simp]:
  "calmly c (c\<lparr>io_timers := ts\<rparr>)" "calmly c (c\<lparr>next_timer := n\<rparr>)" "calmly c (c\<lparr>rng_drawn := n\<rparr>)"
  "calmly c (c\<lparr>m_ping_timer := x\<rparr>)" "calmly c (c\<lparr>m_handshake_timer := x\<rparr>)"
  by (simp_all add: calmly_def calm_def seen_def)

lemma calmly_draw [simp]: "calmly c (draw_if b c)"
  by (simp add: draw_if_def)

lemma calmly_timer [simp]: "calmly c (cancel_timer i c)" "calmly c (snd (set_timer k c))"
  "calmly c ((snd (set_timer k c))\<lparr>m_ping_timer := x\<rparr>)"
  by (simp_all add: cancel_timer_def set_timer_def calmly_def calm_def seen_def)

lemma calmly_pong_timer [simp]: "calmly c (arm_pong_timer env payload c)"
proof -
  have "calmly c (snd (set_timer k d)\<lparr>m_ping_timer := x\<rparr>)" if "calmly c d" for k x d
    using calmly_trans[OF that calmly_timer(3)] .
  then show ?thesis by (auto simp: arm_pong_timer_def set_timer_def Let_def split: option.split)
qed

lemma calmly_queue: "\<not> m_terminal m \<Longrightarrow> calmly c (queue_message m c)"
  by (auto simp: queue_message_eq calmly_def calm_def seen_def)

lemma calmly_post: "p \<in> {Post_Write_Frame, Post_Interrupt} \<Longrightarrow> calmly c (asio_post p c)"
  by (auto simp: asio_post_def calmly_def calm_def seen_def)

lemma prepared_not_terminal:
  "prepare_data_frame s r (Some i) (Some out) = (None, Some m) \<Longrightarrow> m_terminal m = m_terminal out"
  "prepare_ping s r p (Some out) = (None, Some m) \<Longrightarrow> m_terminal m = m_terminal out"
  "prepare_pong s r p (Some out) = (None, Some m) \<Longrightarrow> m_terminal m = m_terminal out"
  by (auto simp: prepare_data_frame_def prepare_ping_def prepare_pong_def prepare_control_def Let_def split: if_splits)

lemma calmly_push:
  "calm_message m \<Longrightarrow> calmly c (snd (send_push env m c))" "calmly c (snd (ping_push env p c))"
  "calmly c (snd (pong_push env p c))" "calm_pending q \<Longrightarrow> calmly c (push_pending env q c)"
proof -
  have new: "\<not> m_terminal (message_new CONTINUATION)" by (simp add: message_new_def)
  have q: "calmly c (queue_message m (draw_if True c))" "calmly c (queue_message m (arm_pong_timer env p (draw_if True c)))"
    if "\<not> m_terminal m" for m c p
    using calmly_trans[OF calmly_draw calmly_queue[OF that]]
      calmly_trans[OF calmly_draw calmly_trans[OF calmly_pong_timer calmly_queue[OF that]]] by blast+
  have s: "calmly c (snd (send_push env m c))" if "calm_message m" for m
    using that q new calmly_queue[of m c]
    by (auto simp: send_push_def calm_message_def dest: prepared_not_terminal(1) split: prod.split option.split)
  have p: "calmly c (snd (ping_push env p c))" "calmly c (snd (pong_push env p c))" for p
    using q new by (auto simp: ping_push_def pong_push_def dest: prepared_not_terminal(2,3) split: prod.split option.split)
  show "calm_message m \<Longrightarrow> calmly c (snd (send_push env m c))" "calmly c (snd (ping_push env p c))"
    "calmly c (snd (pong_push env p c))" "calm_pending q \<Longrightarrow> calmly c (push_pending env q c)"
    using s p by (simp_all add: push_pending_def calm_pending_def split: pending.splits)
qed

lemma calmly_other:
  assumes "calm_other x"
  shows "calmly c (other_op env x c)"
proof (cases x)
  case (Ot_Check p)
  with assms show ?thesis by (simp add: calm_other_def calmly_def calm_def seen_def)
next
  case (Ot_Push p)
  let ?c = "c\<lparr>h_sending := remove1 p (h_sending c)\<rparr>"
  have "calmly c (push_pending env p ?c)" if "p \<in> set (h_sending c)"
  proof (cases "calm c")
    case True
    then have "calm_pending p" using that by (auto simp: calm_def list_all_iff)
    moreover have "calmly c ?c" by (auto simp: calmly_def calm_def seen_def list_all_iff dest: notin_set_remove1)
    ultimately show ?thesis using calmly_trans calmly_push(4) by blast
  qed (simp add: calmly_def)
  with Ot_Push show ?thesis by simp
qed (use assms in \<open>simp_all add: calm_other_def calmly_post\<close>)

lemma calmly_others: "calm_env env \<Longrightarrow> calmly c (others env c)"
proof -
  have "list_all calm_other xs \<Longrightarrow> calmly c (fold (other_op env) xs c)" for xs
    by (induction xs arbitrary: c) (auto intro: calmly_trans calmly_other)
  then show "calm_env env \<Longrightarrow> calmly c (others env c)" by (simp add: others_def calm_env_def)
qed

lemma calmly_send:
  assumes "calm_env env"
  shows "calm_message m \<Longrightarrow> calmly c (snd (send_message env m c))" "calmly c (snd (con_ping env p c))"
    "calmly c (snd (con_pong env p c))"
  using calmly_trans[OF calmly_others[OF assms] calmly_push(1)] calmly_trans[OF calmly_others[OF assms] calmly_push(2)]
    calmly_trans[OF calmly_others[OF assms] calmly_push(3)]
  by (simp_all add: send_message_def con_ping_def con_pong_def)

lemma calmly_action: "calm_env env \<Longrightarrow> calm_action a \<Longrightarrow> calmly c (do_action env a c)"
  by (cases a) (auto simp: calm_action_def con_send_def calm_message_def append_payload_def message_new_def
      intro: calmly_send calmly_post)

lemma calmly_user: "calm_env env \<Longrightarrow> calmly (c\<lparr>h_events := h_events c @ [ev]\<rparr>) (call_user env ev c)"
proof -
  have "calm_env env \<Longrightarrow> list_all calm_action as \<Longrightarrow> calmly c (fold (do_action env) as c)" for as c
    by (induction as arbitrary: c) (auto intro: calmly_trans calmly_action)
  then show "calm_env env \<Longrightarrow> calmly (c\<lparr>h_events := h_events c @ [ev]\<rparr>) (call_user env ev c)"
    by (simp add: call_user_def calm_env_def)
qed

lemma calmly_note: "calm_env env \<Longrightarrow> note_event ev \<Longrightarrow> calmly c (call_user env ev c)"
  by (rule calmly_trans[OF _ calmly_user]) (simp_all add: calmly_def calm_def seen_def life_def)

subsection \<open>Steps that are not reads\<close>

lemma reads_simps [simp]:
  "reads [] = []" "reads (x # xs) = (if x = Op_Read then [Op_Read] else []) @ reads xs" "reads (xs @ ys) = reads xs @ reads ys"
  by (auto simp: reads_def)

lemma take_op_reads: "take_op P ops = Some (x, ops') \<Longrightarrow> x \<noteq> Op_Read \<Longrightarrow> reads ops' = reads ops"
  by (induction ops arbitrary: ops') (auto split: if_splits)

lemma take_read:
  assumes "reads ops = [Op_Read]"
  shows "\<exists>ops'. take_op ((=) Op_Read) ops = Some (Op_Read, ops') \<and> reads ops' = []"
  using assms by (induction ops) (auto split: if_splits)

lemma write_frame_calm:
  assumes "write_inv c" "calm c" "con_state c \<noteq> St_Closed"
  shows "\<exists>d. write_frame c = Inr d \<and> calm d \<and> seen d = seen c"
proof (cases "m_write_flag c")
  case True
  with assms show ?thesis by (simp add: write_frame_def)
next
  case False
  note w = write_inv_parts[OF assms(1)]
  have size: "m_send_buffer_size c = size_t (int (queued_bytes (m_send_queue c)))" using w(1) by (simp add: queue_inv_def)
  obtain taken rest where q: "m_send_queue c = taken @ rest"
    and pop: "pop_ready c = c\<lparr>m_send_queue := rest, m_current_msgs := m_current_msgs c @ taken,
                      m_send_buffer_size := size_t (int (queued_bytes rest))\<rparr>"
    using pop_ready_eq[OF size] by blast
  have p: "calm (pop_ready c)" "seen (pop_ready c) = seen c" "m_async_write_handler (pop_ready c)"
    using assms(2,3) w(2) q by (auto simp: pop calm_def seen_def link_inv_def)
  then show ?thesis
    using False by (auto simp: write_frame_def async_write_def calm_def seen_def Let_def)
qed

lemma frames_written_calm:
  assumes "write_inv c" "calm c" "con_state c \<noteq> St_Closed" "con_istate c \<noteq> WRITE_HTTP_REQUEST"
    "take_op is_write (io_ops c) = Some (x, ops)"
  shows "\<exists>d. handle_async_write None (c\<lparr>io_ops := ops\<rparr>) = Inr d \<and> calm d \<and> seen d = seen c"
proof -
  note w = write_inv_parts[OF assms(1)]
  have x: "writes (io_ops c) = Suc (writes ops)" "x \<noteq> Op_Read"
    using take_op_writes[OF assms(5)] take_op_some[OF assms(5)] by auto
  have f: "m_write_flag c" "m_write_handler c = Some WH_Frame" "m_current_msgs c \<noteq> []"
    using w(3) x assms(3,4) by (auto simp: flight_inv_def split: if_splits)
  have "\<not> m_terminal (last (m_current_msgs c))"
    using assms(2) f(3) by (auto simp: calm_def list_all_iff)
  moreover have "reads ops = reads (io_ops c)" using take_op_reads[OF assms(5) x(2)] .
  ultimately show ?thesis
    using f assms(2) by (auto simp: handle_async_write_def write_result_def handle_write_frame_def asio_post_def calm_def
        seen_def Let_def)
qed

definition is_read :: "io_event \<Rightarrow> bool" where
  "is_read e \<longleftrightarrow> (case e of Io_Read ec bytes \<Rightarrow> True | _ \<Rightarrow> False)"

lemma calm_step:
  assumes "calm_env env" "calm_event e" "\<not> is_read e" "write_inv c" "calm c" "con_state c \<noteq> St_Closed"
    "con_istate c \<noteq> WRITE_HTTP_REQUEST"
  shows "io_step env e c = None \<or> (\<exists>d. io_step env e c = Some (Inr d) \<and> write_inv d \<and> calm d \<and> seen d = seen c)"
proof -
  have "io_step env e c = None \<or> (\<exists>d. io_step env e c = Some (Inr d) \<and> calm d \<and> seen d = seen c)"
  proof (cases e)
    case (Io_Write ec)
    then have e: "ec = None" using assms(2) by (simp add: calm_event_def)
    show ?thesis
    proof (cases "take_op is_write (io_ops c)")
      case None
      with Io_Write show ?thesis by (simp add: io_step_def)
    next
      case (Some y)
      then obtain x ops where "take_op is_write (io_ops c) = Some (x, ops)" by (cases y) simp
      with frames_written_calm[OF assms(4-7) this] Io_Write e show ?thesis by (simp add: io_step_def)
    qed
  next
    case Io_Post
    show ?thesis
    proof (cases "io_posts c")
      case Nil
      with Io_Post show ?thesis by (simp add: io_step_def)
    next
      case (Cons p ps)
      let ?c = "c\<lparr>io_posts := ps\<rparr>"
      have c: "calm ?c" "seen ?c = seen c" "write_inv ?c" "con_state ?c \<noteq> St_Closed" and p: "p \<in> {Post_Write_Frame, Post_Interrupt}"
        using assms(4-6) Cons by (auto simp: calm_def seen_def)
      have "calmly ?c (call_user env Ev_Interrupt ?c)" by (rule calmly_note[OF assms(1)]) (simp add: note_event_def)
      with c p write_frame_calm[OF c(3,1,4)] Io_Post Cons show ?thesis
        by (auto simp: io_step_def run_post_def calmly_def)
    qed
  next
    case (Io_User a)
    with assms calmly_action[of env a c] show ?thesis by (auto simp: io_step_def calm_event_def calmly_def)
  next
    case (Io_Other x)
    with assms calmly_other[of x c env] show ?thesis by (auto simp: io_step_def calm_event_def calmly_def)
  qed (use assms(2,3) in \<open>simp_all add: calm_event_def is_read_def\<close>)
  with io_step_write_inv[OF _ assms(4)] show ?thesis by blast
qed

subsection \<open>Messages\<close>

text \<open>The call of the user for a message.\<close>

definition received :: "message \<Rightarrow> user_event" where
  "received m = (if m_opcode m = PING then Ev_Ping (m_payload m)
     else if m_opcode m = PONG then Ev_Pong (m_payload m) else Ev_Message m)"

lemma life_received [simp]: "life (map received ms) = map received ms"
  by (induction ms) (simp_all add: life_def received_def note_event_def)

lemma dispatch_calm:
  assumes "calm_env env" "calm c" "con_state c = St_Open" "m_opcode m \<in> {TEXT, BINARY, PING, PONG}"
  shows "calm (dispatch_message env (Some m) c) \<and>
    seen (dispatch_message env (Some m) c) = seen (c\<lparr>h_events := h_events c @ [received m]\<rparr>)"
proof -
  let ?c = "c\<lparr>h_events := h_events c @ [received m]\<rparr>"
  have calm: "calm ?c" using assms(2) by (simp add: calm_def)
  have user: "calmly ?c (call_user env (received m) c)" by (rule calmly_user[OF assms(1)])
  have control: "\<not> is_control TEXT" "\<not> is_control BINARY" "is_control PING" "is_control PONG" by code_simp+
  have "PING \<noteq> TEXT" "PING \<noteq> BINARY" "PONG \<noteq> TEXT" "PONG \<noteq> BINARY" "PING \<noteq> PONG" "PING \<noteq> CLOSE" "PONG \<noteq> CLOSE" by code_simp+
  with control assms(3,4) have
    "dispatch_message env (Some m) c =
       (let d = call_user env (received m) c
        in if m_opcode m = PING \<and> on_ping env (m_payload m) c then snd (con_pong env (m_payload m) d)
           else if m_opcode m = PONG then (case m_ping_timer d of None \<Rightarrow> d | Some i \<Rightarrow> cancel_timer i d) else d)"
    by (auto simp: dispatch_message_def process_control_frame_def received_def Let_def)
  moreover have "calmly ?c (snd (con_pong env (m_payload m) (call_user env (received m) c)))"
    by (rule calmly_trans[OF user]) (rule calmly_send(3)[OF assms(1)])
  moreover have "calmly ?c (cancel_timer i (call_user env (received m) c))" for i
    by (rule calmly_trans[OF user]) simp
  ultimately show ?thesis using user calm by (auto simp: calmly_def Let_def split: option.split)
qed

lemma seen_events: "seen d = seen c \<Longrightarrow> seen (d\<lparr>h_events := h_events d @ es\<rparr>) = seen (c\<lparr>h_events := h_events c @ es\<rparr>)"
  by (simp add: seen_def life_def)

lemma dispatch_all_calm:
  assumes "calm_env env" "calm c" "con_state c = St_Open" "list_all (\<lambda>m. m_opcode m \<in> {TEXT, BINARY, PING, PONG}) ms"
  shows "calm (fold (dispatch_message env) (map Some ms) c) \<and>
    seen (fold (dispatch_message env) (map Some ms) c) = seen (c\<lparr>h_events := h_events c @ map received ms\<rparr>)"
  using assms(2-)
proof (induction ms arbitrary: c)
  case (Cons m ms)
  let ?d = "dispatch_message env (Some m) c"
  have d: "calm ?d" "seen ?d = seen (c\<lparr>h_events := h_events c @ [received m]\<rparr>)"
    using dispatch_calm[OF assms(1) Cons.prems(1,2), of m] Cons.prems(3) by simp_all
  from d(2) Cons.prems(2) have "con_state ?d = St_Open" by (simp add: seen_def)
  with Cons.IH[OF d(1)] Cons.prems(3) seen_events[OF d(2), of "map received ms"] show ?case by simp
qed simp

subsection \<open>Frames\<close>

definition reading :: "hybi13 \<Rightarrow> conn \<Rightarrow> bool" where
  "reading s c \<longleftrightarrow>
     calm c \<and> con_state c = St_Open \<and> con_istate c = PROCESS_CONNECTION \<and> m_read_handler c = Some RH_Frame \<and>
     m_processor c = Some s \<and> reads (io_ops c) = [Op_Read]"

lemma frames_calm:
  assumes "calm_env env" "calm c" "con_state c = St_Open" "con_istate c = PROCESS_CONNECTION" "m_processor c = Some s"
    "reads (io_ops c) = []" "list_all (\<lambda>m. m_opcode m \<in> {TEXT, BINARY, PING, PONG}) ms"
    "read_loop (\<lambda>m ms. ms @ [m]) b s [] = Inr (None, s1, map Some ms)"
  shows "\<exists>d. handle_read_frame env None b c = Inr d \<and> reading s1 d \<and> life (h_events d) = life (h_events c) @ map received ms"
proof -
  let ?d = "fold (dispatch_message env) (map Some ms) c"
  have d: "calm ?d" "seen ?d = seen (c\<lparr>h_events := h_events c @ map received ms\<rparr>)"
    using dispatch_all_calm[OF assms(1-3,7)] by auto
  let ?e = "?d\<lparr>m_processor := Some s1, m_read_handler := Some RH_Frame, io_ops := io_ops ?d @ [Op_Read]\<rparr>"
  have "read_loop (dispatch_message env) b s c = Inr (None, s1, ?d)"
    using read_loop_fold[of b s "[]" "dispatch_message env" c] assms(8) by simp
  then have "handle_read_frame env None b c = Inr ?e"
    using assms(4,5) d(1)
    by (simp add: handle_read_frame_def Ws_Session.read_frame_def async_read_at_least_def calm_def Let_def)
  moreover have "reading s1 ?e" using d assms(3,4,6) by (simp add: reading_def calm_def seen_def)
  moreover have "life (h_events ?e) = life (h_events c) @ map received ms"
    using d(2) life_received[of ms] by (simp add: seen_def life_def)
  ultimately show ?thesis by blast
qed

end
