(* ===== verification/Ws_Session_Run.thy ===== *)
theory Ws_Session_Run
  imports Ws_Session_Refines Ws_Session_Calm
begin

section \<open>A connection to a correct server\<close>

lemma base64_encode_length: "length (base64_encode bs) = 4 * ((length bs + 2) div 3)"
  by (induction bs rule: base64_encode.induct) (simp_all add: base64_digits_def, presburger)

lemma base64_encode_chars: "c \<in> set (base64_encode bs) \<Longrightarrow> c = CHR ''='' \<or> is_base64 c"
proof (induction bs rule: base64_encode.induct)
  case (1 a b d bs)
  then show ?case using base64_digits_less[of a b d] base64_char_valid by (auto simp: list_all_iff)
next
  case (2 a b)
  then show ?case using base64_digits_less[of a b 0] base64_char_valid by (auto simp: list_all_iff dest: in_set_takeD)
next
  case (3 a)
  then show ?case using base64_digits_less[of a 0 0] base64_char_valid by (auto simp: list_all_iff dest: in_set_takeD)
qed simp

subsection \<open>The reply\<close>

definition switching :: response where
  "switching = response_new\<lparr>m_version := ''HTTP/1.1'', m_status_code := 101, m_status_msg := ''Switching Protocols''\<rparr>"

definition reply_headers :: "string \<Rightarrow> header_list" where
  "reply_headers key = [(''Connection'', ''upgrade''), (''Sec-WebSocket-Accept'', key), (''Upgrade'', ''websocket'')]"

lemma reply_names:
  "ci_less ''Sec-WebSocket-Accept'' ''Upgrade''" "\<not> ci_less ''Upgrade'' ''Sec-WebSocket-Accept''"
  "ci_less ''Connection'' ''Sec-WebSocket-Accept''" "\<not> ci_less ''Sec-WebSocket-Accept'' ''Connection''"
  "ci_less ''Connection'' ''Upgrade''" "\<not> ci_less ''Upgrade'' ''Connection''"
  "ci_less ''Connection'' ''Content-Length''" "\<not> ci_less ''Sec-WebSocket-Accept'' ''Content-Length''"
  "ci_less ''Content-Length'' ''Sec-WebSocket-Accept''"
  by code_simp+

lemma process_handshake_switching:
  "process_handshake w req [] switching =
     Inr (switching\<lparr>m_headers := reply_headers (process_handshake_key w (get_header ''Sec-WebSocket-Key'' req))\<rparr>)"
proof -
  let ?a = "process_handshake_key w (get_header ''Sec-WebSocket-Key'' req)"
  let ?r = "\<lambda>hs. switching\<lparr>m_headers := hs\<rparr>"
  have 1: "replace_header ''Sec-WebSocket-Accept'' ?a switching = ?r [(''Sec-WebSocket-Accept'', ?a)]"
    by (simp add: replace_header_def switching_def response_new_def del: ci_less.simps)
  have 2: "append_header ''Upgrade'' upgrade_token (?r [(''Sec-WebSocket-Accept'', ?a)]) =
      Inr (?r [(''Sec-WebSocket-Accept'', ?a), (''Upgrade'', ''websocket'')])"
    by (simp add: append_header_def replace_header_def get_header_def upgrade_token_def is_token_char_iff token_code_def
        reply_names del: ci_less.simps)
  have 3: "append_header ''Connection'' connection_token (?r [(''Sec-WebSocket-Accept'', ?a), (''Upgrade'', ''websocket'')]) =
      Inr (?r (reply_headers ?a))"
    by (simp add: append_header_def replace_header_def get_header_def connection_token_def is_token_char_iff token_code_def
        reply_names reply_headers_def del: ci_less.simps)
  show ?thesis by (simp only: process_handshake_def 1 2 3 bind_http.simps) simp
qed

lemma key_trimmed: "trimmed (base64_encode bs)"
proof -
  have "c \<noteq> CR \<and> \<not> is_whitespace_char c" if "c \<in> set (base64_encode bs)" for c
    using base64_encode_chars[OF that] by (auto simp: is_base64_def is_whitespace_char_def Let_def)
  then show ?thesis by (auto simp: trimmed_def)
qed

lemma accept_length: "length (accept_value key) = 28"
proof -
  have "length (store_hash h) = 20" for h by (cases h rule: store_hash.cases) simp
  then show ?thesis by (simp add: accept_value_def base64_encode_length fips_sha1_def)
qed

lemma reply_clean:
  assumes "m_headers r = reply_headers (accept_value key)" "r = switching\<lparr>m_headers := m_headers r\<rparr>"
  shows "clean_reply r"
proof -
  have names: "list_all is_token_char ''Sec-WebSocket-Accept''" by (simp add: is_token_char_iff token_code_def)
  have heads: "list_all clean_header (reply_headers (accept_value key))"
    using names handshake_names_tokens(1,2) key_trimmed
    by (simp add: reply_headers_def clean_header_def accept_value_def) (simp add: trimmed_def is_whitespace_char_def)
  have order: "header_order (reply_headers (accept_value key))"
    using reply_names by (simp add: header_order_def reply_headers_def ci_less_iff)
  have find: "header_find ''Content-Length'' (reply_headers (accept_value key)) = None"
    by (simp add: reply_headers_def reply_names del: ci_less.simps)
  have code: "int_to_string 101 = ''101''"
    by code_simp
  have r: "r = switching\<lparr>m_headers := reply_headers (accept_value key)\<rparr>" using assms by simp
  have len: "length (response_raw r) + length (m_headers r) + 2 \<le> max_header_size"
    unfolding r
    by (simp add: response_raw_def raw_headers_def reply_headers_def switching_def response_new_def code
        header_delimiter_def accept_length max_header_size_def)
  have fields: "CR \<notin> set (m_version r)" "CHR '' '' \<notin> set (m_version r)" "CR \<notin> set (m_status_msg r)"
    "int32_range (m_status_code r)" "m_body r = []"
    unfolding r by (simp_all add: switching_def response_new_def int32_range_def)
  show ?thesis using heads order find len fields r by (simp add: clean_reply_def)
qed

subsection \<open>Opening\<close>

lemma header_find_same: "header_find k (header_set k v hs) = Some v"
proof -
  have "\<not> ci_less k k" by (simp add: ci_less_iff)
  then show ?thesis by (induction k v hs rule: header_set.induct) auto
qed

text \<open>The request of a new connection.\<close>

lemma request_of_new:
  assumes "client_handshake_request rs uri [] request_new = Inr req"
  shows "header_order (m_headers req) \<and> get_header ''Sec-WebSocket-Key'' req = base64_encode (raw_key rs)"
proof -
  obtain req' where req': "client_handshake_request rs uri [] request_new = Inr req'" "header_order (m_headers req')"
    using client_request_accepted[of request_new rs uri "[]"] by (auto simp: request_new_def header_order_def)
  obtain q where q: "req = replace_header ''Sec-WebSocket-Key'' (base64_encode (raw_key rs)) q"
    using assms by (auto simp: client_handshake_request_def bind_http_eq_Inr Let_def)
  have "get_header ''Sec-WebSocket-Key'' req = base64_encode (raw_key rs)"
    unfolding q by (simp add: get_header_def replace_header_def header_find_same)
  with req' assms show ?thesis by simp
qed

lemma request_key:
  assumes "header_order (m_headers req)" "length (get_header ''Sec-WebSocket-Key'' req) = 24"
  shows "length (get_header ''Sec-WebSocket-Key'' (replace_header ''User-Agent'' ua req)) = 24"
    and "length (get_header ''Sec-WebSocket-Key'' (remove_header ''User-Agent'' req)) = 24"
proof -
  have "header_name ''Sec-WebSocket-Key'' \<noteq> header_name ''User-Agent''" by (rule header_names_differ) simp
  then show "length (get_header ''Sec-WebSocket-Key'' (replace_header ''User-Agent'' ua req)) = 24"
    "length (get_header ''Sec-WebSocket-Key'' (remove_header ''User-Agent'' req)) = 24"
    using assms get_header_replace[OF assms(1)] header_find_erase[OF assms(1)]
    by (simp_all add: remove_header_def get_header_def[of _ "remove_header k p" for k p] get_header_def)
qed

text \<open>The state in which the request is on its way.\<close>

lemma request_sent:
  "\<exists>c. io_run env [Io_Start True, Io_Handshake None] (conn_new ua u) = Inr c \<and>
     con_state c = St_Connecting \<and> con_istate c = WRITE_HTTP_REQUEST \<and>
     m_async_read_handler c \<and> m_read_flag c \<and> m_write_handler c = Some WH_Http_Request \<and>
     (\<exists>bs. io_ops c = [Op_Write bs]) \<and> calm c \<and> m_response c = response_new \<and> h_events c = [] \<and>
     m_processor c = Some (get_processor env (conn_new ua u)) \<and>
     length (get_header ''Sec-WebSocket-Key'' (m_request c)) = 24"
proof -
  let ?rs = "map (\<lambda>i. rng env (0 + i)) [0..<4]"
  obtain req where req: "client_handshake_request ?rs u [] request_new = Inr req"
    using client_request_accepted[of request_new ?rs u "[]"] by (auto simp: request_new_def header_order_def)
  have key: "header_order (m_headers req)" "length (get_header ''Sec-WebSocket-Key'' req) = 24"
  proof -
    have "length (raw_key ?rs) = 16" by (simp add: raw_key_def upt_rec)
    then show "header_order (m_headers req)" "length (get_header ''Sec-WebSocket-Key'' req) = 24"
      using request_of_new[OF req] base64_encode_length[of "raw_key ?rs"] by auto
  qed
  define req' where "req' = (if get_header ''User-Agent'' req = []
     then if ua \<noteq> [] then replace_header ''User-Agent'' ua req else remove_header ''User-Agent'' req else req)"
  have key': "length (get_header ''Sec-WebSocket-Key'' req') = 24"
    using key request_key[OF key] by (simp add: req'_def)
  let ?c0 = "conn_new ua u"
  define c1 where "c1 = ?c0\<lparr>con_istate := TRANSPORT_INIT, m_init_handler := True,
     io_timers := [(0, T_Post_Init True, Running)], next_timer := 1,
     tls_ec := Some (Socket_Error Sock_Tls_Handshake_Timeout), io_ops := [Op_Handshake 0 True]\<rparr>"
  have s1: "io_step env (Io_Start True) ?c0 = Some (Inr c1)"
    by (simp add: io_step_def con_start_def pre_init_def handle_pre_init_def asio_init_def post_init_def set_timer_def
        conn_new_def c1_def)
  define c2 where "c2 = c1\<lparr>io_ops := [], tls_ec := None, io_timers := [(0, T_Post_Init True, Cancelled)]\<rparr>"
  have s2: "io_step env (Io_Handshake None) c1 = Some (handle_transport_init env None c2)"
    by (simp add: io_step_def is_handshake_def handle_tls_init_def handle_post_init_def timer_expired_def cancel_timer_def
        call_init_handler_def c1_def c2_def Let_def)
  let ?c3 = "c2\<lparr>con_istate := WRITE_HTTP_REQUEST, m_processor := Some (get_processor env c2), rng_drawn := 4,
     m_request := req', m_handshake_buffer := request_raw req'\<rparr>"
  have c2: "con_istate c2 = TRANSPORT_INIT" "con_state c2 = St_Connecting" "rng_drawn c2 = 0" "con_uri c2 = u"
    "m_requested_subprotocols c2 = []" "m_request c2 = request_new" "m_user_agent c2 = ua" "m_open_handshake_timeout_dur c2 = 5000"
    "m_async_write_handler c2" "m_async_read_handler c2" "m_read_flag c2" "m_bufs c2 = []" "io_ops c2 = []"
    "m_response c2 = response_new" "h_events c2 = []" "io_posts c2 = []" "m_send_queue c2 = []" "m_current_msgs c2 = []"
    "h_sending c2 = []" "con_max_message_size c2 = con_max_message_size ?c0" "sent_bytes c2 = []"
    by (simp_all add: c2_def c1_def conn_new_def)
  have proc: "get_processor env c2 = get_processor env ?c0" using c2 by (simp add: get_processor_def)
  have "handle_transport_init env None c2 = Inr (snd (async_write [octets (request_raw req')] WH_Http_Request (arm_open_timer ?c3)))"
    using c2 req
    by (simp add: handle_transport_init_def send_http_request_def http_result_def req'_def async_write_def
        arm_open_timer_def set_timer_def Let_def)
  with s1 s2 show ?thesis
    using c2 key' proc
    by (simp add: async_write_def arm_open_timer_def set_timer_def calm_def Let_def)
qed

lemma string_of_octets [simp]: "string_of (octets s) = s"
proof -
  have "unat (of_char c :: byte) = code_of c" for c
  proof -
    have "unat (of_nat (code_of c) :: byte) = code_of c"
      using code_of_less[of c] by (simp add: unat_of_nat del: of_nat_of_char)
    then show ?thesis by (simp only: of_nat_of_char)
  qed
  then show ?thesis by (simp add: string_of_def octets_def o_def)
qed

lemma reply_validated:
  assumes "m_status_code r = 101" "m_headers r = reply_headers (accept_value key)"
    "get_header ''Sec-WebSocket-Key'' req = key" "length key = 24" "length w = 80"
  shows "validate_server_handshake_response w req r = None"
proof -
  have h: "get_header ''Upgrade'' r = ''websocket''" "get_header ''Connection'' r = ''upgrade''"
    "get_header ''Sec-WebSocket-Accept'' r = accept_value key"
    using assms(2) reply_names by (simp_all add: get_header_def reply_headers_def ci_less_iff del: ci_less.simps)
  have f: "ci_contains ''websocket'' upgrade_token" "ci_contains ''upgrade'' connection_token"
    using upgrade_found(1)[of "[]"] upgrade_found(3)[of "[]"] by simp_all
  have "length key < 2 ^ 28" using assms(4) by simp
  with assms h f show ?thesis
    by (simp add: validate_server_handshake_iff is_websocket_handshake_def)
qed

text \<open>What is left of the reply when a part of it was read: whatever follows, the parser reads it to its
  end.\<close>

definition reply_left :: "string \<Rightarrow> string \<Rightarrow> response \<Rightarrow> bool" where
  "reply_left key t r \<longleftrightarrow>
     \<not> headers_ready r \<and>
     (\<forall>rest. \<exists>r'. response_consume (t @ rest) r = Inr (length t, r') \<and> headers_ready r' \<and> m_status_code r' = 101 \<and>
        m_headers r' = reply_headers (accept_value key) \<and> m_header_bytes r' + 3 * length t \<le> max_header_size)"

lemma reply_left_start:
  assumes "m_headers r = reply_headers (accept_value key)" "r = switching\<lparr>m_headers := m_headers r\<rparr>"
  shows "reply_left key (response_raw r) response_new"
proof -
  have clean: "clean_reply r" by (rule reply_clean[OF assms])
  have r: "r = switching\<lparr>m_headers := reply_headers (accept_value key)\<rparr>" using assms by simp
  have code: "int_to_string 101 = ''101''" by code_simp
  have "length (response_raw r) = 129" "length (m_headers r) = 3"
    unfolding r
    by (simp_all add: response_raw_def raw_headers_def reply_headers_def switching_def response_new_def code
        header_delimiter_def accept_length)
  then have "length (response_raw r) + length (m_headers r) + 2 + 3 * length (response_raw r) \<le> max_header_size"
    by (simp add: max_header_size_def)
  moreover have "m_status_code r = 101" unfolding r by (simp add: switching_def)
  moreover have "\<not> headers_ready response_new" by (simp add: headers_ready_def response_new_def)
  ultimately show ?thesis
    using response_consume_raw[OF clean] assms(1) unfolding reply_left_def by metis
qed

lemma reply_piece:
  assumes "reply_left key (a @ t) r" "a \<noteq> []" "t \<noteq> []"
  shows "\<exists>r1. response_consume a r = Inr (length a, r1) \<and> \<not> headers_ready r1 \<and> reply_left key t r1"
proof -
  have ready: "\<not> headers_ready r" using assms(1) by (simp add: reply_left_def)
  have none: "header_find ''Content-Length'' (reply_headers (accept_value key)) = None"
    by (simp add: reply_headers_def reply_names del: ci_less.simps)
  have piece: "\<exists>r1 r'. response_consume a r = Inr (length a, r1) \<and> \<not> headers_ready r1 \<and>
      response_consume (t @ rest) r1 = Inr (length t, r') \<and> headers_ready r' \<and> m_status_code r' = 101 \<and>
      m_headers r' = reply_headers (accept_value key) \<and> m_header_bytes r' + 3 * length t \<le> max_header_size" for rest
  proof -
    obtain r' where r': "response_consume (a @ t @ rest) r = Inr (length (a @ t), r')" "headers_ready r'"
      "m_status_code r' = 101" "m_headers r' = reply_headers (accept_value key)"
      "m_header_bytes r' + 3 * length (a @ t) \<le> max_header_size"
      using assms(1) unfolding reply_left_def by (metis append.assoc)
    have len: "length a < length (a @ t)" "m_header_bytes r' + 3 + 3 * length t \<le> max_header_size"
    proof -
      have "1 \<le> length a" using assms(2) by (simp add: Suc_leI)
      then show "m_header_bytes r' + 3 + 3 * length t \<le> max_header_size" using r'(5) by simp
    qed (use assms(3) in simp)
    obtain r1 where "response_consume a r = Inr (length a, r1)" "\<not> headers_ready r1"
      "response_consume (t @ rest) r1 = Inr (length t, r'\<lparr>m_header_bytes := m_header_bytes r' + 3\<rparr>)"
      using response_consume_piece[OF r'(1,2) _ len(1) ready] none r'(4) len(2) by auto
    with r' len(2) show ?thesis by (auto simp: headers_ready_def)
  qed
  then obtain r1 where r1: "response_consume a r = Inr (length a, r1)" "\<not> headers_ready r1" by blast
  have "\<exists>r'. response_consume (t @ rest) r1 = Inr (length t, r') \<and> headers_ready r' \<and> m_status_code r' = 101 \<and>
      m_headers r' = reply_headers (accept_value key) \<and> m_header_bytes r' + 3 * length t \<le> max_header_size" for rest
    using piece[of rest] r1(1) by auto
  with r1 show ?thesis unfolding reply_left_def by blast
qed

text \<open>A connection that waits for this.\<close>

definition waiting :: "string \<Rightarrow> hybi13 \<Rightarrow> string \<Rightarrow> conn \<Rightarrow> bool" where
  "waiting key s t c \<longleftrightarrow>
     calm c \<and> con_state c = St_Connecting \<and> con_istate c = READ_HTTP_RESPONSE \<and>
     m_read_handler c = Some RH_Http_Response \<and> m_processor c = Some s \<and> reads (io_ops c) = [Op_Read] \<and>
     life (h_events c) = [] \<and> get_header ''Sec-WebSocket-Key'' (m_request c) = key \<and> reply_left key t (m_response c)"

text \<open>The frames that a list of events reads.\<close>

definition read_pieces :: "io_event list \<Rightarrow> byte list list" where
  "read_pieces es = concat (map (\<lambda>e. case e of Io_Read ec bytes \<Rightarrow> [bytes] | _ \<Rightarrow> []) es)"

lemma read_pieces_simps [simp]:
  "read_pieces [] = []" "read_pieces (Io_Read ec bytes # es) = bytes # read_pieces es" "\<not> is_read e \<Longrightarrow> read_pieces (e # es) = read_pieces es"
  by (auto simp: read_pieces_def is_read_def split: io_event.splits)

lemma calm_read: "calm_event e \<Longrightarrow> is_read e \<Longrightarrow> \<exists>b. e = Io_Read None b \<and> b \<noteq> [] \<and> length b \<le> connection_read_buffer_size"
  by (cases e) (auto simp: calm_event_def is_read_def)

lemma waiting_seen: "waiting key s t c \<Longrightarrow> calm d \<Longrightarrow> seen d = seen c \<Longrightarrow> waiting key s t d"
  by (simp add: waiting_def seen_def)

lemma reading_seen: "reading s c \<Longrightarrow> calm d \<Longrightarrow> seen d = seen c \<Longrightarrow> reading s d \<and> life (h_events d) = life (h_events c)"
  by (simp add: reading_def seen_def)

lemma waiting_piece:
  assumes "waiting key s t c" "b \<noteq> []" "length b \<le> connection_read_buffer_size" "octets t = b @ b'" "b' \<noteq> []"
  shows "\<exists>d. io_step env (Io_Read None b) c = Some (Inr d) \<and> waiting key s (drop (length b) t) d"
proof -
  note w = assms(1)[unfolded waiting_def]
  obtain ops where ops: "take_op ((=) Op_Read) (io_ops c) = Some (Op_Read, ops)" "reads ops = []"
    using w take_read by blast
  have sb: "string_of b = take (length b) t"
  proof -
    have "string_of b = take (length b) (string_of (octets t))" by (simp add: assms(4) string_of_def)
    then show ?thesis by simp
  qed
  have "length t = length b + length b'" using assms(4) by (metis length_append length_map octets_def)
  then have ne: "string_of b \<noteq> []" "drop (length b) t \<noteq> []" "length (string_of b) = length b"
    using assms(2,5) by (simp_all add: string_of_def)
  have "reply_left key (string_of b @ drop (length b) t) (m_response c)" using w by (simp add: sb)
  from reply_piece[OF this ne(1,2)] obtain r1 where r1:
    "response_consume (string_of b) (m_response c) = Inr (length b, r1)" "\<not> headers_ready r1"
    "reply_left key (drop (length b) t) r1"
    unfolding ne(3) by blast
  let ?d = "c\<lparr>io_ops := ops @ [Op_Read], m_response := r1, m_read_handler := Some RH_Http_Response\<rparr>"
  have "io_step env (Io_Read None b) c = Some (Inr ?d)"
    using w ops(1) r1(1,2) assms(2,3)
    by (simp add: io_step_def handle_async_read_def read_result_def handle_read_http_response_def read_response_def
        async_read_at_least_def calm_def)
  moreover have "waiting key s (drop (length b) t) ?d" using w ops(2) r1(3) by (simp add: waiting_def calm_def)
  ultimately show ?thesis by blast
qed

lemma waiting_opens:
  assumes "calm_env env" "length (blank_words env) = 80" "length key = 24"
    and "waiting key s t c" "b = octets t @ rest" "b \<noteq> []" "length b \<le> connection_read_buffer_size"
    and "list_all (\<lambda>m. m_opcode m \<in> {TEXT, BINARY, PING, PONG}) ms"
    and "read_loop (\<lambda>m ms. ms @ [m]) rest s [] = Inr (None, s1, map Some ms)"
  shows "\<exists>d. io_step env (Io_Read None b) c = Some (Inr d) \<and> reading s1 d \<and>
    life (h_events d) = Ev_Open # map received ms"
proof -
  note w = assms(4)[unfolded waiting_def]
  obtain ops where ops: "take_op ((=) Op_Read) (io_ops c) = Some (Op_Read, ops)" "reads ops = []"
    using w take_read by blast
  have sb: "string_of b = t @ string_of rest" "drop (length t) b = rest"
    using assms(5) by (simp_all add: string_of_def octets_def del: of_nat_of_char)
      (metis string_of_octets string_of_def octets_def list.map_comp)
  obtain r where r: "response_consume (string_of b) (m_response c) = Inr (length t, r)" "headers_ready r"
    "m_status_code r = 101" "m_headers r = reply_headers (accept_value key)"
    using w unfolding sb(1) reply_left_def by blast
  have ok: "validate_server_handshake_response (blank_words env) (m_request c) r = None"
    using reply_validated[OF r(3,4) _ assms(3,2)] w by simp
  let ?c = "(cancel_handshake_timer (c\<lparr>io_ops := ops, m_response := r\<rparr>))
     \<lparr>con_istate := PROCESS_CONNECTION, con_state := St_Open\<rparr>"
  let ?o = "call_user env Ev_Open ?c"
  have f: "calm ?c" "io_ops ?c = ops" "m_processor ?c = Some s" "life (h_events ?c) = []"
    using w by (simp_all add: cancel_handshake_timer_def cancel_timer_def calm_def split: option.split)
  have "calm ?o \<and> seen ?o = seen (?c\<lparr>h_events := h_events ?c @ [Ev_Open]\<rparr>)"
    using calmly_user[OF assms(1), of ?c Ev_Open] f(1) by (simp add: calmly_def calm_def)
  then have o: "calm ?o" "con_state ?o = St_Open" "con_istate ?o = PROCESS_CONNECTION" "m_processor ?o = Some s"
    "reads (io_ops ?o) = []" "life (h_events ?o) = [Ev_Open]"
    using f ops(2) by (simp_all add: seen_def life_def note_event_def)
  obtain d where d: "handle_read_frame env None rest ?o = Inr d" "reading s1 d"
    "life (h_events d) = life (h_events ?o) @ map received ms"
    using frames_calm[OF assms(1) o(1-5) assms(8,9)] by blast
  have "m_request (cancel_handshake_timer (c\<lparr>io_ops := ops, m_response := r\<rparr>)) = m_request c"
    by (simp add: cancel_handshake_timer_def cancel_timer_def split: option.split)
  then have "io_step env (Io_Read None b) c = Some (Inr d)"
    using w ops(1) r(1,2) ok d(1) sb(2) assms(6,7)
    by (simp add: io_step_def handle_async_read_def read_result_def handle_read_http_response_def Let_def)
  with d(2,3) o(6) show ?thesis by auto
qed

subsection \<open>Messages\<close>

lemma read_step:
  assumes "calm_env env" "reading s c" "list_all (\<lambda>m. m_opcode m \<in> {TEXT, BINARY, PING, PONG}) ms"
    "read_loop (\<lambda>m ms. ms @ [m]) b s [] = Inr (None, s1, map Some ms)" "b \<noteq> []" "length b \<le> connection_read_buffer_size"
  shows "\<exists>d. io_step env (Io_Read None b) c = Some (Inr d) \<and> reading s1 d \<and>
    life (h_events d) = life (h_events c) @ map received ms"
proof -
  note r = assms(2)[unfolded reading_def]
  obtain ops where ops: "take_op ((=) Op_Read) (io_ops c) = Some (Op_Read, ops)" "reads ops = []"
    using r take_read by blast
  let ?c = "c\<lparr>io_ops := ops\<rparr>"
  have "calm ?c" using r by (simp add: calm_def)
  then obtain d where "handle_read_frame env None b ?c = Inr d" "reading s1 d"
    "life (h_events d) = life (h_events c) @ map received ms"
    using frames_calm[of env ?c s ms b s1] assms(1,3,4) r ops(2) by auto
  moreover from this have "io_step env (Io_Read None b) c = Some (Inr d)"
    using r ops(1) assms(5,6) by (simp add: io_step_def handle_async_read_def read_result_def)
  ultimately show ?thesis by blast
qed

lemma read_loop_acc:
  "read_loop (\<lambda>m ms. ms @ [m]) b s acc =
     bind_result (read_loop (\<lambda>m ms. ms @ [m]) b s []) (\<lambda>(ec, s', ms). Inr (ec, s', acc @ ms))"
proof -
  have "fold (\<lambda>m ms. ms @ [m]) ms acc = acc @ ms" for ms :: "message option list"
    by (induction ms arbitrary: acc) simp_all
  with read_loop_fold[of b s "[]" "\<lambda>m ms. ms @ [m]" acc] show ?thesis by simp
qed

lemma read_chunks_grow:
  "read_chunks (\<lambda>m ms. ms @ [m]) bs s acc = Inr (ec, s', ms) \<Longrightarrow> \<exists>more. ms = acc @ more"
proof (induction bs arbitrary: s acc)
  case (Cons b bs)
  obtain e1 s1 got where one: "read_loop (\<lambda>m ms. ms @ [m]) b s acc = Inr (e1, s1, acc @ got)"
    using Cons.prems read_loop_acc[of b s acc]
    by (cases "read_loop (\<lambda>m ms. ms @ [m]) b s []") auto
  show ?case
  proof (cases e1)
    case None
    with Cons.prems one Cons.IH[of s1 "acc @ got"] show ?thesis by auto
  next
    case (Some e)
    with Cons.prems one show ?thesis by auto
  qed
qed simp

lemma read_chunks_split:
  assumes "read_chunks (\<lambda>m ms. ms @ [m]) (b # bs) s acc = Inr (None, s', acc @ map Some ms)"
  shows "\<exists>s1 ms1 ms2. ms = ms1 @ ms2 \<and> read_loop (\<lambda>m ms. ms @ [m]) b s [] = Inr (None, s1, map Some ms1) \<and>
    read_chunks (\<lambda>m ms. ms @ [m]) bs s1 (acc @ map Some ms1) = Inr (None, s', (acc @ map Some ms1) @ map Some ms2)"
proof -
  obtain s1 got where one: "read_loop (\<lambda>m ms. ms @ [m]) b s [] = Inr (None, s1, got)"
    and rest: "read_chunks (\<lambda>m ms. ms @ [m]) bs s1 (acc @ got) = Inr (None, s', acc @ map Some ms)"
    using assms read_loop_acc[of b s acc]
    by (cases "read_loop (\<lambda>m ms. ms @ [m]) b s []") (auto split: option.splits)
  obtain more where "acc @ map Some ms = (acc @ got) @ more" using read_chunks_grow[OF rest] by blast
  then obtain ms1 ms2 where "ms = ms1 @ ms2" "got = map Some ms1" by (auto simp: map_eq_append_conv)
  with one rest show ?thesis by (intro exI[of _ s1] exI[of _ ms1] exI[of _ ms2]) simp
qed

lemma reading_run:
  assumes "calm_env env" "list_all calm_event es" "reading s c" "write_inv c"
    "list_all (\<lambda>m. m_opcode m \<in> {TEXT, BINARY, PING, PONG}) ms"
    "read_chunks (\<lambda>m ms. ms @ [m]) (read_pieces es) s acc = Inr (None, s', acc @ map Some ms)"
  shows "\<exists>d. io_run env es c = Inr d \<and> reading s' d \<and> life (h_events d) = life (h_events c) @ map received ms"
  using assms(2-)
proof (induction es arbitrary: s c ms acc)
  case (Cons e es)
  show ?case
  proof (cases "is_read e")
    case True
    with Cons.prems(1) obtain b where b: "e = Io_Read None b" "b \<noteq> []" "length b \<le> connection_read_buffer_size"
      using calm_read by auto
    obtain s1 ms1 ms2 where ms: "ms = ms1 @ ms2" "read_loop (\<lambda>m ms. ms @ [m]) b s [] = Inr (None, s1, map Some ms1)"
      "read_chunks (\<lambda>m ms. ms @ [m]) (read_pieces es) s1 (acc @ map Some ms1) = Inr (None, s', (acc @ map Some ms1) @ map Some ms2)"
      using read_chunks_split[of b "read_pieces es" s acc s' ms] Cons.prems(5) b(1) by auto
    obtain c1 where c1: "io_step env e c = Some (Inr c1)" "reading s1 c1"
      "life (h_events c1) = life (h_events c) @ map received ms1"
      using read_step[OF assms(1) Cons.prems(2) _ ms(2) b(2,3)] Cons.prems(4) ms(1) b(1) by auto
    have "write_inv c1" using io_step_write_inv[OF c1(1) Cons.prems(3)] .
    from Cons.IH[OF _ c1(2) this _ ms(3)] Cons.prems(1,4) ms(1) c1(1,3) show ?thesis by auto
  next
    case False
    have "con_state c \<noteq> St_Closed" "con_istate c \<noteq> WRITE_HTTP_REQUEST" "calm c"
      using Cons.prems(2) by (simp_all add: reading_def)
    from calm_step[OF assms(1) _ False Cons.prems(3) this(3,1,2)] Cons.prems(1)
    consider "io_step env e c = None"
      | d where "io_step env e c = Some (Inr d)" "write_inv d" "calm d" "seen d = seen c" by auto
    then show ?thesis
    proof cases
      case 1
      with Cons False show ?thesis by simp
    next
      case 2
      from Cons.IH[OF _ _ 2(2) Cons.prems(4), of s acc] reading_seen[OF Cons.prems(2) 2(3,4)] Cons.prems(1,5) False 2(1)
      show ?thesis by simp
    qed
  qed
qed simp

lemma append_cut:
  assumes "b @ x = p @ y"
  shows "length b < length p \<Longrightarrow> \<exists>b'. p = b @ b' \<and> x = b' @ y \<and> b' \<noteq> []"
    and "length p \<le> length b \<Longrightarrow> \<exists>r. b = p @ r \<and> r @ x = y"
  using assms by (auto simp: append_eq_append_conv2)

lemma waiting_run:
  assumes "calm_env env" "length (blank_words env) = 80" "length key = 24" "idle s"
    and "list_all (server_frame (m_max_message_size s)) ms" "list_all (\<lambda>m. m_opcode m \<in> {TEXT, BINARY, PING, PONG}) ms"
    and "list_all calm_event es" "waiting key s t c" "write_inv c" "t \<noteq> []" "concat (read_pieces es) = octets t @ wire_bytes ms"
  shows "\<exists>s' d. io_run env es c = Inr d \<and> reading s' d \<and>
    life (h_events d) = Ev_Open # map (\<lambda>m. received (delivered m)) ms"
  using assms(7-)
proof (induction es arbitrary: t c)
  case Nil
  then show ?case by (simp add: octets_def)
next
  case (Cons e es)
  show ?case
  proof (cases "is_read e")
    case True
    with Cons.prems(1) obtain b where b: "e = Io_Read None b" "b \<noteq> []" "length b \<le> connection_read_buffer_size"
      using calm_read by auto
    have bytes: "b @ concat (read_pieces es) = octets t @ wire_bytes ms" using Cons.prems(5) b(1) by simp
    show ?thesis
    proof (cases "length b < length t")
      case True
      then obtain b' where b': "octets t = b @ b'" "concat (read_pieces es) = b' @ wire_bytes ms" "b' \<noteq> []"
        using append_cut(1)[OF bytes] by (auto simp: octets_def)
      obtain c1 where c1: "io_step env e c = Some (Inr c1)" "waiting key s (drop (length b) t) c1"
        using waiting_piece[OF Cons.prems(2) b(2,3) b'(1,3)] b(1) by blast
      have "write_inv c1" using io_step_write_inv[OF c1(1) Cons.prems(3)] .
      moreover have "octets (drop (length b) t) = b'"
      proof -
        have "octets (drop (length b) t) = drop (length b) (octets t)" by (simp add: octets_def drop_map)
        then show ?thesis using b'(1) by simp
      qed
      ultimately show ?thesis using Cons.IH[OF _ c1(2)] Cons.prems(1) b'(2) c1(1) True by simp
    next
      case False
      then obtain rest where rest: "b = octets t @ rest" "rest @ concat (read_pieces es) = wire_bytes ms"
        using append_cut(2)[OF bytes] by (auto simp: octets_def)
      have "concat (rest # read_pieces es) = wire_bytes ms" using rest(2) by simp
      from read_chunks_wire[OF assms(4,5) this, of "\<lambda>m ms. ms @ [m]" "[]"] obtain s' where s':
        "read_chunks (\<lambda>m ms. ms @ [m]) (rest # read_pieces es) s [] =
           Inr (None, s', fold (\<lambda>m ms. ms @ [m]) (map (Some \<circ> delivered) ms) [])" by blast
      have "fold (\<lambda>m ms. ms @ [m]) xs acc = acc @ xs" for xs acc :: "message option list"
        by (induction xs arbitrary: acc) simp_all
      with s' have "read_chunks (\<lambda>m ms. ms @ [m]) (rest # read_pieces es) s [] = Inr (None, s', [] @ map Some (map delivered ms))"
        by simp
      from read_chunks_split[OF this] obtain s1 ms1 ms2 where ms: "map delivered ms = ms1 @ ms2"
        "read_loop (\<lambda>m ms. ms @ [m]) rest s [] = Inr (None, s1, map Some ms1)"
        "read_chunks (\<lambda>m ms. ms @ [m]) (read_pieces es) s1 (map Some ms1) = Inr (None, s', map Some ms1 @ map Some ms2)"
        by auto
      have "list_all (\<lambda>m. m_opcode m \<in> {TEXT, BINARY, PING, PONG}) (ms1 @ ms2)"
        unfolding ms(1)[symmetric] using assms(6) by (simp add: list_all_iff delivered_def message_new_def)
      then have op: "list_all (\<lambda>m. m_opcode m \<in> {TEXT, BINARY, PING, PONG}) ms1"
        "list_all (\<lambda>m. m_opcode m \<in> {TEXT, BINARY, PING, PONG}) ms2" by simp_all
      obtain c1 where c1: "io_step env e c = Some (Inr c1)" "reading s1 c1" "life (h_events c1) = Ev_Open # map received ms1"
        using waiting_opens[OF assms(1-3) Cons.prems(2) rest(1) b(2,3) op(1) ms(2)] b(1) by blast
      have "write_inv c1" using io_step_write_inv[OF c1(1) Cons.prems(3)] .
      from reading_run[OF assms(1) _ c1(2) this op(2) ms(3)] Cons.prems(1) obtain d where
        "io_run env es c1 = Inr d" "reading s' d" "life (h_events d) = life (h_events c1) @ map received ms2" by auto
      moreover have "map (\<lambda>m. received (delivered m)) ms = map received ms1 @ map received ms2"
        using arg_cong[OF ms(1), of "map received"] by (simp add: comp_def)
      ultimately show ?thesis using c1(1,3) by auto
    qed
  next
    case False
    have "con_state c \<noteq> St_Closed" "con_istate c \<noteq> WRITE_HTTP_REQUEST" "calm c"
      using Cons.prems(2) by (simp_all add: waiting_def)
    from calm_step[OF assms(1) _ False Cons.prems(3) this(3,1,2)] Cons.prems(1)
    consider "io_step env e c = None"
      | d where "io_step env e c = Some (Inr d)" "write_inv d" "calm d" "seen d = seen c" by auto
    then show ?thesis
    proof cases
      case 1
      with Cons False show ?thesis by simp
    next
      case 2
      from Cons.IH[OF _ waiting_seen[OF Cons.prems(2) 2(3,4)] 2(2) Cons.prems(4)] Cons.prems(1,5) False 2(1)
      show ?thesis by simp
    qed
  qed
qed

subsection \<open>From the start to the messages\<close>

lemma ws_reach_run: "io_run env es c = Inr c' \<Longrightarrow> ws_reach env ok c \<Longrightarrow> list_all ok es \<Longrightarrow> ws_reach env ok c'"
proof (induction es arbitrary: c)
  case (Cons e es)
  show ?case
  proof (cases "io_step env e c")
    case None
    with Cons show ?thesis by simp
  next
    case (Some r)
    with Cons.prems obtain d where d: "r = Inr d" "io_run env es d = Inr c'" by (auto simp: bind_result_eq_Inr)
    with Some Cons.prems have "ws_reach env ok d" by (auto intro: ws_reach.step)
    with Cons d show ?thesis by simp
  qed
qed simp

lemma server_sent_opcode: "server_sent mx m \<Longrightarrow> mx < 2 ^ 64 \<Longrightarrow> m_opcode m \<in> {TEXT, BINARY, CLOSE, PING, PONG}"
  unfolding server_sent_def using prepared_data_frame prepared_control by fastforce

theorem client_receives:
  assumes "calm_env env" "length (blank_words env) = 80" "length w = 80"
    and "list_all (server_sent 32000000) ms" "list_all (\<lambda>m. m_opcode m \<noteq> CLOSE) ms"
  shows "\<exists>c res. io_run env [Io_Start True, Io_Handshake None] (conn_new ua u) = Inr c \<and>
    process_handshake w (m_request c) [] switching = Inr res \<and>
    (\<forall>es. list_all calm_event es \<and> concat (read_pieces es) = octets (response_raw res) @ wire_bytes ms \<longrightarrow>
      (\<exists>s c'. io_run env (Io_Write None # es) c = Inr c' \<and> reading s c' \<and>
        life (h_events c') = Ev_Open # map (\<lambda>m. received (delivered m)) ms))"
proof -
  let ?s = "get_processor env (conn_new ua u)"
  have s: "m_max_message_size ?s = 32000000" "idle ?s"
    by (simp_all add: get_processor_def idle_new) (simp add: hybi13_new_def reset_headers_def conn_new_def)
  obtain c bs where run: "io_run env [Io_Start True, Io_Handshake None] (conn_new ua u) = Inr c"
    and c: "con_state c = St_Connecting" "con_istate c = WRITE_HTTP_REQUEST" "m_async_read_handler c" "m_read_flag c"
      "m_write_handler c = Some WH_Http_Request" "io_ops c = [Op_Write bs]" "calm c" "m_response c = response_new" "h_events c = []"
      "m_processor c = Some ?s" "length (get_header ''Sec-WebSocket-Key'' (m_request c)) = 24"
    using request_sent[of env ua u] by blast
  have inv: "write_inv c"
    by (rule ws_reach_write_inv[of env "\<lambda>e. True"], rule ws_reach_run[OF run ws_reach.start]) (simp add: list_all_iff)
  define key where "key = get_header ''Sec-WebSocket-Key'' (m_request c)"
  define res where "res = switching\<lparr>m_headers := reply_headers (accept_value key)\<rparr>"
  have key: "length key = 24" using c(11) by (simp add: key_def)
  have res: "process_handshake w (m_request c) [] switching = Inr res"
    using process_handshake_key_spec[of key w] assms(3) c(11)
    by (simp add: process_handshake_switching res_def key_def)
  define c1 where "c1 = c\<lparr>io_ops := [Op_Read], m_bufs := [], con_istate := READ_HTTP_RESPONSE,
     m_read_handler := Some RH_Http_Response\<rparr>"
  have s1: "io_step env (Io_Write None) c = Some (Inr c1)"
    using c by (simp add: io_step_def is_write_def handle_async_write_def write_result_def handle_send_http_request_def
        read_response_def async_read_at_least_def c1_def Let_def)
  have "reply_left key (response_raw res) response_new" by (rule reply_left_start) (simp_all add: res_def)
  then have w: "waiting key ?s (response_raw res) c1"
    using c by (simp add: waiting_def c1_def calm_def key_def life_def)
  have inv1: "write_inv c1" using io_step_write_inv[OF s1 inv] .
  have frames: "list_all (server_frame (m_max_message_size ?s)) ms"
    using assms(4) server_sent_frame by (auto simp: list_all_iff s)
  have ops: "list_all (\<lambda>m. m_opcode m \<in> {TEXT, BINARY, PING, PONG}) ms"
    using assms(4,5) server_sent_opcode[of 32000000] by (fastforce simp: list_all_iff)
  have "response_raw res \<noteq> []" by (simp add: response_raw_def)
  from waiting_run[OF assms(1,2) key s(2) frames ops _ w inv1 this] s1
  have "\<exists>s c'. io_run env (Io_Write None # es) c = Inr c' \<and> reading s c' \<and>
      life (h_events c') = Ev_Open # map (\<lambda>m. received (delivered m)) ms"
    if "list_all calm_event es" "concat (read_pieces es) = octets (response_raw res) @ wire_bytes ms" for es
    using that by auto
  with run res show ?thesis by blast
qed

text \<open>The address of the exchange, and a user whose handlers do nothing.\<close>

definition sample_uri :: ws_uri where
  "sample_uri = \<lparr>u_scheme = ''wss'', u_host = ''real.okcoin.cn'', u_resource = ''/websocket/okcoinapi'',
     u_port = 10440, u_secure = True\<rparr>"

definition quiet_env :: ws_env where
  "quiet_env = \<lparr>on_event = \<lambda>ev c. [], on_ping = \<lambda>p c. True, meanwhile = \<lambda>c. [], has_pong_timeout_handler = False, rng = \<lambda>i. of_nat i,
     blank_cursor = 0, blank_keys = (0, 0), blank_words = replicate 80 0\<rparr>"

lemma quiet_calm: "calm_env quiet_env" "length (blank_words quiet_env) = 80"
  by (simp_all add: calm_env_def quiet_env_def)

lemma quiet_open:
  assumes "\<And>e. e \<in> {Io_Start True, Io_Handshake None, Io_Write None} \<or> (\<exists>bs. e = Io_Read None bs) \<Longrightarrow> ok e"
  shows "\<exists>s c. ws_reach quiet_env ok c \<and> reading s c \<and> life (h_events c) = [Ev_Open]"
proof -
  have "length (replicate 80 0 :: uint4 list) = 80" "list_all (server_sent 32000000) []" "list_all (\<lambda>m. m_opcode m \<noteq> CLOSE) []"
    by simp_all
  from client_receives[OF quiet_calm this, of ua u] obtain c res where
    run: "io_run quiet_env [Io_Start True, Io_Handshake None] (conn_new ua u) = Inr c"
    and go: "\<forall>es. list_all calm_event es \<and> concat (read_pieces es) = octets (response_raw res) @ wire_bytes [] \<longrightarrow>
      (\<exists>s c'. io_run quiet_env (Io_Write None # es) c = Inr c' \<and> reading s c' \<and>
        life (h_events c') = Ev_Open # map (\<lambda>m. received (delivered m)) [])"
    by blast
  let ?es = "map (\<lambda>b. Io_Read None [b]) (octets (response_raw res))"
  have "list_all calm_event ?es" by (simp add: list_all_iff calm_event_def connection_read_buffer_size_def)
  moreover have "concat (read_pieces (map (\<lambda>b. Io_Read None [b]) bs)) = bs" for bs by (induction bs) simp_all
  ultimately obtain s c' where c': "io_run quiet_env (Io_Write None # ?es) c = Inr c'" "reading s c'" "life (h_events c') = [Ev_Open]"
    using go[rule_format, of ?es] by (auto simp: wire_bytes_def simp del: io_run.simps)
  have "ws_reach quiet_env ok c"
    by (rule ws_reach_run[OF run ws_reach.start]) (simp add: assms)
  from ws_reach_run[OF c'(1) this] have "ws_reach quiet_env ok c'"
    by (simp add: assms list_all_iff del: io_run.simps)
  with c'(2,3) show ?thesis by blast
qed

text \<open>The text message that a server sends for a payload, and a close frame of the user.\<close>

lemma sample_frame:
  assumes "length p \<le> mx" "utf8_validate p"
  shows "\<exists>m. server_sent mx m \<and> m_opcode m = TEXT \<and> m_payload m = p"
proof -
  let ?in = "(message_new TEXT)\<lparr>m_payload := p\<rparr>"
  have i: "m_fin ?in" "m_opcode ?in = TEXT" "m_payload ?in = p" by (simp_all add: message_new_def)
  have "\<not> is_control TEXT" by code_simp
  with i assms(2) obtain m where m: "prepare_data_frame True 0 (Some ?in) (Some (message_new TEXT)) = (None, Some m)"
    "m_opcode m = TEXT" "m_payload m = p"
    by (simp add: prepare_data_frame_def Let_def)
  with assms(1) i have "server_sent mx m" unfolding server_sent_def
    by (intro disjI1 exI[of _ ?in] exI[of _ 0] exI[of _ "message_new TEXT"]) simp
  with m show ?thesis by blast
qed

lemma utf8_hi: "utf8_validate [0x48, 0x69]"
  by code_simp

lemma quiet_close:
  assumes "con_state c = St_Open"
  shows "\<exists>m. h_pushed (do_action quiet_env (Act_Close close_normal []) c) = h_pushed c @ [m] \<and> m_opcode m = CLOSE \<and>
    h_sending (do_action quiet_env (Act_Close close_normal []) c) = h_sending c"
proof -
  note assms
  moreover obtain m where "\<And>r. \<exists>m. prepare_close False r close_normal [] (Some (message_new CONTINUATION)) = (None, Some m) \<and> m_opcode m = CLOSE"
  proof -
    have "\<not> close_reserved close_normal" "\<not> close_invalid close_normal" "close_normal \<noteq> close_no_status" "is_control CLOSE"
      "length (close_payload close_normal []) \<le> payload_size_basic"
      by code_simp+
    then have "\<exists>m. prepare_close False r close_normal [] (Some (message_new CONTINUATION)) = (None, Some m) \<and> m_opcode m = CLOSE" for r
      by (simp add: prepare_close_def prepare_control_def Let_def)
    with that show ?thesis by blast
  qed
  then obtain m where "prepare_close False (rng quiet_env (rng_drawn c)) close_normal [] (Some (message_new CONTINUATION)) = (None, Some m)"
    "m_opcode m = CLOSE" by blast
  moreover have "close_normal \<noteq> close_blank" by code_simp
  moreover have "h_pushed (arm_close_timer d) = h_pushed d" "h_pushed (draw_if b d) = h_pushed d"
    "h_sending (arm_close_timer d) = h_sending d" "h_sending (draw_if b d) = h_sending d" for b d
    by (simp_all add: arm_close_timer_def set_timer_def draw_if_def)
  ultimately show ?thesis
    by (simp add: con_close_def send_close_frame_def choose_close_def silent_close_def queue_message_fields Let_def)
qed

text \<open>A thread in \<open>send\<close>, \<open>ping\<close> or \<open>pong\<close> pushes its message behind the close frame of another.\<close>

lemma late_push:
  assumes "\<And>d. \<exists>m. h_pushed (push_pending quiet_env p d) = h_pushed d @ [m] \<and> m_opcode m = op"
  shows "\<exists>c ds k m. ws_reach quiet_env (\<lambda>e. True) c \<and> h_pushed c = ds @ [k, m] \<and> m_opcode k = CLOSE \<and> m_opcode m = op"
proof -
  obtain s c0 where c0: "ws_reach quiet_env (\<lambda>e. True) c0" "reading s c0"
    using quiet_open[of "\<lambda>e. True"] by auto
  define c1 where "c1 = c0\<lparr>h_sending := p # h_sending c0\<rparr>"
  have open_: "con_state c1 = St_Open" "h_sending c1 = p # h_sending c0" using c0(2) by (simp_all add: c1_def reading_def)
  define c2 where "c2 = do_action quiet_env (Act_Close close_normal []) c1"
  obtain k where k: "h_pushed c2 = h_pushed c1 @ [k]" "m_opcode k = CLOSE" "h_sending c2 = h_sending c1"
    using quiet_close[OF open_(1)] by (auto simp: c2_def)
  define c3 where "c3 = push_pending quiet_env p (c2\<lparr>h_sending := remove1 p (h_sending c2)\<rparr>)"
  obtain m where m: "h_pushed c3 = h_pushed c2 @ [m]" "m_opcode m = op"
    using assms[of "c2\<lparr>h_sending := remove1 p (h_sending c2)\<rparr>"] by (auto simp: c3_def)
  have "io_step quiet_env (Io_Other (Ot_Check p)) c0 = Some (Inr c1)" using c0(2) by (simp add: io_step_def reading_def c1_def)
  then have 1: "ws_reach quiet_env (\<lambda>e. True) c1" using c0(1) by (auto intro: ws_reach.step)
  have "io_step quiet_env (Io_User (Act_Close close_normal [])) c1 = Some (Inr c2)" by (simp add: io_step_def c2_def)
  then have 2: "ws_reach quiet_env (\<lambda>e. True) c2" using 1 by (blast intro: ws_reach.step)
  have "io_step quiet_env (Io_Other (Ot_Push p)) c2 = Some (Inr c3)" using k(3) open_(2) by (simp add: io_step_def c3_def)
  then have 3: "ws_reach quiet_env (\<lambda>e. True) c3" using 2 by (blast intro: ws_reach.step)
  have "h_pushed c3 = h_pushed c1 @ [k, m]" unfolding m(1) k(1) by simp
  with 3 k(2) m(2) show ?thesis by blast
qed

lemma data_after_close:
  "\<exists>c ds k m. ws_reach quiet_env (\<lambda>e. True) c \<and> h_pushed c = ds @ [k, m] \<and> m_opcode k = CLOSE \<and> m_opcode m = TEXT"
  by (rule late_push[of "Pn_Send ((message_new TEXT)\<lparr>m_prepared := True\<rparr>)"])
    (simp add: push_pending_def send_push_def queue_message_fields message_new_def)

lemma pong_after_close:
  "\<exists>c ds k m. ws_reach quiet_env (\<lambda>e. True) c \<and> h_pushed c = ds @ [k, m] \<and> m_opcode k = CLOSE \<and> m_opcode m = PONG"
proof (rule late_push[of "Pn_Pong []"])
  have "is_control PONG" by code_simp
  then have "\<exists>m. prepare_pong False r [] (Some (message_new CONTINUATION)) = (None, Some m) \<and> m_opcode m = PONG" for r
    by (simp add: prepare_pong_def prepare_control_def Let_def)
  then have m: "\<exists>m. prepare_pong False (rng quiet_env (rng_drawn d)) [] (Some (message_new CONTINUATION)) = (None, Some m) \<and>
      m_opcode m = PONG" for d :: conn .
  show "\<exists>m. h_pushed (push_pending quiet_env (Pn_Pong []) d) = h_pushed d @ [m] \<and> m_opcode m = PONG" for d
  proof -
    obtain m where "prepare_pong False (rng quiet_env (rng_drawn d)) [] (Some (message_new CONTINUATION)) = (None, Some m)"
      "m_opcode m = PONG" using m by blast
    then show ?thesis by (simp add: push_pending_def pong_push_def queue_message_fields draw_if_def)
  qed
qed

end
