(* ===== verification/Ws_Session_Frames.thy ===== *)
theory Ws_Session_Frames
  imports Ws_Session_Write Hybi13_Roundtrip
begin

section \<open>What a client sends\<close>

text \<open>
  Every message that a connection pushes was prepared by the processor, as long as the user hands over
  no prepared messages: it is a masked frame from which a server reads a payload that was checked.
\<close>

definition client_frame :: "message \<Rightarrow> bool" where
  "client_frame m \<longleftrightarrow>
     (\<exists>op fin payload. client_wire op fin payload m \<and> (op = TEXT \<longrightarrow> utf8_validate payload) \<and>
        (is_control op \<longrightarrow> fin \<and> length payload \<le> payload_size_basic))"

definition plain_message :: "message \<Rightarrow> bool" where
  "plain_message msg \<longleftrightarrow> \<not> m_prepared msg \<and> length (m_payload msg) < 2 ^ 64"

definition unprepared_action :: "action \<Rightarrow> bool" where
  "unprepared_action a \<longleftrightarrow>
     (case a of
        Act_Send_Message msg \<Rightarrow> plain_message msg
      | Act_Send op payload \<Rightarrow> length payload < 2 ^ 64
      | _ \<Rightarrow> True)"

definition plain_pending :: "pending \<Rightarrow> bool" where
  "plain_pending p \<longleftrightarrow> (case p of Pn_Send msg \<Rightarrow> plain_message msg | _ \<Rightarrow> True)"

definition unprepared_other :: "other \<Rightarrow> bool" where
  "unprepared_other x \<longleftrightarrow> (case x of Ot_Check p \<Rightarrow> plain_pending p | _ \<Rightarrow> True)"

definition unprepared_event :: "io_event \<Rightarrow> bool" where
  "unprepared_event e \<longleftrightarrow>
     (case e of Io_User a \<Rightarrow> unprepared_action a | Io_Other x \<Rightarrow> unprepared_other x | _ \<Rightarrow> True)"

definition unprepared_env :: "ws_env \<Rightarrow> bool" where
  "unprepared_env env \<longleftrightarrow> (\<forall>ev c. list_all unprepared_action (on_event env ev c)) \<and>
     (\<forall>c. list_all unprepared_other (meanwhile env c))"

definition frames_inv :: "conn \<Rightarrow> bool" where
  "frames_inv c \<longleftrightarrow> list_all client_frame (h_pushed c) \<and> list_all plain_pending (h_sending c)"

subsection \<open>Prepared messages\<close>

lemma prepared_frame:
  "prepare_data_frame False r (Some i) (Some out) = (None, Some m) \<Longrightarrow> length (m_payload i) < 2 ^ 64 \<Longrightarrow> client_frame m"
  "prepare_control False r op p (Some out) = (None, Some m) \<Longrightarrow> op \<noteq> TEXT \<Longrightarrow> client_frame m"
proof -
  assume d: "prepare_data_frame False r (Some i) (Some out) = (None, Some m)" "length (m_payload i) < 2 ^ 64"
  have "\<not> is_control (m_opcode i)" using d(1) by (auto simp: prepare_data_frame_def Let_def split: if_splits)
  with client_data_frame[OF d] show "client_frame m" unfolding client_frame_def by blast
next
  assume "prepare_control False r op p (Some out) = (None, Some m)" "op \<noteq> TEXT"
  with client_control[of r op p out m] show "client_frame m" unfolding client_frame_def by blast
qed

lemma prepared_control_frame:
  "prepare_ping False r p (Some out) = (None, Some m) \<Longrightarrow> client_frame m"
  "prepare_pong False r p (Some out) = (None, Some m) \<Longrightarrow> client_frame m"
  "prepare_close False r k p (Some out) = (None, Some m) \<Longrightarrow> client_frame m"
  by (auto simp: prepare_ping_def prepare_pong_def prepare_close_def prepared_frame(2) split: if_splits)

lemma client_frame_terminal [simp]: "client_frame (m\<lparr>m_terminal := b\<rparr>) = client_frame m"
  by (simp add: client_frame_def client_wire_def)

subsection \<open>Kept by every operation\<close>

definition push_view :: "conn \<Rightarrow> message list \<times> pending list" where
  "push_view c = (h_pushed c, h_sending c)"

lemma frames_inv_view: "push_view c = push_view d \<Longrightarrow> frames_inv c = frames_inv d"
  by (simp add: push_view_def frames_inv_def)

lemma push_view_timers [simp]:
  "push_view (cancel_timer i c) = push_view c" "push_view (cancel_handshake_timer c) = push_view c"
  "push_view (arm_close_timer c) = push_view c" "push_view (arm_open_timer c) = push_view c"
  "push_view (arm_pong_timer env payload c) = push_view c" "push_view (asio_post p c) = push_view c"
  "push_view (draw_if b c) = push_view c" "push_view (asio_init c) = push_view c" "push_view (post_init c) = push_view c"
  "push_view (handle_tls_init ec c) = push_view c"
  by (simp_all add: push_view_def cancel_timer_def cancel_handshake_timer_def arm_close_timer_def arm_open_timer_def
      arm_pong_timer_def set_timer_def asio_post_def draw_if_def asio_init_def post_init_def handle_tls_init_def Let_def
      split: option.split)

lemma push_view_fields [simp]:
  "push_view (c\<lparr>io_ops := o1\<rparr>) = push_view c" "push_view (c\<lparr>io_timers := ts\<rparr>) = push_view c"
  "push_view (c\<lparr>io_posts := ps\<rparr>) = push_view c" "push_view (c\<lparr>h_events := es\<rparr>) = push_view c"
  "push_view (c\<lparr>m_bufs := bs\<rparr>) = push_view c" "push_view (c\<lparr>con_state := s\<rparr>) = push_view c"
  "push_view (c\<lparr>con_istate := i\<rparr>) = push_view c" "push_view (c\<lparr>m_processor := x\<rparr>) = push_view c"
  "push_view (c\<lparr>m_response := r\<rparr>) = push_view c" "push_view (c\<lparr>m_read_flag := b\<rparr>) = push_view c"
  "push_view (c\<lparr>m_was_clean := b\<rparr>) = push_view c" "push_view (c\<lparr>m_remote_close_code := k\<rparr>) = push_view c"
  "push_view (c\<lparr>m_remote_close_reason := w\<rparr>) = push_view c" "push_view (c\<lparr>m_local_close_code := k\<rparr>) = push_view c"
  "push_view (c\<lparr>m_local_close_reason := w\<rparr>) = push_view c" "push_view (c\<lparr>m_ec := e\<rparr>) = push_view c"
  "push_view (c\<lparr>m_send_buffer := bb\<rparr>) = push_view c" "push_view (c\<lparr>m_current_msgs := ms\<rparr>) = push_view c"
  "push_view (c\<lparr>m_write_flag := b\<rparr>) = push_view c" "push_view (c\<lparr>h_written := ms\<rparr>) = push_view c"
  "push_view (c\<lparr>rng_drawn := n\<rparr>) = push_view c" "push_view (c\<lparr>m_request := q\<rparr>) = push_view c"
  "push_view (c\<lparr>m_handshake_buffer := hb\<rparr>) = push_view c"
  by (simp_all add: push_view_def)

lemma push_view_end [simp]: "push_view (async_shutdown t c) = push_view c" "push_view (con_terminate ec c) = push_view c"
proof -
  have shut: "push_view (async_shutdown t c) = push_view c" for t c
    by (simp add: push_view_def async_shutdown_def set_timer_def)
  show "push_view (async_shutdown t c) = push_view c" by (rule shut)
  show "push_view (con_terminate ec c) = push_view c"
    by (simp add: con_terminate_def shut Let_def split: option.split)
qed

lemmas frames_inv_simps [simp] = push_view_fields[THEN frames_inv_view] push_view_timers[THEN frames_inv_view]
  push_view_end[THEN frames_inv_view]

lemma queue_message_frames: "frames_inv c \<Longrightarrow> client_frame m \<Longrightarrow> frames_inv (queue_message m c)"
  by (simp add: queue_message_eq frames_inv_def)

lemma queue_frames:
  assumes "frames_inv c" "client_frame m" "push_view d = push_view c"
  shows "frames_inv (queue_message m d)"
  using assms frames_inv_view[OF assms(3)] by (simp add: queue_message_frames)

lemma send_push_frames:
  assumes "frames_inv c" "plain_message msg"
  shows "frames_inv (snd (send_push env msg c))"
proof -
  obtain e out where p: "prepare_data_frame False (rng env (rng_drawn c)) (Some msg) (Some (message_new CONTINUATION)) = (e, out)"
    by fastforce
  show ?thesis
    using assms prepared_frame(1) queue_frames[OF assms(1)] p
    by (cases e; cases out) (auto simp: send_push_def plain_message_def)
qed

lemma ping_push_frames:
  assumes "frames_inv c"
  shows "frames_inv (snd (ping_push env payload c))" "frames_inv (snd (pong_push env payload c))"
  using assms queue_frames[OF assms] prepared_control_frame(1,2)
  by (auto simp: ping_push_def pong_push_def split: prod.split option.split)

lemma push_pending_frames: "frames_inv c \<Longrightarrow> plain_pending p \<Longrightarrow> frames_inv (push_pending env p c)"
  by (cases p) (simp_all add: push_pending_def plain_pending_def send_push_frames ping_push_frames)

lemma close_frame_frames:
  assumes "frames_inv c"
  shows "frames_inv (snd (send_close_frame env code reason ack t c))"
proof -
  obtain lc lr where ch: "choose_close code reason ack c = (lc, lr)" by fastforce
  let ?c = "c\<lparr>m_local_close_code := lc, m_local_close_reason := lr\<rparr>"
  have c: "frames_inv ?c" using assms frames_inv_view[of ?c c] by simp
  show ?thesis
    using c queue_frames[OF assms] prepared_control_frame(3)
    by (auto simp: send_close_frame_def ch Let_def split: prod.split option.split)
qed

lemma close_frames: "frames_inv c \<Longrightarrow> frames_inv (snd (con_close env code reason c))"
  by (simp add: con_close_def close_frame_frames Let_def)

lemma other_frames:
  assumes "unprepared_other x" "frames_inv c"
  shows "frames_inv (other_op env x c)"
proof (cases x)
  case (Ot_Check p)
  with assms show ?thesis by (simp add: frames_inv_def unprepared_other_def)
next
  case (Ot_Push p)
  have "frames_inv (c\<lparr>h_sending := remove1 p (h_sending c)\<rparr>)" "p \<in> set (h_sending c) \<Longrightarrow> plain_pending p"
    using assms(2) by (auto simp: frames_inv_def list_all_iff dest: notin_set_remove1)
  with Ot_Push assms(2) show ?thesis by (simp add: push_pending_frames)
qed (use assms in \<open>simp_all add: close_frames\<close>)

lemma others_frames:
  assumes "unprepared_env env" "frames_inv c"
  shows "frames_inv (others env c)"
proof -
  have "list_all unprepared_other xs \<Longrightarrow> frames_inv d \<Longrightarrow> frames_inv (fold (other_op env) xs d)" for xs d
    by (induction xs arbitrary: d) (simp_all add: other_frames)
  with assms show ?thesis by (simp add: others_def unprepared_env_def)
qed

lemma control_frames:
  assumes "unprepared_env env" "frames_inv c"
  shows "frames_inv (snd (con_ping env payload c))" "frames_inv (snd (con_pong env payload c))"
    "plain_message msg \<Longrightarrow> frames_inv (snd (send_message env msg c))"
  using assms(2) ping_push_frames[OF others_frames[OF assms]] send_push_frames[OF others_frames[OF assms]]
  by (simp_all add: con_ping_def con_pong_def send_message_def)

lemma action_frames:
  assumes "unprepared_env env" "unprepared_action a" "frames_inv c"
  shows "frames_inv (do_action env a c)"
proof -
  have "plain_message (append_payload p (message_new op))" if "length p < 2 ^ 64" for p op
    using that by (simp add: plain_message_def append_payload_def message_new_def)
  moreover have "frames_inv (asio_post p c)" for p using assms(3) frames_inv_view[of "asio_post p c" c] by simp
  ultimately show ?thesis
    using assms control_frames[OF assms(1,3)] close_frames[OF assms(3)]
    by (cases a) (auto simp: unprepared_action_def con_send_def)
qed

lemma read_frames: "async_read_at_least h c = (e, c') \<Longrightarrow> push_view c' = push_view c"
  by (auto simp: async_read_at_least_def push_view_def split: if_splits)

lemma session_kept_frames:
  assumes "unprepared_env env"
  shows "session_kept env unprepared_action frames_inv"
proof
  show "list_all unprepared_action (on_event env ev c)" for ev c using assms by (simp add: unprepared_env_def)
next
  fix c c'
  assume "async_read_at_least RH_Frame c = (None, c')" "frames_inv c"
  then show "frames_inv c'" using frames_inv_view read_frames by blast
qed (use assms in \<open>simp_all add: action_frames control_frames close_frame_frames\<close>)

subsection \<open>Kept by every step\<close>

lemma failed_frames [simp]: "frames_inv (http_failed e c) = frames_inv c" "frames_inv (read_failed e c) = frames_inv c"
  by (simp_all add: http_failed_def read_failed_def)

lemma read_response_frames [simp]: "frames_inv (read_response c) = frames_inv c"
proof (cases "async_read_at_least RH_Http_Response c")
  case (Pair e c')
  then have "frames_inv c' = frames_inv c" using frames_inv_view[OF read_frames] by blast
  with Pair show ?thesis by (cases e) (simp_all add: read_response_def)
qed

lemma read_frame_frames [simp]: "frames_inv (read_frame c) = frames_inv c"
proof (cases "async_read_at_least RH_Frame c")
  case (Pair e c')
  then have "frames_inv c' = frames_inv c" using frames_inv_view[OF read_frames] by blast
  with Pair show ?thesis by (cases e) (simp_all add: Ws_Session.read_frame_def)
qed

lemma request_sent_frames [simp]: "frames_inv (handle_send_http_request ec c) = frames_inv c"
  by (simp add: handle_send_http_request_def split: option.split)

lemma pop_ready_view: "push_view (pop_ready c) = push_view c"
proof (induction c rule: pop_ready.induct)
  case (1 c)
  then show ?case
    by (subst pop_ready.simps) (auto simp: write_pop_def push_view_def Let_def split: list.split)
qed

lemma async_write_view: "async_write bs h c = (e, c') \<Longrightarrow> push_view c' = push_view c"
  by (auto simp: async_write_def push_view_def split: if_splits)

lemma handle_write_frames: "handle_write_frame ec c = Inr c' \<Longrightarrow> frames_inv c \<Longrightarrow> frames_inv c'"
  by (auto simp: handle_write_frame_def Let_def split: if_splits)

lemma write_frame_frames:
  assumes "write_frame c = Inr c'" "frames_inv c"
  shows "frames_inv c'"
proof -
  let ?p = "pop_ready c"
  let ?d = "?p\<lparr>m_write_flag := True, m_send_buffer := m_send_buffer ?p @ concat (map (\<lambda>m. [m_header m, m_payload m]) (m_current_msgs ?p))\<rparr>"
  have p: "frames_inv ?p" using assms(2) frames_inv_view[OF pop_ready_view] by blast
  obtain e d where w: "async_write (m_send_buffer ?d) WH_Frame ?d = (e, d)" by fastforce
  have "frames_inv d" using p frames_inv_view[OF async_write_view[OF w]] by simp
  with assms p w handle_write_frames show ?thesis
    by (cases e) (auto simp: write_frame_def Let_def split: if_splits)
qed

lemma user_frames: "unprepared_env env \<Longrightarrow> frames_inv c \<Longrightarrow> frames_inv (call_user env ev c)"
  using session_kept.user_called[OF session_kept_frames, of env c ev] by simp

lemma frames_read_frames:
  "unprepared_env env \<Longrightarrow> handle_read_frame env ec bytes c = Inr c' \<Longrightarrow> frames_inv c \<Longrightarrow> frames_inv c'"
  using session_kept.frames_read[OF session_kept_frames, of env ec bytes c c'] by simp

lemma response_read_frames:
  assumes "unprepared_env env" "handle_read_http_response env ec bytes c = Inr c'" "frames_inv c"
  shows "frames_inv c'"
proof (cases "ec = None \<and> con_state c = St_Connecting \<and> con_istate c = READ_HTTP_RESPONSE")
  case False
  with assms show ?thesis
    by (auto simp: handle_read_http_response_def Let_def split: option.splits if_splits)
next
  case True
  show ?thesis
  proof (cases "response_consume (string_of bytes) (m_response c)")
    case (Inl e)
    with True assms show ?thesis by (cases e) (auto simp: handle_read_http_response_def Let_def)
  next
    case (Inr r)
    obtain k res where r: "r = (k, res)" by (cases r)
    let ?c = "c\<lparr>m_response := res\<rparr>" and ?d = "cancel_handshake_timer (c\<lparr>m_response := res\<rparr>)"
    let ?o = "call_user env Ev_Open (?d\<lparr>con_istate := PROCESS_CONNECTION, con_state := St_Open\<rparr>)"
    have o: "frames_inv ?o" using assms(1,3) by (intro user_frames) simp_all
    consider "\<not> headers_ready res" "c' = read_response ?c"
      | e where "headers_ready res" "c' = con_terminate (Some e) ?d"
      | "headers_ready res" "handle_read_frame env None (drop k bytes) ?o = Inr c'"
      using True assms(2) Inr r
      by (auto simp: handle_read_http_response_def Let_def split: if_splits option.splits)
    then show ?thesis using assms(3) frames_read_frames[OF assms(1) _ o] by cases auto
  qed
qed

lemma send_http_request_frames: "send_http_request env c = Inr c' \<Longrightarrow> frames_inv c \<Longrightarrow> frames_inv c'"
proof (cases "m_processor c")
  case (Some s)
  assume r: "send_http_request env c = Inr c'" "frames_inv c"
  obtain req where c': "c' = (let c = arm_open_timer (c\<lparr>rng_drawn := rng_drawn c + 4, m_request := req,
                                    m_handshake_buffer := request_raw req\<rparr>)
      in case async_write [octets (m_handshake_buffer c)] WH_Http_Request c of
        (Some e, c) \<Rightarrow> handle_send_http_request (Some e) c | (None, c) \<Rightarrow> c)"
    using r(1) Some by (auto simp: send_http_request_def bind_result_eq_Inr Let_def)
  let ?d = "arm_open_timer (c\<lparr>rng_drawn := rng_drawn c + 4, m_request := req, m_handshake_buffer := request_raw req\<rparr>)"
  obtain e d where w: "async_write [octets (m_handshake_buffer ?d)] WH_Http_Request ?d = (e, d)" by fastforce
  have "frames_inv d" using r(2) frames_inv_view[OF async_write_view[OF w]] by simp
  with w show ?thesis by (cases e) (simp_all add: c' Let_def)
qed (simp add: send_http_request_def)

lemma transport_init_frames: "handle_transport_init env ec c = Inr c' \<Longrightarrow> frames_inv c \<Longrightarrow> frames_inv c'"
  by (auto simp: handle_transport_init_def Let_def send_http_request_frames split: if_splits)

lemma call_init_frames: "call_init_handler env has ec c = Inr c' \<Longrightarrow> frames_inv c \<Longrightarrow> frames_inv c'"
  by (auto simp: call_init_handler_def transport_init_frames split: if_splits)

lemma pre_init_frames: "handle_pre_init env ec c = Inr c' \<Longrightarrow> frames_inv c \<Longrightarrow> frames_inv c'"
  by (auto simp: handle_pre_init_def bind_result_eq_Inr call_init_frames split: if_splits)

lemma start_frames:
  assumes "con_start env sni c = Inr c'" "frames_inv c"
  shows "frames_inv c'"
proof (cases "con_istate c = USER_INIT")
  case True
  let ?c = "asio_init (c\<lparr>con_istate := TRANSPORT_INIT\<rparr>)"
  obtain c1 where "(if \<not> sni then handle_pre_init env (Some (Socket_Error Sock_Tls_Failed_Sni_Hostname)) ?c else Inr ?c) = Inr c1"
    "handle_pre_init env None c1 = Inr c'"
    using assms(1) True by (auto simp: con_start_def pre_init_def bind_result_eq_Inr)
  moreover have "frames_inv ?c" using assms(2) by simp
  ultimately show ?thesis using pre_init_frames by (metis Inr_inject)
next
  case False
  with assms show ?thesis by (auto simp: con_start_def)
qed

lemma run_timer_frames:
  assumes "unprepared_env env" "run_timer env k ec c = Inr c'" "frames_inv c"
  shows "frames_inv c'"
proof -
  have u: "frames_inv (call_user env ev c)" for ev using assms user_frames by blast
  then have t: "frames_inv (handle_terminate env t ec' c)" for t ec' using assms(3) by (simp add: handle_terminate_def)
  show ?thesis
    using assms(2,3) u t call_init_frames
    by (cases k) (auto simp: run_timer_def handle_post_init_timeout_def handle_open_handshake_timeout_def
      handle_close_handshake_timeout_def handle_pong_timeout_def split: if_splits option.splits)
qed

lemma run_post_frames:
  assumes "unprepared_env env" "run_post env p c = Inr c'" "frames_inv c"
  shows "frames_inv c'"
  using assms
  by (cases p) (auto simp: run_post_def write_frame_frames handle_resume_reading_def handle_pause_reading_def user_frames)

theorem io_step_frames:
  assumes E: "unprepared_env env" and e: "unprepared_event e" and "io_step env e c = Some (Inr c')" "frames_inv c"
  shows "frames_inv c'"
proof (cases e)
  case (Io_Start sni)
  with assms show ?thesis by (auto simp: io_step_def intro: start_frames)
next
  case (Io_Handshake ec)
  with assms show ?thesis
    by (auto simp: io_step_def handle_post_init_def Let_def split: option.splits prod.splits asio_op.splits if_splits
        dest: call_init_frames)
next
  case (Io_Read ec bytes)
  then obtain x ops where h: "handle_async_read env ec bytes (c\<lparr>io_ops := ops\<rparr>) = Inr c'"
    using assms(3) by (auto simp: io_step_def split: option.splits prod.splits if_splits)
  have c: "frames_inv (c\<lparr>io_ops := ops\<rparr>)" using assms(4) by simp
  show ?thesis
    using h c frames_read_frames[OF E _ c] response_read_frames[OF E _ c]
    by (auto simp: handle_async_read_def split: option.splits read_handler.splits)
next
  case (Io_Write ec)
  with assms obtain ops where h: "handle_async_write ec (c\<lparr>io_ops := ops\<rparr>) = Inr c'"
    by (auto simp: io_step_def split: option.splits prod.splits)
  with assms(4) show ?thesis
    by (auto simp: handle_async_write_def Let_def split: option.splits write_handler.splits dest: handle_write_frames)
next
  case (Io_Shutdown ec)
  have u: "frames_inv (handle_terminate env t ec' d)" if "frames_inv d" for t ec' d
    using that user_frames[OF E that] by (simp add: handle_terminate_def)
  obtain t i ops where t: "take_op is_shutdown (io_ops c) = Some (Op_Shutdown t i, ops)"
    using assms(3) Io_Shutdown by (auto simp: io_step_def split: option.splits prod.splits asio_op.splits)
  with assms u Io_Shutdown show ?thesis
    by (auto simp: io_step_def handle_async_shutdown_def split: if_splits)
next
  case Io_Post
  with assms obtain p ps where "run_post env p (c\<lparr>io_posts := ps\<rparr>) = Inr c'" by (auto simp: io_step_def split: list.splits)
  with run_post_frames[OF E this] assms(4) show ?thesis by simp
next
  case (Io_Timer i)
  with assms obtain k s ts where "run_timer env k (timer_result s) (c\<lparr>io_timers := ts\<rparr>) = Inr c'"
    by (auto simp: io_step_def split: option.splits prod.splits if_splits)
  with run_timer_frames[OF E this] assms(4) show ?thesis by simp
next
  case (Io_User a)
  with assms show ?thesis by (auto simp: io_step_def unprepared_event_def intro: action_frames[OF E])
next
  case (Io_Other x)
  with assms show ?thesis by (auto simp: io_step_def unprepared_event_def other_frames)
qed (use assms in \<open>auto simp: io_step_def split: if_splits\<close>)

lemma ws_reach_frames: "unprepared_env env \<Longrightarrow> ws_reach env unprepared_event c \<Longrightarrow> frames_inv c"
proof (rotate_tac, induction rule: ws_reach.induct)
  case (start ua u)
  then show ?case by (simp add: frames_inv_def conn_new_def)
qed (auto intro: io_step_frames)

text \<open>The bytes of a connection: the request and masked frames.\<close>

lemma sent_frames:
  assumes "unprepared_env env" "ws_reach env unprepared_event c"
  shows "sent_bytes c = [] \<or> (\<exists>ms. sent_bytes c = octets (m_handshake_buffer c) @ concat (map wire_of ms) \<and> list_all client_frame ms)"
proof -
  have w: "queue_inv c" "wire_inv c" using ws_reach_write_inv[OF assms(2)] by (simp_all add: write_inv_def)
  from w(1) have "list_all client_frame (h_written c)"
    using ws_reach_frames[OF assms] by (auto simp: queue_inv_def frames_inv_def)
  with w(2) show ?thesis by (auto simp: wire_inv_def)
qed

end
