(* ===== verification/Spec2Isabelle.thy ===== *)
theory Spec2Isabelle
  imports Sample_Runs Str Md5_Correct Params Queues Pipelines Json Windows Time_Windows Tech_Index
    Queue_Threads Sample_Freeze Okbot_Main Rest_Facts Timers Market_Dumps Email_Client
    Http_Reply Ws_Session_Run Ws_Session_Frames
begin

text \<open>
  okcoin_bot is a trading bot for the OKCoin exchange. It keeps a WebSocket connection, subscribes
  to the one-minute prices of bitcoin, computes from them the rate of change (ROC) and its moving
  average, and buys and sells at the market when the two lines cross. Beside the bot there is a
  client of the REST interface of the exchange, and a set of utilities.

  \<^bold>\<open>How the parts interact.\<close> A connection thread (\<open>okcoinwebsocketapi.cpp\<close>) builds a \<open>WebSocket\<close> for
  every session, hands its address to the global \<open>Trade\<close> and deletes it at the end of the session.
  Each message is a JSON array; \<open>cn_callbak_message\<close> of \<open>okbot.cpp\<close> puts it once into the queue of
  every channel an element names (\<open>Pipeline\<close>, \<open>Queue\<close>). The three threads of \<open>RocStrategy\<close> wait on
  these queues: \<open>run_strategy\<close> on the prices, \<open>risk_control\<close> on the answers about the account that
  \<open>query_asset\<close> asks for. Orders go out through \<open>Trade\<close>, which signs them with \<open>Parameter\<close> and \<open>md5\<close>
  and waits for the reply in the queue of its channel. \<open>main\<close> starts all this and ends it.

  \<^bold>\<open>The model.\<close> An operation is a function from the state to a result and the new state
  (\<open>('s, 'a) prog\<close> of \<open>Prelude\<close>); a result is a value or one of the failures: an uncaught exception,
  a failed assertion, undefined behaviour, waiting for ever, termination. The state of the bot is
  the record \<open>world\<close> (sockets by address, the API object, \<open>Trade\<close>, the queues, the account, the
  frames sent, the log), which \<open>strategy\<close> and \<open>asset_freeze\<close> extend by the fields of their objects.
  What comes from outside while a thread waits is the list \<open>env\<close> of events: a message, the opening
  or the loss of a connection, a time-out, the user closing or stopping. A wait consumes events until
  it can go on. Doubles are IEEE 754 doubles, machine words have their width.

  \<^item> \<open>Prelude\<close>, \<open>Clib\<close>, \<open>Doubles\<close>: results, C strings, the C library, doubles.
  \<^item> \<open>Histories\<close>, \<open>Time_Windows\<close>, \<open>Windows\<close> (util/time\_window.h, util/window.h): the ring buffers, each
    refined to the list of its newest entries (locale \<open>bounded_history\<close>).
  \<^item> \<open>Tech_Index\<close> (strategy/tech\_index.h); \<open>Json\<close> (util/json\_util): paths through a document.
  \<^item> \<open>Md5\<close>, \<open>Md5_Correct\<close> (okcoin\_client/md5.cpp): the class, and its equality with RFC 1321.
  \<^item> \<open>Params\<close> (okcoin\_client/parameter.cpp), \<open>Str\<close> (str.cpp): parameters, signature, URL encoding.
  \<^item> \<open>Queues\<close> (util/queue.h; locale \<open>fifo\<close>): each method of the queue as one operation; \<open>Queue_Threads\<close>: the same methods
    as sequences of steps on the mutex and the condition variable, interleaved for any number of threads, and
    the invariant that makes the single operations right. \<open>Pipelines\<close> (pipeline.h, the message call-back).
  \<^item> \<open>Websockets\<close>, \<open>World\<close>, \<open>Websocket_Api\<close> (websocket.h, okcoinwebsocketapi.cpp, account\_status.h): one
    connection, the shared state, the requests, the connection thread, and the waits.
  \<^item> \<open>Evolution\<close>, \<open>Trades\<close>, \<open>Trade_Facts\<close> (trade.h): what no operation does to the shared state
    (locale \<open>kept\<close>), the orders and what their results mean. \<open>Connection_Thread\<close>: when \<open>RunThread\<close> returns.
  \<^item> \<open>Roc_Indicators\<close>, \<open>Roc_Series\<close>, \<open>Roc_Strategy\<close>, \<open>Roc_Facts\<close> (strategy/roc\_strategy.h): the indicators,
    refined to plain series and their invariant; the three threads, their interleavings
    (\<open>roc_reachable\<close>) and the invariant of the strategy.
  \<^item> \<open>Pending\<close>, \<open>Roc_Kept\<close>, \<open>Waiting\<close>: the number of documents a channel can still deliver, which no
    operation raises and every wait that returns lowers: the loops end by this measure.
  \<^item> \<open>Asset_Freeze\<close>, \<open>Freeze_Facts\<close> (strategy/asset\_freeze.h): the account-wide stop loss.
  \<^item> \<open>Okbot_Main\<close> (okbot.cpp): \<open>main\<close> with its threads as the step relation \<open>okbot_step\<close>, and its invariant.
  \<^item> \<open>Uris\<close>, \<open>Curl_Protocol\<close>, \<open>Curls\<close>, \<open>Okcoin_Api\<close>, \<open>Rest_Facts\<close> (rest\_api): requests, the table of calls,
    the transfer with its buffer, all 42 calls, and what a call sends and returns.
  \<^item> \<open>Timers\<close>, \<open>Market_Dumps\<close>, \<open>Email_Client\<close> (util): timer, printing, dumps of market data, mail.
  \<^item> \<open>Sample_Runs\<close>, \<open>Sample_Freeze\<close>: concrete states, at which the properties are applied.
  \<^item> \<open>Ws_Frame\<close>, \<open>Ws_Frame_Facts\<close>, \<open>Utf8_Validator\<close>, \<open>Ws_Close\<close>, \<open>Base64\<close>, \<open>Sha1\<close>, \<open>Ws_Errors\<close>, \<open>Ws_Uri\<close>
    (okcoin\_client/websocketpp: frame.hpp, utf8\_validator.hpp, close.hpp, base64, sha1, the error codes, uri.hpp):
    frames and their masking, close codes, digests (SHA-1 is that of FIPS 180-4), addresses.
  \<^item> \<open>Hybi13\<close>, \<open>Hybi13_Facts\<close>, \<open>Hybi13_Reading\<close>, \<open>Hybi13_Stream\<close>, \<open>Hybi13_Roundtrip\<close> (processors/hybi13.hpp and the
    loop of \<open>handle_read_frame\<close>): the processor of the protocol; reading does not depend on how a stream is cut, and reads back
    what a server prepared.
  \<^item> \<open>Http_Parser\<close>, \<open>Http_Facts\<close>, \<open>Http_Reply\<close>, \<open>Ws_Handshake\<close> (http/, processors): headers, the request of a client,
    the reader of a response, both sides of the opening handshake, and when a client accepts.
  \<^item> \<open>Asio_Connection\<close>, \<open>Ws_Session\<close>, \<open>Ws_Session_Io\<close> (transport/asio/connection.hpp, security/tls.hpp,
    impl/connection\_impl.hpp): a connection of a client. \<open>conn\<close> holds the fields of the class, the operations of asio that are
    outstanding, its timers, and a record of what was sent, pushed and reported. \<open>io_step\<close> is one call from asio, a timer, the user
    or another thread; \<open>ws_reach\<close> are the states that a connection reaches. \<open>send\<close>, \<open>ping\<close> and \<open>pong\<close> release the lock between
    the check of the state and the push: what other threads do in this gap is \<open>meanwhile\<close>, and a thread that is
    itself in the gap, while the connection goes on, is in \<open>h_sending\<close> (\<open>Ot_Check\<close>, \<open>Ot_Push\<close>).
  \<^item> \<open>Ws_Session_Kept\<close> (the interface \<open>session_kept\<close> of all invariants), \<open>Ws_Session_Write\<close> (the write queue and the wire),
    \<open>Ws_Session_Spec\<close> (an abstract session), \<open>Ws_Session_Timers\<close> and \<open>Ws_Session_Refines\<close> (the connection implements it),
    \<open>Ws_Session_Frames\<close> (what is sent are masked frames), \<open>Ws_Session_Calm\<close> (reading does not depend on what a program that
    does not close writes meanwhile), \<open>Ws_Session_Run\<close> (a client that reaches a correct server opens and delivers the messages,
    however reply and frames are cut into reads).
  \<^bold>\<open>The properties\<close> below are about orders (what may be sent, when, and what success means), the
  indicators (refinement and invariants), ending and not ending of the threads, signatures, data
  structures, the WebSocket library (a connection refines an abstract session; what it sends and what it
  delivers), the shutdown, the stop loss of the account and the REST client. Several state defects:
  a stop loss that cannot fire, a request that is lost silently, a pointer that dangles.

  \<^bold>\<open>Fuel and bounds.\<close> The loops of the threads have fuel, one unit a round. \<open>trading_loop_ends\<close> and its
  like show that more fuel than the documents pending in the channel is enough: with it the loop
  returns or blocks. \<open>freeze_sell\<close> counts to 500 as the code does. The windows hold 12, 720 and 12
  entries as in the source; the lemmas about the ring buffers ask for a capacity from 1 to \<open>2 ^ 62\<close>, those
  on MD5 for less than \<open>2 ^ 31\<close> bytes (the loop compares with \<open>int\<close>).

  \<^bold>\<open>Parameters.\<close> Code outside of the repository is an argument: libcurl (the transfer it performs for a list of
  options), boost's resolver, connection and base64 iterator, the local time zone. rapidjson is
  represented by its documented accessors on a datatype of JSON values. For the bot the WebSocket library is
  the state of one connection and the frames it was given. A connection of the library has an environment
  \<open>ws_env\<close>: what the handlers of the user do, the random numbers, and the contents of memory that is not initialised; the
  results of asio (errors, bytes that arrive, when a timer ends) are the events of \<open>io_step\<close>, in any order.

  \<^bold>\<open>Granularity.\<close> A round of a strategy thread is one step of the interleaving, with the events that come
  while it waits inside it; data races inside a round (on \<open>Trade::s_\<close> and in \<open>get_queue\<close>) are not modelled. In the
  WebSocket library a handler of asio is one step, apart from the gap in \<open>send\<close>, \<open>ping\<close> and \<open>pong\<close>: \<open>terminate\<close> and the
  answer to a close frame take no lock, and how they interleave with a \<open>close\<close> of another thread is not modelled.
  \<open>hThread\<close> stands for a connection thread that runs and for one that is over and not joined; they
  differ only after a lost connection that was closed by hand. The index of \<open>URLDecode\<close> is an \<open>int\<close>, which
  matters for strings of 2 GiB; the regular expression of \<open>parseKey\<close> is matched on names without line breaks.

  \<^bold>\<open>Not modelled.\<close> Log and dump output beyond the messages themselves (\<open>log.h\<close>, \<open>dump.h\<close>), the configuration
  file (\<open>configure.h\<close>), set-up of TLS, conversion of character sets and the write to a file of the REST
  client; of the WebSocket library the role of a server, proxies, resolving and connecting (\<open>endpoint.hpp\<close>), the older
  protocols (hybi00, 07, 08), compression, attributes and parameter lists of headers, and its logging; the tests, the demo of the REST client, the scripts for off-line analysis, and the vendored
  libraries gtest, spdlog and cpptoml.
\<close>

section \<open>Properties\<close>

text \<open>C1: Whatever the three threads of the strategy do, in whatever order, and whatever events
  come in between: the indicators stay sound, the window of profits stays well formed, and
  while the account is out of trading the strategy records no bitcoin and no asset.\<close>
theorem reachable_strategy_sound:
  assumes "roc_reachable (roc_init slots f w0) w" "length slots = PROFIT_LEN"
  shows "ind_sound (ind w) \<and> win_wf PROFIT_LEN (profit_win w) \<and>
         (status (account w) = out_of_trading \<longrightarrow> trading_btc w = dzero \<and> trading_asset w = dzero)"
  using assms by (rule roc_reachable_facts)

theorem reachable_strategy_sound_witness:
  "trading_btc sample_strategy = dzero \<and> ind_sound (ind sample_strategy)"
proof -
  have "roc_reachable (roc_init (replicate PROFIT_LEN dzero) 500 idle_bot) sample_strategy"
    unfolding sample_strategy_def by (rule roc_reachable.start)
  from reachable_strategy_sound[OF this length_replicate] show ?thesis
    by (simp add: sample_strategy_def roc_init_def idle_bot_def account_init_def)
qed

text \<open>C2: One round of the trading thread sends at most one trade order, whatever arrives while it
  waits: in trading a market sale of exactly the bitcoin held, out of trading a market
  purchase for exactly the configured amount.\<close>
theorem one_order_per_round:
  "\<exists>xs. orders (snd (strategy_round w)) = orders w @ xs \<and> length xs \<le> 1 \<and>
        set xs \<subseteq> (case status (account w) of
            in_trading \<Rightarrow> order_frames ''sell_market'' [] (double_to_string (trading_btc w))
          | out_of_trading \<Rightarrow> order_frames ''buy_market'' (double_to_string (asset w)) [])"
  using strategy_round_sends[of w] unfolding sent_by_def allowed_orders_def .

text \<open>C3: The stop loss of the risk control cannot fire: with a well-formed profit window a round of
  \<open>risk_control\<close> sends no order and leaves the status and the position as they are, because
  the minimum it compares the new profit with is taken over a window that holds it.\<close>
theorem stop_loss_never_fires:
  assumes "win_wf PROFIT_LEN (profit_win w)"
  shows "orders (snd (risk_round w)) = orders w \<and> account (snd (risk_round w)) = account w \<and>
         trading_btc (snd (risk_round w)) = trading_btc w \<and>
         trading_asset (snd (risk_round w)) = trading_asset w"
  using keepsD[OF silent_risk_round, of w] assms by (simp add: risk_silent_def)

theorem stop_loss_never_fires_witness:
  "orders (snd (risk_round sample_strategy)) = orders sample_strategy"
proof -
  have "win_wf PROFIT_LEN (profit_win sample_strategy)"
    by (simp add: sample_strategy_def roc_init_def win_wf_new PROFIT_LEN_def)
  from stop_loss_never_fires[OF this] show ?thesis by simp
qed

text \<open>C4: From sound indicators, a message of data points is processed without any failure, and the
  ring buffers afterwards represent exactly the series that the reference on lists computes,
  with the same answer to whether there was an update.\<close>
theorem message_refines_series:
  assumes "ind_sound s" "\<forall>p \<in> set points. int64_range (fst p)"
  shows "\<exists>u s'. calc_roc_and_maroc (kline_doc (JArray (map kline_row points))) s = Inr (u, s') \<and>
           ind_sound s' \<and> (u, abs_ind s') = abs_points points False (abs_ind s)"
  using assms by (rule calc_message_refines)

theorem message_refines_series_witness:
  "\<exists>u s'. calc_roc_and_maroc (kline_doc (JArray (map kline_row [(1, dzero), (2, NaN)]))) indicators_new = Inr (u, s') \<and>
     ind_sound s' \<and> (u, abs_ind s') = abs_points [(1, dzero), (2, NaN)] False (abs_ind indicators_new)"
  by (rule message_refines_series) (simp_all add: ind_sound_new int64_range_def)

text \<open>C5: Whatever message is processed, if it is processed at all, the three series stay ordered by
  time, rates and averages stay aligned minute by minute, and every stored average is the
  mean of the six rates that end at its minute, as far back as these are stored.\<close>
theorem averages_are_of_six_rates:
  assumes "ind_sound s" "calc_roc_and_maroc d s = Inr (u, s')" "abs_ind s' = (ps, rs, ms)"
  shows "time_ordered ps \<and> time_ordered rs \<and> map fst ms = take (length ms) (map fst rs) \<and>
         (\<forall>k < length ms. k + 6 \<le> length rs \<longrightarrow> snd (ms ! k) = MAROC (take 6 (drop k rs)))"
  using calc_sound[OF assms(1,2)] assms(3) by (simp add: ind_sound_def ind_inv_def AVG_NUM_def)

theorem averages_are_of_six_rates_witness:
  "\<exists>u s' ps rs ms. calc_roc_and_maroc (kline_doc (kline_row (1, dzero))) indicators_new = Inr (u, s') \<and>
     abs_ind s' = (ps, rs, ms) \<and> time_ordered ps"
proof -
  obtain u s' where run: "calc_roc_and_maroc (kline_doc (kline_row (1, dzero))) indicators_new = Inr (u, s')"
    using calc_single_refines[OF ind_sound_new, of "(1, dzero)"] by (auto simp: int64_range_def)
  obtain ps rs ms where "abs_ind s' = (ps, rs, ms)" by (cases "abs_ind s'")
  with averages_are_of_six_rates[OF ind_sound_new run this] run show ?thesis by blast
qed

text \<open>C6: An order method reports success only on the word of the server: some document with an
  element on the channel \<open>ok_spotcny_trade\<close> whose \<open>data.result\<close> is \<open>true\<close> was waiting in the
  queue or arrived while the method waited.\<close>
theorem success_is_confirmed:
  assumes "buy x y w = (Inr 0, w') \<or> buy_at_market x w = (Inr 0, w') \<or>
           sell x y w = (Inr 0, w') \<or> sell_at_market y w = (Inr 0, w')"
  shows "\<exists>d. confirms ''ok_spotcny_trade'' d \<and>
           (d \<in> set (channel_items (pipes w) ''ok_spotcny_trade'') \<or> Message d \<in> set (env w))"
  using assms by (rule orders_confirmed)

theorem success_is_confirmed_witness:
  "\<exists>d. confirms ''ok_spotcny_trade'' d \<and>
     (d \<in> set (channel_items (pipes replied_bot) ''ok_spotcny_trade'') \<or> Message d \<in> set (env replied_bot))"
  by (rule success_is_confirmed[OF disjI2[OF disjI1[OF replied_bot_buys]]])

text \<open>C7: If a trade request changed what is on the wire, it added exactly its own frame, the socket
  it points to is allocated, valid and open, and it returned 0.\<close>
theorem request_sent_once:
  assumes "ok_spotcny_trade s t p q w = (r, w')" "wire w' \<noteq> wire w"
  shows "r = Inr 0 \<and>
    wire w' = wire w @ [emit_param_frame ''ok_spotcny_trade''
                          (param_ToJsonString (order_params s t p q (trade w)))] \<and>
    (\<exists>a ws. trade_s (trade w) = Some a \<and> sockets w a = Some ws \<and> is_valid ws \<and> endpoint_open ws)"
  using assms try_emit_sent unfolding ok_spotcny_trade_def and_then_gets by blast

theorem request_sent_once_witness:
  "wire (snd (ok_spotcny_trade ''btc_cny'' ''sell_market'' [] ''1'' connected_bot)) =
     [emit_param_frame ''ok_spotcny_trade''
        (param_ToJsonString (order_params ''btc_cny'' ''sell_market'' [] ''1'' (trade connected_bot)))]"
proof -
  obtain r w' where run: "ok_spotcny_trade ''btc_cny'' ''sell_market'' [] ''1'' connected_bot = (r, w')"
    by fastforce
  moreover have "wire w' \<noteq> wire connected_bot"
    using run connected_bot_sends unfolding ok_spotcny_trade_def and_then_gets by (metis snd_conv)
  ultimately show ?thesis
    using request_sent_once[of "''btc_cny''" "''sell_market''" "[]" "''1''" connected_bot r w']
    by (simp add: connected_bot_def idle_bot_def)
qed

text \<open>C8: When the connection thread has deleted the socket and not yet built the next one, the
  pointer of \<open>Trade\<close> dangles: the poll of the account, every order, every query of an order and every cancellation read freed memory.\<close>
theorem request_after_loss_is_undefined:
  assumes "pWebsocket (api w) = Some a" "trade_s (trade w) = Some a" "sockets w a = Some ws"
  shows "fst (ok_spotcny_userinfo (snd (deliver Lost w))) = Inl Undefined_Behaviour \<and>
         fst (ok_spotcny_trade s t p q (snd (deliver Lost w))) = Inl Undefined_Behaviour \<and>
         fst (ok_spotcny_orderinfo x (snd (deliver Lost w))) = Inl Undefined_Behaviour \<and>
         fst (ok_spotcny_cancel_order x y (snd (deliver Lost w))) = Inl Undefined_Behaviour"
  using lost_dangles[OF assms(1,3)] assms(2) try_emit_dangling[of "snd (deliver Lost w)" a]
  unfolding ok_spotcny_userinfo_def ok_spotcny_trade_def ok_spotcny_orderinfo_def ok_spotcny_cancel_order_def and_then_gets
  by simp

theorem request_after_loss_is_undefined_witness:
  "fst (ok_spotcny_userinfo (snd (deliver Lost connected_bot))) = Inl Undefined_Behaviour"
  using request_after_loss_is_undefined[of connected_bot 0 sample_socket]
  by (simp add: connected_bot_def)

text \<open>C9: The parameters of an order are sorted by name and carry the signature the exchange
  recomputes: the MD5 of RFC 1321, in upper case, of the other parameters and the secret key.\<close>
theorem orders_are_signed:
  assumes "length (signed_text (m_secret_key t) (order_fields (m_api_key t) symbol type price amount)) < 2 ^ 31"
  shows "signature_valid (m_secret_key t) (order_params symbol type price amount t)"
  using assms by (rule order_params_signed)

theorem orders_are_signed_witness:
  "signature_valid ''s'' (order_params [] [] [] [] \<lparr>trade_s = None, m_api_key = ''k'', m_secret_key = ''s''\<rparr>)"
  using orders_are_signed[of "\<lparr>trade_s = None, m_api_key = ''k'', m_secret_key = ''s''\<rparr>" "[]" "[]" "[]" "[]"]
  by (simp add: order_fields_def signed_text_def param_AddParam_def param_Add_def)

text \<open>C10: A connection implements the abstract session of \<open>Ws_Session_Spec\<close>: it goes forward from connecting
  over open and closing to the end, pushes messages only where the session allows it, and calls the
  handlers of the user as the session does. This holds for every state that it reaches and every step from
  there, whatever the user, other threads, the timers and the network do.\<close>
theorem connection_refines_session:
  assumes "ws_reach host ok c"
  shows "session_steps True (Ph_Connecting, [], []) (abs_session c) \<and>
         (\<forall>e c'. io_step host e c = Some (Inr c') \<longrightarrow> session_steps True (abs_session c) (abs_session c'))"
proof -
  have "ws_reach host (\<lambda>e. True) c" using assms by induction (auto intro: ws_reach.intros)
  then have inv: "session_inv True (Ph_Connecting, [], []) c"
    using connection_is_session[of True host c] by simp
  then have "session_inv True (abs_session c) c" by (simp add: session_inv_def)
  then have "session_inv True (abs_session c) c'" if "io_step host e c = Some (Inr c')" for e c'
    using io_step_session[OF _ _ that] by simp
  with inv show ?thesis by (simp add: session_inv_def)
qed

theorem connection_refines_session_witness:
  "\<exists>c. con_state c = St_Open \<and> session_steps True (Ph_Connecting, [], []) (abs_session c) \<and>
     abs_session c = (Ph_Open, h_pushed c, h_events c) \<and> life (h_events c) = [Ev_Open]"
proof -
  obtain s c where "ws_reach quiet_env (\<lambda>e. True) c" "reading s c" "life (h_events c) = [Ev_Open]"
    using quiet_open[of "\<lambda>e. True"] by auto
  with connection_refines_session[OF this(1)] show ?thesis
    by (intro exI[of _ c]) (auto simp: reading_def abs_session_def)
qed

text \<open>C11: Leave aside the handlers for an interrupt and for a pong that is late: they may be called at any time,
  also before the opening and after the end. All other handlers of the user are called in order: the one for
  the opening once and first, then those for messages, pings and pongs while the connection is open, then the
  one for the end once; or the one for the failure alone. After the end none of them is called any more.\<close>
theorem handlers_called_in_order:
  assumes "ws_reach host ok c"
  shows "life_ok (fst (abs_session c)) (filter (\<lambda>ev. ev \<noteq> Ev_Interrupt \<and> (\<forall>p. ev \<noteq> Ev_Pong_Timeout p)) (h_events c))"
proof -
  have "(\<lambda>ev. ev \<noteq> Ev_Interrupt \<and> (\<forall>p. ev \<noteq> Ev_Pong_Timeout p)) = (\<lambda>ev. \<not> note_event ev)"
    by (auto simp: note_event_def fun_eq_iff split: user_event.split)
  with reached_life[OF assms] show ?thesis by (simp add: life_def)
qed

theorem handlers_called_in_order_witness:
  "\<exists>c. con_state c = St_Open \<and> life (h_events c) = [Ev_Open] \<and>
     life_ok (fst (abs_session c)) (filter (\<lambda>ev. ev \<noteq> Ev_Interrupt \<and> (\<forall>p. ev \<noteq> Ev_Pong_Timeout p)) (h_events c))"
proof -
  obtain s c where "ws_reach quiet_env (\<lambda>e. True) c" "reading s c" "life (h_events c) = [Ev_Open]"
    using quiet_open[of "\<lambda>e. True"] by auto
  with handlers_called_in_order[OF this(1)] show ?thesis
    by (intro exI[of _ c]) (simp add: reading_def)
qed



text \<open>C13: What was pushed is what was written followed by what waits in the queue; only after the end is anything
  lost between the two. The bytes on the wire are the request followed by the written frames, and before the
  end at most one write is outstanding.\<close>
theorem frames_sent_in_order:
  assumes "ws_reach host ok c"
  shows "(\<exists>lost. h_pushed c = h_written c @ lost @ m_send_queue c \<and> (con_state c \<noteq> St_Closed \<longrightarrow> lost = [])) \<and>
    (sent_bytes c = [] \<and> h_written c = [] \<or>
     sent_bytes c = octets (m_handshake_buffer c) @ concat (map wire_of (h_written c))) \<and>
    (con_state c \<noteq> St_Closed \<longrightarrow> writes (io_ops c) \<le> 1)"
  using ws_reach_write_inv[OF assms] by (auto simp: write_inv_def queue_inv_def wire_inv_def flight_inv_def)

theorem frames_sent_in_order_witness:
  "\<exists>c :: conn. con_state c = St_Open \<and> writes (io_ops c) \<le> 1 \<and> h_pushed c = h_written c @ m_send_queue c"
proof -
  obtain s c where "ws_reach quiet_env (\<lambda>e. True) c" "reading s c"
    using quiet_open[of "\<lambda>e. True"] by auto
  with frames_sent_in_order[OF this(1)] have "con_state c = St_Open \<and> writes (io_ops c) \<le> 1 \<and> h_pushed c = h_written c @ m_send_queue c"
    by (auto simp: reading_def)
  then show ?thesis by blast
qed

text \<open>C14: As long as the user hands over no prepared messages, all that a connection sends is its request and
  masked frames: from each a server reads a payload by the rules of RFC 6455, which is UTF-8 when the frame is a text,
  and of at most 125 bytes in one frame when it is a control frame.\<close>
theorem sent_bytes_are_client_frames:
  assumes "unprepared_env host" "ws_reach host unprepared_event c"
  shows "sent_bytes c = [] \<or>
    (\<exists>ms. sent_bytes c = octets (m_handshake_buffer c) @ concat (map wire_of ms) \<and>
      list_all (\<lambda>m. \<exists>op fin payload. client_wire op fin payload m \<and> (op = TEXT \<longrightarrow> utf8_validate payload) \<and>
        (is_control op \<longrightarrow> fin \<and> length payload \<le> 125)) ms)"
  using sent_frames[OF assms] by (simp add: client_frame_def[abs_def] frame_constants)

theorem sent_bytes_are_client_frames_witness:
  "\<exists>c. ws_reach quiet_env unprepared_event c \<and> con_state c = St_Open \<and>
     (sent_bytes c = [] \<or> (\<exists>ms. sent_bytes c = octets (m_handshake_buffer c) @ concat (map wire_of ms)))"
proof -
  have ok: "unprepared_event e" if "e \<in> {Io_Start True, Io_Handshake None, Io_Write None} \<or> (\<exists>bs. e = Io_Read None bs)" for e
    using that by (auto simp: unprepared_event_def)
  obtain s c where c: "ws_reach quiet_env unprepared_event c" "reading s c"
    using quiet_open[of unprepared_event] ok by blast
  have "unprepared_env quiet_env" by (simp add: unprepared_env_def quiet_env_def)
  from sent_bytes_are_client_frames[OF this c(1)] c show ?thesis by (auto simp: reading_def)
qed



text \<open>C16: A client reads back from the stream of the frames that a server prepared, data and control, exactly
  their messages in their order, into whatever pieces the stream is cut, and ends ready for the next frame.\<close>
theorem frames_read_in_any_pieces:
  assumes "idle s" "m_max_message_size s < 2 ^ 64" "list_all (server_sent (m_max_message_size s)) ms" "concat bs = wire_bytes ms"
  shows "\<exists>s'. read_chunks dispatch bs s c = Inr (None, s', fold dispatch (map (Some \<circ> delivered) ms) c) \<and> idle s'"
proof (rule read_chunks_wire[OF assms(1) _ assms(4)])
  show "list_all (server_frame (m_max_message_size s)) ms"
    using assms(3) server_sent_frame[OF _ assms(2)] by (auto simp: list_all_iff)
qed

theorem frames_read_in_any_pieces_witness:
  "\<exists>m. m_payload m = octets ''Hi'' \<and> (\<exists>s'. read_chunks (\<lambda>m ms. ms @ [m]) (map (\<lambda>b. [b]) (wire_bytes [m, m]))
     (hybi13_new False 32000000 0 0 0) [] = Inr (None, s', [Some (delivered m), Some (delivered m)]) \<and> idle s')"
proof -
  obtain m where m: "server_sent 32000000 m" "m_payload m = octets ''Hi''"
    using sample_frame[of "octets ''Hi''" 32000000] by (auto simp: octets_def utf8_hi)
  have "m_max_message_size (hybi13_new False 32000000 0 0 0) = 32000000"
    by (simp add: hybi13_new_def reset_headers_def)
  moreover have "concat (map (\<lambda>b. [b]) bs) = bs" for bs :: "byte list" by (induction bs) simp_all
  ultimately show ?thesis
    using frames_read_in_any_pieces[OF idle_new, of 32000000 0 0 0 "[m, m]" "map (\<lambda>b. [b]) (wire_bytes [m, m])" "\<lambda>m ms. ms @ [m]" "[]"] m
    by auto
qed

text \<open>C17: A client accepts the reply of a server exactly when its status is 101, its headers ask for the upgrade to
  websocket, and its Sec-WebSocket-Accept is the base64 of the SHA-1 (FIPS 180-4) of the key and the fixed GUID.\<close>
theorem client_accepts_exactly:
  assumes "length (get_header ''Sec-WebSocket-Key'' req) < 2 ^ 28" "length w = 80"
  shows "validate_server_handshake_response w req res = None \<longleftrightarrow>
    m_status_code res = 101 \<and> is_websocket_handshake res \<and>
    get_header ''Sec-WebSocket-Accept'' res = base64_encode (fips_sha1 (octets
      (get_header ''Sec-WebSocket-Key'' req @ ''258EAFA5-E914-47DA-95CA-C5AB0DC85B11'')))"
  using validate_server_handshake_iff[OF assms] by (simp add: accept_value_def handshake_guid_def)

theorem client_accepts_exactly_witness:
  "validate_server_handshake_response (replicate 80 0) request_new response_new \<noteq> None"
  using client_accepts_exactly[of request_new "replicate 80 0" response_new]
  by (simp add: request_new_def response_new_def get_header_def)

text \<open>C18: On every message of less than \<open>2 ^ 29\<close> bytes, \<open>sha1::calc\<close> computes the digest of FIPS 180-4 (padding,
  schedule, rounds), whatever its buffer held before.\<close>
theorem sha1_is_fips:
  assumes "length src < 2 ^ 29" "length w = 80"
  shows "sha1_calc src w = fips_sha1 src"
  using assms by (rule sha1_calc_fips)

theorem sha1_is_fips_witness: "sha1_calc (octets ''abc'') (replicate 80 0xDEADBEEF) = fips_sha1 (octets ''abc'')"
  by (rule sha1_is_fips) (simp_all add: octets_def)

text \<open>C19: \<open>MD5String\<close> is the MD5 of RFC 1321 of the bytes before the first NUL, in hexadecimal,
  whatever the uninitialised buffer and digest of the context hold.\<close>
theorem md5_string_is_rfc:
  assumes "length buffer = 64" "length s < 2 ^ 31"
  shows "MD5String_from buffer digest s = md5_PrintMD5 (rfc_md5 (bytes_of (cstr s)))"
  using assms by (rule MD5String_from_rfc)

theorem md5_string_is_rfc_witness:
  "MD5String_from (replicate 64 7) [] ''abc'' = md5_PrintMD5 (rfc_md5 (bytes_of (cstr ''abc'')))"
  by (rule md5_string_is_rfc) simp_all

text \<open>C20: Every round of the trading loop uses up a document of its channel and none is made up: with
  more fuel than documents queued and still to come the loop does not run out of fuel.\<close>
theorem trading_loop_ends:
  assumes "pending strategy_data_source w < n"
  shows "fst (run_strategy n w) \<noteq> Inr False"
  using assms by (rule run_strategy_ends)

theorem trading_loop_ends_witness: "fst (run_strategy 1 sample_strategy) \<noteq> Inr False"
  by (rule trading_loop_ends)
    (simp add: pending_def sample_strategy_def roc_init_def idle_bot_def)

text \<open>C21: A trading thread that waits on its empty queue does not notice \<open>stop\<close>: without another
  document it waits for ever, and so does the \<open>join\<close> that follows.\<close>
theorem stop_needs_a_message:
  assumes "signal w = 0" "channel_items (pipes w) strategy_data_source = []"
    and "set (env w) \<subseteq> {Stop, Timeout}"
  shows "fst (run_strategy (Suc n) w) = Inl Blocked"
  using assms by (rule stop_not_seen)

theorem stop_needs_a_message_witness:
  "fst (run_strategy (Suc 5) (sample_strategy\<lparr>env := [Stop, Timeout]\<rparr>)) = Inl Blocked"
  by (rule stop_needs_a_message) (simp_all add: sample_strategy_def roc_init_def idle_bot_def)

text \<open>C22: As long as no session is closed by the user the connection thread reconnects, however many
  sessions are lost: \<open>retry_count\<close> bounds nothing.\<close>
theorem connection_thread_goes_on:
  assumes "pWebsocket (api w) = None" "no_manual w" "\<forall>s \<in> set sessions. User_Close \<notin> set s"
  shows "fst (RunThread i sessions w) \<noteq> Inr r"
  using assms by (rule RunThread_goes_on)

theorem connection_thread_goes_on_witness:
  "fst (RunThread 0 (replicate 9 [Opened, Message sample_reply]) idle_bot) \<noteq> Inr 0"
  by (rule connection_thread_goes_on) (simp_all add: idle_bot_def api_cn_def SetUri_def SetKey_def api_new_def no_manual_def)

text \<open>C23: The connection thread returns 0, and no socket is left, at the end of the first session in
  which the user closes the open connection; later sessions are not begun.\<close>
theorem connection_thread_returns:
  assumes "session_begin w = (Inr (), w0)" "deliver_all s w0 = (Inr (), w1)"
    and "pWebsocket (api w1) = Some a" "sockets w1 a = Some ws" "endpoint_open ws"
  shows "fst (RunThread i ((s @ [User_Close]) # rest) w) = Inr 0 \<and>
         pWebsocket (api (snd (RunThread i ((s @ [User_Close]) # rest) w))) = None"
  using assms by (rule RunThread_returns)

theorem connection_thread_returns_witness:
  "fst (RunThread 0 (([Opened] @ [User_Close]) # [[Opened]]) idle_bot) = Inr 0"
proof -
  have none: "pWebsocket (api idle_bot) = None"
    by (simp add: idle_bot_def api_cn_def SetUri_def SetKey_def api_new_def)
  obtain w0 where w0: "session_begin idle_bot = (Inr (), w0)"
    and facts: "pWebsocket (api w0) = Some 0" "\<exists>ws. sockets w0 0 = Some ws \<and> endpoint ws = Ep_Connecting \<and> \<not> callbak_open ws"
    using session_begin_new[OF none]
    by (auto simp: idle_bot_def ws_new_def api_cn_def SetUri_def SetKey_def api_new_def)
  obtain w1 where "deliver_all [Opened] w0 = (Inr (), w1)" "pWebsocket (api w1) = Some 0"
    "\<exists>ws. sockets w1 0 = Some ws \<and> endpoint_open ws"
    using facts by (auto simp: on_endpoint_def if_socket_def handle_open_def with_socket_def ws_ops prog_defs)
  then show ?thesis using connection_thread_returns[OF w0] by blast
qed

text \<open>C24: A message whose elements are all objects, with a string channel if any, is delivered: the
  document is appended to the queue of each channel once for every element that names it,
  and no other queue changes.\<close>
theorem documents_are_dispatched:
  assumes "list_all dispatchable elems"
  shows "\<exists>p'. cn_callbak_message (JArray elems) p = Inr p' \<and>
       (\<forall>name. channel_items p' name =
          channel_items p name @ replicate (length (filter (\<lambda>e. names_channel e name) elems)) (JArray elems))"
  using dispatch_elems_ok[OF assms, of "JArray elems" p] by simp

theorem documents_are_dispatched_witness:
  "\<exists>p'. cn_callbak_message sample_reply pipeline_init = Inr p' \<and>
     channel_items p' ''ok_spotcny_trade'' = [sample_reply]"
proof -
  have "list_all dispatchable [sample_elem]" by (simp add: sample_elem_channel)
  from documents_are_dispatched[OF this, of pipeline_init] show ?thesis
    unfolding sample_reply_def by (auto simp del: cn_callbak_message.simps simp: sample_elem_channel)
qed

text \<open>C25: A message with an element that is not an object, or whose channel is not a string, fails an
  assertion of the parser library and aborts the process.\<close>
theorem malformed_message_aborts:
  assumes "\<not> list_all dispatchable elems"
  shows "cn_callbak_message (JArray elems) p = Inl Assert_Failure"
  using dispatch_elems_abort[OF assms] by simp

theorem malformed_message_aborts_witness:
  "cn_callbak_message (JArray [JInt 1]) pipeline_init = Inl Assert_Failure"
  by (rule malformed_message_aborts) simp

text \<open>C26: \<open>TimeWindow::put\<close> on a well-formed ring buffer returns and does what the reference on the
  list of its entries does: append a newer entry, rewrite the newest, ignore an older one.\<close>
theorem time_window_put_refines:
  assumes "tw_wf N w"
  shows "map_prod id (tw_series N) (tw_put N ts x w) = series_put N ts x (tw_series N w) \<and>
         tw_wf N (snd (tw_put N ts x w))"
  using assms by (simp add: tw_put_refines tw_put_wf)

theorem time_window_put_refines_witness:
  "map_prod id (tw_series 3) (tw_put 3 7 ''x'' (tw_new 3 [])) = series_put 3 7 ''x'' (tw_series 3 (tw_new 3 []))"
  using time_window_put_refines[OF tw_wf_new, of 3 7 "''x''" "[]"] by simp

text \<open>C27: \<open>Window::put\<close> keeps the newest \<open>N\<close> values, \<open>get\<close> reads them newest first, and a full window
  read by \<open>get_range\<close> as a whole gives exactly these values, in the order of the slots.\<close>
theorem window_keeps_newest:
  assumes "win_wf N w"
  shows "win_hist N (win_put N x w) = take N (x # win_hist N w) \<and>
         (\<forall>k < win_valid_size w. win_get N w k = Inr (win_hist N w ! k)) \<and>
         (win_is_full w \<longrightarrow> (\<exists>vs. win_get_range N w 0 (win_get_size w) = Inr vs \<and>
            set vs = set (win_hist N w) \<and> length vs = N))"
  using assms by (rule win_newest)

theorem window_keeps_newest_witness:
  "win_hist 2 (win_put 2 ''x'' (win_new [[], []])) = take 2 (''x'' # win_hist 2 (win_new [[], []]))"
  by (rule conjunct1[OF window_keeps_newest]) (simp add: win_wf_new)

text \<open>C28: \<open>get_node\<close> on a path written from steps (members, and elements of array members) leads
  where the steps lead, to the same null when one of them fails, and never fails itself.\<close>
theorem paths_navigate:
  assumes "list_all step_ok sts"
  shows "get_node v (render_path sts) = Inr (navigate v sts)"
  using assms by (rule get_node_navigate)

theorem paths_navigate_witness:
  "get_node (JObject [(''a'', JArray [JNull, JInt 5])]) (render_path [Element ''a'' 1]) = Inr (Some (JInt 5))"
  by (subst paths_navigate) (simp_all add: plain_name_def int32_range_def)

text \<open>C29: A value written through a path is read back through the same path, as the conversion of
  what was written.\<close>
theorem written_values_are_read_back:
  assumes "set_value to node key value = Inr (Some node')"
  shows "get_value from node' key = Inr (from (to value))"
  using assms by (rule get_set_value)

theorem written_values_are_read_back_witness:
  "get_value int_value (JObject [(''a'', JInt 5)]) ''a'' = Inr (Some 5)"
proof -
  have "set_value JInt (JObject [(''a'', JNull)]) ''a'' 5 = Inr (Some (JObject [(''a'', JInt 5)]))"
    by (simp add: set_value_def set_node_object path_key_def path_rest_def parseKey_plain select_child_def
        find_member_def replace_child_def)
  from written_values_are_read_back[OF this, of int_value] show ?thesis by (simp add: int32_range_def)
qed

text \<open>C30: A query string written from parameters without separators in them is parsed back to the same
  parameters; with an ampersand in a value it is not, and the class does not encode values.\<close>
theorem query_string_parses_back:
  assumes "list_all clean_entry p"
  shows "parse_params (param_ToString p) = p"
  using assms by (rule parse_ToString)

theorem query_string_parses_back_witness:
  "parse_params (param_ToString [(''a'', ''1''), (''b'', ''2'')]) = [(''a'', ''1''), (''b'', ''2'')]"
  by (rule query_string_parses_back) (simp add: clean_entry_def)

text \<open>C31: \<open>URLDecode\<close> gives back every string that \<open>URLEncode\<close> encoded, and the encoding has only
  letters, digits and percent signs.\<close>
theorem url_encoding_round_trip:
  "URLDecode (URLEncode s) = Inr s \<and> list_all (\<lambda>c. isalnum c \<or> c = CHR 0x25) (URLEncode s)"
  using URLDecode_URLEncode URLEncode_chars by (simp add: list_all_iff)

text \<open>C32: Any number of threads call the methods of a queue, and the steps inside of the methods (locking,
  the test, the wait with its spurious wake-ups and its end of time, \<open>front\<close>, \<open>pop\<close>, unlocking, notifying)
  interleave in any way. Then \<open>front\<close> and \<open>pop\<close> are never called on an empty queue; what was pushed is, in
  order, what was handed out followed by what the queue holds; at most one thread holds the mutex; while a
  thread waits there are never more items than threads on their way to take one or to wake another; and every
  step leaves the items alone or does to them what a whole \<open>push\<close> or \<open>pop\<close> does.\<close>
theorem queue_is_thread_safe:
  assumes "queue_reach n s"
  shows "\<not> q_broken s \<and> q_pushed s = q_taken s @ q_items s \<and>
    (\<forall>i j. i < length (q_at s) \<and> j < length (q_at s) \<and> holds (q_at s ! i) \<and> holds (q_at s ! j) \<longrightarrow> i = j) \<and>
    (0 < num waits s \<longrightarrow> length (q_items s) \<le> num busy s) \<and>
    (\<forall>i mv t. queue_move i mv s = Some t \<longrightarrow>
       (q_items t = q_items s \<and> q_taken t = q_taken s \<and> q_pushed t = q_pushed s) \<or>
       (\<exists>x. q_items t = queue_push x (q_items s) \<and> q_pushed t = q_pushed s @ [x] \<and> q_taken t = q_taken s) \<or>
       (\<exists>x. queue_take (q_items s) = Some (x, q_items t) \<and> q_taken t = q_taken s @ [x] \<and> q_pushed t = q_pushed s))"
proof -
  have inv: "threads_inv s" using queue_reach_inv[OF assms] .
  then have "\<not> q_broken s" "q_pushed s = q_taken s @ q_items s" "0 < num waits s \<longrightarrow> length (q_items s) \<le> num busy s"
    by (simp_all add: threads_inv_def)
  moreover have "\<forall>i j. i < length (q_at s) \<and> j < length (q_at s) \<and> holds (q_at s ! i) \<and> holds (q_at s ! j) \<longrightarrow> i = j"
    using one_holder[OF inv] by blast
  ultimately show ?thesis using move_is_atomic[OF _ inv] by blast
qed

theorem queue_is_thread_safe_witness:
  "\<exists>s :: nat queue_threads. q_at s ! 0 = Leaving (Took 7) \<and> q_taken s = [7] \<and> \<not> q_broken s \<and> q_pushed s = [7] @ q_items s"
proof -
  obtain s :: "nat queue_threads" where s: "queue_run [(0, Call_Pop Pop_Block), (0, Go), (0, Go), (1, Call_Push 7), (1, Go), (1, Go), (1, Go),
      (1, Wake 0), (0, Go), (0, Go), (0, Go), (0, Go)] (queue_new 2) = Some s" "q_at s ! 0 = Leaving (Took 7)" "q_taken s = [7]"
    using sample_hand_over by blast
  from queue_is_thread_safe[OF queue_reach_run[OF s(1) queue_reach.start]] s(2,3) show ?thesis by auto
qed

text \<open>C33: One round of the account-wide stop loss sends no order; or it took a document about the account in
  which the free bitcoin is at least 0.01 and the trading asset (the total less the free yuan) is below the
  stop, the account is in trading, and all its orders, at most 499, are market sales of exactly the free
  bitcoin of that document.\<close>
theorem freeze_orders_bounded:
  "\<exists>xs. orders (snd (freeze_round w)) = orders w @ xs \<and>
     (xs = [] \<or>
      (\<exists>doc w1 node btc_free whole cny_free.
         pop_wait ''ok_spotcny_userinfo'' w = (Inr doc, w1) \<and>
         get_data doc ''ok_spotcny_userinfo'' = Inr (Some node) \<and>
         get_value double_value_of node ''info.funds.free.btc'' = Inr (Some btc_free) \<and>
         get_value double_value_of node ''info.funds.asset.total'' = Inr (Some whole) \<and>
         get_value double_value_of node ''info.funds.free.cny'' = Inr (Some cny_free) \<and>
         status (account w) = in_trading \<and> dle one_cent btc_free \<and>
         dlt (dsub whole cny_free) (dmul (standard_asset w) (dadd (double_of_int 1) (level w))) \<and>
         length xs \<le> 499 \<and> set xs \<subseteq> order_frames ''sell_market'' [] (double_to_string btc_free)))"
proof (cases "orders (snd (freeze_round w)) = orders w")
  case False
  then obtain doc w1 b t c where "pop_wait ''ok_spotcny_userinfo'' w = (Inr doc, w1)" "funds_in doc b t c" "sale_asked w b t c"
    "sent_by (order_frames ''sell_market'' [] (double_to_string b)) 499 w (snd (freeze_round w))"
    using freeze_round_sells[of w] by blast
  then show ?thesis unfolding sent_by_def funds_in_def sale_asked_def by blast
qed simp

text \<open>C34: The account-wide stop loss marks itself as triggered only when a document that confirms an
  order was queued before the round or arrived during it.\<close>
theorem freeze_marks_confirmed:
  assumes "fst (is_worked (snd (freeze_round w))) = Inr True" "\<not> worked w"
  shows "\<exists>d. confirms ''ok_spotcny_trade'' d \<and> d \<in> avail ''ok_spotcny_trade'' w"
  using assms by (intro freeze_round_confirmed) (simp_all add: is_worked_def gets_def)

theorem freeze_marks_confirmed_witness:
  "\<exists>d. confirms ''ok_spotcny_trade'' d \<and> d \<in> avail ''ok_spotcny_trade'' frozen_bot"
  using frozen_bot_marks by (intro freeze_marks_confirmed) (simp_all add: is_worked_def gets_def)

text \<open>C35: When the account-wide stop loss has sold through the open connection, then after any sequence of
  events (messages, openings, losses, the user) it is still marked and the account is out of trading, nothing
  was sent since, and a request through \<open>Trade\<close> does nothing: the connection was closed by hand, so
  no new session begins.\<close>
theorem freeze_is_final:
  assumes "freeze_done w = (Inr (), w')"
    and "trade_s (trade w) = Some a" "pWebsocket (api w) = Some a" "sockets w a = Some ws" "is_valid ws"
  shows "worked (after_events es w') \<and> status (account (after_events es w')) = out_of_trading \<and>
    wire (after_events es w') = wire w \<and> try_emit c p m (after_events es w') = (Inr 0, after_events es w')"
proof -
  note cut = freeze_done_cuts_off[OF assms]
  have "worked w'" "status (account w') = out_of_trading" using freeze_done_effects[OF assms(1)] by simp_all
  moreover have "worked (after_events es w') = worked w'" "account (after_events es w') = account w'"
    using evolves_freeze[OF events_keep_freeze[of w' es]] by simp_all
  moreover have "cut_off (after_events es w')" "wire (after_events es w') = wire w"
    using cut_off_events[OF cut(1), of es] cut(2) by simp_all
  ultimately show ?thesis using cut_off_silent by simp
qed

theorem freeze_is_final_witness:
  "worked (after_events [Lost, Opened] (snd (freeze_done open_bot)))"
proof -
  have "freeze_done open_bot = (Inr (), snd (freeze_done open_bot))" by (rule open_bot_freezes(1))
  from freeze_is_final[OF this open_bot_freezes(2-5)] show ?thesis by blast
qed

text \<open>C36: From the start of the strategy to the end of \<open>main\<close>, in whatever order the threads and the
  events come: \<open>stop\<close> has been called exactly once when the menu is left and not before, the
  polling thread is told to end exactly when the risk thread has ended, and when \<open>main\<close> is over
  no thread runs.\<close>
theorem shutdown_is_orderly:
  assumes "okbot_reachable (okbot_started (main_strategy slots f w) input) s"
    and "length slots = PROFIT_LEN" "signal w = 0" "Stop \<notin> set (env w)"
  shows "signal (roc s) = (if main_at s = In_Menu then 0 else 1) \<and>
         inner_sig (roc s) = (if risk_thread s then 0 else 1) \<and>
         (if main_at s = Finished
          then \<not> trading_thread s \<and> \<not> risk_thread s \<and> \<not> query_thread s \<and> \<not> hThread (api (roc s))
          else main_at s = In_Menu \<longrightarrow> trading_thread s \<and> risk_thread s \<and> query_thread s)"
  using okbot_reachable_inv[OF assms(1) okbot_started_inv[OF assms(2-4)]]
  by (auto simp: okbot_inv_def)

theorem shutdown_is_orderly_witness:
  "signal (roc (okbot_started (main_strategy (replicate PROFIT_LEN dzero) 500 idle_bot) [0])) = 0"
proof -
  have "okbot_reachable (okbot_started (main_strategy (replicate PROFIT_LEN dzero) 500 idle_bot) [0])
      (okbot_started (main_strategy (replicate PROFIT_LEN dzero) 500 idle_bot) [0])"
    by (rule okbot_reachable.start)
  from shutdown_is_orderly[OF this] show ?thesis by (simp add: idle_bot_def okbot_started_def)
qed

text \<open>C37: When the program ends while the connection thread is between two sessions, \<open>Close\<close> finds no
  socket and joins nothing, and the destructor of the thread object terminates the process.\<close>
theorem shutdown_between_sessions_terminates:
  assumes "pWebsocket (api w) = None" "hThread (api w)"
  shows "fst (main_close w) = Inl Terminate"
  using assms by (rule main_close_between_sessions)

theorem shutdown_between_sessions_terminates_witness:
  "fst (main_close idle_bot) = Inl Terminate"
  by (rule shutdown_between_sessions_terminates) (simp_all add: idle_bot_def api_cn_def api_new_def SetKey_def SetUri_def)

text \<open>C38: An order through the REST client is one POST to the trade address of the site. Its body is written
  out: the amount, the key, the price, the secret key, the signature, the symbol and the type, where the
  signature is the MD5 (RFC 1321) of the fields of the order in the order of their names, followed by the secret
  key, in upper-case hexadecimal digits. When libcurl delivers a complete answer to this request, in
  whatever pieces and with or without a known length, its body is the result. The texts are not empty and hold
  no null characters, and all together have less than \<open>2 ^ 30\<close> characters.\<close>
theorem rest_trade_returns_answer:
  assumes "list_all (\<lambda>s. no_nul s \<and> s \<noteq> []) [key, secret, symbol, type, price, amount]"
    and "length key + length secret + length symbol + length type + length price + length amount < 2 ^ 30"
    and "order = ''amount='' @ amount @ ''&api_key='' @ key @ ''&price='' @ price @ ''&symbol='' @ symbol @ ''&type='' @ type"
    and "sign = map toupper (md5_PrintMD5 (rfc_md5 (bytes_of (order @ ''&secret_key='' @ secret))))"
    and "net (https_options ''https://www.okcoin.cn/api/v1/trade.do'' @
             [CURLOPT_POST 1, CURLOPT_POSTFIELDS (''amount='' @ amount @ ''&api_key='' @ key @ ''&price='' @ price @
                ''&secret_key='' @ secret @ ''&sign='' @ sign @ ''&symbol='' @ symbol @ ''&type='' @ type)]) = Some t"
    and "complete t"
  shows "DoTrade net symbol type price amount (OKCoinApiCn key secret) = Inr (cstr (concat (body_chunks t)))"
proof -
  have l: "listed HTTP_SERVER_TYPE_CN (OKCoinApiCn key secret) HTTP_API_TYPE_TRADE ''/api/v1/trade.do'' METHOD_POST"
    by (rule listed_trade)
  let ?u = "signed_request HTTP_API_TYPE_TRADE
      [(''symbol'', symbol), (''type'', type), (''price'', price), (''amount'', amount)] (OKCoinApiCn key secret)"
  have body: "cup_ToString (m_param ?u) = post_body key secret symbol type price amount"
    "no_nul (post_body key secret symbol type price amount)"
    using order_posted[OF assms(1,2) l] by (simp_all add: rest_keys)
  then have "net (request_options ?u) = Some t"
    using assms(5) unfolding signed_options[OF l] trade_address body(1)
    by (simp add: post_body_def post_fields_def assms(3,4))
  from call_complete[where net = net, OF l this assms(6) disjI2[OF refl]] show ?thesis by (simp add: DoTrade_def)
qed

theorem rest_trade_returns_answer_witness:
  "DoTrade (\<lambda>_. Some sample_transfer) ''btc_cny'' ''buy'' ''100'' ''1'' (OKCoinApiCn ''key'' ''secret'') = Inr ''{}''"
  using rest_trade_returns_answer[OF _ _ refl refl, of "''key''" "''secret''" "''btc_cny''" "''buy''" "''100''" "''1''"
      "\<lambda>_. Some sample_transfer" sample_transfer, OF _ _ refl sample_transfer_complete]
  by (simp add: sample_transfer_def no_nul_def)

text \<open>C39: The table that \<open>InitApi\<close> builds for a site has an entry for exactly the calls of that site, and the
  entry of a call is the address under the domain of the site whose path is \<open>/api/v1/\<close>, the name of the call
  in small letters and \<open>.do\<close>, over HTTPS, with GET exactly for the market data. No call is listed
  twice, and no two calls share a path.\<close>
theorem api_table_typed:
  "m_urllist (InitApi site cp_new) t =
     (if site_has site t
      then Some (uri_new\<lparr>uri_type := type_value t, protocol := HTTP_PROTOCOL_HTTPS, protoclstr := ''https://'',
        domain := (case site of HTTP_SERVER_TYPE_CN \<Rightarrow> ''www.okcoin.cn'' | HTTP_SERVER_TYPE_COM \<Rightarrow> ''www.okcoin.com''),
        uri_api := ''/api/v1/'' @ map tolower (call_name t) @ ''.do'',
        uri_method := (if market_data t then METHOD_GET else METHOD_POST)\<rparr>)
      else None) \<and>
   distinct (map fst (site_apis site)) \<and> distinct (map (\<lambda>(t, pr, a, m). a) (site_apis site))"
  using InitApi_table[of site t] by (simp add: site_apis_distinct site_paths_distinct call_path_def)

text \<open>C40: The body is copied into a buffer of the announced length and one byte more without a check:
  an answer whose first piece is longer writes outside of it.\<close>
theorem long_body_overflows:
  assumes "isfirstwirte c" "pcurl u" "curbuf u = None"
    and "content_length t = int n" "0 < n" "n + 1 < length d"
  shows "call_wirte_func t d (c, u) = Inl Undefined_Behaviour"
  using assms by (rule body_overflow)

theorem long_body_overflows_witness:
  "call_wirte_func (sample_transfer\<lparr>content_length := 1\<rparr>) ''{ } '' (CUrl_new, uri_new\<lparr>pcurl := True\<rparr>) =
     Inl Undefined_Behaviour"
  by (rule long_body_overflows[where n = 1]) (simp_all add: CUrl_new_def uri_new_def)

section \<open>Further facts\<close>

text \<open>The signals never conflict: when \<open>cross_for_down\<close> says sell, neither \<open>cross_for_up\<close> nor
  \<open>stay_for_up\<close> says buy, NaN or not.\<close>

theorem signals_never_conflict:
  assumes "cross_for_down s = Inr True"
  shows "cross_for_up s = Inr False \<and> stay_for_up s = Inr False"
  using assms by (rule signals_exclusive)

text \<open>A request through a null pointer or an invalid socket does nothing and still returns 0, the
  value of success; the branch of the callers that reports an invalid socket is not reached.\<close>

theorem unsent_request_returns_zero:
  assumes "trade_s (trade w) = None \<or>
           (\<exists>a ws. trade_s (trade w) = Some a \<and> sockets w a = Some ws \<and> \<not> is_valid ws)"
  shows "ok_spotcny_trade s t p q w = (Inr 0, w)"
  using assms try_emit_null try_emit_invalid unfolding ok_spotcny_trade_def and_then_gets by blast

text \<open>However a message is split over calls of \<open>Update\<close>, the digest is that of the whole message.\<close>

theorem md5_chunks_irrelevant:
  assumes "length buffer = 64" "\<forall>c \<in> set chunks. length c < 2 ^ 32"
  shows "m_Digest (md5_Finalize (fold md5_Update chunks (md5_Init buffer digest))) = rfc_md5 (concat chunks)"
  using assms by (rule md5_chunks_digest)

text \<open>The loops test \<open>signal != 1\<close> and the signal only grows: once \<open>stop\<close> was called twice, the
  risk control never ends, whatever happens.\<close>

theorem second_stop_disables_first:
  assumes "1 < signal w"
  shows "fst (risk_control n w) \<noteq> Inr True"
  using assms by (rule risk_control_never_ends)

text \<open>No element of the vector compares below \<open>MIN\<close> of it, NaN included, and \<open>MIN\<close> is one of
  the elements.\<close>

theorem min_is_lower_bound:
  assumes "x \<in> set vec"
  shows "\<not> dlt x (vec_MIN vec) \<and> vec_MIN vec \<in> set vec"
  using vec_MIN_lower_bound[OF assms] vec_MIN_mem[of vec] assms by (cases vec) auto

text \<open>The signature does not depend on the order in which distinct parameters are added.\<close>

theorem signature_order_irrelevant:
  assumes "distinct (map (cstr \<circ> fst) kvs)" "mset kvs = mset kvs'"
  shows "param_GetSign secret (fold (\<lambda>(k, v). param_Add k v) kvs []) =
         param_GetSign secret (fold (\<lambda>(k, v). param_Add k v) kvs' [])"
  using par.put_all_perm[OF assms] by (simp add: par.put_all_def)

text \<open>A data point older than the newest price changes none of the series, yet it is reported as
  an update of the averages, so the strategy acts on it.\<close>

theorem late_point_counts_as_update:
  assumes "ind_sound s" "abs_ind s = (ps, rs, ms)" "ms \<noteq> []" "t < fst (hd ps)"
  shows "\<exists>s'. calc_point (t, c) s = Inr (Some True, s') \<and> abs_ind s' = abs_ind s"
proof -
  have "abs_point (t, c) (abs_ind s) = (Some True, abs_ind s)"
    using late_point_updated[of ps rs ms t c] assms by (simp add: ind_sound_def)
  with calc_point_sound[OF assms(1), of "(t, c)"] show ?thesis by auto
qed

end
